(* ===== verification/Prelude.thy ===== *)
theory Prelude
  imports Main Complex_Main "HOL-Library.Finite_Map" "HOL-Library.List_Lexorder"
    "HOL-Library.Char_ord" "HOL-Library.Multiset" "HOL-Library.Signed_Division"
    "HOL-Library.Word"
begin

text \<open>
  Shared vocabulary of the development: the Go types every component uses (identifiers,
  byte slices, instants and durations), the few functions of Go's standard library the
  sources call on them, and generic lemmas about finite maps, association by key and
  lists.  Nothing here is specific to one component.

  \<^item> Strings are \<^typ>\<open>string\<close>; Go compares them bytewise, which is the lexicographic order
    of \<open>HOL-Library.List_Lexorder\<close> over \<open>HOL-Library.Char_ord\<close>.
  \<^item> An instant (\<open>time.Time\<close>) is the number of nanoseconds since the Unix epoch, a duration
    (\<open>time.Duration\<close>) a number of nanoseconds; both are unbounded integers.
  \<^item> A Go map is a finite map.  A \<open>range\<close> loop over a map visits the keys in an
    unspecified order: the loops of the model take that order as a list, and
    \<open>range_order\<close> says what an admissible order is.
\<close>

section \<open>Proof collections\<close>

named_theorems shape_simps \<open>which fields of a stored record an operation keeps\<close>
named_theorems op_defs \<open>definitions of the state-changing operations\<close>

section \<open>Go types\<close>

type_synonym id = string
type_synonym time = int
type_synonym duration = int
type_synonym bytes = "nat list option"

abbreviation millisecond :: duration where "millisecond \<equiv> 1000000"
abbreviation second :: duration where "second \<equiv> 1000000000"
abbreviation minute :: duration where "minute \<equiv> 60000000000"

text \<open>Go's zero \<open>time.Time\<close> is January 1, year 1, 00:00:00 UTC.\<close>

definition zero_time :: time where
  "zero_time = -62135596800000000000"

definition isZero :: "time \<Rightarrow> bool" where
  "isZero t \<longleftrightarrow> t = zero_time"

text \<open>
  \<open>t.Truncate(time.Millisecond)\<close> rounds down to a multiple of a millisecond since the zero
  time; the zero time is a whole number of seconds before the epoch, so that is rounding
  down to a multiple of a millisecond since the epoch.
\<close>

definition trunc_ms :: "time \<Rightarrow> time" where
  "trunc_ms t = t - t mod millisecond"

definition unixMilli :: "time \<Rightarrow> int" where
  "unixMilli t = t div millisecond"

definition unixSec :: "time \<Rightarrow> int" where
  "unixSec t = t div second"

text \<open>
  \<open>append([]byte(nil), xs...)\<close> copies a slice; copying a slice of length zero gives the nil
  slice (\<^term>\<open>None\<close>), whether or not the source was nil.
\<close>

definition clone_bytes :: "bytes \<Rightarrow> bytes" where
  "clone_bytes p = (case p of None \<Rightarrow> None | Some [] \<Rightarrow> None | Some xs \<Rightarrow> Some xs)"

text \<open>\<open>fmt.Sprintf("%d")\<close> and \<open>strconv.Itoa\<close>: decimal text of an integer.\<close>

fun show_nat :: "nat \<Rightarrow> string" where
  "show_nat n = (if n < 10 then [char_of (48 + n)]
                 else show_nat (n div 10) @ [char_of (48 + n mod 10)])"

definition show_int :: "int \<Rightarrow> string" where
  "show_int i = (if i < 0 then ''-'' @ show_nat (nat (- i)) else show_nat (nat i))"

declare show_nat.simps [simp del]

section \<open>Iteration orders of Go maps\<close>

definition range_order :: "id list \<Rightarrow> (id, 'v) fmap \<Rightarrow> bool" where
  "range_order xs m \<longleftrightarrow> distinct xs \<and> set xs = fset (fmdom m)"

text \<open>The first occurrence of every element, in order: the \<open>seen\<close> loops of the sources.\<close>

fun dedup_seen :: "'a list \<Rightarrow> 'a list \<Rightarrow> 'a list" where
  "dedup_seen seen [] = []"
| "dedup_seen seen (x # xs) =
     (if x \<in> set seen then dedup_seen seen xs else x # dedup_seen (x # seen) xs)"

section \<open>Lemmas on times\<close>

lemma trunc_ms_mod [simp]: "trunc_ms t mod millisecond = 0"
  unfolding trunc_ms_def by (simp add: minus_mod_eq_mult_div)

lemma trunc_ms_idem [simp]: "trunc_ms (trunc_ms t) = trunc_ms t"
  using trunc_ms_mod [of t] unfolding trunc_ms_def [of "trunc_ms t"] by simp

lemma trunc_ms_le: "trunc_ms t \<le> t"
  by (simp add: trunc_ms_def)

lemma trunc_ms_zero [simp]: "trunc_ms zero_time = zero_time"
  by (simp add: trunc_ms_def zero_time_def)

lemma trunc_ms_mono: "s \<le> t \<Longrightarrow> trunc_ms s \<le> trunc_ms t"
proof -
  assume "s \<le> t"
  then have "s div millisecond \<le> t div millisecond" by (rule zdiv_mono1) simp
  then show ?thesis by (simp add: trunc_ms_def minus_mod_eq_mult_div)
qed

lemma clone_bytes_idem [simp]: "clone_bytes (clone_bytes p) = clone_bytes p"
  by (auto simp: clone_bytes_def split: option.splits list.splits)

lemma clone_bytes_None [simp]: "clone_bytes None = None"
  by (simp add: clone_bytes_def)

section \<open>Lemmas on deduplication and orders\<close>

lemma dedup_seen_set: "set (dedup_seen seen xs) = set xs - set seen"
  by (induction seen xs rule: dedup_seen.induct) auto

lemma dedup_seen_distinct: "distinct (dedup_seen seen xs)"
  by (induction seen xs rule: dedup_seen.induct) (auto simp: dedup_seen_set)

lemma dedup_seen_Nil_set [simp]: "set (dedup_seen [] xs) = set xs"
  by (simp add: dedup_seen_set)

lemma range_order_in: "range_order xs m \<Longrightarrow> x \<in> set xs \<longleftrightarrow> (\<exists>v. fmlookup m x = Some v)"
  by (auto simp: range_order_def fmlookup_dom_iff)

lemma range_order_dom: "fmdom m' = fmdom m \<Longrightarrow> range_order xs m \<Longrightarrow> range_order xs m'"
  by (simp add: range_order_def)

lemma range_order_exists: "\<exists>xs. range_order xs m"
proof -
  obtain xs where "set xs = fset (fmdom m)" "distinct xs"
    using finite_distinct_list [of "fset (fmdom m)"] by auto
  then show ?thesis by (auto simp: range_order_def)
qed

end
