(* ===== verification/Task_Model.thy ===== *)
theory Task_Model
  imports Prelude
begin

text \<open>
  The data model of \<open>taskgate.go\<close>, \<open>errors.go\<close> and \<open>broker.go\<close>: the seven task
  states with their transition table, the task entity, the sentinel errors, the run-time
  options of a broker and the arguments of its operations.  The lemmas characterise the
  transition table: final states have no successor, every other state can be cancelled,
  and the reflexive-transitive closure of the table is what the storage back ends may do to
  a task.
\<close>

section \<open>Status and transitions\<close>

datatype status =
    StatusBlocked
  | StatusPending
  | StatusRunning
  | StatusRetrying
  | StatusCompleted
  | StatusFailed
  | StatusCanceled

definition allStatuses :: "status list" where
  "allStatuses =
     [StatusBlocked, StatusPending, StatusRunning, StatusRetrying,
      StatusCompleted, StatusFailed, StatusCanceled]"

definition isFinal :: "status \<Rightarrow> bool" where
  "isFinal s \<longleftrightarrow> s = StatusCompleted \<or> s = StatusFailed \<or> s = StatusCanceled"

fun legalTransitions :: "status \<Rightarrow> status list" where
  "legalTransitions StatusBlocked = [StatusPending, StatusCanceled]"
| "legalTransitions StatusPending = [StatusRunning, StatusCanceled]"
| "legalTransitions StatusRunning =
     [StatusCompleted, StatusFailed, StatusRetrying, StatusCanceled, StatusPending]"
| "legalTransitions StatusRetrying = [StatusRunning, StatusCanceled]"
| "legalTransitions _ = []"

definition canTransition :: "status \<Rightarrow> status \<Rightarrow> bool" where
  "canTransition from to \<longleftrightarrow> to \<in> set (legalTransitions from)"

fun statusText :: "status \<Rightarrow> string" where
  "statusText StatusBlocked = ''blocked''"
| "statusText StatusPending = ''pending''"
| "statusText StatusRunning = ''running''"
| "statusText StatusRetrying = ''retrying''"
| "statusText StatusCompleted = ''completed''"
| "statusText StatusFailed = ''failed''"
| "statusText StatusCanceled = ''canceled''"

section \<open>Tasks\<close>

text \<open>
  \<open>PolicyUnset\<close> is the empty string a caller may leave in the field; every back end replaces
  it by \<open>FailFast\<close> when it stores the task.
\<close>

datatype parentFailurePolicy = PolicyUnset | FailFast | IgnoreParentFail

record task =
  ID :: id
  BusinessKey :: string
  ReplayOf :: id
  Type :: string
  Queue :: string
  Payload :: bytes
  Status :: status
  Result :: bytes
  LastError :: string
  Attempts :: int
  MaxRetry :: int
  LeaseLost :: int
  Throttled :: int
  RunAt :: time
  DependsOn :: "id list"
  OnParentFailure :: parentFailurePolicy
  LeaseToken :: string
  CreatedAt :: time
  StartedAt :: time
  FinishedAt :: time

section \<open>Errors\<close>

text \<open>
  The sentinel errors of \<open>errors.go\<close> with the operands their messages carry, and the plain
  errors the back ends return for a wiring mistake.  \<open>PanicNil\<close> is a nil dereference: a
  branch that would crash the Go program.
\<close>

datatype tg_error =
    ErrTaskExists id
  | TaskExistsError string id status
  | ErrTaskNotFound id
  | ErrLeaseLost id
  | ErrTaskCanceled id
  | ErrAlreadyFinal id status
  | ErrUnknownType string
  | ErrShutdown
  | ErrNoTask
  | ErrReplayNotFinal id status
  | ErrAlreadyReplayed id
  | ErrCompletedNotAllowed id
  | ErrNotInit
  | ErrClosed
  | ErrIllegalTransition status status id
  | ErrUnknownFailKind int
  | ErrReplayOfSet
  | ErrReplayTarget
  | ErrNoQueues
  | ErrCtx string
  | ErrConfig string
  | ErrStorage string
  | PanicNil

text \<open>\<open>errors.Is(err, ErrTaskExists)\<close>: \<open>TaskExistsError\<close> unwraps to the sentinel.\<close>

definition is_ErrTaskExists :: "tg_error \<Rightarrow> bool" where
  "is_ErrTaskExists e =
     (case e of ErrTaskExists _ \<Rightarrow> True | TaskExistsError _ _ _ \<Rightarrow> True | _ \<Rightarrow> False)"

section \<open>Arguments of the broker interface\<close>

text \<open>
  \<open>BrokerOptions\<close> without the two run-time objects: the notification callback is modelled by
  the list of snapshots an operation returns, the clock by an argument of the operations.
\<close>

record brokerOptions =
  LeaseTTL :: "(string, duration) fmap"
  DefaultLeaseTTL :: duration
  LeaseLostMax :: int
  ThrottledMax :: int

datatype failKind = FailBusiness | FailThrottled | FailSkip | FailOther int

record filterSpec =
  f_Type :: string
  f_Queue :: string
  f_Status :: "status option"
  f_BusinessKey :: string
  f_Limit :: int
  f_Offset :: int

record replayRequest =
  rq_ExecutionID :: id
  rq_BusinessKey :: string
  rq_AllowCompleted :: bool
  rq_Payload :: bytes

section \<open>Lemmas on the transition table\<close>

lemma allStatuses_complete: "set allStatuses = UNIV"
proof -
  have "s \<in> set allStatuses" for s by (cases s) (simp_all add: allStatuses_def)
  then show ?thesis by blast
qed

lemma canTransition_simps [simp]:
  "canTransition StatusBlocked s \<longleftrightarrow> s = StatusPending \<or> s = StatusCanceled"
  "canTransition StatusPending s \<longleftrightarrow> s = StatusRunning \<or> s = StatusCanceled"
  "canTransition StatusRunning s \<longleftrightarrow> s = StatusCompleted \<or> s = StatusFailed \<or>
     s = StatusRetrying \<or> s = StatusCanceled \<or> s = StatusPending"
  "canTransition StatusRetrying s \<longleftrightarrow> s = StatusRunning \<or> s = StatusCanceled"
  "\<not> canTransition StatusCompleted s"
  "\<not> canTransition StatusFailed s"
  "\<not> canTransition StatusCanceled s"
  by (auto simp: canTransition_def)

lemma isFinal_simps [simp]:
  "isFinal StatusCompleted" "isFinal StatusFailed" "isFinal StatusCanceled"
  "\<not> isFinal StatusBlocked" "\<not> isFinal StatusPending" "\<not> isFinal StatusRunning"
  "\<not> isFinal StatusRetrying"
  by (simp_all add: isFinal_def)

lemma isFinal_iff_stuck: "isFinal s \<longleftrightarrow> (\<forall>s'. \<not> canTransition s s')"
  by (cases s) auto

lemma nonfinal_can_cancel: "\<not> isFinal s \<Longrightarrow> canTransition s StatusCanceled"
  by (cases s) auto

text \<open>What a sequence of legal transitions can do to a status.\<close>

abbreviation legalPath :: "status \<Rightarrow> status \<Rightarrow> bool" where
  "legalPath \<equiv> canTransition\<^sup>*\<^sup>*"

lemma legalPath_final: "legalPath s s' \<Longrightarrow> isFinal s \<Longrightarrow> s' = s"
  by (induction rule: converse_rtranclp_induct) (auto simp: isFinal_iff_stuck)

lemma legalPath_never_blocked: "legalPath s StatusBlocked \<Longrightarrow> s = StatusBlocked"
proof (induction rule: converse_rtranclp_induct)
  case (step y z)
  then show ?case by (cases y) auto
qed simp

end
