(* ===== verification/Deps.thy ===== *)
theory Deps
  imports Task_Model
begin

text \<open>
  The pure decision layer of \<open>deps.go\<close>, which every back end calls inside its critical
  section: the initial state of a submitted task with parents, and what a parent's final
  state does to one child.  The lemmas give the decisions in closed form over the set of
  parents (duplicates collapse, order only selects the reported parent) and relate the two
  functions: repeatedly applying the second reproduces the first.
\<close>

section \<open>Decision functions\<close>

record parentState =
  ps_ID :: id
  ps_Status :: status

record submitDecision =
  d_Status :: status
  d_PendingParents :: int
  d_LastError :: string

definition ParentFailureReason :: "id \<Rightarrow> status \<Rightarrow> string" where
  "ParentFailureReason parentID parentStatus =
     (case parentStatus of
        StatusCanceled \<Rightarrow> ''parent '' @ parentID @ '' canceled''
      | _ \<Rightarrow> ''parent '' @ parentID @ '' failed'')"

text \<open>The loop of \<open>DecideOnSubmit\<close>: \<open>seen\<close> and \<open>notFinal\<close> are its local variables.\<close>

fun decideOnSubmit_loop ::
  "parentFailurePolicy \<Rightarrow> id list \<Rightarrow> int \<Rightarrow> parentState list \<Rightarrow> submitDecision" where
  "decideOnSubmit_loop policy seen notFinal [] =
     (if notFinal > 0
      then \<lparr>d_Status = StatusBlocked, d_PendingParents = notFinal, d_LastError = ''''\<rparr>
      else \<lparr>d_Status = StatusPending, d_PendingParents = 0, d_LastError = ''''\<rparr>)"
| "decideOnSubmit_loop policy seen notFinal (p # ps) =
     (if ps_ID p \<in> set seen then decideOnSubmit_loop policy seen notFinal ps
      else if ps_Status p = StatusFailed \<or> ps_Status p = StatusCanceled then
        (if policy \<noteq> IgnoreParentFail
         then \<lparr>d_Status = StatusCanceled, d_PendingParents = 0,
               d_LastError = ParentFailureReason (ps_ID p) (ps_Status p)\<rparr>
         else decideOnSubmit_loop policy (ps_ID p # seen) notFinal ps)
      else if \<not> isFinal (ps_Status p)
        then decideOnSubmit_loop policy (ps_ID p # seen) (notFinal + 1) ps
      else decideOnSubmit_loop policy (ps_ID p # seen) notFinal ps)"

definition DecideOnSubmit :: "parentState list \<Rightarrow> parentFailurePolicy \<Rightarrow> submitDecision" where
  "DecideOnSubmit parents policy = decideOnSubmit_loop policy [] 0 parents"

datatype childAction = ChildNone | ChildWake | ChildCancel

definition DecideOnParentFinal ::
  "status \<Rightarrow> status \<Rightarrow> parentFailurePolicy \<Rightarrow> int \<Rightarrow> int \<times> childAction" where
  "DecideOnParentFinal parentStatus childStatus policy pendingParents =
     (if isFinal childStatus then (pendingParents, ChildNone)
      else if \<not> isFinal parentStatus then (pendingParents, ChildNone)
      else
        let satisfied = (parentStatus = StatusCompleted \<or> policy = IgnoreParentFail) in
        if \<not> satisfied then (pendingParents, ChildCancel)
        else
          let pp = (if pendingParents > 0 then pendingParents - 1 else pendingParents) in
          if pp = 0 \<and> childStatus = StatusBlocked then (0, ChildWake)
          else (pp, ChildNone))"

section \<open>Closed form of the submit decision\<close>

text \<open>
  Every parent list the back ends build reads the statuses from one store; \<open>coherent\<close>
  states it for a store \<open>f\<close>.
\<close>

definition coherent :: "(id \<Rightarrow> status) \<Rightarrow> parentState list \<Rightarrow> bool" where
  "coherent f ps \<longleftrightarrow> (\<forall>p \<in> set ps. ps_Status p = f (ps_ID p))"

definition badParent :: "parentState \<Rightarrow> bool" where
  "badParent p \<longleftrightarrow> ps_Status p = StatusFailed \<or> ps_Status p = StatusCanceled"

definition unfinished :: "parentState list \<Rightarrow> id set" where
  "unfinished ps = ps_ID ` {p \<in> set ps. \<not> isFinal (ps_Status p)}"

lemma finite_unfinished [simp]: "finite (unfinished ps)"
  by (simp add: unfinished_def)

lemma badParent_final: "badParent p \<Longrightarrow> isFinal (ps_Status p)"
  by (auto simp: badParent_def)

lemma coherent_Cons: "coherent f (p # ps) \<Longrightarrow> coherent f ps"
  by (simp add: coherent_def)

lemma unfinished_Cons:
  "unfinished (p # ps) =
     (if isFinal (ps_Status p) then unfinished ps else insert (ps_ID p) (unfinished ps))"
  by (auto simp: unfinished_def)

lemma decide_loop_status:
  assumes "coherent f ps" and "0 \<le> n"
    and "\<And>p. p \<in> set ps \<Longrightarrow> ps_ID p \<in> set seen \<Longrightarrow> policy = IgnoreParentFail \<or> \<not> badParent p"
  shows "d_Status (decideOnSubmit_loop policy seen n ps) =
    (if policy \<noteq> IgnoreParentFail \<and> (\<exists>p \<in> set ps. badParent p) then StatusCanceled
     else if 0 < n \<or> unfinished ps - set seen \<noteq> {} then StatusBlocked else StatusPending)"
  using assms
proof (induction ps arbitrary: seen n)
  case Nil
  then show ?case by (simp add: unfinished_def)
next
  case (Cons p ps)
  have coh: "coherent f ps" using Cons.prems(1) by (rule coherent_Cons)
  have same: "ps_Status q = ps_Status p" if "q \<in> set ps" "ps_ID q = ps_ID p" for q
    using Cons.prems(1) that by (simp add: coherent_def)
  consider (seen) "ps_ID p \<in> set seen"
    | (stop) "ps_ID p \<notin> set seen" "badParent p" "policy \<noteq> IgnoreParentFail"
    | (skip) "ps_ID p \<notin> set seen" "isFinal (ps_Status p)"
        "badParent p \<longrightarrow> policy = IgnoreParentFail"
    | (count) "ps_ID p \<notin> set seen" "\<not> isFinal (ps_Status p)"
    by (cases "ps_Status p") (auto simp: badParent_def)
  then show ?case
  proof cases
    case seen
    have IH: "d_Status (decideOnSubmit_loop policy seen n ps) =
      (if policy \<noteq> IgnoreParentFail \<and> (\<exists>p \<in> set ps. badParent p) then StatusCanceled
       else if 0 < n \<or> unfinished ps - set seen \<noteq> {} then StatusBlocked else StatusPending)"
      using Cons.prems(2,3) by (intro Cons.IH coh) auto
    have "policy = IgnoreParentFail \<or> \<not> badParent p" using Cons.prems(3) seen by auto
    moreover have "unfinished (p # ps) - set seen = unfinished ps - set seen"
      using seen by (auto simp: unfinished_Cons)
    ultimately show ?thesis using IH seen by auto
  next
    case stop
    then show ?thesis by (auto simp: badParent_def)
  next
    case skip
    have IH: "d_Status (decideOnSubmit_loop policy (ps_ID p # seen) n ps) =
      (if policy \<noteq> IgnoreParentFail \<and> (\<exists>p \<in> set ps. badParent p) then StatusCanceled
       else if 0 < n \<or> unfinished ps - set (ps_ID p # seen) \<noteq> {} then StatusBlocked
       else StatusPending)"
      using Cons.prems skip(3) by (intro Cons.IH coh) (auto simp: badParent_def coherent_def)
    have "ps_ID p \<notin> unfinished ps"
      using skip(2) same by (auto simp: unfinished_def)
    then have unf: "unfinished (p # ps) - set seen = unfinished ps - set (ps_ID p # seen)"
      using skip(2) by (auto simp: unfinished_Cons)
    have "decideOnSubmit_loop policy seen n (p # ps) =
        decideOnSubmit_loop policy (ps_ID p # seen) n ps"
      using skip by (simp add: badParent_def)
    moreover have "(policy \<noteq> IgnoreParentFail \<and> (\<exists>x \<in> set (p # ps). badParent x)) =
        (policy \<noteq> IgnoreParentFail \<and> (\<exists>x \<in> set ps. badParent x))"
      using skip(3) by auto
    ultimately show ?thesis by (simp only: IH unf)
  next
    case count
    have IH: "d_Status (decideOnSubmit_loop policy (ps_ID p # seen) (n + 1) ps) =
      (if policy \<noteq> IgnoreParentFail \<and> (\<exists>p \<in> set ps. badParent p) then StatusCanceled
       else if 0 < n + 1 \<or> unfinished ps - set (ps_ID p # seen) \<noteq> {} then StatusBlocked
       else StatusPending)"
      using Cons.prems count(2)
      by (intro Cons.IH coh) (auto simp: badParent_def isFinal_def coherent_def)
    show ?thesis
      using IH count Cons.prems(2)
      by (auto simp: badParent_def unfinished_Cons isFinal_def)
  qed
qed

lemma decide_loop_pending:
  assumes "coherent f ps" and "0 \<le> n"
    and "d_Status (decideOnSubmit_loop policy seen n ps) \<noteq> StatusCanceled"
  shows "d_PendingParents (decideOnSubmit_loop policy seen n ps) =
    n + int (card (unfinished ps - set seen))"
  using assms
proof (induction ps arbitrary: seen n)
  case Nil
  then show ?case by (simp add: unfinished_def split: if_splits)
next
  case (Cons p ps)
  have coh: "coherent f ps" using Cons.prems(1) by (rule coherent_Cons)
  have same: "ps_Status q = ps_Status p" if "q \<in> set ps" "ps_ID q = ps_ID p" for q
    using Cons.prems(1) that by (simp add: coherent_def)
  consider (seen) "ps_ID p \<in> set seen"
    | (skip) "ps_ID p \<notin> set seen" "isFinal (ps_Status p)"
    | (count) "ps_ID p \<notin> set seen" "\<not> isFinal (ps_Status p)"
    by blast
  then show ?case
  proof cases
    case seen
    then have "unfinished (p # ps) - set seen = unfinished ps - set seen"
      by (auto simp: unfinished_Cons)
    then show ?thesis using Cons.IH [OF coh Cons.prems(2)] Cons.prems(3) seen by simp
  next
    case skip
    then have "ps_ID p \<notin> unfinished ps" using same by (auto simp: unfinished_def)
    then have "unfinished (p # ps) - set seen = unfinished ps - set (ps_ID p # seen)"
      using skip(2) by (auto simp: unfinished_Cons)
    then show ?thesis using Cons.IH [OF coh Cons.prems(2)] Cons.prems(3) skip
      by (auto simp: badParent_def split: if_splits)
  next
    case count
    then have "unfinished (p # ps) - set seen =
        insert (ps_ID p) (unfinished ps - set (ps_ID p # seen))"
      by (auto simp: unfinished_Cons)
    then have "card (unfinished (p # ps) - set seen) =
        Suc (card (unfinished ps - set (ps_ID p # seen)))"
      by simp
    then show ?thesis using Cons.IH [OF coh, of "n + 1"] Cons.prems(2,3) count
      by (auto simp: isFinal_def split: if_splits)
  qed
qed

lemma DecideOnSubmit_status:
  assumes "coherent f ps"
  shows "d_Status (DecideOnSubmit ps policy) =
    (if policy \<noteq> IgnoreParentFail \<and> (\<exists>p \<in> set ps. badParent p) then StatusCanceled
     else if unfinished ps \<noteq> {} then StatusBlocked else StatusPending)"
  using decide_loop_status [OF assms, of 0 "[]" policy] by (simp add: DecideOnSubmit_def)

lemma DecideOnSubmit_pending:
  assumes "coherent f ps" and "d_Status (DecideOnSubmit ps policy) \<noteq> StatusCanceled"
  shows "d_PendingParents (DecideOnSubmit ps policy) = int (card (unfinished ps))"
  using decide_loop_pending [OF assms(1), of 0 policy "[]"] assms(2)
  by (simp add: DecideOnSubmit_def)

lemma DecideOnSubmit_range:
  "d_Status (DecideOnSubmit ps policy) \<in> {StatusPending, StatusBlocked, StatusCanceled}"
proof -
  have "d_Status (decideOnSubmit_loop policy seen n ps)
      \<in> {StatusPending, StatusBlocked, StatusCanceled}" for seen n
    by (induction ps arbitrary: seen n) auto
  then show ?thesis by (simp add: DecideOnSubmit_def)
qed

section \<open>Cases of the parent-final decision\<close>

lemma parentFinal_child_final [simp]:
  "isFinal c \<Longrightarrow> DecideOnParentFinal p c policy n = (n, ChildNone)"
  by (simp add: DecideOnParentFinal_def)

lemma parentFinal_cancel:
  "isFinal p \<Longrightarrow> p \<noteq> StatusCompleted \<Longrightarrow> policy \<noteq> IgnoreParentFail \<Longrightarrow> \<not> isFinal c \<Longrightarrow>
   DecideOnParentFinal p c policy n = (n, ChildCancel)"
  by (simp add: DecideOnParentFinal_def)

lemma parentFinal_satisfied:
  "isFinal p \<Longrightarrow> p = StatusCompleted \<or> policy = IgnoreParentFail \<Longrightarrow> 0 < n \<Longrightarrow>
   DecideOnParentFinal p StatusBlocked policy n =
     (n - 1, if n = 1 then ChildWake else ChildNone)"
  by (auto simp: DecideOnParentFinal_def Let_def)

lemma parentFinal_nonneg:
  "0 \<le> n \<Longrightarrow> DecideOnParentFinal p c policy n = (n', a) \<Longrightarrow> 0 \<le> n' \<and> n' \<le> n"
  by (auto simp: DecideOnParentFinal_def Let_def split: if_splits)

end
