(* ===== verification/Memory_Broker.thy ===== *)
theory Memory_Broker
  imports Deps
begin

text \<open>
  The in-memory broker of \<open>memorybroker/broker.go\<close>, the reference implementation of the
  storage interface.  Every public method holds one mutex for its whole body, so a method is
  one atomic state transformer here.  An operation returns the new broker, the snapshots it
  hands to the notification callback, and its result (an error or a value); an error can
  leave the broker changed, as it does in the source.

  \<^item> \<open>now\<close> is what the injected clock reads, \<open>fresh\<close> the string \<open>ulid.Make\<close> returns.
  \<^item> A pointer to a stored record is the key it is stored under.
  \<^item> \<open>wakes\<close> counts the calls of \<open>cond.Broadcast\<close>, the signal that makes a blocked
    \<open>Dequeue\<close> look again.
  \<^item> \<open>xs\<close> is the order in which a \<open>range\<close> loop visits the map of records.
\<close>

section \<open>State\<close>

record mrec =
  task :: task
  pendingParents :: int
  leaseUntil :: time
  cancelRequested :: bool
  children :: "id list"

type_synonym store = "(id, mrec) fmap"

record mbroker =
  opts :: brokerOptions
  recs :: store
  chains :: "(string, id list) fmap"
  replayed :: "(id, bool) fmap"
  quota :: "(string, (int, int) fmap) fmap"
  inited :: bool
  closed :: bool
  wakes :: nat

type_synonym 'a mresult = "mbroker \<times> task list \<times> (tg_error + 'a)"

definition mem_New :: mbroker where
  "mem_New = \<lparr>opts = \<lparr>LeaseTTL = fmempty, DefaultLeaseTTL = 0, LeaseLostMax = 0, ThrottledMax = 0\<rparr>,
     recs = fmempty, chains = fmempty, replayed = fmempty, quota = fmempty,
     inited = False, closed = False, wakes = 0\<rparr>"

definition mem_Init :: "brokerOptions \<Rightarrow> mbroker \<Rightarrow> mbroker" where
  "mem_Init o0 b =
     (let o1 = (if DefaultLeaseTTL o0 \<le> 0 then o0\<lparr>DefaultLeaseTTL := 60 * second\<rparr> else o0);
          o2 = (if LeaseLostMax o1 \<le> 0 then o1\<lparr>LeaseLostMax := 3\<rparr> else o1);
          o3 = (if ThrottledMax o2 \<le> 0 then o2\<lparr>ThrottledMax := 100\<rparr> else o2)
      in b\<lparr>opts := o3, inited := True\<rparr>)"

definition mem_ttlFor :: "mbroker \<Rightarrow> string \<Rightarrow> duration" where
  "mem_ttlFor b q =
     (case fmlookup (LeaseTTL (opts b)) q of
        Some d \<Rightarrow> if d > 0 then d else DefaultLeaseTTL (opts b)
      | None \<Rightarrow> DefaultLeaseTTL (opts b))"

definition cloneTask :: "task \<Rightarrow> task" where
  "cloneTask t = t\<lparr>Payload := clone_bytes (Payload t), Result := clone_bytes (Result t)\<rparr>"

definition mem_setStatus :: "mrec \<Rightarrow> status \<Rightarrow> tg_error + mrec" where
  "mem_setStatus r to =
     (let from = Status (task r) in
      if \<not> canTransition from to then Inl (ErrIllegalTransition from to (ID (task r)))
      else Inr (r\<lparr>task := (task r)\<lparr>Status := to\<rparr>\<rparr>))"

definition mem_clearLease :: "mrec \<Rightarrow> mrec" where
  "mem_clearLease r = r\<lparr>task := (task r)\<lparr>LeaseToken := ''''\<rparr>, leaseUntil := zero_time\<rparr>"

definition mem_checkLease :: "mbroker \<Rightarrow> id \<Rightarrow> string \<Rightarrow> tg_error + mrec" where
  "mem_checkLease b i token =
     (case fmlookup (recs b) i of
        None \<Rightarrow> Inl (ErrTaskNotFound i)
      | Some r \<Rightarrow>
          if Status (task r) \<noteq> StatusRunning \<or> token = '''' \<or> LeaseToken (task r) \<noteq> token
          then Inl (ErrLeaseLost i) else Inr r)"

definition mem_requireInit :: "mbroker \<Rightarrow> tg_error option" where
  "mem_requireInit b =
     (if \<not> inited b then Some ErrNotInit else if closed b then Some ErrClosed else None)"

definition mem_broadcast :: "mbroker \<Rightarrow> mbroker" where
  "mem_broadcast b = b\<lparr>wakes := Suc (wakes b)\<rparr>"

definition put_rec :: "id \<Rightarrow> mrec \<Rightarrow> mbroker \<Rightarrow> mbroker" where
  "put_rec i r b = b\<lparr>recs := fmupd i r (recs b)\<rparr>"

section \<open>Dependency propagation\<close>

text \<open>
  The body of the inner loop of \<open>propagateFinal\<close>: child \<open>cid\<close> of the finished task \<open>p\<close>.
  The state is the store, the snapshots collected so far and the work queue.
\<close>

definition propagate_child ::
  "time \<Rightarrow> id \<Rightarrow> id \<Rightarrow> store \<times> task list \<times> id list \<Rightarrow> store \<times> task list \<times> id list" where
  "propagate_child now p cid s =
     (case s of (m, notifs, work) \<Rightarrow>
      (case (fmlookup m p, fmlookup m cid) of
         (Some pr, Some c) \<Rightarrow>
           (case DecideOnParentFinal (Status (task pr)) (Status (task c))
                   (OnParentFailure (task c)) (pendingParents c) of
              (newPending, action) \<Rightarrow>
                let c1 = c\<lparr>pendingParents := newPending\<rparr> in
                (case action of
                   ChildWake \<Rightarrow>
                     (case mem_setStatus c1 StatusPending of
                        Inr c2 \<Rightarrow> (fmupd cid c2 m, notifs @ [cloneTask (task c2)], work)
                      | Inl _ \<Rightarrow> (fmupd cid c1 m, notifs, work))
                 | ChildCancel \<Rightarrow>
                     if Status (task c1) = StatusRunning
                     then (fmupd cid (c1\<lparr>cancelRequested := True\<rparr>) m, notifs, work)
                     else
                       (case mem_setStatus c1 StatusCanceled of
                          Inr c2 \<Rightarrow>
                            let c3 = mem_clearLease (c2\<lparr>task := (task c2)\<lparr>
                                  LastError := ParentFailureReason (ID (task pr)) (Status (task pr)),
                                  FinishedAt := now\<rparr>\<rparr>)
                            in (fmupd cid c3 m, notifs @ [cloneTask (task c3)], work @ [cid])
                        | Inl _ \<Rightarrow> (fmupd cid c1 m, notifs, work))
                 | ChildNone \<Rightarrow> (fmupd cid c1 m, notifs, work)))
       | _ \<Rightarrow> (m, notifs, work)))"

definition propagate_children ::
  "time \<Rightarrow> id \<Rightarrow> store \<times> task list \<times> id list \<Rightarrow> store \<times> task list \<times> id list" where
  "propagate_children now p s =
     (case fmlookup (fst s) p of
        None \<Rightarrow> s
      | Some pr \<Rightarrow> fold (propagate_child now p) (children pr) s)"

text \<open>
  The work queue terminates because every child that is queued leaves a non-final state for
  good: the number of non-final records plus the length of the queue decreases.
\<close>

definition nonfinal_keys :: "store \<Rightarrow> id fset" where
  "nonfinal_keys m = ffilter (\<lambda>k. \<not> isFinal (Status (task (the (fmlookup m k))))) (fmdom m)"

definition nonfinal_count :: "store \<Rightarrow> nat" where
  "nonfinal_count m = fcard (nonfinal_keys m)"

lemma nonfinal_count_upd_same:
  assumes "fmlookup m k = Some r" and "isFinal (Status (task r')) = isFinal (Status (task r))"
  shows "nonfinal_count (fmupd k r' m) = nonfinal_count m"
proof -
  have "k |\<in>| fmdom m" using assms(1) by (rule fmdomI)
  then have "nonfinal_keys (fmupd k r' m) = nonfinal_keys m"
    using assms by (auto simp: nonfinal_keys_def)
  then show ?thesis by (simp add: nonfinal_count_def)
qed

lemma nonfinal_count_upd_final:
  assumes "fmlookup m k = Some r" and "\<not> isFinal (Status (task r))"
    and "isFinal (Status (task r'))"
  shows "Suc (nonfinal_count (fmupd k r' m)) = nonfinal_count m"
proof -
  have k: "k |\<in>| nonfinal_keys m" using assms(1,2) by (auto simp: nonfinal_keys_def fmdomI)
  have "nonfinal_keys (fmupd k r' m) = nonfinal_keys m |-| {|k|}"
    using assms by (auto simp: nonfinal_keys_def split: if_splits)
  then show ?thesis using fcard_Suc_fminus1 [OF k] by (simp add: nonfinal_count_def)
qed

lemma fmupd_same: "fmlookup m k = Some v \<Longrightarrow> fmupd k v m = m"
  by (rule fmap_ext) auto

text \<open>What one visit of a child can do, as a case rule for the proofs below.\<close>

definition canceled_child :: "time \<Rightarrow> mrec \<Rightarrow> mrec \<Rightarrow> mrec" where
  "canceled_child now pr c = c\<lparr>task := (task c)\<lparr>Status := StatusCanceled,
     LastError := ParentFailureReason (ID (task pr)) (Status (task pr)),
     FinishedAt := now, LeaseToken := ''''\<rparr>, leaseUntil := zero_time\<rparr>"

definition satisfied_by :: "mrec \<Rightarrow> mrec \<Rightarrow> bool" where
  "satisfied_by pr c \<longleftrightarrow>
     Status (task pr) = StatusCompleted \<or> OnParentFailure (task c) = IgnoreParentFail"

lemma propagate_child_missing:
  "fmlookup m p = None \<or> fmlookup m cid = None \<Longrightarrow>
   propagate_child now p cid (m, ns, work) = (m, ns, work)"
  by (auto simp: propagate_child_def split: option.splits)

lemma propagate_child_cases:
  assumes pr: "fmlookup m p = Some pr" and c: "fmlookup m cid = Some c"
  obtains (skip) "isFinal (Status (task c)) \<or> \<not> isFinal (Status (task pr))"
      "propagate_child now p cid (m, ns, work) = (m, ns, work)"
  | (wake) c' where "isFinal (Status (task pr))" "satisfied_by pr c"
      "Status (task c) = StatusBlocked" "pendingParents c = 1 \<or> pendingParents c = 0"
      "c' = c\<lparr>pendingParents := 0, task := (task c)\<lparr>Status := StatusPending\<rparr>\<rparr>"
      "propagate_child now p cid (m, ns, work) = (fmupd cid c' m, ns @ [cloneTask (task c')], work)"
  | (count) n where "isFinal (Status (task pr))" "satisfied_by pr c" "\<not> isFinal (Status (task c))"
      "n = (if pendingParents c > 0 then pendingParents c - 1 else pendingParents c)"
      "n \<noteq> 0 \<or> Status (task c) \<noteq> StatusBlocked"
      "propagate_child now p cid (m, ns, work) = (fmupd cid (c\<lparr>pendingParents := n\<rparr>) m, ns, work)"
  | (flag) "isFinal (Status (task pr))" "\<not> satisfied_by pr c" "Status (task c) = StatusRunning"
      "propagate_child now p cid (m, ns, work) = (fmupd cid (c\<lparr>cancelRequested := True\<rparr>) m, ns, work)"
  | (cancel) c' where "isFinal (Status (task pr))" "\<not> satisfied_by pr c"
      "\<not> isFinal (Status (task c))" "Status (task c) \<noteq> StatusRunning"
      "c' = canceled_child now pr c"
      "propagate_child now p cid (m, ns, work) =
         (fmupd cid c' m, ns @ [cloneTask (task c')], work @ [cid])"
proof -
  note simps = propagate_child_def DecideOnParentFinal_def mem_setStatus_def mem_clearLease_def
    canceled_child_def satisfied_by_def Let_def pr c
  consider (1) "isFinal (Status (task c)) \<or> \<not> isFinal (Status (task pr))"
    | (2) "\<not> isFinal (Status (task c))" "isFinal (Status (task pr))" "satisfied_by pr c"
    | (3) "\<not> isFinal (Status (task c))" "isFinal (Status (task pr))" "\<not> satisfied_by pr c"
    by blast
  then show thesis
  proof cases
    case 1
    then have "DecideOnParentFinal (Status (task pr)) (Status (task c)) (OnParentFailure (task c))
        (pendingParents c) = (pendingParents c, ChildNone)"
      by (auto simp: DecideOnParentFinal_def)
    then have "propagate_child now p cid (m, ns, work) = (m, ns, work)"
      by (simp add: propagate_child_def pr c fmupd_same)
    with 1 show thesis by (rule skip)
  next
    case 2
    let ?n = "if pendingParents c > 0 then pendingParents c - 1 else pendingParents c"
    show thesis
    proof (cases "?n = 0 \<and> Status (task c) = StatusBlocked")
      case True
      then show thesis using 2 by (intro wake) (auto simp: simps split: if_splits)
    next
      case False
      then show thesis using 2 by (intro count) (auto simp: simps split: if_splits)
    qed
  next
    case 3
    show thesis
    proof (cases "Status (task c) = StatusRunning")
      case True
      then show thesis using 3 by (intro flag) (auto simp: simps)
    next
      case False
      then show thesis using 3 nonfinal_can_cancel [OF 3(1)] by (intro cancel) (auto simp: simps)
    qed
  qed
qed

lemma propagate_child_measure:
  assumes "propagate_child now p cid (m, ns, work) = (m', ns', work')"
  shows "nonfinal_count m' + length work' \<le> nonfinal_count m + length work"
proof (cases "fmlookup m p = None \<or> fmlookup m cid = None")
  case True
  then show ?thesis using assms by (simp add: propagate_child_missing)
next
  case False
  then obtain pr c where pr: "fmlookup m p = Some pr" and c: "fmlookup m cid = Some c" by auto
  from pr c show ?thesis
  proof (cases rule: propagate_child_cases [where now = now and ns = ns and work = work])
    case (cancel c')
    have "isFinal (Status (task c'))" using cancel(5) by (simp add: canceled_child_def)
    then show ?thesis
      using assms cancel(6) nonfinal_count_upd_final [OF c cancel(3), of c'] by auto
  qed (use assms nonfinal_count_upd_same [OF c] in simp_all)
qed

lemma propagate_children_measure:
  assumes "propagate_children now p (m, ns, work) = (m', ns', work')"
  shows "nonfinal_count m' + length work' \<le> nonfinal_count m + length work"
proof -
  have "fold (propagate_child now p) cs (m, ns, work) = (m', ns', work') \<Longrightarrow>
      nonfinal_count m' + length work' \<le> nonfinal_count m + length work" for cs
  proof (induction cs arbitrary: m ns work)
    case (Cons c cs)
    obtain m1 ns1 work1 where one: "propagate_child now p c (m, ns, work) = (m1, ns1, work1)"
      by (cases "propagate_child now p c (m, ns, work)")
    show ?case
      using Cons.IH [of m1 ns1 work1] Cons.prems propagate_child_measure [OF one] one by simp
  qed simp
  then show ?thesis using assms
    by (auto simp: propagate_children_def split: option.splits)
qed

function propagateFinal_loop :: "time \<Rightarrow> id list \<Rightarrow> store \<Rightarrow> task list \<Rightarrow> store \<times> task list" where
  "propagateFinal_loop now [] m notifs = (m, notifs)"
| "propagateFinal_loop now (p # work) m notifs =
     (case propagate_children now p (m, notifs, work) of
        (m', notifs', work') \<Rightarrow> propagateFinal_loop now work' m' notifs')"
  by pat_completeness auto
termination
  by (relation "measure (\<lambda>(now, work, m, notifs). nonfinal_count m + length work)")
    (auto dest!: propagate_children_measure [OF sym])

definition mem_propagateFinal ::
  "id \<Rightarrow> time \<Rightarrow> store \<Rightarrow> task list \<Rightarrow> store \<times> task list" where
  "mem_propagateFinal start now m notifs = propagateFinal_loop now [start] m notifs"

section \<open>Enqueue\<close>

fun mem_parents :: "store \<Rightarrow> id list \<Rightarrow> tg_error + parentState list" where
  "mem_parents m [] = Inr []"
| "mem_parents m (pid # ps) =
     (case fmlookup m pid of
        None \<Rightarrow> Inl (ErrTaskNotFound pid)
      | Some p \<Rightarrow>
          (case mem_parents m ps of
             Inl e \<Rightarrow> Inl e
           | Inr sts \<Rightarrow> Inr (\<lparr>ps_ID = pid, ps_Status = Status (task p)\<rparr> # sts)))"

definition add_child :: "id \<Rightarrow> id \<Rightarrow> store \<Rightarrow> store" where
  "add_child i p m =
     (case fmlookup m p of
        None \<Rightarrow> m
      | Some r \<Rightarrow> fmupd p (r\<lparr>children := children r @ [i]\<rparr>) m)"

definition chain_of :: "mbroker \<Rightarrow> string \<Rightarrow> id list" where
  "chain_of b key = (case fmlookup (chains b) key of None \<Rightarrow> [] | Some c \<Rightarrow> c)"

definition push_chain :: "string \<Rightarrow> id \<Rightarrow> mbroker \<Rightarrow> mbroker" where
  "push_chain key i b =
     (if key = '''' then b else b\<lparr>chains := fmupd key (chain_of b key @ [i]) (chains b)\<rparr>)"

text \<open>The record \<open>Enqueue\<close> stores for the task \<open>t\<close> once all checks have passed.\<close>

definition enqueue_rec :: "id \<Rightarrow> time \<Rightarrow> task \<Rightarrow> parentFailurePolicy \<Rightarrow> submitDecision \<Rightarrow> mrec" where
  "enqueue_rec i now t policy dec =
     (let t0 = (cloneTask t)\<lparr>ID := i, Status := d_Status dec, OnParentFailure := policy,
                 CreatedAt := now, RunAt := trunc_ms (RunAt t), StartedAt := trunc_ms (StartedAt t),
                 FinishedAt := trunc_ms (FinishedAt t)\<rparr>;
          t1 = (if isZero (RunAt t0) then t0\<lparr>RunAt := now\<rparr> else t0)\<lparr>LeaseToken := ''''\<rparr>;
          t2 = (if d_Status dec = StatusCanceled
                then t1\<lparr>LastError := d_LastError dec, FinishedAt := now\<rparr> else t1)
      in \<lparr>task = t2, pendingParents = d_PendingParents dec, leaseUntil = zero_time,
          cancelRequested = False, children = []\<rparr>)"

definition enqueue_insert :: "id \<Rightarrow> time \<Rightarrow> task \<Rightarrow> parentState list \<Rightarrow> mbroker \<Rightarrow> task mresult" where
  "enqueue_insert i now t parents b =
     (let policy = (if OnParentFailure t = PolicyUnset then FailFast else OnParentFailure t);
          r = enqueue_rec i now t policy (DecideOnSubmit parents policy);
          b1 = put_rec i r b;
          b2 = push_chain (BusinessKey (task r)) i b1;
          b3 = b2\<lparr>recs := fold (add_child i) (dedup_seen [] (map ps_ID parents)) (recs b2)\<rparr>
      in (mem_broadcast b3, [cloneTask (task r)], Inr (cloneTask (task r))))"

definition mem_Enqueue :: "id \<Rightarrow> time \<Rightarrow> task \<Rightarrow> mbroker \<Rightarrow> task mresult" where
  "mem_Enqueue fresh clk t b =
     (case mem_requireInit b of
        Some e \<Rightarrow> (b, [], Inl e)
      | None \<Rightarrow>
      if ReplayOf t \<noteq> '''' then (b, [], Inl ErrReplayOfSet)
      else if BusinessKey t \<noteq> '''' \<and> chain_of b (BusinessKey t) \<noteq> [] then
        (case fmlookup (recs b) (last (chain_of b (BusinessKey t))) of
           None \<Rightarrow> (b, [], Inl PanicNil)
         | Some tail \<Rightarrow>
             (b, [], Inl (TaskExistsError (BusinessKey t) (ID (task tail)) (Status (task tail)))))
      else if ID t \<noteq> '''' \<and> fmlookup (recs b) (ID t) \<noteq> None then (b, [], Inl (ErrTaskExists (ID t)))
      else
        let i = (if ID t \<noteq> '''' then ID t else fresh);
            now = trunc_ms clk
        in (case mem_parents (recs b) (DependsOn t) of
              Inl e \<Rightarrow> (b, [], Inl e)
            | Inr parents \<Rightarrow> enqueue_insert i now t parents b))"

section \<open>Dequeue\<close>

text \<open>
  \<open>claimable\<close> is the filter both loops of \<open>Dequeue\<close> apply: the queue is asked for and the
  task waits to be run.
\<close>

definition claimable :: "string list \<Rightarrow> mrec \<Rightarrow> bool" where
  "claimable queues r \<longleftrightarrow> Queue (task r) \<in> set queues \<and>
     (Status (task r) = StatusPending \<or> Status (task r) = StatusRetrying)"

definition pick_better :: "mrec \<Rightarrow> mrec \<Rightarrow> bool" where
  "pick_better r best \<longleftrightarrow> RunAt (task r) < RunAt (task best) \<or>
     RunAt (task r) = RunAt (task best) \<and> ID (task r) < ID (task best)"

fun mem_pickReady_loop ::
  "string list \<Rightarrow> time \<Rightarrow> store \<Rightarrow> id list \<Rightarrow> (id \<times> mrec) option \<Rightarrow> (id \<times> mrec) option" where
  "mem_pickReady_loop queues now m [] best = best"
| "mem_pickReady_loop queues now m (k # ks) best =
     mem_pickReady_loop queues now m ks
       (case fmlookup m k of
          None \<Rightarrow> best
        | Some r \<Rightarrow>
            if \<not> claimable queues r then best
            else if RunAt (task r) > now then best
            else (case best of
                    None \<Rightarrow> Some (k, r)
                  | Some (kb, rb) \<Rightarrow> if pick_better r rb then Some (k, r) else best))"

definition mem_pickReady :: "id list \<Rightarrow> string list \<Rightarrow> time \<Rightarrow> store \<Rightarrow> (id \<times> mrec) option" where
  "mem_pickReady xs queues now m = mem_pickReady_loop queues now m xs None"

fun mem_nextRunAt_loop :: "string list \<Rightarrow> time \<Rightarrow> store \<Rightarrow> id list \<Rightarrow> time \<Rightarrow> time" where
  "mem_nextRunAt_loop queues now m [] next = next"
| "mem_nextRunAt_loop queues now m (k # ks) next =
     mem_nextRunAt_loop queues now m ks
       (case fmlookup m k of
          None \<Rightarrow> next
        | Some r \<Rightarrow>
            if \<not> claimable queues r then next
            else if RunAt (task r) > now \<and> (isZero next \<or> RunAt (task r) < next)
              then RunAt (task r) else next)"

definition mem_nextRunAt :: "id list \<Rightarrow> string list \<Rightarrow> time \<Rightarrow> store \<Rightarrow> time" where
  "mem_nextRunAt xs queues now m = mem_nextRunAt_loop queues now m xs zero_time"

text \<open>
  One turn of the loop of \<open>Dequeue\<close>: it returns (with a claimed task or an error) or goes to
  sleep in \<open>waitLocked\<close> with the instant its timer is set to (the zero time for none).
  \<open>ctx\<close> is \<open>ctx.Err()\<close>.
\<close>

datatype dequeueTurn = Claimed task | DequeueErr tg_error | WaitFor time

definition claim_rec :: "string \<Rightarrow> time \<Rightarrow> duration \<Rightarrow> mrec \<Rightarrow> mrec" where
  "claim_rec token now ttl r =
     (let t1 = (task r)\<lparr>LeaseToken := token\<rparr>;
          t2 = (if isZero (StartedAt t1) then t1\<lparr>StartedAt := now\<rparr> else t1)
      in r\<lparr>task := t2, leaseUntil := now + ttl\<rparr>)"

definition mem_Dequeue_turn ::
  "id list \<Rightarrow> tg_error option \<Rightarrow> string \<Rightarrow> time \<Rightarrow> string list \<Rightarrow> mbroker \<Rightarrow>
   mbroker \<times> task list \<times> dequeueTurn" where
  "mem_Dequeue_turn xs ctx token clk queues b =
     (if queues = [] then (b, [], DequeueErr ErrNoQueues)
      else (case ctx of Some e \<Rightarrow> (b, [], DequeueErr e)
      | None \<Rightarrow> (case mem_requireInit b of Some e \<Rightarrow> (b, [], DequeueErr e)
      | None \<Rightarrow>
          let now = trunc_ms clk in
          (case mem_pickReady xs queues now (recs b) of
             Some (k, r) \<Rightarrow>
               (case mem_setStatus r StatusRunning of
                  Inl e \<Rightarrow> (b, [], DequeueErr e)
                | Inr r1 \<Rightarrow>
                    let r2 = claim_rec token now (mem_ttlFor b (Queue (task r1))) r1
                    in (put_rec k r2 b, [cloneTask (task r2)], Claimed (cloneTask (task r2))))
           | None \<Rightarrow> (b, [], WaitFor (mem_nextRunAt xs queues now (recs b)))))))"

section \<open>Ack, Fail, Cancel, FinishCanceled, Requeue, Heartbeat\<close>

text \<open>
  The common tail of every transition into a final state: store the record, notify it,
  propagate to the children and broadcast.
\<close>

definition finish_rec :: "id \<Rightarrow> time \<Rightarrow> mrec \<Rightarrow> mbroker \<Rightarrow> mbroker \<times> task list" where
  "finish_rec i now r b =
     (case mem_propagateFinal i now (fmupd i r (recs b)) [cloneTask (task r)] of
        (m, notifs) \<Rightarrow> (mem_broadcast (b\<lparr>recs := m\<rparr>), notifs))"

definition mem_Ack :: "time \<Rightarrow> id \<Rightarrow> string \<Rightarrow> bytes \<Rightarrow> mbroker \<Rightarrow> unit mresult" where
  "mem_Ack clk i token result b =
     (case mem_requireInit b of Some e \<Rightarrow> (b, [], Inl e)
      | None \<Rightarrow> (case mem_checkLease b i token of Inl e \<Rightarrow> (b, [], Inl e)
      | Inr r \<Rightarrow> (case mem_setStatus r StatusCompleted of Inl e \<Rightarrow> (b, [], Inl e)
      | Inr r1 \<Rightarrow>
          let now = trunc_ms clk;
              t2 = (if result \<noteq> None then (task r1)\<lparr>Result := clone_bytes result\<rparr> else task r1);
              r3 = mem_clearLease (r1\<lparr>task := t2\<lparr>FinishedAt := now\<rparr>\<rparr>);
              r4 = r3\<lparr>cancelRequested := False\<rparr>
          in (case finish_rec i now r4 b of (b', ns) \<Rightarrow> (b', ns, Inr ())))))"

definition fail_counts :: "int \<Rightarrow> failKind \<Rightarrow> string \<Rightarrow> task \<Rightarrow> task \<times> (int + bool)" where
  "fail_counts throttledMax kind errMsg t =
     (let t0 = t\<lparr>LastError := errMsg\<rparr> in
      case kind of
        FailBusiness \<Rightarrow>
          let t1 = t0\<lparr>Attempts := Attempts t0 + 1\<rparr> in (t1, Inr (Attempts t1 > MaxRetry t1))
      | FailThrottled \<Rightarrow>
          let t1 = t0\<lparr>Throttled := Throttled t0 + 1\<rparr> in
          if Throttled t1 \<ge> throttledMax
          then (t1\<lparr>LastError := ''throttled '' @ show_int (Throttled t1) @ '' times''\<rparr>, Inr True)
          else (t1, Inr False)
      | FailSkip \<Rightarrow> (t0, Inr True)
      | FailOther k \<Rightarrow> (t0, Inl k))"

definition mem_Fail ::
  "time \<Rightarrow> id \<Rightarrow> string \<Rightarrow> string \<Rightarrow> failKind \<Rightarrow> time \<Rightarrow> mbroker \<Rightarrow> unit mresult" where
  "mem_Fail clk i token errMsg kind retryAt b =
     (case mem_requireInit b of Some e \<Rightarrow> (b, [], Inl e)
      | None \<Rightarrow> (case mem_checkLease b i token of Inl e \<Rightarrow> (b, [], Inl e)
      | Inr r \<Rightarrow>
          let now = trunc_ms clk in
          (case fail_counts (ThrottledMax (opts b)) kind errMsg (task r) of
             (t1, Inl k) \<Rightarrow> (put_rec i (r\<lparr>task := t1\<rparr>) b, [], Inl (ErrUnknownFailKind k))
           | (t1, Inr toFailed) \<Rightarrow>
               let r1 = r\<lparr>task := t1\<rparr> in
               if toFailed then
                 (case mem_setStatus r1 StatusFailed of
                    Inl e \<Rightarrow> (put_rec i r1 b, [], Inl e)
                  | Inr r2 \<Rightarrow>
                      let r3 = mem_clearLease (r2\<lparr>task := (task r2)\<lparr>FinishedAt := now\<rparr>\<rparr>);
                          r4 = r3\<lparr>cancelRequested := False\<rparr>
                      in (case finish_rec i now r4 b of (b', ns) \<Rightarrow> (b', ns, Inr ())))
               else
                 (case mem_setStatus r1 StatusRetrying of
                    Inl e \<Rightarrow> (put_rec i r1 b, [], Inl e)
                  | Inr r2 \<Rightarrow>
                      let runAt = (if isZero retryAt then now else retryAt);
                          r3 = mem_clearLease (r2\<lparr>task := (task r2)\<lparr>RunAt := trunc_ms runAt\<rparr>\<rparr>)
                      in (mem_broadcast (put_rec i r3 b), [cloneTask (task r3)], Inr ())))))"

definition mem_Cancel :: "time \<Rightarrow> id \<Rightarrow> mbroker \<Rightarrow> unit mresult" where
  "mem_Cancel clk i b =
     (case mem_requireInit b of Some e \<Rightarrow> (b, [], Inl e)
      | None \<Rightarrow> (case fmlookup (recs b) i of None \<Rightarrow> (b, [], Inl (ErrTaskNotFound i))
      | Some r \<Rightarrow>
          if isFinal (Status (task r)) then (b, [], Inl (ErrAlreadyFinal i (Status (task r))))
          else if Status (task r) = StatusRunning
            then (put_rec i (r\<lparr>cancelRequested := True\<rparr>) b, [], Inr ())
          else
            (case mem_setStatus r StatusCanceled of Inl e \<Rightarrow> (b, [], Inl e)
             | Inr r1 \<Rightarrow>
                 let now = trunc_ms clk;
                     r2 = mem_clearLease (r1\<lparr>task := (task r1)\<lparr>LastError := ''canceled'',
                            FinishedAt := now\<rparr>\<rparr>)
                 in (case finish_rec i now r2 b of (b', ns) \<Rightarrow> (b', ns, Inr ())))))"

definition canceled_rec :: "time \<Rightarrow> mrec \<Rightarrow> mrec" where
  "canceled_rec now r =
     (mem_clearLease (r\<lparr>task := (task r)\<lparr>LastError := ''canceled'', FinishedAt := now\<rparr>\<rparr>))
       \<lparr>cancelRequested := False\<rparr>"

definition mem_FinishCanceled :: "time \<Rightarrow> id \<Rightarrow> string \<Rightarrow> mbroker \<Rightarrow> unit mresult" where
  "mem_FinishCanceled clk i token b =
     (case mem_requireInit b of Some e \<Rightarrow> (b, [], Inl e)
      | None \<Rightarrow> (case mem_checkLease b i token of Inl e \<Rightarrow> (b, [], Inl e)
      | Inr r \<Rightarrow> (case mem_setStatus r StatusCanceled of Inl e \<Rightarrow> (b, [], Inl e)
      | Inr r1 \<Rightarrow>
          let now = trunc_ms clk
          in (case finish_rec i now (canceled_rec now r1) b of (b', ns) \<Rightarrow> (b', ns, Inr ())))))"

definition mem_Requeue :: "id \<Rightarrow> string \<Rightarrow> mbroker \<Rightarrow> unit mresult" where
  "mem_Requeue i token b =
     (case mem_requireInit b of Some e \<Rightarrow> (b, [], Inl e)
      | None \<Rightarrow> (case mem_checkLease b i token of Inl e \<Rightarrow> (b, [], Inl e)
      | Inr r \<Rightarrow> (case mem_setStatus r StatusPending of Inl e \<Rightarrow> (b, [], Inl e)
      | Inr r1 \<Rightarrow>
          let r2 = (mem_clearLease r1)\<lparr>cancelRequested := False\<rparr>
          in (mem_broadcast (put_rec i r2 b), [cloneTask (task r2)], Inr ()))))"

definition mem_Heartbeat :: "time \<Rightarrow> id \<Rightarrow> string \<Rightarrow> mbroker \<Rightarrow> unit mresult" where
  "mem_Heartbeat clk i token b =
     (case mem_requireInit b of Some e \<Rightarrow> (b, [], Inl e)
      | None \<Rightarrow> (case mem_checkLease b i token of Inl e \<Rightarrow> (b, [], Inl e)
      | Inr r \<Rightarrow>
          let b' = put_rec i (r\<lparr>leaseUntil := trunc_ms clk + mem_ttlFor b (Queue (task r))\<rparr>) b
          in (b', [], if cancelRequested r then Inl (ErrTaskCanceled i) else Inr ())))"

section \<open>Replay\<close>

definition replay_task :: "id \<Rightarrow> time \<Rightarrow> bytes \<Rightarrow> task \<Rightarrow> task" where
  "replay_task i now payload tgt =
     \<lparr>ID = i, BusinessKey = BusinessKey tgt, ReplayOf = ID tgt, Type = Type tgt, Queue = Queue tgt,
      Payload = clone_bytes payload, Status = StatusPending, Result = None, LastError = '''',
      Attempts = 0, MaxRetry = MaxRetry tgt, LeaseLost = 0, Throttled = 0, RunAt = now,
      DependsOn = [], OnParentFailure = OnParentFailure tgt, LeaseToken = '''', CreatedAt = now,
      StartedAt = zero_time, FinishedAt = zero_time\<rparr>"

definition replay_target :: "replayRequest \<Rightarrow> mbroker \<Rightarrow> tg_error + mrec" where
  "replay_target req b =
     (if rq_ExecutionID req \<noteq> '''' then
        (case fmlookup (recs b) (rq_ExecutionID req) of
           None \<Rightarrow> Inl (ErrTaskNotFound (rq_ExecutionID req)) | Some r \<Rightarrow> Inr r)
      else
        (let chain = chain_of b (rq_BusinessKey req) in
         if chain = [] then Inl (ErrTaskNotFound (rq_BusinessKey req))
         else (case fmlookup (recs b) (last chain) of None \<Rightarrow> Inl PanicNil | Some r \<Rightarrow> Inr r)))"

definition mem_Replay :: "id \<Rightarrow> time \<Rightarrow> replayRequest \<Rightarrow> mbroker \<Rightarrow> task mresult" where
  "mem_Replay fresh clk req b =
     (case mem_requireInit b of Some e \<Rightarrow> (b, [], Inl e)
      | None \<Rightarrow>
      if (rq_ExecutionID req = '''') = (rq_BusinessKey req = '''') then (b, [], Inl ErrReplayTarget)
      else (case replay_target req b of Inl e \<Rightarrow> (b, [], Inl e)
      | Inr target \<Rightarrow>
          let tt = task target in
          if \<not> isFinal (Status tt) then (b, [], Inl (ErrReplayNotFinal (ID tt) (Status tt)))
          else if fmlookup (replayed b) (ID tt) = Some True then (b, [], Inl (ErrAlreadyReplayed (ID tt)))
          else if Status tt = StatusCompleted \<and> \<not> rq_AllowCompleted req
            then (b, [], Inl (ErrCompletedNotAllowed (ID tt)))
          else
            let payload = (if rq_Payload req = None then Payload tt else rq_Payload req);
                now = trunc_ms clk;
                r = \<lparr>task = replay_task fresh now payload tt, pendingParents = 0,
                     leaseUntil = zero_time, cancelRequested = False, children = []\<rparr>;
                b1 = put_rec fresh r b;
                b2 = push_chain (BusinessKey tt) fresh b1;
                b3 = b2\<lparr>replayed := fmupd (ID tt) True (replayed b2)\<rparr>
            in (mem_broadcast b3, [cloneTask (task r)], Inr (cloneTask (task r)))))"

section \<open>Queries\<close>

definition mem_Get :: "id \<Rightarrow> mbroker \<Rightarrow> tg_error + task" where
  "mem_Get i b =
     (case fmlookup (recs b) i of
        None \<Rightarrow> Inl (ErrTaskNotFound i)
      | Some r \<Rightarrow> Inr (cloneTask (task r)))"

definition matches :: "filterSpec \<Rightarrow> task \<Rightarrow> bool" where
  "matches f t \<longleftrightarrow>
     (f_Type f = '''' \<or> Type t = f_Type f) \<and>
     (f_Queue f = '''' \<or> Queue t = f_Queue f) \<and>
     (case f_Status f of None \<Rightarrow> True | Some s \<Rightarrow> Status t = s) \<and>
     (f_BusinessKey f = '''' \<or> BusinessKey t = f_BusinessKey f)"

definition pageSlice :: "'a list \<Rightarrow> filterSpec \<Rightarrow> 'a list" where
  "pageSlice out f =
     (let off = (if f_Offset f < 0 then 0 else f_Offset f) in
      if off \<ge> int (length out) then []
      else
        let rest = drop (nat off) out in
        if f_Limit f > 0 \<and> int (length rest) > f_Limit f then take (nat (f_Limit f)) rest
        else rest)"

fun collect_tasks :: "filterSpec \<Rightarrow> store \<Rightarrow> id list \<Rightarrow> task list" where
  "collect_tasks f m [] = []"
| "collect_tasks f m (k # ks) =
     (case fmlookup m k of
        None \<Rightarrow> collect_tasks f m ks
      | Some r \<Rightarrow> if matches f (task r) then cloneTask (task r) # collect_tasks f m ks
                  else collect_tasks f m ks)"

text \<open>\<open>sort.Slice\<close> with the comparison of \<open>List\<close>: by creation time, then by identifier.\<close>

definition list_key :: "task \<Rightarrow> time \<times> id" where
  "list_key t = (CreatedAt t, ID t)"

definition list_less :: "task \<Rightarrow> task \<Rightarrow> bool" where
  "list_less a b \<longleftrightarrow>
     (if CreatedAt a \<noteq> CreatedAt b then CreatedAt a < CreatedAt b else ID a < ID b)"

fun insert_sorted :: "task \<Rightarrow> task list \<Rightarrow> task list" where
  "insert_sorted t [] = [t]"
| "insert_sorted t (u # us) = (if list_less u t then u # insert_sorted t us else t # u # us)"

fun sort_tasks :: "task list \<Rightarrow> task list" where
  "sort_tasks [] = []"
| "sort_tasks (t # ts) = insert_sorted t (sort_tasks ts)"

definition mem_List :: "id list \<Rightarrow> filterSpec \<Rightarrow> mbroker \<Rightarrow> task list" where
  "mem_List xs f b = pageSlice (sort_tasks (collect_tasks f (recs b) xs)) f"

fun mem_QueueLen_loop :: "string \<Rightarrow> store \<Rightarrow> id list \<Rightarrow> int \<Rightarrow> int" where
  "mem_QueueLen_loop q m [] n = n"
| "mem_QueueLen_loop q m (k # ks) n =
     mem_QueueLen_loop q m ks
       (case fmlookup m k of
          None \<Rightarrow> n
        | Some r \<Rightarrow>
            if Queue (task r) = q \<and>
               (Status (task r) = StatusPending \<or> Status (task r) = StatusRetrying)
            then n + 1 else n)"

definition mem_QueueLen :: "id list \<Rightarrow> string \<Rightarrow> mbroker \<Rightarrow> int" where
  "mem_QueueLen xs q b = mem_QueueLen_loop q (recs b) xs 0"

type_synonym countMatrix = "(string, (status, int) fmap) fmap"

definition bump_count :: "task \<Rightarrow> countMatrix \<Rightarrow> countMatrix" where
  "bump_count t out =
     (let byStatus = (case fmlookup out (Type t) of None \<Rightarrow> fmempty | Some m \<Rightarrow> m);
          n = (case fmlookup byStatus (Status t) of None \<Rightarrow> 0 | Some k \<Rightarrow> k)
      in fmupd (Type t) (fmupd (Status t) (n + 1) byStatus) out)"

fun mem_Counts_loop :: "store \<Rightarrow> id list \<Rightarrow> countMatrix \<Rightarrow> countMatrix" where
  "mem_Counts_loop m [] out = out"
| "mem_Counts_loop m (k # ks) out =
     mem_Counts_loop m ks (case fmlookup m k of None \<Rightarrow> out | Some r \<Rightarrow> bump_count (task r) out)"

definition mem_Counts :: "id list \<Rightarrow> mbroker \<Rightarrow> countMatrix" where
  "mem_Counts xs b = mem_Counts_loop (recs b) xs fmempty"

section \<open>Reaper\<close>

text \<open>
  \<open>ReapExpired\<close> visits the records twice, in two unrelated orders: first it reclaims expired
  leases, then it repairs blocked tasks whose parents are all final.
\<close>

definition reap_step ::
  "time \<Rightarrow> int \<Rightarrow> id \<Rightarrow> store \<times> int \<times> task list \<Rightarrow> (store \<times> int \<times> task list) \<times> tg_error option" where
  "reap_step now lostMax k s =
     (case s of (m, cnt, notifs) \<Rightarrow>
      (case fmlookup m k of
         None \<Rightarrow> (s, None)
       | Some r \<Rightarrow>
           if Status (task r) \<noteq> StatusRunning \<or> \<not> leaseUntil r < now then (s, None)
           else if cancelRequested r then
             (case mem_setStatus r StatusCanceled of
                Inl e \<Rightarrow> (s, Some e)
              | Inr r1 \<Rightarrow>
                  let r2 = canceled_rec now r1 in
                  (case mem_propagateFinal k now (fmupd k r2 m) (notifs @ [cloneTask (task r2)]) of
                     (m', ns') \<Rightarrow> ((m', cnt + 1, ns'), None)))
           else
             let r1 = (mem_clearLease (r\<lparr>task := (task r)\<lparr>LeaseLost := LeaseLost (task r) + 1\<rparr>\<rparr>))
                        \<lparr>cancelRequested := False\<rparr> in
             if LeaseLost (task r1) \<ge> lostMax then
               (case mem_setStatus r1 StatusFailed of
                  Inl e \<Rightarrow> ((fmupd k r1 m, cnt, notifs), Some e)
                | Inr r2 \<Rightarrow>
                    let r3 = r2\<lparr>task := (task r2)\<lparr>
                          LastError := ''lease expired '' @ show_int (LeaseLost (task r2)) @ '' times'',
                          FinishedAt := now\<rparr>\<rparr> in
                    (case mem_propagateFinal k now (fmupd k r3 m) (notifs @ [cloneTask (task r3)]) of
                       (m', ns') \<Rightarrow> ((m', cnt + 1, ns'), None)))
             else
               (case mem_setStatus r1 StatusPending of
                  Inl e \<Rightarrow> ((fmupd k r1 m, cnt, notifs), Some e)
                | Inr r2 \<Rightarrow> ((fmupd k r2 m, cnt + 1, notifs @ [cloneTask (task r2)]), None))))"

fun reap_loop ::
  "time \<Rightarrow> int \<Rightarrow> id list \<Rightarrow> store \<times> int \<times> task list \<Rightarrow> (store \<times> int \<times> task list) \<times> tg_error option" where
  "reap_loop now lostMax [] s = (s, None)"
| "reap_loop now lostMax (k # ks) s =
     (case reap_step now lostMax k s of
        (s', Some e) \<Rightarrow> (s', Some e)
      | (s', None) \<Rightarrow> reap_loop now lostMax ks s')"

definition repair_step :: "time \<Rightarrow> id \<Rightarrow> store \<times> task list \<Rightarrow> store \<times> task list" where
  "repair_step now k s =
     (case s of (m, notifs) \<Rightarrow>
      (case fmlookup m k of
         None \<Rightarrow> s
       | Some r \<Rightarrow>
           if Status (task r) \<noteq> StatusBlocked then s
           else (case mem_parents m (DependsOn (task r)) of
             Inl _ \<Rightarrow> s
           | Inr parents \<Rightarrow>
               let dec = DecideOnSubmit parents (OnParentFailure (task r)) in
               (case d_Status dec of
                  StatusPending \<Rightarrow>
                    (case mem_setStatus r StatusPending of
                       Inl _ \<Rightarrow> s
                     | Inr r1 \<Rightarrow> (fmupd k (r1\<lparr>pendingParents := 0\<rparr>) m, notifs @ [cloneTask (task r1)]))
                | StatusCanceled \<Rightarrow>
                    (case mem_setStatus r StatusCanceled of
                       Inl _ \<Rightarrow> s
                     | Inr r1 \<Rightarrow>
                         let r2 = r1\<lparr>task := (task r1)\<lparr>LastError := d_LastError dec,
                                FinishedAt := now\<rparr>\<rparr>
                         in mem_propagateFinal k now (fmupd k r2 m) (notifs @ [cloneTask (task r2)]))
                | _ \<Rightarrow> (fmupd k (r\<lparr>pendingParents := d_PendingParents dec\<rparr>) m, notifs)))))"

definition mem_ReapExpired :: "id list \<Rightarrow> id list \<Rightarrow> time \<Rightarrow> mbroker \<Rightarrow> mbroker \<times> task list \<times> int \<times> tg_error option" where
  "mem_ReapExpired xs ys clk b =
     (case mem_requireInit b of Some e \<Rightarrow> (b, [], 0, Some e)
      | None \<Rightarrow>
          let now = trunc_ms clk in
          (case reap_loop now (LeaseLostMax (opts b)) xs (recs b, 0, []) of
             ((m1, cnt, ns1), Some e) \<Rightarrow> (b\<lparr>recs := m1\<rparr>, ns1, cnt, Some e)
           | ((m1, cnt, ns1), None) \<Rightarrow>
               (case fold (repair_step now) ys (m1, ns1) of
                  (m2, ns2) \<Rightarrow>
                    let b' = b\<lparr>recs := m2\<rparr>
                    in (if ns2 \<noteq> [] then mem_broadcast b' else b', ns2, cnt, None))))"

definition mem_Close :: "mbroker \<Rightarrow> mbroker" where
  "mem_Close b = mem_broadcast (b\<lparr>closed := True\<rparr>)"

end
