(* ===== verification/Memory_Graph.thy ===== *)
theory Memory_Graph
  imports Memory_Broker
begin

text \<open>
  How the operations of the in-memory broker change the store of records: no operation
  changes the identity of a stored task, touches a finished one or moves a task along an
  edge that is not in the transition table, and the dependency counters stay exact.
\<close>

section \<open>Evolution of records\<close>

definition shape :: "mrec \<Rightarrow> (id \<times> string \<times> id) \<times> (string \<times> string \<times> bytes \<times> int) \<times>
    (id list \<times> parentFailurePolicy \<times> time) \<times> id list" where
  "shape r = ((ID (task r), BusinessKey (task r), ReplayOf (task r)),
     (Type (task r), Queue (task r), Payload (task r), MaxRetry (task r)),
     (DependsOn (task r), OnParentFailure (task r), CreatedAt (task r)), children r)"

definition rec_evolves :: "mrec \<Rightarrow> mrec \<Rightarrow> bool" where
  "rec_evolves r r' \<longleftrightarrow>
     shape r' = shape r \<and>
     (isFinal (Status (task r)) \<longrightarrow> r' = r) \<and>
     legalPath (Status (task r)) (Status (task r')) \<and>
     Attempts (task r) \<le> Attempts (task r') \<and>
     LeaseLost (task r) \<le> LeaseLost (task r') \<and>
     Throttled (task r) \<le> Throttled (task r')"

definition evolves :: "store \<Rightarrow> store \<Rightarrow> bool" where
  "evolves = fmrel rec_evolves"

lemma rec_evolves_refl [simp]: "rec_evolves r r"
  by (simp add: rec_evolves_def)

lemma rec_evolves_trans: "rec_evolves r1 r2 \<Longrightarrow> rec_evolves r2 r3 \<Longrightarrow> rec_evolves r1 r3"
  unfolding rec_evolves_def by (auto intro: order_trans rtranclp_trans)

lemma rec_evolvesI:
  assumes "shape r' = shape r" and "\<not> isFinal (Status (task r))"
    and "Status (task r') = Status (task r) \<or> canTransition (Status (task r)) (Status (task r'))"
    and "Attempts (task r) \<le> Attempts (task r')" and "LeaseLost (task r) \<le> LeaseLost (task r')"
    and "Throttled (task r) \<le> Throttled (task r')"
  shows "rec_evolves r r'"
  using assms unfolding rec_evolves_def by auto

lemma evolves_refl [simp]: "evolves m m"
  by (simp add: evolves_def fmrel_iff option.rel_refl)

lemma evolves_trans: "evolves m1 m2 \<Longrightarrow> evolves m2 m3 \<Longrightarrow> evolves m1 m3"
proof -
  assume 12: "evolves m1 m2" and 23: "evolves m2 m3"
  have "rel_option rec_evolves (fmlookup m1 x) (fmlookup m3 x)" for x
  proof -
    have "rel_option rec_evolves (fmlookup m1 x) (fmlookup m2 x)"
      and "rel_option rec_evolves (fmlookup m2 x) (fmlookup m3 x)"
      using 12 23 by (simp_all add: evolves_def fmrel_iff)
    then show ?thesis by (auto simp: option_rel_Some1 option_rel_Some2 elim!: option.rel_cases
          intro: rec_evolves_trans)
  qed
  then show ?thesis by (simp add: evolves_def fmrel_iff)
qed

lemma evolves_dom: "evolves m m' \<Longrightarrow> fmdom m' = fmdom m"
  by (metis evolves_def fmrel_fmdom_eq)

lemma evolves_lookup:
  "evolves m m' \<Longrightarrow> fmlookup m k = Some r \<Longrightarrow> \<exists>r'. fmlookup m' k = Some r' \<and> rec_evolves r r'"
  by (metis evolves_def fmrel_cases option.distinct(1) option.inject)

lemma evolves_lookup_back:
  "evolves m m' \<Longrightarrow> fmlookup m' k = Some r' \<Longrightarrow> \<exists>r. fmlookup m k = Some r \<and> rec_evolves r r'"
  by (metis evolves_def fmrel_cases option.distinct(1) option.inject)

lemma evolves_None: "evolves m m' \<Longrightarrow> fmlookup m' k = None \<longleftrightarrow> fmlookup m k = None"
  by (metis evolves_lookup evolves_lookup_back not_Some_eq)

lemma evolves_upd:
  assumes "fmlookup m k = Some r" and "rec_evolves r r'"
  shows "evolves m (fmupd k r' m)"
  using assms by (auto simp: evolves_def fmrel_iff option.rel_refl)

lemma shape_fields:
  assumes "shape r' = shape r"
  shows "ID (task r') = ID (task r)" "BusinessKey (task r') = BusinessKey (task r)"
    "ReplayOf (task r') = ReplayOf (task r)" "Queue (task r') = Queue (task r)"
    "DependsOn (task r') = DependsOn (task r)" "children r' = children r"
    "OnParentFailure (task r') = OnParentFailure (task r)" "MaxRetry (task r') = MaxRetry (task r)"
    "CreatedAt (task r') = CreatedAt (task r)" "Type (task r') = Type (task r)"
    "Payload (task r') = Payload (task r)"
  using assms by (simp_all add: shape_def)

lemma evolves_shape: "rec_evolves r r' \<Longrightarrow> shape r' = shape r"
  by (simp add: rec_evolves_def)

section \<open>The dependency graph of a store\<close>

definition dep :: "store \<Rightarrow> id \<Rightarrow> id \<Rightarrow> bool" where
  "dep m q c \<longleftrightarrow> (\<exists>r. fmlookup m c = Some r \<and> q \<in> set (DependsOn (task r)))"

definition final_in :: "store \<Rightarrow> id \<Rightarrow> bool" where
  "final_in m q \<longleftrightarrow> (\<exists>r. fmlookup m q = Some r \<and> isFinal (Status (task r)))"

definition completed_in :: "store \<Rightarrow> id \<Rightarrow> bool" where
  "completed_in m q \<longleftrightarrow> (\<exists>r. fmlookup m q = Some r \<and> Status (task r) = StatusCompleted)"

definition out_edges :: "store \<Rightarrow> id \<Rightarrow> (id \<times> id) set" where
  "out_edges m q = {(q, c) |c. dep m q c}"

text \<open>
  The graph is well formed when every key holds its own task, every parent exists, and the
  reverse index \<open>children\<close> lists the dependants of a task exactly once.
\<close>

definition graph_ok :: "store \<Rightarrow> bool" where
  "graph_ok m \<longleftrightarrow>
     (\<forall>k r. fmlookup m k = Some r \<longrightarrow>
        ID (task r) = k \<and> k \<noteq> '''' \<and>
        (\<forall>q \<in> set (DependsOn (task r)). fmlookup m q \<noteq> None) \<and>
        distinct (children r) \<and> set (children r) = {c. dep m k c})"

text \<open>
  \<open>E\<close> holds the edges \<open>(parent, child)\<close> whose parent is final but whose child has not been
  told yet.  Modulo those edges, the counter of a blocked task is the number of its
  unfinished parents, and a task that left the blocked state without being cancelled has
  only finished parents, successful ones unless it ignores failures.
\<close>

definition open_parents :: "(id \<times> id) set \<Rightarrow> store \<Rightarrow> id \<Rightarrow> mrec \<Rightarrow> id set" where
  "open_parents E m c r = {q \<in> set (DependsOn (task r)). \<not> final_in m q \<or> (q, c) \<in> E}"

definition blocked_ok :: "(id \<times> id) set \<Rightarrow> store \<Rightarrow> id \<Rightarrow> mrec \<Rightarrow> bool" where
  "blocked_ok E m c r \<longleftrightarrow>
     pendingParents r = int (card (open_parents E m c r)) \<and> 0 < pendingParents r \<and>
     (OnParentFailure (task r) \<noteq> IgnoreParentFail \<longrightarrow>
        (\<forall>q \<in> set (DependsOn (task r)) - open_parents E m c r. completed_in m q))"

definition released_ok :: "(id \<times> id) set \<Rightarrow> store \<Rightarrow> id \<Rightarrow> mrec \<Rightarrow> bool" where
  "released_ok E m c r \<longleftrightarrow>
     open_parents E m c r = {} \<and>
     (OnParentFailure (task r) \<noteq> IgnoreParentFail \<longrightarrow>
        (\<forall>q \<in> set (DependsOn (task r)). completed_in m q))"

definition edge_inv :: "(id \<times> id) set \<Rightarrow> store \<Rightarrow> bool" where
  "edge_inv E m \<longleftrightarrow>
     (\<forall>c r. fmlookup m c = Some r \<longrightarrow>
        (case Status (task r) of
           StatusBlocked \<Rightarrow> blocked_ok E m c r
         | StatusCanceled \<Rightarrow> True
         | _ \<Rightarrow> released_ok E m c r))"

section \<open>Preservation under evolution\<close>

lemma dep_evolves: "evolves m m' \<Longrightarrow> dep m' = dep m"
proof (intro ext)
  fix q c assume ev: "evolves m m'"
  show "dep m' q c = dep m q c"
  proof (cases "fmlookup m c")
    case None
    then show ?thesis using evolves_None [OF ev, of c] by (simp add: dep_def)
  next
    case (Some r)
    then obtain r' where "fmlookup m' c = Some r'" "rec_evolves r r'"
      using evolves_lookup [OF ev] by blast
    then show ?thesis using Some shape_fields(5) [OF evolves_shape] by (simp add: dep_def)
  qed
qed

lemma out_edges_evolves: "evolves m m' \<Longrightarrow> out_edges m' = out_edges m"
  by (simp add: out_edges_def dep_evolves fun_eq_iff)

lemma graph_ok_evolves:
  assumes "evolves m m'" and "graph_ok m"
  shows "graph_ok m'"
  unfolding graph_ok_def
proof (intro allI impI)
  fix k r' assume "fmlookup m' k = Some r'"
  then obtain r where r: "fmlookup m k = Some r" and "rec_evolves r r'"
    using evolves_lookup_back [OF assms(1)] by blast
  then have "shape r' = shape r" by (simp add: evolves_shape)
  note eqs = shape_fields [OF this]
  show "ID (task r') = k \<and> k \<noteq> '''' \<and>
      (\<forall>q \<in> set (DependsOn (task r')). fmlookup m' q \<noteq> None) \<and>
      distinct (children r') \<and> set (children r') = {c. dep m' k c}"
    using assms(2) r by (simp add: graph_ok_def eqs evolves_None [OF assms(1)] dep_evolves [OF assms(1)])
qed

lemma final_in_mono: "evolves m m' \<Longrightarrow> final_in m q \<Longrightarrow> final_in m' q"
  unfolding final_in_def rec_evolves_def by (metis evolves_lookup rec_evolves_def)

lemma completed_final: "completed_in m q \<Longrightarrow> final_in m q"
  by (auto simp: completed_in_def final_in_def)

text \<open>A record whose finality and success do not change leaves the edge facts of others alone.\<close>

lemma final_in_upd: "final_in (fmupd k r m) q \<longleftrightarrow> (if q = k then isFinal (Status (task r)) else final_in m q)"
  by (auto simp: final_in_def)

lemma completed_in_upd:
  "completed_in (fmupd k r m) q \<longleftrightarrow> (if q = k then Status (task r) = StatusCompleted else completed_in m q)"
  by (auto simp: completed_in_def)

lemma final_in_upd_same:
  "fmlookup m k = Some r \<Longrightarrow> isFinal (Status (task r')) = isFinal (Status (task r)) \<Longrightarrow>
   final_in (fmupd k r' m) = final_in m"
  by (auto simp: final_in_def fun_eq_iff)

lemma completed_in_upd_mono:
  "fmlookup m k = Some r \<Longrightarrow> \<not> isFinal (Status (task r)) \<Longrightarrow> completed_in m q \<Longrightarrow>
   completed_in (fmupd k r' m) q"
  by (auto simp: completed_in_def)

lemma edge_inv_lookup:
  "edge_inv E m \<Longrightarrow> fmlookup m c = Some r \<Longrightarrow> Status (task r) = StatusBlocked \<Longrightarrow> blocked_ok E m c r"
  "edge_inv E m \<Longrightarrow> fmlookup m c = Some r \<Longrightarrow>
     Status (task r) \<noteq> StatusBlocked \<Longrightarrow> Status (task r) \<noteq> StatusCanceled \<Longrightarrow> released_ok E m c r"
  unfolding edge_inv_def by (drule spec, drule spec, drule mp, assumption, simp split: status.splits)+

lemma edge_invI:
  assumes "\<And>c r. fmlookup m c = Some r \<Longrightarrow> Status (task r) = StatusBlocked \<Longrightarrow> blocked_ok E m c r"
    and "\<And>c r. fmlookup m c = Some r \<Longrightarrow> Status (task r) \<noteq> StatusBlocked \<Longrightarrow>
      Status (task r) \<noteq> StatusCanceled \<Longrightarrow> released_ok E m c r"
  shows "edge_inv E m"
  using assms by (auto simp: edge_inv_def split: status.splits)

text \<open>
  Updating one record: the other records keep their part of the invariant when the edges
  into them are covered, that is when every parent looks as open as before.
\<close>

lemma edge_inv_upd:
  assumes inv: "edge_inv E m" and k: "fmlookup m k = Some r"
    and nonfinal: "\<not> isFinal (Status (task r))"
    and others: "\<And>q c. c \<noteq> k \<Longrightarrow> dep m q c \<Longrightarrow>
      (\<not> final_in (fmupd k r' m) q \<or> (q, c) \<in> E') = (\<not> final_in m q \<or> (q, c) \<in> E)"
    and blocked: "Status (task r') = StatusBlocked \<Longrightarrow> blocked_ok E' (fmupd k r' m) k r'"
    and released: "Status (task r') \<noteq> StatusBlocked \<Longrightarrow> Status (task r') \<noteq> StatusCanceled \<Longrightarrow>
      released_ok E' (fmupd k r' m) k r'"
  shows "edge_inv E' (fmupd k r' m)"
proof (rule edge_invI)
  let ?m = "fmupd k r' m"
  have open_eq: "open_parents E' ?m c s = open_parents E m c s"
    if "c \<noteq> k" "fmlookup m c = Some s" for c s
    using others [OF that(1)] that(2) by (auto simp: open_parents_def dep_def)
  have compl: "completed_in ?m q" if "completed_in m q" for q
    using that k nonfinal by (auto simp: completed_in_def)
  fix c s assume c: "fmlookup ?m c = Some s"
  {
    assume "Status (task s) = StatusBlocked"
    then show "blocked_ok E' ?m c s"
      using c blocked edge_inv_lookup(1) [OF inv, of c s] open_eq [of c s] compl
      by (cases "c = k") (auto simp: blocked_ok_def)
  next
    assume "Status (task s) \<noteq> StatusBlocked" "Status (task s) \<noteq> StatusCanceled"
    then show "released_ok E' ?m c s"
      using c released edge_inv_lookup(2) [OF inv, of c s] open_eq [of c s] compl
      by (cases "c = k") (auto simp: released_ok_def)
  }
qed

text \<open>
  A record that becomes final: its own dependants have not been told yet, so the edges to
  them join the pending set.
\<close>

lemma edge_inv_finalize:
  assumes inv: "edge_inv E m" and k: "fmlookup m k = Some r"
    and nf: "\<not> isFinal (Status (task r))" and fin: "isFinal (Status (task r'))"
    and same: "DependsOn (task r') = DependsOn (task r)"
      "OnParentFailure (task r') = OnParentFailure (task r)"
    and how: "Status (task r') = StatusCanceled \<or> Status (task r) \<noteq> StatusBlocked \<and> E' = E"
    and E': "\<And>q c. c \<noteq> k \<Longrightarrow> (q, c) \<in> E' \<longleftrightarrow> (q, c) \<in> E"
  shows "edge_inv (E' \<union> out_edges m k) (fmupd k r' m)"
proof (rule edge_inv_upd [OF inv k nf])
  have nk: "\<not> final_in m k" using k nf by (simp add: final_in_def)
  then show "(\<not> final_in (fmupd k r' m) q \<or> (q, c) \<in> E' \<union> out_edges m k) =
      (\<not> final_in m q \<or> (q, c) \<in> E)" if "c \<noteq> k" "dep m q c" for q c
    using that E' [OF that(1)] fin by (auto simp: final_in_upd out_edges_def split: if_splits)
  show "blocked_ok (E' \<union> out_edges m k) (fmupd k r' m) k r'"
    if "Status (task r') = StatusBlocked" using that fin by simp
  show "released_ok (E' \<union> out_edges m k) (fmupd k r' m) k r'"
    if "Status (task r') \<noteq> StatusBlocked" "Status (task r') \<noteq> StatusCanceled"
  proof -
    have "released_ok E m k r" and E: "E' = E"
      using edge_inv_lookup(2) [OF inv k] how that nf by (auto simp: isFinal_def)
    then have op: "open_parents E m k r = {}"
      and cm: "OnParentFailure (task r) \<noteq> IgnoreParentFail \<longrightarrow>
        (\<forall>q \<in> set (DependsOn (task r)). completed_in m q)"
      by (simp_all add: released_ok_def)
    have "k \<notin> set (DependsOn (task r))" using op nk by (auto simp: open_parents_def)
    then have "open_parents (E' \<union> out_edges m k) (fmupd k r' m) k r' = {}"
      using op by (auto simp: open_parents_def same E final_in_upd out_edges_def split: if_splits)
    then show ?thesis using cm completed_in_upd_mono [OF k nf] by (simp add: released_ok_def same)
  qed
qed

section \<open>Propagation\<close>

lemma canceled_child_evolves:
  "\<not> isFinal (Status (task c)) \<Longrightarrow> rec_evolves c (canceled_child now pr c)"
  by (rule rec_evolvesI) (simp_all add: canceled_child_def shape_def nonfinal_can_cancel)

lemma propagate_child_evolves:
  assumes "propagate_child now p cid (m, ns, work) = (m', ns', work')"
  shows "evolves m m'"
proof (cases "fmlookup m p = None \<or> fmlookup m cid = None")
  case True
  then show ?thesis using assms by (simp add: propagate_child_missing)
next
  case False
  then obtain pr c where pr: "fmlookup m p = Some pr" and c: "fmlookup m cid = Some c" by auto
  note upd = evolves_upd [OF c]
  from pr c show ?thesis
  proof (cases rule: propagate_child_cases [where now = now and ns = ns and work = work])
    case skip
    then show ?thesis using assms by simp
  next
    case (wake c')
    then have "rec_evolves c c'" by (intro rec_evolvesI) (simp_all add: shape_def)
    then show ?thesis using assms wake upd by auto
  next
    case (count n)
    then have "rec_evolves c (c\<lparr>pendingParents := n\<rparr>)"
      by (intro rec_evolvesI) (simp_all add: shape_def)
    then show ?thesis using assms count upd by auto
  next
    case flag
    then have "rec_evolves c (c\<lparr>cancelRequested := True\<rparr>)"
      by (intro rec_evolvesI) (simp_all add: shape_def)
    then show ?thesis using assms flag upd by auto
  next
    case (cancel c')
    then show ?thesis using assms upd canceled_child_evolves [OF cancel(3)] by auto
  qed
qed

lemma finite_open_parents [simp]: "finite (open_parents E m c r)"
  by (simp add: open_parents_def)

lemma open_parents_insert:
  assumes "p \<in> set (DependsOn (task r))" and "final_in m p" and "(p, c) \<notin> E"
  shows "p \<in> open_parents (insert (p, c) E) m c r"
    and "open_parents E m c r = open_parents (insert (p, c) E) m c r - {p}"
  using assms by (auto simp: open_parents_def)

lemma open_parents_upd_same:
  assumes "fmlookup m k = Some s" and "isFinal (Status (task s')) = isFinal (Status (task s))"
    and "DependsOn (task r') = DependsOn (task r)"
  shows "open_parents E (fmupd k s' m) c r' = open_parents E m c r"
  using assms by (auto simp: open_parents_def final_in_upd final_in_def)

text \<open>Propagation only ever touches blocked tasks.\<close>

definition only_blocked :: "store \<Rightarrow> store \<Rightarrow> bool" where
  "only_blocked m m' \<longleftrightarrow>
     (\<forall>k r. fmlookup m k = Some r \<longrightarrow> Status (task r) \<noteq> StatusBlocked \<longrightarrow> fmlookup m' k = Some r)"

lemma only_blocked_refl [simp]: "only_blocked m m"
  by (simp add: only_blocked_def)

lemma only_blocked_trans: "only_blocked m1 m2 \<Longrightarrow> only_blocked m2 m3 \<Longrightarrow> only_blocked m1 m3"
  unfolding only_blocked_def by blast

lemma only_blocked_upd:
  "fmlookup m k = Some r \<Longrightarrow> Status (task r) = StatusBlocked \<Longrightarrow> only_blocked m (fmupd k r' m)"
  by (auto simp: only_blocked_def)

text \<open>
  One visit removes its edge from the pending set; a cancelled child adds the edges to its
  own dependants, which the work queue will visit.
\<close>

lemma propagate_child_only_blocked:
  assumes inv: "edge_inv (insert (p, cid) E) m" and d: "dep m p cid" and fin: "final_in m p"
    and step: "propagate_child now p cid (m, ns, work) = (m', ns', work')"
  shows "only_blocked m m'"
proof -
  obtain pr where pr: "fmlookup m p = Some pr" using fin by (auto simp: final_in_def)
  obtain c where c: "fmlookup m cid = Some c" and pc: "p \<in> set (DependsOn (task c))"
    using d by (auto simp: dep_def)
  have "\<not> released_ok (insert (p, cid) E) m cid c" using pc by (auto simp: released_ok_def open_parents_def)
  then have st: "Status (task c) = StatusBlocked \<or> Status (task c) = StatusCanceled"
    using edge_inv_lookup(2) [OF inv c] by blast
  note upd = only_blocked_upd [OF c]
  from pr c show ?thesis
    by (cases rule: propagate_child_cases [where now = now and ns = ns and work = work])
      (use step upd st in auto)
qed

lemma propagate_child_edges:
  assumes inv: "edge_inv (insert (p, cid) E) m" and new: "(p, cid) \<notin> E"
    and d: "dep m p cid" and fin: "final_in m p"
    and step: "propagate_child now p cid (m, ns, work) = (m', ns', work')"
  shows "(work' = work \<and> edge_inv E m' \<and> final_in m' = final_in m) \<or>
    (work' = work @ [cid] \<and> \<not> final_in m cid \<and> edge_inv (E \<union> out_edges m cid) m' \<and>
     final_in m' = (final_in m)(cid := True))"
proof -
  obtain pr where pr: "fmlookup m p = Some pr" and pfin: "isFinal (Status (task pr))"
    using fin by (auto simp: final_in_def)
  obtain c where c: "fmlookup m cid = Some c" and pc: "p \<in> set (DependsOn (task c))"
    using d by (auto simp: dep_def)
  let ?op = "open_parents (insert (p, cid) E) m cid c"
  note ins = open_parents_insert [OF pc fin new]
  have not_rel: "\<not> released_ok (insert (p, cid) E) m cid c"
    using ins(1) by (auto simp: released_ok_def)
  have st: "Status (task c) = StatusBlocked \<or> Status (task c) = StatusCanceled"
    using edge_inv_lookup(2) [OF inv c] not_rel by blast
  note up = edge_inv_upd [OF inv c]
  from pr c show ?thesis
  proof (cases rule: propagate_child_cases [where now = now and ns = ns and work = work])
    case skip
    have can: "Status (task c) = StatusCanceled" using skip(1) pfin st by auto
    have "edge_inv E m"
    proof (rule edge_invI)
      fix x r assume x: "fmlookup m x = Some r"
      {
        assume "Status (task r) = StatusBlocked"
        moreover from this have "x \<noteq> cid" using x c can by auto
        ultimately show "blocked_ok E m x r" using edge_inv_lookup(1) [OF inv x]
          by (simp add: blocked_ok_def open_parents_def)
      next
        assume "Status (task r) \<noteq> StatusBlocked" "Status (task r) \<noteq> StatusCanceled"
        moreover from this have "x \<noteq> cid" using x c can by auto
        ultimately show "released_ok E m x r" using edge_inv_lookup(2) [OF inv x]
          by (simp add: released_ok_def open_parents_def)
      }
    qed
    then show ?thesis using skip step by simp
  next
    case (wake c')
    have b: "blocked_ok (insert (p, cid) E) m cid c" using edge_inv_lookup(1) [OF inv c wake(3)] .
    then have "card ?op = 1" using wake(4) by (auto simp: blocked_ok_def)
    then obtain x where "?op = {x}" by (rule card_1_singletonE)
    then have one: "?op = {p}" using ins(1) by simp
    have opn: "open_parents E (fmupd cid c' m) cid c' = {}"
      using open_parents_upd_same [OF c, of c' c' c E cid] wake(3,5) ins(2) one by simp
    have compl: "completed_in m q" if "OnParentFailure (task c) \<noteq> IgnoreParentFail"
      "q \<in> set (DependsOn (task c))" for q
    proof (cases "q = p")
      case True
      then show ?thesis using that(1) wake(2) pr by (simp add: satisfied_by_def completed_in_def)
    next
      case False
      then have "q \<in> set (DependsOn (task c)) - ?op" using that(2) one by simp
      then show ?thesis using b that(1) unfolding blocked_ok_def by blast
    qed
    have nf: "\<not> isFinal (Status (task c))" and st': "Status (task c') = StatusPending"
      using wake(3,5) by simp_all
    have same: "final_in (fmupd cid c' m) = final_in m"
      using wake(3,5) by (intro final_in_upd_same [OF c]) simp
    have "released_ok E (fmupd cid c' m) cid c'"
      using opn compl completed_in_upd_mono [OF c nf] wake(5) by (simp add: released_ok_def)
    then have "edge_inv E (fmupd cid c' m)"
      by (intro up [OF nf]) (simp_all add: same st')
    then show ?thesis using wake(6) step same by simp
  next
    case (count n)
    let ?c = "c\<lparr>pendingParents := n\<rparr>"
    have bl: "Status (task c) = StatusBlocked" using st count(3) by auto
    have b: "blocked_ok (insert (p, cid) E) m cid c" using edge_inv_lookup(1) [OF inv c bl] .
    have opn: "open_parents E (fmupd cid ?c m) cid ?c = ?op - {p}"
      using open_parents_upd_same [OF c, of ?c ?c c E cid] ins(2) by simp
    have n: "n = int (card (?op - {p}))" "0 < n"
      using b count(4,5) ins(1) bl by (auto simp: blocked_ok_def split: if_splits)
    have same: "final_in (fmupd cid ?c m) = final_in m"
      by (intro final_in_upd_same [OF c]) simp
    have "completed_in m q" if "OnParentFailure (task c) \<noteq> IgnoreParentFail"
      "q \<in> set (DependsOn (task c)) - (?op - {p})" for q
    proof (cases "q = p")
      case True
      then show ?thesis using that(1) count(2) pr by (simp add: satisfied_by_def completed_in_def)
    next
      case False
      then have "q \<in> set (DependsOn (task c)) - ?op" using that(2) by simp
      then show ?thesis using b that(1) unfolding blocked_ok_def by blast
    qed
    then have "blocked_ok E (fmupd cid ?c m) cid ?c"
      unfolding blocked_ok_def opn using n completed_in_upd_mono [OF c count(3)] by simp
    then have "edge_inv E (fmupd cid ?c m)"
      by (intro up [OF count(3)]) (use bl in \<open>simp_all add: same\<close>)
    then show ?thesis using count(6) step same by simp
  next
    case flag
    then show ?thesis using st by auto
  next
    case (cancel c')
    have fc: "\<not> final_in m cid" using c cancel(3) by (auto simp: final_in_def)
    have c': "Status (task c') = StatusCanceled" "DependsOn (task c') = DependsOn (task c)"
      "OnParentFailure (task c') = OnParentFailure (task c)"
      using cancel(5) by (simp_all add: canceled_child_def)
    then have "edge_inv (E \<union> out_edges m cid) (fmupd cid c' m)"
      by (intro edge_inv_finalize [OF inv c cancel(3)]) simp_all
    moreover have "final_in (fmupd cid c' m) = (final_in m)(cid := True)"
      using c' by (simp add: fun_eq_iff final_in_upd)
    ultimately show ?thesis using cancel(6) step fc by simp
  qed
qed

text \<open>
  The pending edges of the outer loop are the ones leaving the queued tasks; every queued
  task is final and is queued once.
\<close>

definition work_edges :: "store \<Rightarrow> id list \<Rightarrow> (id \<times> id) set" where
  "work_edges m work = (\<Union>q \<in> set work. out_edges m q)"

definition queue_ok :: "id list \<Rightarrow> store \<Rightarrow> bool" where
  "queue_ok work m \<longleftrightarrow> distinct work \<and> (\<forall>q \<in> set work. final_in m q)"

lemma work_edges_simps [simp]:
  "work_edges m [] = {}" "work_edges m (q # work) = out_edges m q \<union> work_edges m work"
  "work_edges m (work @ [q]) = work_edges m work \<union> out_edges m q"
  by (auto simp: work_edges_def)

lemma work_edges_evolves: "evolves m m' \<Longrightarrow> work_edges m' = work_edges m"
  by (simp add: work_edges_def out_edges_evolves fun_eq_iff)

lemma work_edges_iff: "(q, c) \<in> work_edges m work \<longleftrightarrow> q \<in> set work \<and> dep m q c"
  by (auto simp: work_edges_def out_edges_def)

lemma propagate_children_fold:
  assumes "edge_inv (work_edges m work \<union> {p} \<times> set cs) m" and "distinct cs"
    and "\<forall>c \<in> set cs. dep m p c" and "queue_ok (p # work) m"
    and "fold (propagate_child now p) cs (m, ns, work) = (m', ns', work')"
  shows "edge_inv (work_edges m' work') m' \<and> evolves m m' \<and> queue_ok (p # work') m' \<and> only_blocked m m'"
  using assms
proof (induction cs arbitrary: m ns work)
  case (Cons c cs)
  obtain m1 ns1 work1 where one: "propagate_child now p c (m, ns, work) = (m1, ns1, work1)"
    by (cases "propagate_child now p c (m, ns, work)")
  let ?E = "work_edges m work \<union> {p} \<times> set cs"
  have ev: "evolves m m1" using one by (rule propagate_child_evolves)
  have fin: "final_in m p" and nw: "p \<notin> set work" using Cons.prems(4) by (auto simp: queue_ok_def)
  have "work_edges m work \<union> {p} \<times> set (c # cs) = insert (p, c) ?E" by auto
  then have inv: "edge_inv (insert (p, c) ?E) m" using Cons.prems(1) by simp
  have new: "(p, c) \<notin> ?E" using nw Cons.prems(2) by (auto simp: work_edges_iff)
  have d: "dep m p c" using Cons.prems(3) by simp
  have "edge_inv (work_edges m1 work1 \<union> {p} \<times> set cs) m1 \<and> queue_ok (p # work1) m1"
    using propagate_child_edges [OF inv new d fin one]
  proof (elim disjE conjE)
    assume a: "work1 = work" "edge_inv ?E m1" "final_in m1 = final_in m"
    then show ?thesis using Cons.prems(4) by (simp add: work_edges_evolves [OF ev] queue_ok_def)
  next
    assume a: "work1 = work @ [c]" "\<not> final_in m c" "edge_inv (?E \<union> out_edges m c) m1"
      "final_in m1 = (final_in m)(c := True)"
    have "work_edges m1 work1 \<union> {p} \<times> set cs = ?E \<union> out_edges m c"
      using a(1) by (auto simp: work_edges_evolves [OF ev])
    then show ?thesis using a Cons.prems(4) by (auto simp: queue_ok_def)
  qed
  then have "edge_inv (work_edges m' work') m' \<and> evolves m1 m' \<and> queue_ok (p # work') m' \<and>
      only_blocked m1 m'"
    using Cons.prems(2,3,5) one by (intro Cons.IH [of m1 work1 ns1]) (simp_all add: dep_evolves [OF ev])
  then show ?case
    using ev evolves_trans propagate_child_only_blocked [OF inv d fin one] only_blocked_trans by blast
qed simp

lemma propagate_children_edges:
  assumes inv: "edge_inv (work_edges m (p # work)) m" and g: "graph_ok m"
    and q: "queue_ok (p # work) m"
    and step: "propagate_children now p (m, ns, work) = (m', ns', work')"
  shows "edge_inv (work_edges m' work') m' \<and> evolves m m' \<and> queue_ok work' m' \<and> only_blocked m m'"
proof -
  obtain pr where pr: "fmlookup m p = Some pr" using q by (auto simp: queue_ok_def final_in_def)
  then have ch: "distinct (children pr)" "set (children pr) = {c. dep m p c}"
    using g by (simp_all add: graph_ok_def)
  then have "work_edges m (p # work) = work_edges m work \<union> {p} \<times> set (children pr)"
    by (auto simp: out_edges_def)
  then have "edge_inv (work_edges m work \<union> {p} \<times> set (children pr)) m" using inv by simp
  moreover have "fold (propagate_child now p) (children pr) (m, ns, work) = (m', ns', work')"
    using step pr by (simp add: propagate_children_def)
  ultimately have "edge_inv (work_edges m' work') m' \<and> evolves m m' \<and> queue_ok (p # work') m' \<and>
      only_blocked m m'"
    using ch by (intro propagate_children_fold [OF _ ch(1) _ q]) auto
  then show ?thesis by (simp add: queue_ok_def)
qed

lemma propagateFinal_loop_edges:
  assumes "edge_inv (work_edges m work) m" and "graph_ok m" and "queue_ok work m"
    and "propagateFinal_loop now work m ns = (m', ns')"
  shows "edge_inv {} m' \<and> evolves m m' \<and> only_blocked m m'"
  using assms
proof (induction now work m ns rule: propagateFinal_loop.induct)
  case (2 now p work m ns)
  obtain m1 ns1 work1 where one: "propagate_children now p (m, ns, work) = (m1, ns1, work1)"
    by (cases "propagate_children now p (m, ns, work)")
  have *: "edge_inv (work_edges m1 work1) m1 \<and> evolves m m1 \<and> queue_ok work1 m1 \<and> only_blocked m m1"
    using propagate_children_edges [OF 2(2,3,4) one] .
  then have "edge_inv {} m' \<and> evolves m1 m' \<and> only_blocked m1 m'"
    using "2.IH" [OF one [symmetric] refl] "2.prems" one graph_ok_evolves [of m m1] by simp
  then show ?case using * evolves_trans only_blocked_trans by blast
qed simp

text \<open>Finishing one task and propagating restores the invariant.\<close>

lemma propagateFinal_edges:
  assumes inv: "edge_inv {} m" and g: "graph_ok m" and k: "fmlookup m k = Some r"
    and ev: "rec_evolves r r'" and nf: "\<not> isFinal (Status (task r))"
    and fin: "isFinal (Status (task r'))"
    and how: "Status (task r') = StatusCanceled \<or> Status (task r) \<noteq> StatusBlocked"
    and step: "mem_propagateFinal k now (fmupd k r' m) ns = (m', ns')"
  shows "edge_inv {} m'" and "evolves m m'" and "evolves (fmupd k r' m) m'"
    and "only_blocked (fmupd k r' m) m'"
proof -
  let ?m = "fmupd k r' m"
  have sh: "DependsOn (task r') = DependsOn (task r)"
    "OnParentFailure (task r') = OnParentFailure (task r)"
    using shape_fields [OF evolves_shape [OF ev]] by simp_all
  have evm: "evolves m ?m" using k ev by (rule evolves_upd)
  have "edge_inv ({} \<union> out_edges m k) ?m"
    by (rule edge_inv_finalize [OF inv k nf fin sh]) (use how in auto)
  then have "edge_inv (work_edges ?m [k]) ?m"
    using out_edges_evolves [OF evm] by simp
  moreover have "queue_ok [k] ?m" using fin by (simp add: queue_ok_def final_in_upd)
  ultimately have "edge_inv {} m' \<and> evolves ?m m' \<and> only_blocked ?m m'"
    using propagateFinal_loop_edges [of ?m "[k]" now ns m' ns'] graph_ok_evolves [OF evm g] step
    by (simp add: mem_propagateFinal_def)
  then show "edge_inv {} m'" "evolves ?m m'" "evolves m m'" "only_blocked ?m m'"
    using evm evolves_trans by blast+
qed

end
