(* ===== verification/Memory_Inv.thy ===== *)
theory Memory_Inv
  imports Memory_Graph
begin

text \<open>
  The invariant of the in-memory broker and its preservation by every operation: an exact
  dependency graph, exact counters, a lease exactly on the running tasks, and for every
  business key a chain of executions in which all but the last are finished and replayed.
\<close>

section \<open>The invariant\<close>

definition lease_rec :: "mrec \<Rightarrow> bool" where
  "lease_rec r \<longleftrightarrow>
     (Status (task r) = StatusRunning \<longleftrightarrow> LeaseToken (task r) \<noteq> '''') \<and>
     (Status (task r) \<noteq> StatusRunning \<longrightarrow> leaseUntil r = zero_time)"

definition lease_ok :: "store \<Rightarrow> bool" where
  "lease_ok m \<longleftrightarrow> (\<forall>k r. fmlookup m k = Some r \<longrightarrow> lease_rec r)"

definition is_replayed :: "(id, bool) fmap \<Rightarrow> id \<Rightarrow> bool" where
  "is_replayed rp k \<longleftrightarrow> fmlookup rp k = Some True"

fun chain_links :: "store \<Rightarrow> id \<Rightarrow> id list \<Rightarrow> bool" where
  "chain_links m prev [] \<longleftrightarrow> True"
| "chain_links m prev (i # is) \<longleftrightarrow>
     (case fmlookup m i of None \<Rightarrow> False | Some r \<Rightarrow> ReplayOf (task r) = prev) \<and> chain_links m i is"

definition one_chain :: "store \<Rightarrow> (id, bool) fmap \<Rightarrow> string \<Rightarrow> id list \<Rightarrow> bool" where
  "one_chain m rp key is \<longleftrightarrow>
     key \<noteq> '''' \<and> is \<noteq> [] \<and> distinct is \<and> chain_links m '''' is \<and>
     (\<forall>i \<in> set is. \<exists>r. fmlookup m i = Some r \<and> BusinessKey (task r) = key) \<and>
     (\<forall>i \<in> set (butlast is). is_replayed rp i) \<and> \<not> is_replayed rp (last is)"

definition chains_ok :: "mbroker \<Rightarrow> bool" where
  "chains_ok b \<longleftrightarrow>
     (\<forall>key is. fmlookup (chains b) key = Some is \<longrightarrow> one_chain (recs b) (replayed b) key is) \<and>
     (\<forall>k r. fmlookup (recs b) k = Some r \<longrightarrow> BusinessKey (task r) \<noteq> '''' \<longrightarrow>
        k \<in> set (chain_of b (BusinessKey (task r)))) \<and>
     (\<forall>k. is_replayed (replayed b) k \<longrightarrow> final_in (recs b) k)"

text \<open>The dependencies are acyclic: they have a topological numbering.\<close>

definition ranked :: "store \<Rightarrow> bool" where
  "ranked m \<longleftrightarrow> (\<exists>rank :: id \<Rightarrow> nat. \<forall>q c. dep m q c \<longrightarrow> rank q < rank c)"

definition minv :: "mbroker \<Rightarrow> bool" where
  "minv b \<longleftrightarrow> graph_ok (recs b) \<and> edge_inv {} (recs b) \<and> ranked (recs b) \<and>
     lease_ok (recs b) \<and> chains_ok b"

text \<open>
  Every operation but \<open>Enqueue\<close> and \<open>Replay\<close> only evolves the stored records; what it
  must keep besides is the part of the invariant about counters and leases.  \<open>claims token\<close>
  says that \<open>token\<close> is the only lease token that appears.
\<close>

definition claims :: "string \<Rightarrow> store \<Rightarrow> store \<Rightarrow> bool" where
  "claims token m m' \<longleftrightarrow>
     (\<forall>k r'. fmlookup m' k = Some r' \<longrightarrow> LeaseToken (task r') \<noteq> '''' \<longrightarrow>
        LeaseToken (task r') = token \<or>
        (\<exists>r. fmlookup m k = Some r \<and> LeaseToken (task r) = LeaseToken (task r')))"

definition store_step :: "string \<Rightarrow> mbroker \<Rightarrow> mbroker \<Rightarrow> bool" where
  "store_step token b b' \<longleftrightarrow> evolves (recs b) (recs b') \<and> edge_inv {} (recs b') \<and>
     lease_ok (recs b') \<and> claims token (recs b) (recs b') \<and>
     chains b' = chains b \<and> replayed b' = replayed b \<and> opts b' = opts b \<and>
     inited b' = inited b \<and> closed b' = closed b \<and> quota b' = quota b"

lemma minvD:
  "minv b \<Longrightarrow> graph_ok (recs b)" "minv b \<Longrightarrow> edge_inv {} (recs b)"
  "minv b \<Longrightarrow> ranked (recs b)" "minv b \<Longrightarrow> lease_ok (recs b)" "minv b \<Longrightarrow> chains_ok b"
  by (simp_all add: minv_def)

lemma claims_refl [simp]: "claims token m m"
  by (simp add: claims_def)

lemma claims_trans: "claims '''' m1 m2 \<Longrightarrow> claims '''' m2 m3 \<Longrightarrow> claims '''' m1 m3"
  unfolding claims_def by metis

lemma claims_upd:
  assumes "claims token m0 m" and "fmlookup m k = Some r"
    and "LeaseToken (task r') \<in> {'''', token, LeaseToken (task r)}"
  shows "claims token m0 (fmupd k r' m)"
  using assms unfolding claims_def by (auto split: if_splits) metis+

lemma store_step_refl: "minv b \<Longrightarrow> store_step token b b"
  by (simp add: store_step_def minvD)

lemma store_stepI:
  assumes "evolves (recs b) m'" and "edge_inv {} m'" and "lease_ok m'" and "claims token (recs b) m'"
  shows "store_step token b (b\<lparr>recs := m'\<rparr>)" "store_step token b (mem_broadcast (b\<lparr>recs := m'\<rparr>))"
  using assms by (simp_all add: store_step_def mem_broadcast_def)

lemma lease_okD: "lease_ok m \<Longrightarrow> fmlookup m k = Some r \<Longrightarrow> lease_rec r"
  by (simp add: lease_ok_def)

lemma lease_ok_upd: "lease_ok m \<Longrightarrow> lease_rec r \<Longrightarrow> lease_ok (fmupd k r m)"
  by (simp add: lease_ok_def)

lemma chains_okD:
  assumes "chains_ok b"
  shows "fmlookup (chains b) key = Some is \<Longrightarrow> one_chain (recs b) (replayed b) key is"
    and "fmlookup (recs b) k = Some r \<Longrightarrow> BusinessKey (task r) \<noteq> '''' \<Longrightarrow>
      k \<in> set (chain_of b (BusinessKey (task r)))"
    and "is_replayed (replayed b) k \<Longrightarrow> final_in (recs b) k"
  using assms by (simp_all add: chains_ok_def)

lemma one_chainD:
  assumes "one_chain m rp key is"
  shows "key \<noteq> ''''" "is \<noteq> []" "distinct is" "chain_links m '''' is"
    and "i \<in> set is \<Longrightarrow> \<exists>r. fmlookup m i = Some r \<and> BusinessKey (task r) = key"
    and "i \<in> set (butlast is) \<Longrightarrow> is_replayed rp i" "\<not> is_replayed rp (last is)"
  using assms by (simp_all add: one_chain_def)

text \<open>Chains only look at the identity fields of the records.\<close>

definition same_ident :: "store \<Rightarrow> store \<Rightarrow> bool" where
  "same_ident m m' \<longleftrightarrow> (\<forall>k r. fmlookup m k = Some r \<longrightarrow>
     (\<exists>r'. fmlookup m' k = Some r' \<and> ReplayOf (task r') = ReplayOf (task r) \<and>
        BusinessKey (task r') = BusinessKey (task r)))"

lemma evolves_same_ident: "evolves m m' \<Longrightarrow> same_ident m m'"
  unfolding same_ident_def by (metis evolves_lookup evolves_shape shape_fields(2,3))

lemma chain_links_mono:
  assumes si: "same_ident m m'" and "chain_links m prev is"
  shows "chain_links m' prev is"
  using assms(2)
proof (induction "is" arbitrary: prev)
  case (Cons i "is")
  then obtain r where r: "fmlookup m i = Some r" "ReplayOf (task r) = prev" "chain_links m i is"
    by (auto split: option.splits)
  then obtain r' where "fmlookup m' i = Some r'" "ReplayOf (task r') = ReplayOf (task r)"
    using si unfolding same_ident_def by blast
  then show ?case using r Cons.IH by simp
qed simp

lemma one_chain_mono:
  assumes si: "same_ident m m'" and one: "one_chain m rp key is"
    and rp: "\<And>i. i \<in> set is \<Longrightarrow> is_replayed rp' i = is_replayed rp i"
  shows "one_chain m' rp' key is"
proof -
  have "\<exists>r'. fmlookup m' i = Some r' \<and> BusinessKey (task r') = key" if i: "i \<in> set is" for i
    using one_chainD(5) [OF one i] si unfolding same_ident_def by metis
  then show ?thesis using one chain_links_mono [OF si] rp in_set_butlastD [of _ "is"]
    by (simp add: one_chain_def)
qed

lemma chain_of_cong: "chains b' = chains b \<Longrightarrow> chain_of b' = chain_of b"
  by (simp add: chain_of_def fun_eq_iff)

lemma chains_ok_step:
  assumes ok: "chains_ok b" and s: "store_step token b b'"
  shows "chains_ok b'"
proof -
  have ev: "evolves (recs b) (recs b')" and ch: "chains b' = chains b" "replayed b' = replayed b"
    using s by (simp_all add: store_step_def)
  have "k \<in> set (chain_of b' (BusinessKey (task r')))"
    if k: "fmlookup (recs b') k = Some r'" and "BusinessKey (task r') \<noteq> ''''" for k r'
  proof -
    obtain r where r: "fmlookup (recs b) k = Some r" and "rec_evolves r r'"
      using evolves_lookup_back [OF ev k] by blast
    then have "BusinessKey (task r') = BusinessKey (task r)"
      using shape_fields(2) [OF evolves_shape] by blast
    then show ?thesis using chains_okD(2) [OF ok r] that(2) chain_of_cong [OF ch(1)] by simp
  qed
  then show ?thesis
    using ok one_chain_mono [OF evolves_same_ident [OF ev], OF _ refl] final_in_mono [OF ev]
    by (auto simp: chains_ok_def ch)
qed

lemma ranked_evolves: "evolves m m' \<Longrightarrow> ranked m' = ranked m"
  by (simp add: ranked_def dep_evolves)

lemma minv_step: "minv b \<Longrightarrow> store_step token b b' \<Longrightarrow> minv b'"
  unfolding minv_def by (auto simp: chains_ok_step ranked_evolves store_step_def intro: graph_ok_evolves)

section \<open>Updating one live record\<close>

lemma edge_inv_upd_live:
  assumes inv: "edge_inv E m" and k: "fmlookup m k = Some r"
    and "\<not> isFinal (Status (task r))" and "\<not> isFinal (Status (task r'))"
    and "Status (task r) \<noteq> StatusBlocked" and "Status (task r') \<noteq> StatusBlocked"
    and sh: "shape r' = shape r"
  shows "edge_inv E (fmupd k r' m)"
proof (rule edge_inv_upd [OF inv k assms(3)])
  have fin: "final_in (fmupd k r' m) = final_in m"
    using assms(3,4) by (intro final_in_upd_same [OF k]) simp
  then show "(\<not> final_in (fmupd k r' m) q \<or> (q, c) \<in> E) = (\<not> final_in m q \<or> (q, c) \<in> E)" for q c
    by simp
  have "released_ok E m k r"
    using edge_inv_lookup(2) [OF inv k assms(5)] assms(3) by (auto simp: isFinal_def)
  then show "released_ok E (fmupd k r' m) k r'"
    using shape_fields(5,7) [OF sh] completed_in_upd_mono [OF k assms(3)]
    by (auto simp: released_ok_def open_parents_def fin)
qed (use assms in simp)

lemma live_step:
  assumes inv: "minv b" and k: "fmlookup (recs b) k = Some r" and ev: "rec_evolves r r'"
    and st: "Status (task r) \<in> {StatusPending, StatusRunning, StatusRetrying}"
      "Status (task r') \<in> {StatusPending, StatusRunning, StatusRetrying}"
    and l: "lease_rec r'" and tk: "LeaseToken (task r') \<in> {'''', token, LeaseToken (task r)}"
  shows "store_step token b (put_rec k r' b)" "store_step token b (mem_broadcast (put_rec k r' b))"
proof -
  have "edge_inv {} (fmupd k r' (recs b))"
    using st by (intro edge_inv_upd_live [OF minvD(2) [OF inv] k] evolves_shape ev) auto
  then show "store_step token b (put_rec k r' b)" "store_step token b (mem_broadcast (put_rec k r' b))"
    using store_stepI [OF evolves_upd [OF k ev]] lease_ok_upd [OF minvD(4) [OF inv] l]
      claims_upd [OF claims_refl k tk]
    by (simp_all add: put_rec_def)
qed

section \<open>Finishing one record\<close>

text \<open>A fact about store and snapshots that every visit of a child keeps holds at the end.\<close>

lemma propagateFinal_loop_keeps:
  assumes keep: "\<And>now p c m ns work m' ns' work'. P m ns \<Longrightarrow>
      propagate_child now p c (m, ns, work) = (m', ns', work') \<Longrightarrow> P m' ns'"
  shows "P m ns \<Longrightarrow> propagateFinal_loop now work m ns = (m', ns') \<Longrightarrow> P m' ns'"
proof (induction now work m ns rule: propagateFinal_loop.induct)
  case (2 now p work m ns)
  have fold: "fold (propagate_child now p) cs (m, ns, work) = (m1, ns1, work1) \<Longrightarrow> P m ns \<Longrightarrow> P m1 ns1"
    for cs m ns work m1 ns1 work1
  proof (induction cs arbitrary: m ns work)
    case (Cons c cs)
    obtain m2 ns2 work2 where "propagate_child now p c (m, ns, work) = (m2, ns2, work2)"
      by (cases "propagate_child now p c (m, ns, work)")
    moreover from this have "P m2 ns2" using Cons.prems(2) by (rule keep [rotated])
    ultimately show ?case using Cons.IH [of m2 ns2 work2] Cons.prems(1) by simp
  qed simp
  obtain m1 ns1 work1 where one: "propagate_children now p (m, ns, work) = (m1, ns1, work1)"
    by (cases "propagate_children now p (m, ns, work)")
  then have "P m1 ns1"
    using "2.prems"(1) fold by (auto simp: propagate_children_def split: option.splits)
  then show ?case using "2.IH" [OF one [symmetric] refl] "2.prems"(2) one by simp
qed simp

lemma propagate_child_lease:
  assumes ok: "lease_ok m" and "propagate_child now p cid (m, ns, work) = (m', ns', work')"
  shows "lease_ok m'"
proof (cases "fmlookup m p = None \<or> fmlookup m cid = None")
  case True
  then show ?thesis using assms by (simp add: propagate_child_missing)
next
  case False
  then obtain pr c where pr: "fmlookup m p = Some pr" and c: "fmlookup m cid = Some c" by auto
  note l = lease_okD [OF ok c] and upd = lease_ok_upd [OF ok, of _ cid]
  from pr c show ?thesis
  proof (cases rule: propagate_child_cases [where now = now and ns = ns and work = work])
    case skip
    then show ?thesis using assms by simp
  next
    case (wake c')
    then have "lease_rec c'" using l by (simp add: lease_rec_def)
    then show ?thesis using assms(2) wake(6) upd by auto
  next
    case (count n)
    have "lease_rec (c\<lparr>pendingParents := n\<rparr>)" using l by (simp add: lease_rec_def)
    then show ?thesis using assms(2) count(6) upd by auto
  next
    case flag
    have "lease_rec (c\<lparr>cancelRequested := True\<rparr>)" using l by (simp add: lease_rec_def)
    then show ?thesis using assms(2) flag(4) upd by auto
  next
    case (cancel c')
    then have "lease_rec c'" by (simp add: lease_rec_def canceled_child_def)
    then show ?thesis using assms(2) cancel(6) upd by auto
  qed
qed

lemma propagate_child_claims:
  assumes ok: "claims '''' m0 m" and "propagate_child now p cid (m, ns, work) = (m', ns', work')"
  shows "claims '''' m0 m'"
proof (cases "fmlookup m p = None \<or> fmlookup m cid = None")
  case True
  then show ?thesis using assms by (simp add: propagate_child_missing)
next
  case False
  then obtain pr c where pr: "fmlookup m p = Some pr" and c: "fmlookup m cid = Some c" by auto
  note upd = claims_upd [OF ok c]
  from pr c show ?thesis
  proof (cases rule: propagate_child_cases [where now = now and ns = ns and work = work])
    case (wake c')
    then show ?thesis using assms(2) upd [of c'] by auto
  next
    case (count n)
    then show ?thesis using assms(2) upd [of "c\<lparr>pendingParents := n\<rparr>"] by auto
  next
    case flag
    then show ?thesis using assms(2) upd [of "c\<lparr>cancelRequested := True\<rparr>"] by auto
  next
    case (cancel c')
    then show ?thesis using assms(2) upd [of c'] by (auto simp: canceled_child_def)
  qed (use assms in simp)
qed

text \<open>
  \<open>tracked m0 m ns\<close>: every task that differs between the two stores has been handed to the
  notification callback in its present form.
\<close>

definition tracked :: "store \<Rightarrow> store \<Rightarrow> task list \<Rightarrow> bool" where
  "tracked m0 m ns \<longleftrightarrow>
     (\<forall>k r. fmlookup m k = Some r \<longrightarrow>
        (\<exists>r0. fmlookup m0 k = Some r0 \<and> task r = task r0) \<or> cloneTask (task r) \<in> set ns)"

lemma tracked_refl [simp]: "tracked m m ns"
  by (simp add: tracked_def)

lemma tracked_notify: "tracked m0 m ns \<Longrightarrow> tracked m0 (fmupd k r m) (ns @ [cloneTask (task r)])"
  by (auto simp: tracked_def)

lemma tracked_silent:
  assumes "tracked m0 m ns" and "fmlookup m k = Some r" and "task r' = task r"
  shows "tracked m0 (fmupd k r' m) ns"
  unfolding tracked_def
proof (intro allI impI)
  fix j s assume "fmlookup (fmupd k r' m) j = Some s"
  moreover have "(\<exists>r0. fmlookup m0 k = Some r0 \<and> task r = task r0) \<or> cloneTask (task r) \<in> set ns"
    using assms(1,2) by (simp add: tracked_def)
  ultimately show "(\<exists>r0. fmlookup m0 j = Some r0 \<and> task s = task r0) \<or> cloneTask (task s) \<in> set ns"
    using assms(1,3) by (auto simp: tracked_def split: if_splits)
qed

lemma propagate_child_tracked:
  assumes "tracked m0 m ns" and "propagate_child now p cid (m, ns, work) = (m', ns', work')"
  shows "tracked m0 m' ns'"
proof (cases "fmlookup m p = None \<or> fmlookup m cid = None")
  case True
  then show ?thesis using assms by (simp add: propagate_child_missing)
next
  case False
  then obtain pr c where pr: "fmlookup m p = Some pr" and c: "fmlookup m cid = Some c" by auto
  note notify = tracked_notify [OF assms(1), of cid] and silent = tracked_silent [OF assms(1) c]
  from pr c show ?thesis
  proof (cases rule: propagate_child_cases [where now = now and ns = ns and work = work])
    case (count n)
    then show ?thesis using assms(2) silent [of "c\<lparr>pendingParents := n\<rparr>"] by simp
  next
    case flag
    then show ?thesis using assms(2) silent [of "c\<lparr>cancelRequested := True\<rparr>"] by simp
  next
    case (wake c')
    then show ?thesis using assms(2) notify [of c'] by simp
  next
    case (cancel c')
    then show ?thesis using assms(2) notify [of c'] by simp
  qed (use assms in simp)
qed

lemma propagateFinal_lease:
  "lease_ok m \<Longrightarrow> mem_propagateFinal k now m ns = (m', ns') \<Longrightarrow> lease_ok m'"
  unfolding mem_propagateFinal_def
  by (rule propagateFinal_loop_keeps [where P = "\<lambda>m ns. lease_ok m"]) (rule propagate_child_lease)

lemma propagateFinal_claims:
  "claims '''' m0 m \<Longrightarrow> mem_propagateFinal k now m ns = (m', ns') \<Longrightarrow> claims '''' m0 m'"
  unfolding mem_propagateFinal_def
  by (rule propagateFinal_loop_keeps [where P = "\<lambda>m ns. claims '''' m0 m"]) (rule propagate_child_claims)

lemma propagateFinal_tracked:
  "tracked m0 m ns \<Longrightarrow> mem_propagateFinal k now m ns = (m', ns') \<Longrightarrow> tracked m0 m' ns'"
  unfolding mem_propagateFinal_def
  by (rule propagateFinal_loop_keeps [where P = "tracked m0"]) (rule propagate_child_tracked)

text \<open>The step every transition into a final state makes.\<close>

lemma finish_step:
  assumes inv: "minv b" and k: "fmlookup (recs b) k = Some r" and ev: "rec_evolves r r'"
    and nf: "\<not> isFinal (Status (task r))" and fin: "isFinal (Status (task r'))"
    and how: "Status (task r') = StatusCanceled \<or> Status (task r) \<noteq> StatusBlocked"
    and l: "lease_rec r'" and step: "finish_rec k now r' b = (b', ns)"
  shows "store_step '''' b b'" and "tracked (recs b) (recs b') ns"
    and "wakes b' = Suc (wakes b)" and "evolves (fmupd k r' (recs b)) (recs b')"
    and "only_blocked (fmupd k r' (recs b)) (recs b')"
proof -
  obtain m' where m': "mem_propagateFinal k now (fmupd k r' (recs b)) [cloneTask (task r')] = (m', ns)"
    and b': "b' = mem_broadcast (b\<lparr>recs := m'\<rparr>)"
    using step by (auto simp: finish_rec_def split: prod.splits)
  note edges = propagateFinal_edges [OF minvD(2) [OF inv] minvD(1) [OF inv] k ev nf fin how m']
  have "lease_ok m'"
    by (rule propagateFinal_lease [OF _ m']) (rule lease_ok_upd [OF minvD(4) [OF inv] l])
  moreover have "claims '''' (recs b) m'"
    using l fin by (intro propagateFinal_claims [OF claims_upd [OF claims_refl k] m'])
      (auto simp: lease_rec_def)
  ultimately show "store_step '''' b b'" unfolding b' using edges by (intro store_stepI(2))
  have "tracked (recs b) (fmupd k r' (recs b)) ([] @ [cloneTask (task r')])"
    by (rule tracked_notify) simp
  then have "tracked (recs b) m' ns" using m' propagateFinal_tracked by simp
  then show "tracked (recs b) (recs b') ns" by (simp add: b' mem_broadcast_def)
  show "wakes b' = Suc (wakes b)" "evolves (fmupd k r' (recs b)) (recs b')"
    "only_blocked (fmupd k r' (recs b)) (recs b')"
    using edges by (simp_all add: b' mem_broadcast_def)
qed

section \<open>The operations on a held lease\<close>

lemma checkLease_iff:
  "mem_checkLease b i token = Inr r \<longleftrightarrow>
     fmlookup (recs b) i = Some r \<and> Status (task r) = StatusRunning \<and> token \<noteq> '''' \<and>
     LeaseToken (task r) = token"
  by (auto simp: mem_checkLease_def split: option.splits)

lemma setStatus_iff:
  "mem_setStatus r to = Inr r' \<longleftrightarrow>
     canTransition (Status (task r)) to \<and> r' = r\<lparr>task := (task r)\<lparr>Status := to\<rparr>\<rparr>"
  by (auto simp: mem_setStatus_def Let_def)

lemma setStatus_running [simp]:
  "Status (task r) = StatusRunning \<Longrightarrow> canTransition StatusRunning to \<Longrightarrow>
   mem_setStatus r to = Inr (r\<lparr>task := (task r)\<lparr>Status := to\<rparr>\<rparr>)"
  by (simp add: mem_setStatus_def Let_def)

definition acked_rec :: "time \<Rightarrow> bytes \<Rightarrow> mrec \<Rightarrow> mrec" where
  "acked_rec now result r = r\<lparr>task := (task r)\<lparr>Status := StatusCompleted,
     Result := (if result \<noteq> None then clone_bytes result else Result (task r)),
     FinishedAt := now, LeaseToken := ''''\<rparr>, leaseUntil := zero_time, cancelRequested := False\<rparr>"

definition failed_rec :: "time \<Rightarrow> task \<Rightarrow> mrec \<Rightarrow> mrec" where
  "failed_rec now t r = r\<lparr>task := t\<lparr>Status := StatusFailed, FinishedAt := now, LeaseToken := ''''\<rparr>,
     leaseUntil := zero_time, cancelRequested := False\<rparr>"

definition retry_rec :: "time \<Rightarrow> task \<Rightarrow> mrec \<Rightarrow> mrec" where
  "retry_rec runAt t r = r\<lparr>task := t\<lparr>Status := StatusRetrying, RunAt := trunc_ms runAt,
     LeaseToken := ''''\<rparr>, leaseUntil := zero_time\<rparr>"

definition cancel_rec :: "time \<Rightarrow> mrec \<Rightarrow> mrec" where
  "cancel_rec now r = r\<lparr>task := (task r)\<lparr>Status := StatusCanceled, LastError := ''canceled'',
     FinishedAt := now, LeaseToken := ''''\<rparr>, leaseUntil := zero_time\<rparr>"

definition requeued_rec :: "mrec \<Rightarrow> mrec" where
  "requeued_rec r = r\<lparr>task := (task r)\<lparr>Status := StatusPending, LeaseToken := ''''\<rparr>,
     leaseUntil := zero_time, cancelRequested := False\<rparr>"

lemmas record_defs = acked_rec_def failed_rec_def retry_rec_def cancel_rec_def requeued_rec_def

text \<open>Each operation under its lease check, in one equation.\<close>

lemma Ack_ok:
  assumes "mem_requireInit b = None" and "mem_checkLease b i token = Inr r"
  shows "mem_Ack clk i token result b =
    (case finish_rec i (trunc_ms clk) (acked_rec (trunc_ms clk) result r) b of
       (b', ns) \<Rightarrow> (b', ns, Inr ()))"
proof -
  have "Status (task r) = StatusRunning" using assms(2) by (simp add: checkLease_iff)
  then show ?thesis using assms
    by (cases "result = None")
      (simp_all add: mem_Ack_def Let_def mem_clearLease_def acked_rec_def)
qed

lemma FinishCanceled_ok:
  assumes "mem_requireInit b = None" and "mem_checkLease b i token = Inr r"
  shows "mem_FinishCanceled clk i token b =
    (case finish_rec i (trunc_ms clk) ((cancel_rec (trunc_ms clk) r)\<lparr>cancelRequested := False\<rparr>) b of
       (b', ns) \<Rightarrow> (b', ns, Inr ()))"
proof -
  have "Status (task r) = StatusRunning" using assms(2) by (simp add: checkLease_iff)
  then show ?thesis using assms
    by (simp add: mem_FinishCanceled_def Let_def mem_clearLease_def cancel_rec_def canceled_rec_def)
qed

lemma Requeue_ok:
  assumes "mem_requireInit b = None" and "mem_checkLease b i token = Inr r"
  shows "mem_Requeue i token b =
    (mem_broadcast (put_rec i (requeued_rec r) b), [cloneTask (task (requeued_rec r))], Inr ())"
proof -
  have "Status (task r) = StatusRunning" using assms(2) by (simp add: checkLease_iff)
  then show ?thesis using assms
    by (simp add: mem_Requeue_def Let_def mem_clearLease_def requeued_rec_def)
qed

lemma fail_counts_keeps:
  assumes "fail_counts tm kind msg t = (t', x)"
  shows "t' = t\<lparr>LastError := LastError t', Attempts := Attempts t', Throttled := Throttled t'\<rparr>"
    and "Attempts t \<le> Attempts t'" and "Throttled t \<le> Throttled t'"
  using assms by (auto simp: fail_counts_def Let_def split: failKind.splits if_splits)

lemma Fail_ok:
  assumes "mem_requireInit b = None" and "mem_checkLease b i token = Inr r"
    and "fail_counts (ThrottledMax (opts b)) kind msg (task r) = (t, Inr toFailed)"
  shows "mem_Fail clk i token msg kind retryAt b =
    (if toFailed
     then (case finish_rec i (trunc_ms clk) (failed_rec (trunc_ms clk) t r) b of
             (b', ns) \<Rightarrow> (b', ns, Inr ()))
     else let r' = retry_rec (if isZero retryAt then trunc_ms clk else retryAt) t r
          in (mem_broadcast (put_rec i r' b), [cloneTask (task r')], Inr ()))"
proof -
  have "Status (task r) = StatusRunning" using assms(2) by (simp add: checkLease_iff)
  then have "Status t = StatusRunning" using fail_counts_keeps(1) [OF assms(3)]
    by (metis task.select_convs(7) task.surjective task.update_convs(9,10,13))
  then show ?thesis using assms
    by (simp add: mem_Fail_def Let_def mem_clearLease_def failed_rec_def retry_rec_def)
qed

lemma running_rec:
  assumes inv: "minv b" and c: "mem_checkLease b i token = Inr r"
  shows "fmlookup (recs b) i = Some r" "Status (task r) = StatusRunning" "lease_rec r"
  using assms lease_okD [OF minvD(4)] by (auto simp: checkLease_iff)

lemma finish_running:
  assumes inv: "minv b" and c: "mem_checkLease b i token = Inr r" and ev: "rec_evolves r r'"
    and fin: "isFinal (Status (task r'))" and l: "lease_rec r'"
    and step: "finish_rec i now r' b = (b', ns)"
  shows "store_step '''' b b' \<and> tracked (recs b) (recs b') ns"
  using finish_step [OF inv running_rec(1) [OF inv c] ev _ fin _ l step] running_rec(2) [OF inv c]
  by simp

lemma op_guards:
  fixes f :: "mbroker \<Rightarrow> unit mresult"
  assumes "minv b" and "f b = (b', ns, res)"
    and "\<And>e. mem_requireInit b = Some e \<Longrightarrow> f b = (b, [], Inl e)"
    and "\<And>e. mem_requireInit b = None \<Longrightarrow> mem_checkLease b i token = Inl e \<Longrightarrow> f b = (b, [], Inl e)"
    and "\<And>r. mem_requireInit b = None \<Longrightarrow> mem_checkLease b i token = Inr r \<Longrightarrow>
      store_step '''' b b' \<and> tracked (recs b) (recs b') ns"
  shows "store_step '''' b b' \<and> tracked (recs b) (recs b') ns"
  using assms store_step_refl [OF assms(1)]
  by (cases "mem_requireInit b"; cases "mem_checkLease b i token") auto

lemma Ack_step:
  assumes inv: "minv b" and step: "mem_Ack clk i token result b = (b', ns, res)"
  shows "store_step '''' b b' \<and> tracked (recs b) (recs b') ns"
proof (rule op_guards [OF inv, of "mem_Ack clk i token result"])
  fix r assume g: "mem_requireInit b = None" and c: "mem_checkLease b i token = Inr r"
  note r = running_rec [OF inv c]
  let ?r = "acked_rec (trunc_ms clk) result r"
  have "rec_evolves r ?r"
    using r(2) by (intro rec_evolvesI) (simp_all add: acked_rec_def shape_def)
  moreover have "isFinal (Status (task ?r))" "lease_rec ?r" by (simp_all add: acked_rec_def lease_rec_def)
  ultimately show "store_step '''' b b' \<and> tracked (recs b) (recs b') ns"
    using finish_running [OF inv c, of ?r] step
    by (auto simp: Ack_ok [OF g c] split: prod.splits)
qed (use step in \<open>simp_all add: mem_Ack_def\<close>)

lemma FinishCanceled_step:
  assumes inv: "minv b" and step: "mem_FinishCanceled clk i token b = (b', ns, res)"
  shows "store_step '''' b b' \<and> tracked (recs b) (recs b') ns"
proof (rule op_guards [OF inv, of "mem_FinishCanceled clk i token"])
  fix r assume g: "mem_requireInit b = None" and c: "mem_checkLease b i token = Inr r"
  note r = running_rec [OF inv c]
  let ?r = "(cancel_rec (trunc_ms clk) r)\<lparr>cancelRequested := False\<rparr>"
  have "rec_evolves r ?r"
    using r(2) by (intro rec_evolvesI) (simp_all add: cancel_rec_def shape_def)
  moreover have "isFinal (Status (task ?r))" "lease_rec ?r" by (simp_all add: cancel_rec_def lease_rec_def)
  ultimately show "store_step '''' b b' \<and> tracked (recs b) (recs b') ns"
    using finish_running [OF inv c, of ?r] step
    by (auto simp: FinishCanceled_ok [OF g c] split: prod.splits)
qed (use step in \<open>simp_all add: mem_FinishCanceled_def\<close>)

lemma tracked_put: "tracked (recs b) (recs (mem_broadcast (put_rec i r b))) [cloneTask (task r)]"
  using tracked_notify [of "recs b" "recs b" "[]" i r] by (simp add: put_rec_def mem_broadcast_def)

lemma Requeue_step:
  assumes inv: "minv b" and step: "mem_Requeue i token b = (b', ns, res)"
  shows "store_step '''' b b' \<and> tracked (recs b) (recs b') ns"
proof (rule op_guards [OF inv, of "mem_Requeue i token"])
  fix r assume g: "mem_requireInit b = None" and c: "mem_checkLease b i token = Inr r"
  note r = running_rec [OF inv c]
  let ?r = "requeued_rec r"
  have ev: "rec_evolves r ?r"
    using r(2) by (intro rec_evolvesI) (simp_all add: requeued_rec_def shape_def)
  have "store_step '''' b (mem_broadcast (put_rec i ?r b))"
    using r(2) by (intro live_step(2) [OF inv r(1) ev]) (simp_all add: requeued_rec_def lease_rec_def)
  then show "store_step '''' b b' \<and> tracked (recs b) (recs b') ns"
    using step tracked_put [of b i ?r] by (auto simp: Requeue_ok [OF g c])
qed (use step in \<open>simp_all add: mem_Requeue_def\<close>)

lemma Heartbeat_step:
  assumes inv: "minv b" and step: "mem_Heartbeat clk i token b = (b', ns, res)"
  shows "store_step '''' b b' \<and> tracked (recs b) (recs b') ns"
proof (rule op_guards [OF inv, of "mem_Heartbeat clk i token"])
  fix r assume g: "mem_requireInit b = None" and c: "mem_checkLease b i token = Inr r"
  note r = running_rec [OF inv c]
  let ?r = "r\<lparr>leaseUntil := trunc_ms clk + mem_ttlFor b (Queue (task r))\<rparr>"
  have ev: "rec_evolves r ?r"
    using r(2) by (intro rec_evolvesI) (simp_all add: shape_def)
  have "store_step '''' b (put_rec i ?r b)"
    using r(2,3) by (intro live_step(1) [OF inv r(1) ev]) (simp_all add: lease_rec_def)
  moreover have "b' = put_rec i ?r b" using step g c by (simp add: mem_Heartbeat_def Let_def)
  moreover have "tracked (recs b) (fmupd i ?r (recs b)) ns"
    by (rule tracked_silent [OF tracked_refl r(1)]) simp
  ultimately show "store_step '''' b b' \<and> tracked (recs b) (recs b') ns"
    by (simp add: put_rec_def)
qed (use step in \<open>simp_all add: mem_Heartbeat_def\<close>)

lemma fail_counts_shape:
  assumes "fail_counts tm kind msg (task r) = (t, x)" and "Status (task r) = StatusRunning"
  shows "rec_evolves r (failed_rec now t r)" "rec_evolves r (retry_rec at' t r)"
    "rec_evolves r (r\<lparr>task := t\<rparr>)" "LeaseToken t = LeaseToken (task r)" "Status t = StatusRunning"
proof -
  obtain msg' a th where t: "t = (task r)\<lparr>LastError := msg', Attempts := a, Throttled := th\<rparr>"
    and le: "Attempts (task r) \<le> a" "Throttled (task r) \<le> th"
    using fail_counts_keeps [OF assms(1)] by metis
  show "rec_evolves r (failed_rec now t r)" "rec_evolves r (retry_rec at' t r)"
    "rec_evolves r (r\<lparr>task := t\<rparr>)"
    using le assms(2) by (auto intro!: rec_evolvesI simp: failed_rec_def retry_rec_def shape_def t)
  show "LeaseToken t = LeaseToken (task r)" "Status t = StatusRunning"
    using assms(2) by (simp_all add: t)
qed

lemma Fail_step:
  assumes inv: "minv b" and step: "mem_Fail clk i token msg kind retryAt b = (b', ns, res)"
  shows "store_step '''' b b' \<and> (res = Inr () \<longrightarrow> tracked (recs b) (recs b') ns)"
proof (cases "mem_requireInit b = None \<and> (\<exists>r. mem_checkLease b i token = Inr r)")
  case False
  then have "b' = b" using step by (auto simp: mem_Fail_def split: option.splits sum.splits)
  then show ?thesis using store_step_refl [OF inv] by simp
next
  case True
  then obtain r where g: "mem_requireInit b = None" and c: "mem_checkLease b i token = Inr r" by blast
  note r = running_rec [OF inv c]
  obtain t x where fc: "fail_counts (ThrottledMax (opts b)) kind msg (task r) = (t, x)"
    by (cases "fail_counts (ThrottledMax (opts b)) kind msg (task r)")
  note sh = fail_counts_shape [OF fc r(2)]
  show ?thesis
  proof (cases x)
    case (Inl k)
    have "store_step '''' b (put_rec i (r\<lparr>task := t\<rparr>) b)"
      using r(2,3) sh(4,5) by (intro live_step(1) [OF inv r(1) sh(3)]) (simp_all add: lease_rec_def)
    then show ?thesis using step g c fc Inl by (auto simp: mem_Fail_def Let_def)
  next
    case (Inr toFailed)
    note eq = Fail_ok [OF g c fc [unfolded Inr], of clk retryAt]
    show ?thesis
    proof (cases toFailed)
      case True
      have "isFinal (Status (task (failed_rec (trunc_ms clk) t r)))"
        "lease_rec (failed_rec (trunc_ms clk) t r)" by (simp_all add: failed_rec_def lease_rec_def)
      then show ?thesis using finish_running [OF inv c sh(1)] step True
        by (auto simp: eq split: prod.splits)
    next
      case False
      let ?r = "retry_rec (if isZero retryAt then trunc_ms clk else retryAt) t r"
      have "store_step '''' b (mem_broadcast (put_rec i ?r b))"
        using r(2) by (intro live_step(2) [OF inv r(1) sh(2)]) (simp_all add: retry_rec_def lease_rec_def)
      then show ?thesis using step False tracked_put [of b i ?r] by (auto simp: eq Let_def)
    qed
  qed
qed

section \<open>Cancel and Dequeue\<close>

lemma Cancel_ok:
  assumes "mem_requireInit b = None" and "fmlookup (recs b) i = Some r"
    and "\<not> isFinal (Status (task r))" and "Status (task r) \<noteq> StatusRunning"
  shows "mem_Cancel clk i b =
    (case finish_rec i (trunc_ms clk) (cancel_rec (trunc_ms clk) r) b of (b', ns) \<Rightarrow> (b', ns, Inr ()))"
  using assms nonfinal_can_cancel [OF assms(3)]
  by (simp add: mem_Cancel_def mem_setStatus_def Let_def mem_clearLease_def cancel_rec_def)

lemma Cancel_step:
  assumes inv: "minv b" and step: "mem_Cancel clk i b = (b', ns, res)"
  shows "store_step '''' b b' \<and> tracked (recs b) (recs b') ns"
proof -
  consider (err) e where "mem_Cancel clk i b = (b, [], Inl e)"
    | (flag) r where "mem_requireInit b = None" "fmlookup (recs b) i = Some r"
        "Status (task r) = StatusRunning"
    | (now) r where "mem_requireInit b = None" "fmlookup (recs b) i = Some r"
        "\<not> isFinal (Status (task r))" "Status (task r) \<noteq> StatusRunning"
  proof (cases "mem_requireInit b = None \<and> (\<exists>r. fmlookup (recs b) i = Some r \<and> \<not> isFinal (Status (task r)))")
    case True
    then show thesis using flag now by blast
  next
    case False
    then have "\<exists>e. mem_Cancel clk i b = (b, [], Inl e)"
      by (auto simp: mem_Cancel_def split: option.splits)
    then show thesis using err by blast
  qed
  then show ?thesis
  proof cases
    case err
    then show ?thesis using step store_step_refl [OF inv] by simp
  next
    case flag
    let ?r = "r\<lparr>cancelRequested := True\<rparr>"
    have "rec_evolves r ?r" using flag(3) by (intro rec_evolvesI) (simp_all add: shape_def)
    moreover have "lease_rec ?r" using lease_okD [OF minvD(4) [OF inv] flag(2)] by (simp add: lease_rec_def)
    ultimately have "store_step '''' b (put_rec i ?r b)"
      using flag(3) by (intro live_step(1) [OF inv flag(2)]) simp_all
    moreover have "tracked (recs b) (fmupd i ?r (recs b)) []"
      by (rule tracked_silent [OF tracked_refl flag(2)]) simp
    ultimately show ?thesis using step flag by (auto simp: mem_Cancel_def put_rec_def)
  next
    case now
    let ?r = "cancel_rec (trunc_ms clk) r"
    have ev: "rec_evolves r ?r" using nonfinal_can_cancel [OF now(3)] now(3)
      by (intro rec_evolvesI) (simp_all add: cancel_rec_def shape_def)
    have fin: "isFinal (Status (task ?r))" "Status (task ?r) = StatusCanceled" "lease_rec ?r"
      by (simp_all add: cancel_rec_def lease_rec_def)
    show ?thesis using finish_step(1,2) [OF inv now(2) ev now(3) fin(1) disjI1 [OF fin(2)] fin(3)] step
      by (auto simp: Cancel_ok [OF now] split: prod.splits)
  qed
qed

text \<open>\<open>pickReady\<close> returns a stored, claimable and due record.\<close>

definition due :: "string list \<Rightarrow> time \<Rightarrow> mrec \<Rightarrow> bool" where
  "due queues now r \<longleftrightarrow> claimable queues r \<and> RunAt (task r) \<le> now"

lemma pickReady_loop_sound:
  assumes "mem_pickReady_loop queues now m xs best = Some (k, r)"
    and "\<And>k r. best = Some (k, r) \<Longrightarrow> fmlookup m k = Some r \<and> due queues now r"
  shows "fmlookup m k = Some r \<and> due queues now r"
  using assms
proof (induction xs arbitrary: best)
  case (Cons x xs)
  show ?case
    by (rule Cons.IH [OF Cons.prems(1) [unfolded mem_pickReady_loop.simps]])
      (use Cons.prems(2) in \<open>auto simp: due_def split: option.splits if_splits\<close>)
qed simp

lemma pickReady_sound:
  "mem_pickReady xs queues now m = Some (k, r) \<Longrightarrow> fmlookup m k = Some r \<and> due queues now r"
  unfolding mem_pickReady_def by (rule pickReady_loop_sound) auto

definition claimed_rec :: "string \<Rightarrow> time \<Rightarrow> duration \<Rightarrow> mrec \<Rightarrow> mrec" where
  "claimed_rec token now ttl r = r\<lparr>task := (task r)\<lparr>Status := StatusRunning, LeaseToken := token,
     StartedAt := (if isZero (StartedAt (task r)) then now else StartedAt (task r))\<rparr>,
     leaseUntil := now + ttl\<rparr>"

lemma Dequeue_claim:
  assumes "queues \<noteq> []" and "mem_requireInit b = None"
    and p: "mem_pickReady xs queues (trunc_ms clk) (recs b) = Some (k, r)"
  shows "mem_Dequeue_turn xs None token clk queues b =
    (let r' = claimed_rec token (trunc_ms clk) (mem_ttlFor b (Queue (task r))) r
     in (put_rec k r' b, [cloneTask (task r')], Claimed (cloneTask (task r'))))"
proof -
  have "Status (task r) = StatusPending \<or> Status (task r) = StatusRetrying"
    using pickReady_sound [OF p] by (simp add: due_def claimable_def)
  then show ?thesis using assms
    by (auto simp: mem_Dequeue_turn_def mem_setStatus_def claim_rec_def claimed_rec_def Let_def)
qed

lemma Dequeue_step:
  assumes inv: "minv b" and tok: "token \<noteq> ''''"
    and step: "mem_Dequeue_turn xs ctx token clk queues b = (b', ns, res)"
  shows "store_step token b b' \<and> tracked (recs b) (recs b') ns"
proof (cases "\<exists>k r. mem_pickReady xs queues (trunc_ms clk) (recs b) = Some (k, r) \<and>
    queues \<noteq> [] \<and> mem_requireInit b = None \<and> ctx = None")
  case False
  then have "b' = b" using step
    by (auto simp: mem_Dequeue_turn_def Let_def split: if_splits option.splits)
  then show ?thesis using store_step_refl [OF inv] by simp
next
  case True
  then obtain k r where p: "mem_pickReady xs queues (trunc_ms clk) (recs b) = Some (k, r)"
    and g: "queues \<noteq> []" "mem_requireInit b = None" "ctx = None" by blast
  have k: "fmlookup (recs b) k = Some r" and st: "Status (task r) \<in> {StatusPending, StatusRetrying}"
    using pickReady_sound [OF p] by (auto simp: due_def claimable_def)
  let ?r = "claimed_rec token (trunc_ms clk) (mem_ttlFor b (Queue (task r))) r"
  have "rec_evolves r ?r" using st by (intro rec_evolvesI) (auto simp: claimed_rec_def shape_def)
  then have "store_step token b (put_rec k ?r b)"
    using st tok by (intro live_step(1) [OF inv k]) (auto simp: claimed_rec_def lease_rec_def)
  moreover have "tracked (recs b) (recs (put_rec k ?r b)) [cloneTask (task ?r)]"
    using tracked_put [of b k ?r] by (simp add: mem_broadcast_def)
  ultimately show ?thesis using step g(3) by (auto simp: Dequeue_claim [OF g(1,2) p] Let_def)
qed

section \<open>The reaper\<close>

definition store_ok :: "store \<Rightarrow> bool" where
  "store_ok m \<longleftrightarrow> graph_ok m \<and> edge_inv {} m \<and> lease_ok m"

definition good_move :: "store \<Rightarrow> task list \<Rightarrow> store \<Rightarrow> task list \<Rightarrow> bool" where
  "good_move m ns m' ns' \<longleftrightarrow> evolves m m' \<and> store_ok m' \<and> claims '''' m m' \<and>
     (\<forall>m0. tracked m0 m ns \<longrightarrow> tracked m0 m' ns') \<and> length ns \<le> length ns'"

lemma good_move_refl: "store_ok m \<Longrightarrow> good_move m ns m ns"
  by (simp add: good_move_def)

lemma good_move_trans:
  "good_move m1 ns1 m2 ns2 \<Longrightarrow> good_move m2 ns2 m3 ns3 \<Longrightarrow> good_move m1 ns1 m3 ns3"
  unfolding good_move_def by (auto intro: evolves_trans order_trans claims_trans)

lemma propagate_child_notifs:
  "propagate_child now p c (m, ns, work) = (m', ns', work') \<Longrightarrow> length ns \<le> length ns'"
  by (auto simp: propagate_child_def Let_def split: option.splits prod.splits childAction.splits
      sum.splits if_splits)

lemma propagateFinal_notifs:
  assumes "mem_propagateFinal k now m ns = (m', ns')"
  shows "length ns \<le> length ns'"
  by (rule propagateFinal_loop_keeps [where P = "\<lambda>m ns2. length ns \<le> length ns2",
        OF _ order_refl assms [unfolded mem_propagateFinal_def]])
    (auto dest: propagate_child_notifs)

lemma finish_store:
  assumes ok: "store_ok m" and k: "fmlookup m k = Some r" and ev: "rec_evolves r r'"
    and nf: "\<not> isFinal (Status (task r))" and fin: "isFinal (Status (task r'))"
    and how: "Status (task r') = StatusCanceled \<or> Status (task r) \<noteq> StatusBlocked"
    and l: "lease_rec r'"
    and step: "mem_propagateFinal k now (fmupd k r' m) (ns @ [cloneTask (task r')]) = (m', ns')"
  shows "good_move m ns m' ns'" and "only_blocked (fmupd k r' m) m'"
proof -
  have g: "graph_ok m" and e: "edge_inv {} m" and lm: "lease_ok m" using ok by (simp_all add: store_ok_def)
  note edges = propagateFinal_edges [OF e g k ev nf fin how step]
  have "lease_ok m'" using propagateFinal_lease [OF lease_ok_upd [OF lm l] step] .
  moreover have "claims '''' m m'"
    using l fin by (intro propagateFinal_claims [OF claims_upd [OF claims_refl k] step])
      (auto simp: lease_rec_def)
  moreover have "tracked m0 m' ns'" if "tracked m0 m ns" for m0
    using propagateFinal_tracked [OF tracked_notify [OF that] step] .
  ultimately show "good_move m ns m' ns'" and "only_blocked (fmupd k r' m) m'"
    using edges graph_ok_evolves [OF edges(2) g] propagateFinal_notifs [OF step]
    by (simp_all add: good_move_def store_ok_def)
qed

lemma live_store:
  assumes ok: "store_ok m" and k: "fmlookup m k = Some r" and ev: "rec_evolves r r'"
    and st: "Status (task r) \<in> {StatusPending, StatusRunning, StatusRetrying}"
      "Status (task r') \<in> {StatusPending, StatusRunning, StatusRetrying}"
    and l: "lease_rec r'" and tk: "LeaseToken (task r') \<in> {'''', LeaseToken (task r)}"
  shows "good_move m ns (fmupd k r' m) (ns @ [cloneTask (task r')])"
proof -
  have "edge_inv {} (fmupd k r' m)"
    using st ok by (intro edge_inv_upd_live [OF _ k] evolves_shape ev) (auto simp: store_ok_def)
  then show ?thesis
    using ok evolves_upd [OF k ev] graph_ok_evolves [OF evolves_upd [OF k ev]] lease_ok_upd [OF _ l]
      tracked_notify claims_upd [OF claims_refl k, of r' "''''"] tk
    by (auto simp: good_move_def store_ok_def)
qed

definition expired_rec :: "mrec \<Rightarrow> mrec" where
  "expired_rec r = r\<lparr>leaseUntil := zero_time, cancelRequested := False,
     task := (task r)\<lparr>LeaseLost := LeaseLost (task r) + 1, LeaseToken := '''',
       Status := StatusPending\<rparr>\<rparr>"

definition lost_rec :: "time \<Rightarrow> mrec \<Rightarrow> mrec" where
  "lost_rec now r = r\<lparr>leaseUntil := zero_time, cancelRequested := False,
     task := (task r)\<lparr>LeaseLost := LeaseLost (task r) + 1, LeaseToken := '''',
       Status := StatusFailed,
       LastError := ''lease expired '' @ show_int (LeaseLost (task r) + 1) @ '' times'',
       FinishedAt := now\<rparr>\<rparr>"

lemma reap_step_eq:
  assumes k: "fmlookup m k = Some r" and st: "Status (task r) = StatusRunning"
    and ex: "leaseUntil r < now"
  shows "reap_step now lostMax k (m, cnt, ns) =
    (if cancelRequested r then
       (let r' = (cancel_rec now r)\<lparr>cancelRequested := False\<rparr> in
        case mem_propagateFinal k now (fmupd k r' m) (ns @ [cloneTask (task r')]) of
          (m', ns') \<Rightarrow> ((m', cnt + 1, ns'), None))
     else if LeaseLost (task r) + 1 \<ge> lostMax then
       (let r' = lost_rec now r in
        case mem_propagateFinal k now (fmupd k r' m) (ns @ [cloneTask (task r')]) of
          (m', ns') \<Rightarrow> ((m', cnt + 1, ns'), None))
     else
       (let r' = expired_rec r in ((fmupd k r' m, cnt + 1, ns @ [cloneTask (task r')]), None)))"
  using k st ex
  by (simp add: reap_step_def Let_def canceled_rec_def cancel_rec_def mem_clearLease_def
      mem_setStatus_def expired_rec_def lost_rec_def)

lemma reap_step_skip:
  assumes "\<not> (\<exists>r. fmlookup m k = Some r \<and> Status (task r) = StatusRunning \<and> leaseUntil r < now)"
  shows "reap_step now lostMax k (m, cnt, ns) = ((m, cnt, ns), None)"
  using assms by (auto simp: reap_step_def split: option.splits)

text \<open>The record an expired lease leaves behind.\<close>

definition reaped_rec :: "time \<Rightarrow> int \<Rightarrow> mrec \<Rightarrow> mrec" where
  "reaped_rec now lostMax r =
     (if cancelRequested r then (cancel_rec now r)\<lparr>cancelRequested := False\<rparr>
      else if LeaseLost (task r) + 1 \<ge> lostMax then lost_rec now r else expired_rec r)"

lemma reap_step_expired:
  assumes ok: "store_ok m" and k: "fmlookup m k = Some r" and st: "Status (task r) = StatusRunning"
    and ex: "leaseUntil r < now"
    and step: "reap_step now lostMax k (m, cnt, ns) = ((m', cnt', ns'), e)"
  shows "good_move m ns m' ns' \<and> e = None \<and> cnt' = cnt + 1 \<and>
    only_blocked (fmupd k (reaped_rec now lostMax r) m) m'"
proof -
  note eq = reap_step_eq [OF k st ex, of lostMax cnt ns]
  let ?c = "(cancel_rec now r)\<lparr>cancelRequested := False\<rparr>"
  have evs: "rec_evolves r ?c" "rec_evolves r (lost_rec now r)" "rec_evolves r (expired_rec r)"
    using st by (auto intro!: rec_evolvesI simp: cancel_rec_def lost_rec_def expired_rec_def shape_def)
  have ls: "lease_rec ?c" "lease_rec (lost_rec now r)" "lease_rec (expired_rec r)"
    by (simp_all add: lease_rec_def cancel_rec_def lost_rec_def expired_rec_def)
  have fs: "isFinal (Status (task ?c))" "isFinal (Status (task (lost_rec now r)))"
    by (simp_all add: cancel_rec_def lost_rec_def)
  note fin = finish_store [OF ok k, where now = now and ns = ns and m' = m' and ns' = ns']
  have "good_move m ns (fmupd k (expired_rec r) m) (ns @ [cloneTask (task (expired_rec r))])"
    using st by (intro live_store [OF ok k evs(3) _ _ ls(3)]) (simp_all add: expired_rec_def)
  then show ?thesis
    using step fin [OF evs(1) _ fs(1) _ ls(1)] fin [OF evs(2) _ fs(2) _ ls(2)] st
    by (auto simp: eq Let_def reaped_rec_def split: if_splits prod.splits)
qed

lemma reap_step_ok:
  assumes ok: "store_ok m" and step: "reap_step now lostMax k (m, cnt, ns) = ((m', cnt', ns'), e)"
  shows "good_move m ns m' ns' \<and> e = None"
proof (cases "\<exists>r. fmlookup m k = Some r \<and> Status (task r) = StatusRunning \<and> leaseUntil r < now")
  case False
  then show ?thesis using step reap_step_skip [OF False] good_move_refl [OF ok] by auto
next
  case True
  then show ?thesis using reap_step_expired [OF ok _ _ _ step] by blast
qed

lemma reap_loop_ok:
  assumes "store_ok m" and "reap_loop now lostMax xs (m, cnt, ns) = ((m', cnt', ns'), e)"
  shows "good_move m ns m' ns' \<and> e = None"
  using assms
proof (induction xs arbitrary: m cnt ns)
  case Nil
  then show ?case using good_move_refl by simp
next
  case (Cons k xs)
  obtain m1 cnt1 ns1 e1 where one: "reap_step now lostMax k (m, cnt, ns) = ((m1, cnt1, ns1), e1)"
    by (metis prod.exhaust)
  have g: "good_move m ns m1 ns1" "e1 = None" using reap_step_ok [OF Cons.prems(1) one] by simp_all
  then have "good_move m1 ns1 m' ns' \<and> e = None"
    using Cons.IH [of m1 cnt1 ns1] Cons.prems(2) one by (simp add: good_move_def)
  then show ?case using good_move_trans [OF g(1)] by blast
qed

section \<open>Parents of a task\<close>

definition status_of :: "store \<Rightarrow> id \<Rightarrow> status" where
  "status_of m k = (case fmlookup m k of Some r \<Rightarrow> Status (task r) | None \<Rightarrow> StatusCanceled)"

definition parent_states :: "store \<Rightarrow> id list \<Rightarrow> parentState list" where
  "parent_states m ds = map (\<lambda>q. \<lparr>ps_ID = q, ps_Status = status_of m q\<rparr>) ds"

lemma mem_parents_eq:
  "mem_parents m ds =
     (case List.find (\<lambda>q. fmlookup m q = None) ds of
        Some q \<Rightarrow> Inl (ErrTaskNotFound q) | None \<Rightarrow> Inr (parent_states m ds))"
  by (induction ds) (auto simp: parent_states_def status_of_def split: option.splits sum.splits)

lemma mem_parents_Inr:
  "mem_parents m ds = Inr ps \<longleftrightarrow> (\<forall>q \<in> set ds. fmlookup m q \<noteq> None) \<and> ps = parent_states m ds"
  by (auto simp: mem_parents_eq find_None_iff find_Some_iff split: option.splits)

lemma parent_states_simps [simp]:
  "map ps_ID (parent_states m ds) = ds" "coherent (status_of m) (parent_states m ds)"
  by (simp_all add: parent_states_def coherent_def o_def)

lemma final_in_status:
  "fmlookup m q \<noteq> None \<Longrightarrow> isFinal (status_of m q) = final_in m q"
  by (auto simp: final_in_def status_of_def)

lemma parent_states_unfinished:
  assumes "\<forall>q \<in> set ds. fmlookup m q \<noteq> None"
  shows "unfinished (parent_states m ds) = {q \<in> set ds. \<not> final_in m q}"
  using assms by (force simp: unfinished_def parent_states_def final_in_status image_iff)

lemma parent_states_bad:
  assumes "\<forall>q \<in> set ds. fmlookup m q \<noteq> None"
  shows "(\<exists>p \<in> set (parent_states m ds). badParent p) \<longleftrightarrow>
    (\<exists>q \<in> set ds. final_in m q \<and> \<not> completed_in m q)"
proof -
  have "badParent \<lparr>ps_ID = q, ps_Status = status_of m q\<rparr> \<longleftrightarrow> final_in m q \<and> \<not> completed_in m q"
    if "q \<in> set ds" for q
    using assms that by (auto simp: badParent_def final_in_def completed_in_def status_of_def isFinal_def)
  then show ?thesis by (auto simp: parent_states_def)
qed

text \<open>
  The repair pass of \<open>ReapExpired\<close> exists for back ends whose propagation can be interrupted;
  on a store that satisfies the invariant it changes nothing.
\<close>

lemma blocked_decision:
  assumes ok: "store_ok m" and k: "fmlookup m k = Some r" and st: "Status (task r) = StatusBlocked"
  shows "\<forall>q \<in> set (DependsOn (task r)). fmlookup m q \<noteq> None"
    and "d_Status (DecideOnSubmit (parent_states m (DependsOn (task r))) (OnParentFailure (task r))) = StatusBlocked"
    and "d_PendingParents (DecideOnSubmit (parent_states m (DependsOn (task r))) (OnParentFailure (task r))) =
      pendingParents r"
proof -
  let ?ds = "DependsOn (task r)"
  let ?dec = "DecideOnSubmit (parent_states m ?ds) (OnParentFailure (task r))"
  have b: "blocked_ok {} m k r" using ok edge_inv_lookup(1) [OF _ k st] by (simp add: store_ok_def)
  show ex: "\<forall>q \<in> set ?ds. fmlookup m q \<noteq> None" using ok k by (simp add: store_ok_def graph_ok_def)
  have unf: "unfinished (parent_states m ?ds) = open_parents {} m k r"
    using parent_states_unfinished [OF ex] by (simp add: open_parents_def)
  have "\<not> (\<exists>q \<in> set ?ds. final_in m q \<and> \<not> completed_in m q)"
    if "OnParentFailure (task r) \<noteq> IgnoreParentFail"
    using b that by (auto simp: blocked_ok_def open_parents_def)
  then have nobad: "\<not> (OnParentFailure (task r) \<noteq> IgnoreParentFail \<and>
      (\<exists>p \<in> set (parent_states m ?ds). badParent p))"
    using parent_states_bad [OF ex] by blast
  have "unfinished (parent_states m ?ds) \<noteq> {}" using b unf by (auto simp: blocked_ok_def)
  then show ds: "d_Status ?dec = StatusBlocked"
    using nobad DecideOnSubmit_status [OF parent_states_simps(2)] by simp
  show "d_PendingParents ?dec = pendingParents r"
    using DecideOnSubmit_pending [OF parent_states_simps(2), of m ?ds "OnParentFailure (task r)"]
      ds unf b by (simp add: blocked_ok_def)
qed

lemma repair_step_noop:
  assumes ok: "store_ok m"
  shows "repair_step now k (m, ns) = (m, ns)"
proof (cases "\<exists>r. fmlookup m k = Some r \<and> Status (task r) = StatusBlocked")
  case False
  then show ?thesis by (auto simp: repair_step_def split: option.splits)
next
  case True
  then obtain r where k: "fmlookup m k = Some r" and st: "Status (task r) = StatusBlocked" by blast
  note dec = blocked_decision [OF ok k st]
  show ?thesis using k st dec(2,3) mem_parents_Inr [of m "DependsOn (task r)" "parent_states m (DependsOn (task r))"] dec(1)
    by (simp add: repair_step_def Let_def fmupd_same)
qed

lemma repair_pass_noop: "store_ok m \<Longrightarrow> fold (repair_step now) ys (m, ns) = (m, ns)"
  by (induction ys) (simp_all add: repair_step_noop)

lemma minv_store_ok: "minv b \<Longrightarrow> store_ok (recs b)"
  by (simp add: minv_def store_ok_def)

lemma ReapExpired_step:
  assumes inv: "minv b" and step: "mem_ReapExpired xs ys clk b = (b', ns, n, e)"
  shows "store_step '''' b b' \<and> tracked (recs b) (recs b') ns \<and> e = mem_requireInit b"
proof (cases "mem_requireInit b")
  case (Some e')
  then show ?thesis using step store_step_refl [OF inv] by (simp add: mem_ReapExpired_def)
next
  case None
  obtain m1 cnt ns1 e1 where
    loop: "reap_loop (trunc_ms clk) (LeaseLostMax (opts b)) xs (recs b, 0, []) = ((m1, cnt, ns1), e1)"
    by (metis prod.exhaust)
  have g: "good_move (recs b) [] m1 ns1" and e1: "e1 = None"
    using reap_loop_ok [OF minv_store_ok [OF inv] loop] by simp_all
  then have ok: "store_ok m1" and tr: "tracked (recs b) m1 ns1"
    by (simp_all add: good_move_def)
  have "b' = b\<lparr>recs := m1\<rparr> \<or> b' = mem_broadcast (b\<lparr>recs := m1\<rparr>)" and ns: "ns = ns1" and e: "e = None"
    using step None loop e1 repair_pass_noop [OF ok]
    by (auto simp: mem_ReapExpired_def Let_def split: if_splits)
  then show ?thesis
    using store_stepI [of b m1] g ok tr None
    by (auto simp: good_move_def store_ok_def mem_broadcast_def)
qed

end
