(* ===== verification/Memory_Insert.thy ===== *)
theory Memory_Insert
  imports Memory_Inv
begin

text \<open>
  \<open>Enqueue\<close> and \<open>Replay\<close>, the two operations that add a record: the new record extends
  the dependency graph at its end, its initial state and counter are what the submit decision
  says, and its chain of executions ends with it.
\<close>

section \<open>Inserting a record\<close>

definition insert_store :: "id \<Rightarrow> mrec \<Rightarrow> store \<Rightarrow> store" where
  "insert_store i r m = fold (add_child i) (dedup_seen [] (DependsOn (task r))) (fmupd i r m)"

lemma fold_add_child_lookup:
  "distinct ps \<Longrightarrow> fmlookup (fold (add_child i) ps m) k =
     (if k \<in> set ps then map_option (\<lambda>r. r\<lparr>children := children r @ [i]\<rparr>) (fmlookup m k)
      else fmlookup m k)"
  by (induction ps arbitrary: m) (auto simp: add_child_def split: option.splits)

definition fits :: "id \<Rightarrow> mrec \<Rightarrow> store \<Rightarrow> bool" where
  "fits i r m \<longleftrightarrow> fmlookup m i = None \<and> i \<noteq> '''' \<and> ID (task r) = i \<and> children r = [] \<and>
     (\<forall>q \<in> set (DependsOn (task r)). fmlookup m q \<noteq> None)"

lemma insert_lookup:
  assumes "fits i r m"
  shows "fmlookup (insert_store i r m) k =
    (if k = i then Some r
     else if k \<in> set (DependsOn (task r))
       then map_option (\<lambda>r. r\<lparr>children := children r @ [i]\<rparr>) (fmlookup m k)
     else fmlookup m k)"
proof -
  have "i \<notin> set (DependsOn (task r))" using assms by (auto simp: fits_def)
  then show ?thesis
    by (simp add: insert_store_def fold_add_child_lookup dedup_seen_distinct)
qed

lemma insert_lookup_old:
  assumes "fits i r m" and "fmlookup m k = Some s"
  shows "\<exists>s'. fmlookup (insert_store i r m) k = Some s' \<and> task s' = task s \<and>
    pendingParents s' = pendingParents s \<and> leaseUntil s' = leaseUntil s"
  using assms by (auto simp: insert_lookup fits_def)

lemma insert_lookup_back:
  assumes "fits i r m" and "fmlookup (insert_store i r m) k = Some s'" and "k \<noteq> i"
  shows "\<exists>s. fmlookup m k = Some s \<and> task s' = task s \<and> pendingParents s' = pendingParents s \<and>
    leaseUntil s' = leaseUntil s"
  using assms by (auto simp: insert_lookup split: if_splits)

lemma insert_dep:
  assumes "fits i r m"
  shows "dep (insert_store i r m) q c \<longleftrightarrow> (if c = i then q \<in> set (DependsOn (task r)) else dep m q c)"
  using assms by (auto simp: dep_def insert_lookup fits_def)

lemma insert_final_in:
  assumes "fits i r m"
  shows "final_in (insert_store i r m) q \<longleftrightarrow> (if q = i then isFinal (Status (task r)) else final_in m q)"
    and "completed_in (insert_store i r m) q \<longleftrightarrow>
      (if q = i then Status (task r) = StatusCompleted else completed_in m q)"
  using assms by (auto simp: final_in_def completed_in_def insert_lookup)

lemma dep_exists: "graph_ok m \<Longrightarrow> dep m q c \<Longrightarrow> fmlookup m q \<noteq> None \<and> fmlookup m c \<noteq> None"
  by (auto simp: graph_ok_def dep_def)

lemma fits_no_dep:
  assumes "fits i r m" and "graph_ok m"
  shows "\<not> dep m i c" and "\<not> dep m c i" and "fmlookup m c = Some s \<Longrightarrow> i \<notin> set (DependsOn (task s))"
proof -
  have i: "fmlookup m i = None" using assms(1) by (simp add: fits_def)
  show "\<not> dep m i c" "\<not> dep m c i"
    using dep_exists [OF assms(2), of i c] dep_exists [OF assms(2), of c i] i by auto
  then show "i \<notin> set (DependsOn (task s))" if "fmlookup m c = Some s" using that by (simp add: dep_def)
qed

lemma insert_graph:
  assumes f: "fits i r m" and g: "graph_ok m"
  shows "graph_ok (insert_store i r m)"
  unfolding graph_ok_def
proof (intro allI impI)
  fix k s' assume k: "fmlookup (insert_store i r m) k = Some s'"
  have old: "fmlookup (insert_store i r m) q \<noteq> None" if "fmlookup m q \<noteq> None" for q
    using insert_lookup_old [OF f] that by fastforce
  note noi = fits_no_dep [OF f g]
  have self: "i \<notin> set (DependsOn (task r))" using f by (auto simp: fits_def)
  show "ID (task s') = k \<and> k \<noteq> '''' \<and>
      (\<forall>q \<in> set (DependsOn (task s')). fmlookup (insert_store i r m) q \<noteq> None) \<and>
      distinct (children s') \<and> set (children s') = {c. dep (insert_store i r m) k c}"
  proof (cases "k = i")
    case True
    then have "s' = r" using k f by (simp add: insert_lookup)
    then show ?thesis using True f old noi self by (auto simp: fits_def insert_dep [OF f])
  next
    case False
    then obtain s where s: "fmlookup m k = Some s" and t: "task s' = task s"
      and ch: "children s' = (if k \<in> set (DependsOn (task r)) then children s @ [i] else children s)"
      using k f by (auto simp: insert_lookup split: if_splits)
    have gs: "ID (task s) = k" "k \<noteq> ''''" "\<forall>q \<in> set (DependsOn (task s)). fmlookup m q \<noteq> None"
      "distinct (children s)" "set (children s) = {c. dep m k c}"
      using g s by (simp_all add: graph_ok_def)
    have "{c. dep (insert_store i r m) k c} =
        {c. dep m k c} \<union> (if k \<in> set (DependsOn (task r)) then {i} else {})"
      using noi(2) by (auto simp: insert_dep [OF f])
    moreover have "i \<notin> set (children s)" using gs(5) noi(2) by simp
    ultimately show ?thesis using gs old by (auto simp: t ch)
  qed
qed

lemma insert_edges:
  assumes f: "fits i r m" and g: "graph_ok m" and inv: "edge_inv {} m"
    and new: "Status (task r) = StatusBlocked \<Longrightarrow> blocked_ok {} m i r"
      "Status (task r) \<noteq> StatusBlocked \<Longrightarrow> Status (task r) \<noteq> StatusCanceled \<Longrightarrow> released_ok {} m i r"
  shows "edge_inv {} (insert_store i r m)"
proof (rule edge_invI)
  let ?m = "insert_store i r m"
  fix c s' assume c: "fmlookup ?m c = Some s'"
  obtain s where s: "c = i \<and> s' = r \<and> s = r \<or> c \<noteq> i \<and> fmlookup m c = Some s"
    "task s' = task s" "pendingParents s' = pendingParents s"
    using c f insert_lookup_back [OF f c] by (cases "c = i") (auto simp: insert_lookup)
  have noi: "i \<notin> set (DependsOn (task s))"
    using s(1) f fits_no_dep(3) [OF f g, of c s] by (auto simp: fits_def)
  then have op: "open_parents {} ?m c s' = open_parents {} m c s"
    by (auto simp: open_parents_def s(2) insert_final_in [OF f])
  have cm: "completed_in ?m q = completed_in m q" if "q \<in> set (DependsOn (task s))" for q
    using noi that by (auto simp: insert_final_in [OF f])
  have tr: "blocked_ok {} ?m c s' = blocked_ok {} m c s" "released_ok {} ?m c s' = released_ok {} m c s"
    using cm by (auto simp: blocked_ok_def released_ok_def op s(2,3))
  show "blocked_ok {} ?m c s'" if "Status (task s') = StatusBlocked"
    using that s(1) new(1) edge_inv_lookup(1) [OF inv] unfolding tr(1) s(2) by blast
  show "released_ok {} ?m c s'" if "Status (task s') \<noteq> StatusBlocked" "Status (task s') \<noteq> StatusCanceled"
    using that s(1) new(2) edge_inv_lookup(2) [OF inv] unfolding tr(2) s(2) by blast
qed

lemma insert_ranked:
  assumes f: "fits i r m" and g: "graph_ok m" and rk: "ranked m"
  shows "ranked (insert_store i r m)"
proof -
  obtain rank :: "id \<Rightarrow> nat" where rank: "\<And>q c. dep m q c \<Longrightarrow> rank q < rank c"
    using rk by (auto simp: ranked_def)
  let ?rank = "rank(i := Suc (sum_list (map rank (DependsOn (task r)))))"
  have "i \<notin> set (DependsOn (task r))" using f by (auto simp: fits_def)
  moreover note fits_no_dep(1) [OF f g]
  ultimately have "?rank q < ?rank c" if "dep (insert_store i r m) q c" for q c
    using that rank member_le_sum_list [of "rank q" "map rank (DependsOn (task r))"]
    by (auto simp: insert_dep [OF f] le_imp_less_Suc split: if_splits)
  then show ?thesis unfolding ranked_def by blast
qed

lemma insert_lease: "fits i r m \<Longrightarrow> lease_ok m \<Longrightarrow> lease_rec r \<Longrightarrow> lease_ok (insert_store i r m)"
  by (auto simp: lease_ok_def insert_lookup lease_rec_def split: if_splits)

lemma insert_same_ident: "fits i r m \<Longrightarrow> same_ident m (insert_store i r m)"
  unfolding same_ident_def using insert_lookup_old by metis

section \<open>Enqueue\<close>

definition enq_policy :: "task \<Rightarrow> parentFailurePolicy" where
  "enq_policy t = (if OnParentFailure t = PolicyUnset then FailFast else OnParentFailure t)"

definition enq_rec :: "id \<Rightarrow> time \<Rightarrow> task \<Rightarrow> store \<Rightarrow> mrec" where
  "enq_rec i now t m = enqueue_rec i now t (enq_policy t)
     (DecideOnSubmit (parent_states m (DependsOn t)) (enq_policy t))"

lemma enqueue_rec_fields [simp]:
  "ID (task (enqueue_rec i now t pol dec)) = i"
  "BusinessKey (task (enqueue_rec i now t pol dec)) = BusinessKey t"
  "ReplayOf (task (enqueue_rec i now t pol dec)) = ReplayOf t"
  "DependsOn (task (enqueue_rec i now t pol dec)) = DependsOn t"
  "OnParentFailure (task (enqueue_rec i now t pol dec)) = pol"
  "Status (task (enqueue_rec i now t pol dec)) = d_Status dec"
  "LeaseToken (task (enqueue_rec i now t pol dec)) = ''''"
  "Queue (task (enqueue_rec i now t pol dec)) = Queue t"
  "children (enqueue_rec i now t pol dec) = []"
  "leaseUntil (enqueue_rec i now t pol dec) = zero_time"
  "pendingParents (enqueue_rec i now t pol dec) = d_PendingParents dec"
  by (simp_all add: enqueue_rec_def cloneTask_def Let_def)

lemma enq_rec_edges:
  assumes ex: "\<forall>q \<in> set (DependsOn t). fmlookup m q \<noteq> None"
  shows "Status (task (enq_rec i now t m)) = StatusBlocked \<Longrightarrow> blocked_ok {} m i (enq_rec i now t m)"
    and "Status (task (enq_rec i now t m)) \<noteq> StatusBlocked \<Longrightarrow>
      Status (task (enq_rec i now t m)) \<noteq> StatusCanceled \<Longrightarrow> released_ok {} m i (enq_rec i now t m)"
proof -
  let ?r = "enq_rec i now t m" and ?ps = "parent_states m (DependsOn t)" and ?pol = "enq_policy t"
  let ?dec = "DecideOnSubmit ?ps ?pol"
  have op: "open_parents {} m i ?r = unfinished ?ps"
    using parent_states_unfinished [OF ex] by (simp add: open_parents_def enq_rec_def)
  have st: "d_Status ?dec = (if ?pol \<noteq> IgnoreParentFail \<and> (\<exists>p \<in> set ?ps. badParent p) then StatusCanceled
     else if unfinished ?ps \<noteq> {} then StatusBlocked else StatusPending)"
    by (rule DecideOnSubmit_status [OF parent_states_simps(2)])
  have pp: "d_PendingParents ?dec = int (card (unfinished ?ps))" if "d_Status ?dec \<noteq> StatusCanceled"
    by (rule DecideOnSubmit_pending [OF parent_states_simps(2) that])
  have good: "completed_in m q"
    if "?pol \<noteq> IgnoreParentFail" "d_Status ?dec \<noteq> StatusCanceled" "q \<in> set (DependsOn t)"
      "q \<notin> unfinished ?ps" for q
    using that st parent_states_bad [OF ex] parent_states_unfinished [OF ex] by (auto split: if_splits)
  show "blocked_ok {} m i ?r" if "Status (task ?r) = StatusBlocked"
  proof -
    have d: "d_Status ?dec = StatusBlocked" using that by (simp add: enq_rec_def)
    then have "card (unfinished ?ps) > 0" using st by (auto simp: card_gt_0_iff split: if_splits)
    moreover have "pendingParents ?r = int (card (unfinished ?ps))" using pp d by (simp add: enq_rec_def)
    ultimately show ?thesis unfolding blocked_ok_def op using good d by (simp add: enq_rec_def)
  qed
  show "released_ok {} m i ?r" if "Status (task ?r) \<noteq> StatusBlocked" "Status (task ?r) \<noteq> StatusCanceled"
  proof -
    have d: "d_Status ?dec \<noteq> StatusBlocked" "d_Status ?dec \<noteq> StatusCanceled"
      using that by (simp_all add: enq_rec_def)
    then have u: "unfinished ?ps = {}" using st by (auto split: if_splits)
    show ?thesis unfolding released_ok_def op u using good d u by (simp add: enq_rec_def)
  qed
qed

lemma enq_rec_lease: "lease_rec (enq_rec i now t m)"
  using DecideOnSubmit_range [of "parent_states m (DependsOn t)" "enq_policy t"]
  by (auto simp: lease_rec_def enq_rec_def)

definition enqueued :: "id \<Rightarrow> time \<Rightarrow> task \<Rightarrow> mbroker \<Rightarrow> mbroker" where
  "enqueued i now t b =
     (let r = enq_rec i now t (recs b)
      in mem_broadcast ((push_chain (BusinessKey t) i b)\<lparr>recs := insert_store i r (recs b)\<rparr>))"

definition enq_id :: "id \<Rightarrow> task \<Rightarrow> id" where
  "enq_id fresh t = (if ID t \<noteq> '''' then ID t else fresh)"

lemma Enqueue_ok:
  assumes "mem_requireInit b = None" and "ReplayOf t = ''''"
    and "BusinessKey t = '''' \<or> chain_of b (BusinessKey t) = []"
    and "ID t = '''' \<or> fmlookup (recs b) (ID t) = None"
    and "\<forall>q \<in> set (DependsOn t). fmlookup (recs b) q \<noteq> None"
  shows "mem_Enqueue fresh clk t b =
    (let i = enq_id fresh t; r = enq_rec i (trunc_ms clk) t (recs b)
     in (enqueued i (trunc_ms clk) t b, [cloneTask (task r)], Inr (cloneTask (task r))))"
proof -
  have p: "mem_parents (recs b) (DependsOn t) = Inr (parent_states (recs b) (DependsOn t))"
    using assms(5) by (simp add: mem_parents_Inr)
  have "mem_Enqueue fresh clk t b =
      enqueue_insert (enq_id fresh t) (trunc_ms clk) t (parent_states (recs b) (DependsOn t)) b"
    using assms p by (auto simp: mem_Enqueue_def enq_id_def Let_def)
  then show ?thesis
    by (simp add: enqueue_insert_def enqueued_def enq_rec_def enq_policy_def Let_def insert_store_def
        put_rec_def push_chain_def mem_broadcast_def chain_of_def)
qed

lemma Enqueue_error:
  assumes "\<not> (mem_requireInit b = None \<and> ReplayOf t = '''' \<and>
      (BusinessKey t = '''' \<or> chain_of b (BusinessKey t) = []) \<and>
      (ID t = '''' \<or> fmlookup (recs b) (ID t) = None) \<and>
      (\<forall>q \<in> set (DependsOn t). fmlookup (recs b) q \<noteq> None))"
  shows "\<exists>e. mem_Enqueue fresh clk t b = (b, [], Inl e)"
proof (cases "mem_parents (recs b) (DependsOn t)")
  case (Inl e)
  then show ?thesis by (auto simp: mem_Enqueue_def Let_def split: option.splits)
next
  case (Inr ps)
  then have "\<forall>q \<in> set (DependsOn t). fmlookup (recs b) q \<noteq> None" by (simp add: mem_parents_Inr)
  then show ?thesis using assms by (auto simp: mem_Enqueue_def Let_def split: option.splits)
qed

text \<open>
  What an insertion must do to the chains: leave every other chain alone and end the chain of
  the new task with it.
\<close>

lemma chains_ok_insert:
  assumes ok: "chains_ok b" and f: "fits i r (recs b)"
    and recs': "recs b' = insert_store i r (recs b)"
    and others: "\<And>key. key \<noteq> BusinessKey (task r) \<or> key = '''' \<Longrightarrow>
      fmlookup (chains b') key = fmlookup (chains b) key"
    and own: "BusinessKey (task r) \<noteq> '''' \<Longrightarrow> \<exists>is. fmlookup (chains b') (BusinessKey (task r)) = Some is \<and>
      one_chain (recs b') (replayed b') (BusinessKey (task r)) is \<and>
      insert i (set (chain_of b (BusinessKey (task r)))) \<subseteq> set is"
    and rp: "\<And>key is k. key \<noteq> BusinessKey (task r) \<Longrightarrow> fmlookup (chains b) key = Some is \<Longrightarrow>
      k \<in> set is \<Longrightarrow> is_replayed (replayed b') k = is_replayed (replayed b) k"
    and fin: "\<And>k. is_replayed (replayed b') k \<Longrightarrow> is_replayed (replayed b) k \<or> final_in (recs b) k"
  shows "chains_ok b'"
  unfolding chains_ok_def
proof (intro conjI allI impI)
  have si: "same_ident (recs b) (recs b')" using insert_same_ident [OF f] by (simp add: recs')
  fix key "is" assume key: "fmlookup (chains b') key = Some is"
  show "one_chain (recs b') (replayed b') key is"
  proof (cases "key = BusinessKey (task r) \<and> key \<noteq> ''''")
    case True
    then show ?thesis using own key by auto
  next
    case False
    then have old: "fmlookup (chains b) key = Some is" using key others by auto
    then have one: "one_chain (recs b) (replayed b) key is" by (rule chains_okD(1) [OF ok])
    then have "key \<noteq> BusinessKey (task r)" using False one_chainD(1) by blast
    then show ?thesis using rp old by (intro one_chain_mono [OF si one])
  qed
next
  fix k s' assume k: "fmlookup (recs b') k = Some s'" and ne: "BusinessKey (task s') \<noteq> ''''"
  show "k \<in> set (chain_of b' (BusinessKey (task s')))"
  proof (cases "k = i")
    case True
    then have "s' = r" using k recs' f by (simp add: insert_lookup)
    then show ?thesis using True own ne by (auto simp: chain_of_def)
  next
    case False
    then obtain s where s: "fmlookup (recs b) k = Some s" "task s' = task s"
      using insert_lookup_back [OF f] k recs' by metis
    then have "k \<in> set (chain_of b (BusinessKey (task s)))" using ne chains_okD(2) [OF ok s(1)] by simp
    then show ?thesis using s(2) own others ne
      by (cases "BusinessKey (task s) = BusinessKey (task r)") (auto simp: chain_of_def)
  qed
next
  fix k assume "is_replayed (replayed b') k"
  then have "final_in (recs b) k" using fin chains_okD(3) [OF ok] by blast
  then show "final_in (recs b') k"
    using f by (auto simp: recs' insert_final_in fits_def final_in_def insert_lookup)
qed

lemma insert_minv:
  assumes inv: "minv b" and f: "fits i r (recs b)" and l: "lease_rec r"
    and recs': "recs b' = insert_store i r (recs b)" and ch: "chains_ok b'"
    and new: "Status (task r) = StatusBlocked \<Longrightarrow> blocked_ok {} (recs b) i r"
      "Status (task r) \<noteq> StatusBlocked \<Longrightarrow> Status (task r) \<noteq> StatusCanceled \<Longrightarrow>
        released_ok {} (recs b) i r"
  shows "minv b'"
  unfolding minv_def recs'
  using insert_graph [OF f minvD(1) [OF inv]] insert_edges [OF f minvD(1,2) [OF inv] new]
    insert_ranked [OF f minvD(1,3) [OF inv]] insert_lease [OF f minvD(4) [OF inv] l] ch
  by simp

lemma not_in_store:
  assumes "chains_ok b" and "fmlookup (recs b) i = None"
  shows "\<not> is_replayed (replayed b) i"
  using chains_okD(3) [OF assms(1), of i] assms(2) by (auto simp: final_in_def)

lemma enqueued_minv:
  assumes inv: "minv b" and ro: "ReplayOf t = ''''"
    and key: "BusinessKey t = '''' \<or> chain_of b (BusinessKey t) = []"
    and i: "fmlookup (recs b) i = None" "i \<noteq> ''''"
    and ex: "\<forall>q \<in> set (DependsOn t). fmlookup (recs b) q \<noteq> None"
  shows "minv (enqueued i now t b)"
proof -
  let ?r = "enq_rec i now t (recs b)" and ?b = "enqueued i now t b"
  have f: "fits i ?r (recs b)" using i ex by (simp add: fits_def enq_rec_def)
  have recs': "recs ?b = insert_store i ?r (recs b)"
    and rp: "replayed ?b = replayed b"
    and ch: "chains ?b = (if BusinessKey t = '''' then chains b else fmupd (BusinessKey t) [i] (chains b))"
    using key by (auto simp: enqueued_def Let_def mem_broadcast_def push_chain_def)
  have bk: "BusinessKey (task ?r) = BusinessKey t" by (simp add: enq_rec_def)
  have "one_chain (recs ?b) (replayed ?b) (BusinessKey t) [i]" if "BusinessKey t \<noteq> ''''"
    using that ro not_in_store [OF minvD(5) [OF inv] i(1)] f
    by (simp add: one_chain_def recs' rp insert_lookup enq_rec_def)
  then have "chains_ok ?b"
    using key by (intro chains_ok_insert [OF minvD(5) [OF inv] f recs']) (auto simp: bk ch rp)
  then show ?thesis
    by (rule insert_minv [OF inv f enq_rec_lease recs' _ enq_rec_edges [OF ex]])
qed

text \<open>What \<open>ulid.Make\<close> promises for the store at hand: a new, non-empty identifier.\<close>

definition fresh_id :: "id \<Rightarrow> mbroker \<Rightarrow> bool" where
  "fresh_id i b \<longleftrightarrow> i \<noteq> '''' \<and> fmlookup (recs b) i = None"

lemma Enqueue_minv:
  assumes inv: "minv b" and fr: "fresh_id fresh b" and step: "mem_Enqueue fresh clk t b = (b', ns, res)"
  shows "minv b'"
proof (cases "mem_requireInit b = None \<and> ReplayOf t = '''' \<and>
      (BusinessKey t = '''' \<or> chain_of b (BusinessKey t) = []) \<and>
      (ID t = '''' \<or> fmlookup (recs b) (ID t) = None) \<and>
      (\<forall>q \<in> set (DependsOn t). fmlookup (recs b) q \<noteq> None)")
  case False
  then show ?thesis using Enqueue_error [OF False, of fresh clk] step inv by auto
next
  case True
  then have b': "b' = enqueued (enq_id fresh t) (trunc_ms clk) t b"
    using step Enqueue_ok [of b t fresh clk] by (simp add: Let_def)
  have "fmlookup (recs b) (enq_id fresh t) = None" "enq_id fresh t \<noteq> ''''"
    using True fr by (auto simp: enq_id_def fresh_id_def)
  then show ?thesis unfolding b' using True by (intro enqueued_minv [OF inv]) auto
qed

section \<open>Replay\<close>

definition replay_rec :: "id \<Rightarrow> time \<Rightarrow> replayRequest \<Rightarrow> task \<Rightarrow> mrec" where
  "replay_rec i now req tgt =
     \<lparr>task = replay_task i now (if rq_Payload req = None then Payload tgt else rq_Payload req) tgt,
      pendingParents = 0, leaseUntil = zero_time, cancelRequested = False, children = []\<rparr>"

definition replayed_broker :: "id \<Rightarrow> time \<Rightarrow> replayRequest \<Rightarrow> task \<Rightarrow> mbroker \<Rightarrow> mbroker" where
  "replayed_broker i now req tgt b =
     mem_broadcast ((push_chain (BusinessKey tgt) i b)
       \<lparr>recs := insert_store i (replay_rec i now req tgt) (recs b),
        replayed := fmupd (ID tgt) True (replayed b)\<rparr>)"

definition replayable :: "replayRequest \<Rightarrow> mbroker \<Rightarrow> task \<Rightarrow> bool" where
  "replayable req b tgt \<longleftrightarrow> isFinal (Status tgt) \<and> \<not> is_replayed (replayed b) (ID tgt) \<and>
     (Status tgt = StatusCompleted \<longrightarrow> rq_AllowCompleted req)"

lemma replay_rec_fields [simp]:
  "BusinessKey (task (replay_rec i now req tgt)) = BusinessKey tgt"
  "ReplayOf (task (replay_rec i now req tgt)) = ID tgt"
  "DependsOn (task (replay_rec i now req tgt)) = []"
  "Status (task (replay_rec i now req tgt)) = StatusPending"
  "ID (task (replay_rec i now req tgt)) = i"
  by (simp_all add: replay_rec_def replay_task_def)

lemma replay_target_sound:
  "replay_target req b = Inr r \<Longrightarrow> \<exists>k. fmlookup (recs b) k = Some r"
  by (auto simp: replay_target_def Let_def split: if_splits option.splits)

lemma Replay_ok:
  assumes "mem_requireInit b = None" and "(rq_ExecutionID req = '''') \<noteq> (rq_BusinessKey req = '''')"
    and "replay_target req b = Inr r" and "replayable req b (task r)"
  shows "mem_Replay fresh clk req b =
    (let t = task (replay_rec fresh (trunc_ms clk) req (task r))
     in (replayed_broker fresh (trunc_ms clk) req (task r) b, [cloneTask t], Inr (cloneTask t)))"
  using assms
  by (auto simp: mem_Replay_def Let_def replayable_def is_replayed_def replayed_broker_def replay_rec_def
      insert_store_def put_rec_def push_chain_def mem_broadcast_def chain_of_def replay_task_def)

lemma Replay_error:
  assumes "\<not> (mem_requireInit b = None \<and> (rq_ExecutionID req = '''') \<noteq> (rq_BusinessKey req = '''') \<and>
    (\<exists>r. replay_target req b = Inr r \<and> replayable req b (task r)))"
  shows "\<exists>e. mem_Replay fresh clk req b = (b, [], Inl e)"
  using assms
  by (auto simp: mem_Replay_def Let_def replayable_def is_replayed_def split: option.splits sum.splits)

lemma set_butlast_last: "xs \<noteq> [] \<Longrightarrow> set xs = insert (last xs) (set (butlast xs))"
  by (induction xs) auto

lemma chain_links_snoc:
  "is \<noteq> [] \<Longrightarrow> chain_links m prev (is @ [i]) \<longleftrightarrow> chain_links m prev is \<and> chain_links m (last is) [i]"
  by (induction "is" arbitrary: prev) auto

lemma replayed_minv:
  assumes inv: "minv b" and fr: "fresh_id i b" and k: "fmlookup (recs b) k = Some r"
    and ok: "replayable req b (task r)"
  shows "minv (replayed_broker i now req (task r) b)"
proof -
  let ?t = "task r" and ?r = "replay_rec i now req (task r)"
  let ?b = "replayed_broker i now req ?t b" and ?key = "BusinessKey (task r)"
  note ch = minvD(5) [OF inv]
  have id: "ID ?t = k" using minvD(1) [OF inv] k by (simp add: graph_ok_def)
  have f: "fits i ?r (recs b)" using fr by (simp add: fits_def fresh_id_def replay_rec_def replay_task_def)
  have recs': "recs ?b = insert_store i ?r (recs b)"
    and rp: "replayed ?b = fmupd k True (replayed b)"
    and chains: "chains ?b = (if ?key = '''' then chains b
      else fmupd ?key (chain_of b ?key @ [i]) (chains b))"
    by (simp_all add: replayed_broker_def mem_broadcast_def push_chain_def id)
  have rp_iff: "is_replayed (replayed ?b) j \<longleftrightarrow> j = k \<or> is_replayed (replayed b) j" for j
    by (simp add: rp is_replayed_def)
  have new: "i \<noteq> k" "fmlookup (recs b) i = None" "\<not> is_replayed (replayed b) i"
    using fr k not_in_store [OF ch] by (auto simp: fresh_id_def)
  have own: "one_chain (recs ?b) (replayed ?b) ?key (chain_of b ?key @ [i])" if ne: "?key \<noteq> ''''"
  proof -
    let ?is = "chain_of b ?key"
    have mem: "k \<in> set ?is" using chains_okD(2) [OF ch k ne] .
    then have "fmlookup (chains b) ?key = Some ?is"
      by (cases "fmlookup (chains b) ?key") (simp_all add: chain_of_def)
    then have one: "one_chain (recs b) (replayed b) ?key ?is" by (rule chains_okD(1) [OF ch])
    note oneD = one_chainD [OF one]
    note split = set_butlast_last [OF oneD(2)]
    have "k \<notin> set (butlast ?is)" using oneD(6) ok id by (auto simp: replayable_def)
    then have last: "last ?is = k" using mem split by auto
    have mono: "chain_links (recs ?b) '''' ?is" "\<And>j. j \<in> set ?is \<Longrightarrow>
        \<exists>s. fmlookup (recs ?b) j = Some s \<and> BusinessKey (task s) = ?key"
      using chain_links_mono [OF _ oneD(4)] oneD(5) insert_same_ident [OF f] insert_lookup_old [OF f]
      by (auto simp: recs') metis
    have ni: "fmlookup (recs ?b) i = Some ?r" using f by (simp add: recs' insert_lookup)
    have "i \<notin> set ?is" using oneD(5) [of i] new(2) by auto
    moreover have "is_replayed (replayed ?b) j" if "j \<in> set ?is" for j
      using that oneD(6) last rp_iff split by auto
    ultimately show ?thesis
      using ne oneD(2,3) mono ni last id new rp_iff
      by (auto simp: one_chain_def chain_links_snoc)
  qed
  have other: "j \<noteq> k" if "fmlookup (chains b) key = Some is" "j \<in> set is" "key \<noteq> ?key" for j key "is"
    using one_chainD(5) [OF chains_okD(1) [OF ch that(1)] that(2)] that(3) k by auto
  have "chains_ok ?b"
  proof (rule chains_ok_insert [OF ch f recs'])
    show "is_replayed (replayed b) j \<or> final_in (recs b) j" if "is_replayed (replayed ?b) j" for j
      using that ok k by (auto simp: rp_iff replayable_def final_in_def)
  qed (use own other in \<open>auto simp: chains rp_iff\<close>)
  moreover have "lease_rec ?r" by (simp add: lease_rec_def) (simp add: replay_rec_def replay_task_def)
  ultimately show ?thesis
    by (intro insert_minv [OF inv f _ recs']) (simp_all add: released_ok_def open_parents_def)
qed

lemma Replay_minv:
  assumes inv: "minv b" and fr: "fresh_id fresh b" and step: "mem_Replay fresh clk req b = (b', ns, res)"
  shows "minv b'"
proof (cases "mem_requireInit b = None \<and> (rq_ExecutionID req = '''') \<noteq> (rq_BusinessKey req = '''') \<and>
    (\<exists>r. replay_target req b = Inr r \<and> replayable req b (task r))")
  case False
  then show ?thesis using Replay_error [OF False, of fresh clk] step inv by auto
next
  case True
  then obtain r where r: "replay_target req b = Inr r" "replayable req b (task r)" by blast
  then obtain k where k: "fmlookup (recs b) k = Some r" using replay_target_sound by blast
  have "b' = replayed_broker fresh (trunc_ms clk) req (task r) b"
    using True r step Replay_ok [of b req r fresh clk] by (simp add: Let_def)
  then show ?thesis using replayed_minv [OF inv fr k r(2)] by simp
qed

lemma mem_New_minv: "minv mem_New"
  by (simp add: minv_def mem_New_def graph_ok_def edge_inv_def lease_ok_def chains_ok_def is_replayed_def
      ranked_def dep_def)

lemma minv_fields:
  "recs b' = recs b \<Longrightarrow> chains b' = chains b \<Longrightarrow> replayed b' = replayed b \<Longrightarrow> minv b' = minv b"
  by (simp add: minv_def chains_ok_def chain_of_def)

lemma Init_minv: "minv b \<Longrightarrow> minv (mem_Init o0 b)"
  by (rule minv_fields [THEN iffD2]) (simp_all add: mem_Init_def Let_def)

lemma Close_minv: "minv b \<Longrightarrow> minv (mem_Close b)"
  by (rule minv_fields [THEN iffD2]) (simp_all add: mem_Close_def mem_broadcast_def)

end
