(* ===== verification/Quota.thy ===== *)
theory Quota
  imports Prelude Task_Model
begin

text \<open>
  The contract of a periodic quota (\<open>QuotaGate\<close> in \<open>broker.go\<close>): what a back end promises
  about \<open>Reserve\<close> and \<open>Release\<close>, as a locale, and what the scheduler may rely on.  The
  counters are only promised for windows that have not been cleaned up; a back end keeps at
  least the current window and the two before it.  The client result is that the counters of
  those windows are exactly the outstanding reservations, so that no window ever hands out
  more reservations than its limit.  Every back end with a quota interprets the locale.
\<close>

section \<open>Windows\<close>

text \<open>A window is still kept at instant \<open>t\<close>.\<close>

definition live_window :: "(time \<Rightarrow> int) \<Rightarrow> int \<Rightarrow> time \<Rightarrow> int \<Rightarrow> bool" where
  "live_window window period t w \<longleftrightarrow> window t - 2 * period \<le> w"

text \<open>Go's integer division truncates towards zero, and is monotone all the same.\<close>

lemma sdiv_mono:
  fixes a b p :: int
  assumes "a \<le> b" and "0 < p"
  shows "a sdiv p \<le> b sdiv p"
proof -
  have q: "x sdiv p = (if x < 0 then - ((- x) div p) else x div p)" for x :: int
    using assms(2) by (auto simp: signed_divide_int_def sgn_if)
  have "- ((- a) div p) \<le> - ((- b) div p)" if "b < 0" using assms that by (simp add: zdiv_mono1)
  moreover have "0 \<le> (- a) div p" if "a < 0" using assms(2) that by (simp add: pos_imp_zdiv_nonneg_iff)
  moreover have "0 \<le> b div p" if "0 \<le> b" using assms(2) that by (simp add: pos_imp_zdiv_nonneg_iff)
  moreover have "a div p \<le> b div p" using assms by (simp add: zdiv_mono1)
  ultimately show ?thesis using assms(1) unfolding q by (auto simp: not_less)
qed

section \<open>Histories\<close>

text \<open>
  A history of the users of one quota key over a store of type \<open>'s\<close>: reservations at
  non-decreasing instants, releases of outstanding reservations, and other work, which does not
  touch the counters of the key.  The multiset holds the windows of the reservations that
  have been granted and not returned.
\<close>

inductive quota_history ::
  "(time \<Rightarrow> 's \<Rightarrow> 's \<times> (tg_error + int option)) \<Rightarrow> (int \<Rightarrow> 's \<Rightarrow> 's) \<Rightarrow> ('s \<Rightarrow> int \<Rightarrow> int) \<Rightarrow>
   's \<Rightarrow> time \<Rightarrow> int multiset \<Rightarrow> bool"
  for reserve release used where
  start: "(\<And>w. used s w = 0) \<Longrightarrow> quota_history reserve release used s t {#}"
| granted: "quota_history reserve release used s t out \<Longrightarrow> t \<le> t' \<Longrightarrow>
    reserve t' s = (s', Inr (Some w)) \<Longrightarrow>
    quota_history reserve release used s' t' (add_mset w out)"
| refused: "quota_history reserve release used s t out \<Longrightarrow> t \<le> t' \<Longrightarrow>
    reserve t' s = (s', Inr None) \<Longrightarrow> quota_history reserve release used s' t' out"
| failed: "quota_history reserve release used s t out \<Longrightarrow> t \<le> t' \<Longrightarrow>
    reserve t' s = (s', Inl e) \<Longrightarrow> quota_history reserve release used s' t' out"
| released: "quota_history reserve release used s t out \<Longrightarrow> w \<in># out \<Longrightarrow>
    quota_history reserve release used (release w s) t (out - {#w#})"
| other: "quota_history reserve release used s t out \<Longrightarrow> (\<And>w. used s' w = used s w) \<Longrightarrow>
    quota_history reserve release used s' t out"

section \<open>The contract\<close>

locale quota_gate =
  fixes reserve :: "time \<Rightarrow> 's \<Rightarrow> 's \<times> (tg_error + int option)"
    and release :: "int \<Rightarrow> 's \<Rightarrow> 's"
    and used :: "'s \<Rightarrow> int \<Rightarrow> int"
    and window :: "time \<Rightarrow> int"
    and limit :: int
    and period :: int
  assumes limit_nonneg: "0 \<le> limit"
    and period_pos: "0 < period"
    and window_mono: "t \<le> t' \<Longrightarrow> window t \<le> window t'"
    and reserve_granted: "reserve t s = (s', Inr (Some w)) \<Longrightarrow>
      w = window t \<and> used s w < limit \<and>
      (\<forall>v. live_window window period t v \<longrightarrow> used s' v = used s v + (if v = w then 1 else 0))"
    and reserve_refused: "reserve t s = (s', Inr None) \<Longrightarrow>
      limit \<le> used s (window t) \<and> (\<forall>v. live_window window period t v \<longrightarrow> used s' v = used s v)"
    and reserve_failed: "reserve t s = (s', Inl e) \<Longrightarrow>
      (\<forall>v. live_window window period t v \<longrightarrow> used s' v = used s v)"
    and release_used: "live_window window period t v \<Longrightarrow> used (release w s) v =
      (if v = w \<and> used s v > 0 then used s v - 1 else used s v)"
begin

lemma live_mono: "t \<le> t' \<Longrightarrow> live_window window period t' w \<Longrightarrow> live_window window period t w"
  using window_mono [of t t'] by (auto simp: live_window_def)

lemma current_live: "live_window window period t (window t)"
  using period_pos by (simp add: live_window_def)

text \<open>The counter of a window that has not been cleaned up is the number of its outstanding reservations.\<close>

lemma exact:
  assumes "quota_history reserve release used s t out"
  shows "(\<forall>w. int (count out w) \<le> limit) \<and>
    (\<forall>w. live_window window period t w \<longrightarrow> used s w = int (count out w))"
  using assms
proof (induction rule: quota_history.induct)
  case (start s t)
  then show ?case using limit_nonneg by simp
next
  case (granted s t out t' s' w)
  note law = reserve_granted [OF granted.hyps(3)]
  have same: "used s v = int (count out v)" if "live_window window period t' v" for v
    using granted.IH live_mono [OF granted.hyps(2) that] by blast
  have "live_window window period t' w" using law current_live by simp
  then have "int (count out w) < limit" using law same [of w] by linarith
  then show ?case using granted.IH law same by auto
next
  case (refused s t out t' s')
  then show ?case using reserve_refused [OF refused.hyps(3)] live_mono [OF refused.hyps(2)] by auto
next
  case (failed s t out t' s' e)
  then show ?case using reserve_failed [OF failed.hyps(3)] live_mono [OF failed.hyps(2)] by auto
next
  case (released s t out w)
  have "int (count (out - {#w#}) v) \<le> int (count out v)" for v by simp
  then have "int (count (out - {#w#}) v) \<le> limit" for v
    using released.IH order_trans by blast
  moreover have "0 < count out w" using released.hyps(2) by simp
  ultimately show ?case using released.IH release_used [of t _ w s] by auto
qed simp

text \<open>A refusal is never premature: the window really is used up by outstanding reservations.\<close>

lemma refusal_exact:
  assumes "quota_history reserve release used s t out" "t \<le> t'" "reserve t' s = (s', Inr None)"
  shows "int (count out (window t')) = limit"
proof -
  have "limit \<le> used s (window t')" using reserve_refused [OF assms(3)] by blast
  moreover have "used s (window t') = int (count out (window t'))"
    using exact [OF assms(1)] live_mono [OF assms(2) current_live] by blast
  moreover have "int (count out (window t')) \<le> limit" using exact [OF assms(1)] by blast
  ultimately show ?thesis by simp
qed

end

end
