(* ===== verification/Memory_Quota.thy ===== *)
theory Memory_Quota
  imports Memory_Broker Quota
begin

text \<open>
  Periodic quotas of the in-memory broker (\<open>QueueQuota\<close>, \<open>Reserve\<close>, \<open>Release\<close> of
  \<open>memorybroker/broker.go\<close>): a gate counts the reservations of the current window of a key.
  The lemmas show that a window never holds more reservations than the limit, that a
  reservation is refused only when the window is full, and that reservations handed out and
  not returned stay below the limit of their window as long as the clock does not run
  backwards.
\<close>

section \<open>Operations\<close>

record memQuotaGate =
  g_key :: string
  g_limit :: int
  g_periodSec :: int

text \<open>
  \<open>QueueQuota\<close> reads three fields of the queue configuration.  \<open>time.Duration(d) / time.Second\<close>
  and \<open>Unix() / periodSec\<close> are Go integer divisions, which truncate towards zero.
\<close>

definition mem_QueueQuota :: "string \<Rightarrow> string \<Rightarrow> int \<Rightarrow> duration \<Rightarrow> tg_error + memQuotaGate" where
  "mem_QueueQuota queue quotaKey quotaLimit quotaPeriod =
     (let key = (if quotaKey = '''' then queue else quotaKey);
          periodSec = quotaPeriod sdiv second
      in if quotaLimit \<le> 0 \<or> periodSec < 1 then Inl (ErrConfig ''invalid quota config'')
         else Inr \<lparr>g_key = key, g_limit = quotaLimit, g_periodSec = periodSec\<rparr>)"

definition quota_window :: "memQuotaGate \<Rightarrow> time \<Rightarrow> int" where
  "quota_window g now = unixSec now sdiv g_periodSec g * g_periodSec g"

definition used_in :: "(int, int) fmap \<Rightarrow> int \<Rightarrow> int" where
  "used_in wins w = (case fmlookup wins w of None \<Rightarrow> 0 | Some n \<Rightarrow> n)"

definition windows_of :: "mbroker \<Rightarrow> string \<Rightarrow> (int, int) fmap" where
  "windows_of b key = (case fmlookup (quota b) key of None \<Rightarrow> fmempty | Some wins \<Rightarrow> wins)"

text \<open>
  The three outcomes of \<open>Reserve\<close>: an error, no reservation because the window is used up
  (\<^term>\<open>Inr None\<close>), or a reservation, which is the start of its window.
\<close>

definition mem_Reserve :: "time \<Rightarrow> memQuotaGate \<Rightarrow> mbroker \<Rightarrow> mbroker \<times> (tg_error + int option)" where
  "mem_Reserve now g b =
     (case mem_requireInit b of
        Some e \<Rightarrow> (b, Inl e)
      | None \<Rightarrow>
          let win = quota_window g now;
              wins = fmfilter (\<lambda>w. \<not> w < win - 2 * g_periodSec g) (windows_of b (g_key g))
          in if used_in wins win \<ge> g_limit g
             then (b\<lparr>quota := fmupd (g_key g) wins (quota b)\<rparr>, Inr None)
             else (b\<lparr>quota := fmupd (g_key g) (fmupd win (used_in wins win + 1) wins) (quota b)\<rparr>,
                   Inr (Some win)))"

definition mem_Release :: "memQuotaGate \<Rightarrow> int option \<Rightarrow> mbroker \<Rightarrow> mbroker" where
  "mem_Release g r b =
     (case r of
        None \<Rightarrow> b
      | Some win \<Rightarrow>
          (case fmlookup (quota b) (g_key g) of
             None \<Rightarrow> b
           | Some wins \<Rightarrow>
               if used_in wins win > 0
               then b\<lparr>quota := fmupd (g_key g) (fmupd win (used_in wins win - 1) wins) (quota b)\<rparr>
               else b))"

section \<open>One operation\<close>

lemma used_in_upd [simp]: "used_in (fmupd w n m) v = (if v = w then n else used_in m v)"
  by (simp add: used_in_def)

lemma used_in_filter: "used_in (fmfilter P m) v = (if P v then used_in m v else 0)"
  by (simp add: used_in_def)

lemma used_in_empty [simp]: "used_in fmempty v = 0"
  by (simp add: used_in_def)

lemma windows_of_upd [simp]:
  "windows_of (b\<lparr>quota := fmupd key wins (quota b)\<rparr>) key' = (if key' = key then wins else windows_of b key')"
  by (simp add: windows_of_def)

text \<open>The effect of a reservation on every counter.\<close>

lemma Reserve_cases:
  assumes "mem_Reserve now g b = (b', res)"
  obtains (error) e where "mem_requireInit b = Some e" "res = Inl e" "b' = b"
  | (full) "mem_requireInit b = None" "res = Inr None"
      "g_limit g \<le> used_in (windows_of b' (g_key g)) (quota_window g now)"
      "b' = b\<lparr>quota := quota b'\<rparr>"
      "\<And>key w. used_in (windows_of b' key) w =
        (if key = g_key g \<and> w < quota_window g now - 2 * g_periodSec g then 0
         else used_in (windows_of b key) w)"
  | (ok) "mem_requireInit b = None" "res = Inr (Some (quota_window g now))"
      "used_in (windows_of b' (g_key g)) (quota_window g now) \<le> g_limit g"
      "b' = b\<lparr>quota := quota b'\<rparr>"
      "\<And>key w. used_in (windows_of b' key) w =
        (if key = g_key g \<and> w < quota_window g now - 2 * g_periodSec g then 0
         else used_in (windows_of b key) w) +
        (if key = g_key g \<and> w = quota_window g now then 1 else 0)"
proof (cases "mem_requireInit b")
  case (Some e)
  then have "(b', res) = (b, Inl e)" unfolding assms [symmetric] by (simp add: mem_Reserve_def)
  then show thesis using Some by (intro error) simp_all
next
  case None
  define win where "win = quota_window g now"
  define wins where "wins = fmfilter (\<lambda>w. \<not> w < win - 2 * g_periodSec g) (windows_of b (g_key g))"
  have eq: "(b', res) =
      (if used_in wins win \<ge> g_limit g then (b\<lparr>quota := fmupd (g_key g) wins (quota b)\<rparr>, Inr None)
       else (b\<lparr>quota := fmupd (g_key g) (fmupd win (used_in wins win + 1) wins) (quota b)\<rparr>,
             Inr (Some win)))"
    unfolding assms [symmetric] mem_Reserve_def Let_def None option.case wins_def win_def ..
  have wins: "used_in wins w = (if w < win - 2 * g_periodSec g then 0 else used_in (windows_of b (g_key g)) w)"
    for w by (simp add: wins_def used_in_filter)
  show thesis
  proof (cases "used_in wins win \<ge> g_limit g")
    case True
    then show thesis using None eq wins by (intro full) (auto simp: win_def)
  next
    case False
    then show thesis using None eq wins by (intro ok) (auto simp: win_def)
  qed
qed

lemma Release_used:
  "used_in (windows_of (mem_Release g (Some win) b) key) w =
     (if key = g_key g \<and> w = win \<and> used_in (windows_of b key) w > 0
      then used_in (windows_of b key) w - 1 else used_in (windows_of b key) w)"
  by (auto simp: mem_Release_def windows_of_def split: option.splits)

section \<open>The contract\<close>

lemma quota_window_mono:
  "t \<le> t' \<Longrightarrow> 0 < g_periodSec g \<Longrightarrow> quota_window g t \<le> quota_window g t'"
  unfolding quota_window_def unixSec_def
  by (intro mult_right_mono sdiv_mono zdiv_mono1) auto

abbreviation mem_used :: "memQuotaGate \<Rightarrow> mbroker \<Rightarrow> int \<Rightarrow> int" where
  "mem_used g b \<equiv> used_in (windows_of b (g_key g))"

abbreviation mem_history :: "memQuotaGate \<Rightarrow> mbroker \<Rightarrow> time \<Rightarrow> int multiset \<Rightarrow> bool" where
  "mem_history g \<equiv>
     quota_history (\<lambda>t. mem_Reserve t g) (\<lambda>w. mem_Release g (Some w)) (mem_used g)"

lemma Reserve_granted:
  assumes "mem_Reserve t g s = (s', Inr (Some w))" and "0 < g_periodSec g"
  shows "w = quota_window g t \<and> mem_used g s w < g_limit g \<and>
    (\<forall>v. live_window (quota_window g) (g_periodSec g) t v \<longrightarrow>
       mem_used g s' v = mem_used g s v + (if v = w then 1 else 0))"
  using assms by (cases rule: Reserve_cases) (auto simp: live_window_def split: if_splits)

lemma Reserve_refused:
  assumes "mem_Reserve t g s = (s', Inr None)" and "0 < g_periodSec g"
  shows "g_limit g \<le> mem_used g s (quota_window g t) \<and>
    (\<forall>v. live_window (quota_window g) (g_periodSec g) t v \<longrightarrow> mem_used g s' v = mem_used g s v)"
  using assms by (cases rule: Reserve_cases) (auto simp: live_window_def split: if_splits)

lemma Reserve_failed: "mem_Reserve t g s = (s', Inl e) \<Longrightarrow> s' = s"
  by (erule Reserve_cases) simp_all

text \<open>
  \<open>QueueQuota\<close> only builds gates with a positive limit and a positive period; they are the
  gates \<open>gate_of key n p\<close>, and every one of them satisfies the contract.
\<close>

definition gate_of :: "string \<Rightarrow> nat \<Rightarrow> nat \<Rightarrow> memQuotaGate" where
  "gate_of key n p = \<lparr>g_key = key, g_limit = int n + 1, g_periodSec = int p + 1\<rparr>"

lemma QueueQuota_gate_of:
  assumes "mem_QueueQuota queue key limit per = Inr g"
  shows "g = gate_of (if key = '''' then queue else key) (nat (limit - 1)) (nat (per sdiv second - 1))
    \<and> 0 < limit \<and> g_limit g = limit"
  using assms by (auto simp: mem_QueueQuota_def gate_of_def Let_def split: if_splits)

lemma gate_of_pos [simp]: "0 < g_limit (gate_of key n p)" "0 < g_periodSec (gate_of key n p)"
  by (simp_all add: gate_of_def)

interpretation mq: quota_gate "\<lambda>t. mem_Reserve t (gate_of key n p)"
  "\<lambda>w. mem_Release (gate_of key n p) (Some w)" "mem_used (gate_of key n p)"
  "quota_window (gate_of key n p)" "g_limit (gate_of key n p)" "g_periodSec (gate_of key n p)"
  for key n p
  by unfold_locales
    (auto simp: Release_used quota_window_mono less_imp_le
      dest: Reserve_granted Reserve_refused Reserve_failed)

text \<open>
  C35: A gate built by \<open>QueueQuota\<close> never over-issues.  Over any history of reservations at
  non-decreasing instants, releases and other work, no window has more outstanding
  reservations than the configured limit; the stored counter of every window that is still
  kept is exactly the number of its outstanding reservations; and a reservation is refused
  only when the current window has handed out its whole limit.
\<close>

theorem quota_never_exceeded:
  assumes "mem_QueueQuota queue key limit per = Inr g" and "mem_history g b t out"
  shows "int (count out w) \<le> limit \<and>
    (live_window (quota_window g) (g_periodSec g) t w \<longrightarrow> mem_used g b w = int (count out w)) \<and>
    (t \<le> t' \<longrightarrow> mem_Reserve t' g b = (b', Inr None) \<longrightarrow> int (count out (quota_window g t')) = limit)"
proof -
  obtain key' n p where g: "g = gate_of key' n p" "g_limit g = limit"
    using QueueQuota_gate_of [OF assms(1)] by blast
  show ?thesis
    using mq.exact [of key' n p b t out] mq.refusal_exact [of key' n p b t out t' b'] assms(2)
    unfolding g(1) g(2) [symmetric] by blast
qed

end
