(* ===== verification/Memory_System.thy ===== *)
theory Memory_System
  imports Memory_Insert Memory_Quota
begin

text \<open>
  The in-memory broker as a transition system: one step is one call of a public method by
  any client, in any order.  What is proved of the reachable states holds of every
  interleaving of any number of clients, because each method body is one critical section.
\<close>

section \<open>Steps\<close>

text \<open>
  \<open>fresh_id\<close> and the non-empty token are what \<open>ulid.Make\<close> guarantees.  The arguments
  \<open>xs\<close> and \<open>ys\<close> are iteration orders of the record map, the instants \<open>clk\<close> whatever the clock
  returns.
\<close>

inductive mcall :: "mbroker \<Rightarrow> task list \<Rightarrow> mbroker \<Rightarrow> bool" where
  init: "mcall b [] (mem_Init o0 b)"
| enqueue: "fresh_id fresh b \<Longrightarrow> mem_Enqueue fresh clk t b = (b', ns, res) \<Longrightarrow> mcall b ns b'"
| ack: "mem_Ack clk i token result b = (b', ns, u) \<Longrightarrow> mcall b ns b'"
| fail: "mem_Fail clk i token msg kind retryAt b = (b', ns, u) \<Longrightarrow> mcall b ns b'"
| cancel: "mem_Cancel clk i b = (b', ns, u) \<Longrightarrow> mcall b ns b'"
| finishCanceled: "mem_FinishCanceled clk i token b = (b', ns, u) \<Longrightarrow> mcall b ns b'"
| requeue: "mem_Requeue i token b = (b', ns, u) \<Longrightarrow> mcall b ns b'"
| heartbeat: "mem_Heartbeat clk i token b = (b', ns, u) \<Longrightarrow> mcall b ns b'"
| replay: "fresh_id fresh b \<Longrightarrow> mem_Replay fresh clk req b = (b', ns, res) \<Longrightarrow> mcall b ns b'"
| reap: "mem_ReapExpired xs ys clk b = (b', ns, n, e) \<Longrightarrow> mcall b ns b'"
| reserve: "mem_Reserve clk g b = (b', q) \<Longrightarrow> mcall b [] b'"
| release: "mcall b [] (mem_Release g q b)"
| close: "mcall b [] (mem_Close b)"

inductive mstep :: "mbroker \<Rightarrow> task list \<Rightarrow> mbroker \<Rightarrow> bool" where
  call: "mcall b ns b' \<Longrightarrow> mstep b ns b'"
| dequeue: "token \<noteq> '''' \<Longrightarrow> mem_Dequeue_turn xs ctx token clk queues b = (b', ns, turn) \<Longrightarrow> mstep b ns b'"

definition mstep1 :: "mbroker \<Rightarrow> mbroker \<Rightarrow> bool" where
  "mstep1 b b' \<longleftrightarrow> (\<exists>ns. mstep b ns b')"

abbreviation msteps :: "mbroker \<Rightarrow> mbroker \<Rightarrow> bool" where
  "msteps \<equiv> mstep1\<^sup>*\<^sup>*"

abbreviation reachable :: "mbroker \<Rightarrow> bool" where
  "reachable \<equiv> msteps mem_New"

lemma same_store:
  assumes "mem_Reserve clk g b = (b', q)"
  shows "recs b' = recs b" "chains b' = chains b" "replayed b' = replayed b" "wakes b' = wakes b"
    "inited b' = inited b" "closed b' = closed b"
  using assms by (cases rule: Reserve_cases; metis mbroker.select_convs mbroker.surjective
      mbroker.update_convs(5))+

lemma release_store:
  "recs (mem_Release g q b) = recs b" "chains (mem_Release g q b) = chains b"
  "replayed (mem_Release g q b) = replayed b" "wakes (mem_Release g q b) = wakes b"
  by (simp_all add: mem_Release_def split: option.splits)

lemma admin_store:
  "recs (mem_Init o0 b) = recs b" "chains (mem_Init o0 b) = chains b"
  "replayed (mem_Init o0 b) = replayed b" "wakes (mem_Init o0 b) = wakes b"
  "recs (mem_Close b) = recs b" "chains (mem_Close b) = chains b"
  "replayed (mem_Close b) = replayed b"
  by (simp_all add: mem_Init_def mem_Close_def mem_broadcast_def Let_def)

text \<open>
  What a step does to the store: it evolves the records, claiming with at most one token, or it
  adds one record that holds no lease.
\<close>

inductive store_change :: "string \<Rightarrow> store \<Rightarrow> store \<Rightarrow> bool" for token m where
  evolve: "evolves m m' \<Longrightarrow> claims token m m' \<Longrightarrow> store_change token m m'"
| insert: "fits i r m \<Longrightarrow> lease_rec r \<Longrightarrow> Status (task r) \<noteq> StatusRunning \<Longrightarrow>
    store_change token m (insert_store i r m)"

lemma store_change_refl: "store_change token m m"
  by (rule evolve) simp_all

lemma store_step_change: "store_step token b b' \<Longrightarrow> store_change token (recs b) (recs b')"
  by (auto simp: store_step_def intro: evolve)

lemma Enqueue_change:
  assumes fr: "fresh_id fresh b" and step: "mem_Enqueue fresh clk t b = (b', ns, res)"
  shows "store_change token (recs b) (recs b')"
proof (cases "mem_requireInit b = None \<and> ReplayOf t = '''' \<and>
      (BusinessKey t = '''' \<or> chain_of b (BusinessKey t) = []) \<and>
      (ID t = '''' \<or> fmlookup (recs b) (ID t) = None) \<and>
      (\<forall>q \<in> set (DependsOn t). fmlookup (recs b) q \<noteq> None)")
  case False
  then show ?thesis using Enqueue_error [OF False, of fresh clk] step by (auto intro: store_change_refl)
next
  case True
  let ?i = "enq_id fresh t" and ?r = "enq_rec (enq_id fresh t) (trunc_ms clk) t (recs b)"
  have "recs b' = insert_store ?i ?r (recs b)"
    using True step Enqueue_ok [of b t fresh clk]
    by (auto simp: Let_def enqueued_def mem_broadcast_def)
  moreover have "fits ?i ?r (recs b)"
    using True fr by (auto simp: fits_def enq_rec_def enq_id_def fresh_id_def)
  moreover have "Status (task ?r) \<noteq> StatusRunning"
    using DecideOnSubmit_range [of "parent_states (recs b) (DependsOn t)" "enq_policy t"]
    by (auto simp: enq_rec_def)
  ultimately show ?thesis using insert enq_rec_lease by metis
qed

lemma Replay_change:
  assumes fr: "fresh_id fresh b" and step: "mem_Replay fresh clk req b = (b', ns, res)"
  shows "store_change token (recs b) (recs b')"
proof (cases "mem_requireInit b = None \<and> (rq_ExecutionID req = '''') \<noteq> (rq_BusinessKey req = '''') \<and>
    (\<exists>r. replay_target req b = Inr r \<and> replayable req b (task r))")
  case False
  then show ?thesis using Replay_error [OF False, of fresh clk] step by (auto intro: store_change_refl)
next
  case True
  then obtain r where r: "replay_target req b = Inr r" "replayable req b (task r)" by blast
  let ?r = "replay_rec fresh (trunc_ms clk) req (task r)"
  have "recs b' = insert_store fresh ?r (recs b)"
    using True r step Replay_ok [of b req r fresh clk]
    by (auto simp: Let_def replayed_broker_def mem_broadcast_def)
  moreover have "fits fresh ?r (recs b)"
    using fr by (simp add: fits_def fresh_id_def) (simp add: replay_rec_def)
  moreover have "lease_rec ?r" by (simp add: lease_rec_def) (simp add: replay_rec_def replay_task_def)
  ultimately show ?thesis using insert [of fresh ?r] by simp
qed

lemma mcall_change:
  assumes inv: "minv b" and step: "mcall b ns b'"
  shows "minv b' \<and> store_change '''' (recs b) (recs b')"
  using step
proof (cases rule: mcall.cases)
  case (init o0)
  then show ?thesis using Init_minv [OF inv] store_change_refl by (simp add: admin_store)
next
  case enqueue
  then show ?thesis using Enqueue_minv [OF inv] Enqueue_change by blast
next
  case ack
  then show ?thesis using Ack_step [OF inv] minv_step [OF inv] store_step_change by metis
next
  case fail
  then show ?thesis using Fail_step [OF inv] minv_step [OF inv] store_step_change by metis
next
  case cancel
  then show ?thesis using Cancel_step [OF inv] minv_step [OF inv] store_step_change by metis
next
  case finishCanceled
  then show ?thesis using FinishCanceled_step [OF inv] minv_step [OF inv] store_step_change by metis
next
  case requeue
  then show ?thesis using Requeue_step [OF inv] minv_step [OF inv] store_step_change by metis
next
  case heartbeat
  then show ?thesis using Heartbeat_step [OF inv] minv_step [OF inv] store_step_change by metis
next
  case replay
  then show ?thesis using Replay_minv [OF inv] Replay_change by blast
next
  case reap
  then show ?thesis using ReapExpired_step [OF inv] minv_step [OF inv] store_step_change by metis
next
  case (reserve clk g q)
  note s = same_store [OF reserve(2)]
  then have "minv b'" using inv minv_fields by blast
  then show ?thesis using s(1) store_change_refl by simp
next
  case (release g q)
  have "minv b'" unfolding release using inv
    by (rule minv_fields [THEN iffD2, rotated 3]) (simp_all add: release_store)
  then show ?thesis using store_change_refl by (simp add: release release_store)
next
  case close
  then show ?thesis using Close_minv [OF inv] store_change_refl by (simp add: admin_store)
qed

lemma mstep_change:
  assumes inv: "minv b" and step: "mstep b ns b'"
  shows "minv b' \<and> (\<exists>token. store_change token (recs b) (recs b'))"
  using step
proof cases
  case call
  then show ?thesis using mcall_change [OF inv] by blast
next
  case dequeue
  then show ?thesis using Dequeue_step [OF inv] minv_step [OF inv] store_step_change by metis
qed

lemma reachable_minv: "reachable b \<Longrightarrow> minv b"
  by (induction rule: rtranclp_induct) (auto simp: mem_New_minv mstep_change mstep1_def)

section \<open>Dependencies\<close>

lemma reachable_graph: "reachable b \<Longrightarrow> graph_ok (recs b)" "reachable b \<Longrightarrow> edge_inv {} (recs b)"
  "reachable b \<Longrightarrow> ranked (recs b)" "reachable b \<Longrightarrow> lease_ok (recs b)" "reachable b \<Longrightarrow> chains_ok b"
  using minvD [OF reachable_minv] by blast+

text \<open>The facts below are stated of the invariant, because every back end that refines this broker inherits them.\<close>

lemma minv_dependency:
  assumes "minv b" and c: "fmlookup (recs b) c = Some r"
    and "Status (task r) \<noteq> StatusBlocked" and "Status (task r) \<noteq> StatusCanceled"
    and q: "q \<in> set (DependsOn (task r))"
  shows "\<exists>p. fmlookup (recs b) q = Some p \<and> isFinal (Status (task p)) \<and>
    (OnParentFailure (task r) \<noteq> IgnoreParentFail \<longrightarrow> Status (task p) = StatusCompleted)"
proof -
  have "released_ok {} (recs b) c r"
    using edge_inv_lookup(2) [OF minvD(2) [OF assms(1)] c assms(3,4)] .
  then have "final_in (recs b) q" "OnParentFailure (task r) \<noteq> IgnoreParentFail \<longrightarrow> completed_in (recs b) q"
    using q by (auto simp: released_ok_def open_parents_def)
  then show ?thesis by (auto simp: final_in_def completed_in_def)
qed

lemma minv_blocked_counter:
  assumes "minv b" and c: "fmlookup (recs b) c = Some r" and st: "Status (task r) = StatusBlocked"
  shows "pendingParents r = int (card {q \<in> set (DependsOn (task r)). \<not> isFinal (status_of (recs b) q)}) \<and>
    0 < pendingParents r \<and>
    (OnParentFailure (task r) \<noteq> IgnoreParentFail \<longrightarrow>
       (\<forall>q \<in> set (DependsOn (task r)). status_of (recs b) q \<noteq> StatusFailed \<and>
          status_of (recs b) q \<noteq> StatusCanceled))"
proof -
  have ok: "blocked_ok {} (recs b) c r"
    using edge_inv_lookup(1) [OF minvD(2) [OF assms(1)] c st] .
  have ex: "fmlookup (recs b) q \<noteq> None" if "q \<in> set (DependsOn (task r))" for q
    using minvD(1) [OF assms(1)] c that by (simp add: graph_ok_def)
  have "open_parents {} (recs b) c r = {q \<in> set (DependsOn (task r)). \<not> isFinal (status_of (recs b) q)}"
    using final_in_status ex by (auto simp: open_parents_def)
  moreover have "status_of (recs b) q \<noteq> StatusFailed \<and> status_of (recs b) q \<noteq> StatusCanceled"
    if "OnParentFailure (task r) \<noteq> IgnoreParentFail" and q: "q \<in> set (DependsOn (task r))" for q
  proof (cases "q \<in> open_parents {} (recs b) c r")
    case True
    then have "\<not> isFinal (status_of (recs b) q)" using ex [OF q] final_in_status by (auto simp: open_parents_def)
    then show ?thesis by (auto simp: isFinal_def)
  next
    case False
    then have "completed_in (recs b) q" using ok that unfolding blocked_ok_def by blast
    then show ?thesis by (auto simp: completed_in_def status_of_def)
  qed
  ultimately show ?thesis using ok by (simp add: blocked_ok_def)
qed

text \<open>
  C1: dependency safety.  In every state the broker can reach, a task that is pending, running,
  retrying, completed or failed has only finished parents, and only completed ones unless it
  was submitted with the policy that ignores failed parents.
\<close>

theorem dependency_safety:
  assumes "reachable b" and c: "fmlookup (recs b) c = Some r"
    and "Status (task r) \<noteq> StatusBlocked" and "Status (task r) \<noteq> StatusCanceled"
    and q: "q \<in> set (DependsOn (task r))"
  shows "\<exists>p. fmlookup (recs b) q = Some p \<and> isFinal (Status (task p)) \<and>
    (OnParentFailure (task r) \<noteq> IgnoreParentFail \<longrightarrow> Status (task p) = StatusCompleted)"
  using minv_dependency [OF reachable_minv [OF assms(1)] assms(2-5)] .

text \<open>
  C2: no lost wake-up.  In every reachable state the counter of a blocked task is exactly the
  number of its unfinished parents, it is positive, and a blocked task that does not ignore
  failures has no failed or cancelled parent.
\<close>

theorem blocked_counter_exact:
  assumes "reachable b" and c: "fmlookup (recs b) c = Some r" and st: "Status (task r) = StatusBlocked"
  shows "pendingParents r = int (card {q \<in> set (DependsOn (task r)). \<not> isFinal (status_of (recs b) q)}) \<and>
    0 < pendingParents r \<and>
    (OnParentFailure (task r) \<noteq> IgnoreParentFail \<longrightarrow>
       (\<forall>q \<in> set (DependsOn (task r)). status_of (recs b) q \<noteq> StatusFailed \<and>
          status_of (recs b) q \<noteq> StatusCanceled))"
  using minv_blocked_counter [OF reachable_minv [OF assms(1)] assms(2,3)] .

text \<open>
  C12: no deadlock.  In every reachable state a blocked task has an ancestor that is pending,
  running or retrying: some worker can still make progress on what it waits for.
\<close>

theorem blocked_has_live_ancestor:
  assumes "reachable b" and "fmlookup (recs b) c = Some r" and "Status (task r) = StatusBlocked"
  shows "\<exists>a s. (dep (recs b))\<^sup>+\<^sup>+ a c \<and> fmlookup (recs b) a = Some s \<and>
    Status (task s) \<in> {StatusPending, StatusRunning, StatusRetrying}"
proof -
  obtain rank :: "id \<Rightarrow> nat" where rank: "\<And>q c. dep (recs b) q c \<Longrightarrow> rank q < rank c"
    using reachable_graph(3) [OF assms(1)] by (auto simp: ranked_def)
  show ?thesis using assms(2,3)
  proof (induction "rank c" arbitrary: c r rule: less_induct)
    case less
    have "blocked_ok {} (recs b) c r"
      using edge_inv_lookup(1) [OF reachable_graph(2) [OF assms(1)] less.prems] .
    then have "open_parents {} (recs b) c r \<noteq> {}" by (auto simp: blocked_ok_def)
    then obtain q where "q \<in> open_parents {} (recs b) c r" by blast
    then have q: "dep (recs b) q c" "\<not> final_in (recs b) q"
      using less.prems(1) by (auto simp: open_parents_def dep_def)
    obtain s where s: "fmlookup (recs b) q = Some s"
      using dep_exists [OF reachable_graph(1) [OF assms(1)] q(1)] by blast
    have nf: "\<not> isFinal (Status (task s))" using q(2) s by (simp add: final_in_def)
    show ?case
    proof (cases "Status (task s) = StatusBlocked")
      case True
      then obtain a s' where "(dep (recs b))\<^sup>+\<^sup>+ a q" "fmlookup (recs b) a = Some s'"
        "Status (task s') \<in> {StatusPending, StatusRunning, StatusRetrying}"
        using less.hyps [OF rank [OF q(1)] s] by blast
      then show ?thesis using q(1) tranclp.trancl_into_trancl by metis
    next
      case False
      then have "Status (task s) \<in> {StatusPending, StatusRunning, StatusRetrying}"
        using nf by (cases "Status (task s)") auto
      then show ?thesis using s q(1) by blast
    qed
  qed
qed

section \<open>The life of a task\<close>

definition task_evolves :: "task \<Rightarrow> task \<Rightarrow> bool" where
  "task_evolves t t' \<longleftrightarrow>
     ID t' = ID t \<and> BusinessKey t' = BusinessKey t \<and> ReplayOf t' = ReplayOf t \<and> Type t' = Type t \<and>
     Queue t' = Queue t \<and> Payload t' = Payload t \<and> MaxRetry t' = MaxRetry t \<and>
     DependsOn t' = DependsOn t \<and> OnParentFailure t' = OnParentFailure t \<and> CreatedAt t' = CreatedAt t \<and>
     (isFinal (Status t) \<longrightarrow> t' = t) \<and> legalPath (Status t) (Status t') \<and>
     Attempts t \<le> Attempts t' \<and> LeaseLost t \<le> LeaseLost t' \<and> Throttled t \<le> Throttled t'"

lemma task_evolves_refl: "task_evolves t t"
  by (simp add: task_evolves_def)

lemma task_evolves_trans: "task_evolves t1 t2 \<Longrightarrow> task_evolves t2 t3 \<Longrightarrow> task_evolves t1 t3"
  unfolding task_evolves_def by (auto intro: rtranclp_trans)

lemma rec_task_evolves: "rec_evolves r r' \<Longrightarrow> task_evolves (task r) (task r')"
  using shape_fields [of r' r] by (auto simp: rec_evolves_def task_evolves_def)

lemma store_change_task:
  assumes "store_change token m m'" and "fmlookup m k = Some r"
  shows "\<exists>r'. fmlookup m' k = Some r' \<and> task_evolves (task r) (task r')"
  using assms
proof cases
  case evolve
  then show ?thesis using evolves_lookup [OF _ assms(2)] rec_task_evolves by blast
next
  case (insert i s)
  then show ?thesis using insert_lookup_old [OF _ assms(2)] task_evolves_refl by metis
qed

text \<open>
  C11: tasks are never lost, rewritten or resurrected.  Along any sequence of operations from a
  reachable state a stored task stays stored; its identity, payload, dependencies and policy
  never change, its counters never decrease, its status follows the transition table, and once
  it is final it is frozen in every field.
\<close>

theorem task_life_cycle:
  assumes "reachable b" and "msteps b b'" and "fmlookup (recs b) k = Some r"
  shows "\<exists>r'. fmlookup (recs b') k = Some r' \<and> task_evolves (task r) (task r')"
  using assms(2)
proof (induction rule: rtranclp_induct)
  case base
  then show ?case using assms(3) task_evolves_refl by blast
next
  case (step b1 b2)
  have "minv b1" using assms(1) step.hyps(1) by (intro reachable_minv) simp
  then obtain token where "store_change token (recs b1) (recs b2)"
    using mstep_change step.hyps(2) unfolding mstep1_def by blast
  then show ?case using step.IH store_change_task task_evolves_trans by blast
qed

section \<open>Leases\<close>

text \<open>
  A run in which \<open>ulid.Make\<close> never repeats a token: the set holds the tokens handed out.
\<close>

inductive lease_run :: "mbroker \<times> string set \<Rightarrow> mbroker \<times> string set \<Rightarrow> bool" where
  call: "mcall b ns b' \<Longrightarrow> lease_run (b, U) (b', U)"
| claim: "token \<noteq> '''' \<Longrightarrow> token \<notin> U \<Longrightarrow>
    mem_Dequeue_turn xs ctx token clk queues b = (b', ns, turn) \<Longrightarrow> lease_run (b, U) (b', insert token U)"

abbreviation lease_runs :: "mbroker \<times> string set \<Rightarrow> mbroker \<times> string set \<Rightarrow> bool" where
  "lease_runs \<equiv> lease_run\<^sup>*\<^sup>*"

definition holds :: "mbroker \<Rightarrow> id \<Rightarrow> string \<Rightarrow> bool" where
  "holds b k token \<longleftrightarrow> (\<exists>r. fmlookup (recs b) k = Some r \<and> LeaseToken (task r) = token)"

lemma lease_run_holds:
  assumes inv: "minv b" and step: "lease_run (b, U) (b', U')" and h: "holds b' k token" and "token \<noteq> ''''"
  shows "holds b k token \<or> token \<in> U' - U"
proof -
  have change: "holds b k token \<or> token = tk" if "store_change tk (recs b) (recs b')" for tk
    using that
  proof cases
    case evolve
    then show ?thesis using h assms(4) by (auto simp: claims_def holds_def)
  next
    case (insert i r)
    then show ?thesis using h assms(4) insert_lookup_back [of i r "recs b" k]
      by (cases "k = i") (auto simp: holds_def insert_lookup lease_rec_def)
  qed
  show ?thesis using step
  proof cases
    case (call ns)
    then show ?thesis using change mcall_change [OF inv] assms(4) by blast
  next
    case (claim tk)
    then have "store_change tk (recs b) (recs b')"
      using Dequeue_step [OF inv claim(2,4)] store_step_change by blast
    then show ?thesis using change claim by blast
  qed
qed

lemma lease_run_step: "lease_run (b, U) (b', U') \<Longrightarrow> mstep1 b b' \<and> U \<subseteq> U'"
  unfolding mstep1_def by (cases rule: lease_run.cases) (auto intro: mstep.intros)

lemma lease_runs_reach: "lease_runs (b, U) (b', U') \<Longrightarrow> msteps b b' \<and> U \<subseteq> U'"
proof (induction rule: rtranclp_induct2)
  case (step b1 U1 b2 U2)
  then show ?case using lease_run_step [of b1 U1 b2 U2] by auto
qed simp

definition tokens_ok :: "mbroker \<Rightarrow> string set \<Rightarrow> bool" where
  "tokens_ok b U \<longleftrightarrow> (\<forall>k token. holds b k token \<longrightarrow> token \<noteq> '''' \<longrightarrow> token \<in> U \<and>
     (\<forall>k'. holds b k' token \<longrightarrow> k' = k))"

text \<open>The operations a worker calls with its lease token.\<close>

lemma stale_checkLease: "\<not> holds b k token \<Longrightarrow> \<exists>e. mem_checkLease b k token = Inl e"
  by (auto simp: mem_checkLease_def holds_def split: option.splits)

lemma rejected_ops:
  assumes "mem_checkLease b k token = Inl e"
  shows "\<exists>e. mem_Ack clk k token result b = (b, [], Inl e)"
    "\<exists>e. mem_Fail clk k token msg kind retryAt b = (b, [], Inl e)"
    "\<exists>e. mem_FinishCanceled clk k token b = (b, [], Inl e)"
    "\<exists>e. mem_Requeue k token b = (b, [], Inl e)"
    "\<exists>e. mem_Heartbeat clk k token b = (b, [], Inl e)"
  using assms
  by (auto simp: mem_Ack_def mem_Fail_def mem_FinishCanceled_def mem_Requeue_def mem_Heartbeat_def
      split: option.splits)

lemma lease_runs_stale:
  assumes "lease_runs (b, U) (b', U')" and "minv b" and "\<not> holds b k token" and "token \<in> U"
    and "token \<noteq> ''''"
  shows "\<not> holds b' k token"
  using assms(1)
proof (induction rule: rtranclp_induct2)
  case refl
  then show ?case using assms(3) .
next
  case (step b1 U1 b2 U2)
  have r: "msteps b b1" "U \<subseteq> U1" using lease_runs_reach [OF step.hyps(1)] by simp_all
  have "minv b1" using r(1) assms(2)
    by (induction rule: rtranclp_induct) (auto simp: mstep1_def dest: mstep_change)
  then show ?case using lease_run_holds [OF _ step.hyps(2)] step.IH assms(4,5) r(2) by blast
qed

text \<open>
  C3: fencing.  Once a task is no longer held under a token that was handed out (the worker lost
  its lease, the task was finished or requeued), every later call with that token is refused and
  changes nothing, whatever happened in between.
\<close>

theorem stale_token_fenced:
  assumes "lease_runs (mem_New, {}) (b, U)" and "token \<in> U" and "\<not> holds b k token"
    and "lease_runs (b, U) (b', U')"
  shows "(\<exists>e. mem_Ack clk k token result b' = (b', [], Inl e)) \<and>
    (\<exists>e. mem_Fail clk k token msg kind retryAt b' = (b', [], Inl e)) \<and>
    (\<exists>e. mem_FinishCanceled clk k token b' = (b', [], Inl e)) \<and>
    (\<exists>e. mem_Requeue k token b' = (b', [], Inl e)) \<and>
    (\<exists>e. mem_Heartbeat clk k token b' = (b', [], Inl e))"
proof -
  have "minv b" using lease_runs_reach [OF assms(1)] reachable_minv by blast
  moreover have "token \<noteq> ''''"
  proof -
    have "'''' \<notin> U2" if "lease_runs (mem_New, {}) (b2, U2)" for b2 U2
      using that by (induction rule: rtranclp_induct2) (auto elim: lease_run.cases)
    then show ?thesis using assms(1,2) by blast
  qed
  ultimately have "\<not> holds b' k token" using lease_runs_stale [OF assms(4)] assms(2,3) by blast
  then obtain e where "mem_checkLease b' k token = Inl e" using stale_checkLease by blast
  then show ?thesis using rejected_ops [of b' k token e] by blast
qed

lemma Dequeue_one_record:
  assumes "mem_Dequeue_turn xs ctx token clk queues b = (b', ns, turn)"
  shows "b' = b \<or> (\<exists>k r. b' = put_rec k r b)"
  using assms
  by (auto simp: mem_Dequeue_turn_def Let_def split: if_splits option.splits sum.splits prod.splits)

lemma tokens_ok_step:
  assumes inv: "minv b" and ok: "tokens_ok b U" and step: "lease_run (b, U) (b', U')"
  shows "tokens_ok b' U'"
  unfolding tokens_ok_def
proof (intro allI impI conjI)
  have old: "holds b k token \<or> token \<in> U' - U" if "holds b' k token" "token \<noteq> ''''" for k token
    using lease_run_holds [OF inv step] that by blast
  have held: "token \<in> U \<and> (\<forall>k'. holds b k' token \<longrightarrow> k' = k)" if "holds b k token" "token \<noteq> ''''" for k token
    using ok that unfolding tokens_ok_def by blast
  fix k token assume h: "holds b' k token" and ne: "token \<noteq> ''''"
  show "token \<in> U'" using old [OF h ne] held [of k token] ne lease_run_step [OF step] by blast
  fix k' assume h': "holds b' k' token"
  show "k' = k"
  proof (cases "token \<in> U")
    case True
    then show ?thesis using old [OF h ne] old [OF h' ne] held ne by blast
  next
    case False
    then have no: "\<not> holds b j token" for j using held ne by blast
    from step show ?thesis
    proof cases
      case call
      then show ?thesis using old [OF h ne] no by simp
    next
      case (claim tk)
      then have "b' = b \<or> (\<exists>j r. b' = put_rec j r b)" using Dequeue_one_record by blast
      moreover have "j = x" if "b' = put_rec x r b" "holds b' j token" for x r j
        using that no [of j] by (auto simp: holds_def put_rec_def split: if_splits)
      ultimately show ?thesis using h h' no by metis
    qed
  qed
qed

lemma lease_runs_tokens: "lease_runs (mem_New, {}) (b, U) \<Longrightarrow> tokens_ok b U"
proof (induction rule: rtranclp_induct2)
  case refl
  then show ?case by (simp add: tokens_ok_def holds_def mem_New_def)
next
  case (step b1 U1 b2 U2)
  then show ?case using tokens_ok_step lease_runs_reach reachable_minv by blast
qed

text \<open>
  C4: mutual exclusion.  In every run a non-empty lease token is held by at most one task, and a
  task carries a token exactly while it is running.
\<close>

theorem lease_exclusive:
  assumes "lease_runs (mem_New, {}) (b, U)" and k: "fmlookup (recs b) k = Some r"
  shows "(Status (task r) = StatusRunning) = (LeaseToken (task r) \<noteq> '''') \<and>
    (LeaseToken (task r) \<noteq> '''' \<longrightarrow> (\<forall>k' r'. fmlookup (recs b) k' = Some r' \<longrightarrow>
       LeaseToken (task r') = LeaseToken (task r) \<longrightarrow> k' = k))"
proof -
  have "minv b" using lease_runs_reach [OF assms(1)] reachable_minv by blast
  then have "lease_rec r" using lease_okD [OF minvD(4) k] by blast
  then show ?thesis using lease_runs_tokens [OF assms(1)] k unfolding tokens_ok_def holds_def lease_rec_def
    by blast
qed

section \<open>Executions of one business key\<close>

lemma minv_one_in_flight:
  assumes "minv b" and k: "fmlookup (recs b) k = Some r" and ne: "BusinessKey (task r) \<noteq> ''''"
    and nf: "\<not> isFinal (Status (task r))"
  shows "last (chain_of b (BusinessKey (task r))) = k \<and>
    (\<forall>k' r'. fmlookup (recs b) k' = Some r' \<longrightarrow> BusinessKey (task r') = BusinessKey (task r) \<longrightarrow>
       \<not> isFinal (Status (task r')) \<longrightarrow> k' = k)"
proof -
  note ch = minvD(5) [OF assms(1)]
  have last: "last (chain_of b (BusinessKey (task s))) = j"
    if j: "fmlookup (recs b) j = Some s" "BusinessKey (task s) \<noteq> ''''" "\<not> isFinal (Status (task s))" for j s
  proof -
    let ?is = "chain_of b (BusinessKey (task s))"
    have mem: "j \<in> set ?is" using chains_okD(2) [OF ch j(1,2)] .
    then have "fmlookup (chains b) (BusinessKey (task s)) = Some ?is"
      by (cases "fmlookup (chains b) (BusinessKey (task s))") (simp_all add: chain_of_def)
    note one = one_chainD [OF chains_okD(1) [OF ch this]]
    have "\<not> final_in (recs b) j" using j by (simp add: final_in_def)
    then have "j \<notin> set (butlast ?is)" using one(6) chains_okD(3) [OF ch] by blast
    then show ?thesis using mem set_butlast_last [OF one(2)] by auto
  qed
  then show ?thesis using k ne nf by metis
qed

text \<open>
  C5: at most one execution in flight.  In every reachable state two unfinished executions with
  the same non-empty business key are the same execution, and it is the last of its chain.
\<close>

theorem one_execution_in_flight:
  assumes "reachable b" and k: "fmlookup (recs b) k = Some r" and ne: "BusinessKey (task r) \<noteq> ''''"
    and nf: "\<not> isFinal (Status (task r))"
  shows "last (chain_of b (BusinessKey (task r))) = k \<and>
    (\<forall>k' r'. fmlookup (recs b) k' = Some r' \<longrightarrow> BusinessKey (task r') = BusinessKey (task r) \<longrightarrow>
       \<not> isFinal (Status (task r')) \<longrightarrow> k' = k)"
  using minv_one_in_flight [OF reachable_minv [OF assms(1)] assms(2-4)] .

section \<open>Notifications and wake-ups\<close>

definition announced :: "store \<Rightarrow> store \<Rightarrow> task list \<Rightarrow> bool" where
  "announced m m' ns \<longleftrightarrow>
     (\<forall>k r'. fmlookup m' k = Some r' \<longrightarrow>
        (\<exists>r. fmlookup m k = Some r \<and> Status (task r) = Status (task r')) \<or> cloneTask (task r') \<in> set ns)"

lemma tracked_announced: "tracked m m' ns \<Longrightarrow> announced m m' ns"
  unfolding tracked_def announced_def by metis

lemma announced_refl: "announced m m ns"
  by (simp add: announced_def)

lemma Fail_announced:
  assumes inv: "minv b" and step: "mem_Fail clk i token msg kind retryAt b = (b', ns, res)"
  shows "announced (recs b) (recs b') ns"
proof (cases "res = Inr ()")
  case True
  then show ?thesis using Fail_step [OF inv step] tracked_announced by blast
next
  case False
  consider (same) "b' = b"
    | (msg) r where "fmlookup (recs b) i = Some r" "b' = put_rec i (r\<lparr>task := (task r)\<lparr>LastError := msg\<rparr>\<rparr>) b"
  proof (cases "mem_requireInit b = None \<and> (\<exists>r. mem_checkLease b i token = Inr r)")
    case True
    then obtain r where g: "mem_requireInit b = None" and c: "mem_checkLease b i token = Inr r" by blast
    obtain t x where fc: "fail_counts (ThrottledMax (opts b)) kind msg (task r) = (t, x)"
      by (cases "fail_counts (ThrottledMax (opts b)) kind msg (task r)")
    show thesis
    proof (cases x)
      case (Inl k)
      then have "t = (task r)\<lparr>LastError := msg\<rparr>" using fc
        by (auto simp: fail_counts_def Let_def split: failKind.splits if_splits)
      then show thesis using step g c fc Inl msg running_rec(1) [OF inv c]
        by (auto simp: mem_Fail_def Let_def)
    next
      case (Inr f)
      then show thesis using Fail_ok [OF g c, of kind msg t f clk retryAt] fc step False
        by (auto simp: Let_def split: if_splits prod.splits)
    qed
  next
    case False
    then show thesis using step same by (auto simp: mem_Fail_def split: option.splits sum.splits)
  qed
  then show ?thesis
  proof cases
    case (msg r)
    then show ?thesis by (auto simp: announced_def put_rec_def split: if_splits)
  qed (simp add: announced_refl)
qed

lemma insert_announced:
  assumes "fits i r m"
  shows "announced m (insert_store i r m) [cloneTask (task r)]"
  unfolding announced_def
proof (intro allI impI)
  fix k s' assume "fmlookup (insert_store i r m) k = Some s'"
  then show "(\<exists>s. fmlookup m k = Some s \<and> Status (task s) = Status (task s')) \<or>
      cloneTask (task s') \<in> set [cloneTask (task r)]"
    using assms insert_lookup_back [OF assms, of k s'] by (cases "k = i") (auto simp: insert_lookup)
qed

lemma Enqueue_announced:
  assumes fr: "fresh_id fresh b" and step: "mem_Enqueue fresh clk t b = (b', ns, res)"
  shows "announced (recs b) (recs b') ns \<and> (b' = b \<or> wakes b' = Suc (wakes b))"
proof (cases "mem_requireInit b = None \<and> ReplayOf t = '''' \<and>
      (BusinessKey t = '''' \<or> chain_of b (BusinessKey t) = []) \<and>
      (ID t = '''' \<or> fmlookup (recs b) (ID t) = None) \<and>
      (\<forall>q \<in> set (DependsOn t). fmlookup (recs b) q \<noteq> None)")
  case False
  then show ?thesis using Enqueue_error [OF False, of fresh clk] step by (auto simp: announced_refl)
next
  case True
  let ?i = "enq_id fresh t" and ?r = "enq_rec (enq_id fresh t) (trunc_ms clk) t (recs b)"
  have "fits ?i ?r (recs b)" using True fr by (auto simp: fits_def enq_rec_def enq_id_def fresh_id_def)
  then show ?thesis
    using True step Enqueue_ok [of b t fresh clk] insert_announced [of ?i ?r "recs b"]
    by (auto simp: Let_def enqueued_def mem_broadcast_def push_chain_def)
qed

lemma Replay_announced:
  assumes fr: "fresh_id fresh b" and step: "mem_Replay fresh clk req b = (b', ns, res)"
  shows "announced (recs b) (recs b') ns \<and> (b' = b \<or> wakes b' = Suc (wakes b))"
proof (cases "mem_requireInit b = None \<and> (rq_ExecutionID req = '''') \<noteq> (rq_BusinessKey req = '''') \<and>
    (\<exists>r. replay_target req b = Inr r \<and> replayable req b (task r))")
  case False
  then show ?thesis using Replay_error [OF False, of fresh clk] step by (auto simp: announced_refl)
next
  case True
  then obtain r where r: "replay_target req b = Inr r" "replayable req b (task r)" by blast
  let ?r = "replay_rec fresh (trunc_ms clk) req (task r)"
  have "fits fresh ?r (recs b)" using fr by (simp add: fits_def fresh_id_def) (simp add: replay_rec_def)
  then show ?thesis
    using True r step Replay_ok [of b req r fresh clk] insert_announced [of fresh ?r "recs b"]
    by (auto simp: Let_def replayed_broker_def mem_broadcast_def push_chain_def)
qed

text \<open>
  C14: every status change is notified.  Whenever an operation changes the status of a task or
  creates one, it hands the notification callback a snapshot of that task in its new state.
\<close>

theorem status_changes_announced:
  assumes "reachable b" and step: "mstep b ns b'"
  shows "announced (recs b) (recs b') ns"
  using step
proof cases
  case call
  note inv = reachable_minv [OF assms(1)]
  note steps = Ack_step [OF inv] Cancel_step [OF inv] FinishCanceled_step [OF inv] Requeue_step [OF inv]
    Heartbeat_step [OF inv] ReapExpired_step [OF inv]
  from call show ?thesis
  proof (cases rule: mcall.cases)
    case enqueue
    then show ?thesis using Enqueue_announced by blast
  next
    case fail
    then show ?thesis using Fail_announced [OF inv] by blast
  next
    case replay
    then show ?thesis using Replay_announced by blast
  next
    case (reserve clk g q)
    then show ?thesis using same_store [OF reserve(2)] announced_refl by simp
  qed (use announced_refl tracked_announced steps in \<open>auto simp: admin_store release_store\<close>)
next
  case dequeue
  then show ?thesis using Dequeue_step [OF reachable_minv [OF assms(1)]] tracked_announced by blast
qed

definition waiting :: "mrec \<Rightarrow> bool" where
  "waiting r \<longleftrightarrow> Status (task r) = StatusPending \<or> Status (task r) = StatusRetrying"

definition quiet :: "store \<Rightarrow> store \<Rightarrow> bool" where
  "quiet m m' \<longleftrightarrow>
     (\<forall>k r'. fmlookup m' k = Some r' \<longrightarrow> waiting r' \<longrightarrow>
        (\<exists>r. fmlookup m k = Some r \<and> waiting r \<and> Queue (task r) = Queue (task r') \<and>
             RunAt (task r) = RunAt (task r')))"

lemma quiet_refl: "quiet m m"
  by (simp add: quiet_def)

lemma quiet_upd:
  assumes "fmlookup m k = Some r" and "\<not> waiting r'"
  shows "quiet m (fmupd k r' m)"
  using assms by (auto simp: quiet_def)

text \<open>A pass of the reaper that sends no notification has changed nothing.\<close>

lemma reap_loop_quiet:
  assumes "reap_loop now lostMax xs (m, cnt, ns) = ((m', cnt', ns'), e)"
  shows "length ns \<le> length ns' \<and> (length ns' = length ns \<longrightarrow> m' = m)"
  using assms
proof (induction xs arbitrary: m cnt ns)
  case (Cons k xs)
  obtain m1 cnt1 ns1 e1 where one: "reap_step now lostMax k (m, cnt, ns) = ((m1, cnt1, ns1), e1)"
    by (metis prod.exhaust)
  have step: "length ns \<le> length ns1 \<and> (length ns1 = length ns \<longrightarrow> m1 = m) \<and> e1 = None"
  proof (cases "\<exists>r. fmlookup m k = Some r \<and> Status (task r) = StatusRunning \<and> leaseUntil r < now")
    case False
    then show ?thesis using one reap_step_skip [OF False] by simp
  next
    case True
    then obtain r where r: "fmlookup m k = Some r" "Status (task r) = StatusRunning" "leaseUntil r < now"
      by blast
    have "Suc (length ns) \<le> length ns1 \<and> e1 = None"
      using one propagateFinal_notifs [of k now _ "ns @ [_]"]
      by (auto simp: reap_step_eq [OF r] Let_def split: if_splits prod.splits)
    then show ?thesis by simp
  qed
  then have "length ns1 \<le> length ns' \<and> (length ns' = length ns1 \<longrightarrow> m' = m1)"
    using Cons.IH [of m1 cnt1 ns1] Cons.prems one by simp
  then show ?case using step by auto
qed simp

lemma ReapExpired_quiet:
  assumes inv: "minv b" and step: "mem_ReapExpired xs ys clk b = (b', ns, n, e)"
  shows "recs b' = recs b \<or> wakes b' = Suc (wakes b)"
proof (cases "mem_requireInit b")
  case (Some e')
  then show ?thesis using step by (simp add: mem_ReapExpired_def)
next
  case None
  obtain m1 cnt ns1 e1 where
    loop: "reap_loop (trunc_ms clk) (LeaseLostMax (opts b)) xs (recs b, 0, []) = ((m1, cnt, ns1), e1)"
    by (metis prod.exhaust)
  have "store_ok m1" "e1 = None"
    using reap_loop_ok [OF minv_store_ok [OF inv] loop] by (simp_all add: good_move_def)
  then show ?thesis using step None loop repair_pass_noop [of m1] reap_loop_quiet [OF loop]
    by (auto simp: mem_ReapExpired_def Let_def mem_broadcast_def split: if_splits)
qed

lemma finish_wakes: "finish_rec k now r b = (b', ns) \<Longrightarrow> wakes b' = Suc (wakes b)"
  by (auto simp: finish_rec_def mem_broadcast_def split: prod.splits)

lemma lease_ops_wake:
  assumes inv: "minv b"
  shows "mem_Ack clk i token result b = (b', ns, u) \<Longrightarrow> b' = b \<or> wakes b' = Suc (wakes b)"
    and "mem_FinishCanceled clk i token b = (b', ns, u) \<Longrightarrow> b' = b \<or> wakes b' = Suc (wakes b)"
    and "mem_Requeue i token b = (b', ns, u) \<Longrightarrow> b' = b \<or> wakes b' = Suc (wakes b)"
  by (auto simp: mem_Ack_def mem_FinishCanceled_def mem_Requeue_def Let_def mem_broadcast_def put_rec_def
      dest: finish_wakes split: option.splits sum.splits prod.splits)

lemma Cancel_wake:
  assumes "mem_Cancel clk i b = (b', ns, u)"
  shows "quiet (recs b) (recs b') \<or> wakes b' = Suc (wakes b)"
  using assms quiet_refl
  by (auto simp: mem_Cancel_def Let_def put_rec_def waiting_def intro!: quiet_upd
      dest: finish_wakes split: option.splits sum.splits prod.splits if_splits)

lemma Heartbeat_wake:
  assumes inv: "minv b" and "mem_Heartbeat clk i token b = (b', ns, u)"
  shows "quiet (recs b) (recs b')"
proof (cases "mem_requireInit b = None \<and> (\<exists>r. mem_checkLease b i token = Inr r)")
  case False
  then have "b' = b" using assms(2) by (auto simp: mem_Heartbeat_def split: option.splits sum.splits)
  then show ?thesis using quiet_refl by simp
next
  case True
  then obtain r where g: "mem_requireInit b = None" and c: "mem_checkLease b i token = Inr r" by blast
  note r = running_rec [OF inv c]
  have "recs b' = fmupd i (r\<lparr>leaseUntil := trunc_ms clk + mem_ttlFor b (Queue (task r))\<rparr>) (recs b)"
    using assms(2) g c by (auto simp: mem_Heartbeat_def Let_def put_rec_def)
  then show ?thesis using r(2) quiet_upd [OF r(1)] by (simp add: waiting_def)
qed

lemma Fail_wake:
  assumes inv: "minv b" and step: "mem_Fail clk i token msg kind retryAt b = (b', ns, res)"
  shows "quiet (recs b) (recs b') \<or> wakes b' = Suc (wakes b)"
proof (cases "mem_requireInit b = None \<and> (\<exists>r. mem_checkLease b i token = Inr r)")
  case False
  then have "b' = b" using step by (auto simp: mem_Fail_def split: option.splits sum.splits)
  then show ?thesis using quiet_refl by simp
next
  case True
  then obtain r where g: "mem_requireInit b = None" and c: "mem_checkLease b i token = Inr r" by blast
  note r = running_rec [OF inv c]
  obtain t x where fc: "fail_counts (ThrottledMax (opts b)) kind msg (task r) = (t, x)"
    by (cases "fail_counts (ThrottledMax (opts b)) kind msg (task r)")
  show ?thesis
  proof (cases x)
    case (Inl k)
    have "quiet (recs b) (fmupd i (r\<lparr>task := t\<rparr>) (recs b))"
      using fail_counts_shape(5) [OF fc r(2)] by (intro quiet_upd [OF r(1)]) (simp add: waiting_def)
    then show ?thesis using step g c fc Inl by (auto simp: mem_Fail_def Let_def put_rec_def)
  next
    case (Inr f)
    then show ?thesis using Fail_ok [OF g c, of kind msg t f clk retryAt] fc step
      by (auto simp: Let_def mem_broadcast_def put_rec_def dest: finish_wakes split: if_splits prod.splits)
  qed
qed

lemma Dequeue_quiet:
  assumes step: "mem_Dequeue_turn xs ctx token clk queues b = (b', ns, turn)"
  shows "quiet (recs b) (recs b')"
proof (cases "\<exists>k r. mem_pickReady xs queues (trunc_ms clk) (recs b) = Some (k, r) \<and>
    queues \<noteq> [] \<and> mem_requireInit b = None \<and> ctx = None")
  case False
  then have "b' = b" using step
    by (auto simp: mem_Dequeue_turn_def Let_def split: if_splits option.splits)
  then show ?thesis using quiet_refl by simp
next
  case True
  then obtain k r where p: "mem_pickReady xs queues (trunc_ms clk) (recs b) = Some (k, r)"
    and g: "queues \<noteq> []" "mem_requireInit b = None" "ctx = None" by blast
  have k: "fmlookup (recs b) k = Some r" using pickReady_sound [OF p] by blast
  show ?thesis using step g(3)
    by (auto simp: Dequeue_claim [OF g(1,2) p] Let_def put_rec_def claimed_rec_def waiting_def
        intro!: quiet_upd [OF k])
qed

lemma mcall_quiet:
  assumes inv: "minv b" and step: "mcall b ns b'" and quiet: "wakes b' = wakes b"
  shows "quiet (recs b) (recs b')"
  using step
proof (cases rule: mcall.cases)
  case enqueue
  then show ?thesis using Enqueue_announced quiet quiet_refl by fastforce
next
  case replay
  then show ?thesis using Replay_announced quiet quiet_refl by fastforce
next
  case ack
  then show ?thesis using lease_ops_wake(1) [OF inv] quiet quiet_refl by fastforce
next
  case finishCanceled
  then show ?thesis using lease_ops_wake(2) [OF inv] quiet quiet_refl by fastforce
next
  case requeue
  then show ?thesis using lease_ops_wake(3) [OF inv] quiet quiet_refl by fastforce
next
  case fail
  then show ?thesis using Fail_wake [OF inv] quiet by fastforce
next
  case cancel
  then show ?thesis using Cancel_wake quiet by fastforce
next
  case heartbeat
  then show ?thesis using Heartbeat_wake [OF inv] by blast
next
  case reap
  then show ?thesis using ReapExpired_quiet [OF inv] quiet quiet_refl by fastforce
next
  case (reserve clk g q)
  then show ?thesis using same_store [OF reserve(2)] quiet_refl by simp
qed (use quiet_refl in \<open>auto simp: admin_store release_store\<close>)

text \<open>
  C13: no missed wake-up of a sleeping \<open>Dequeue\<close>.  An operation that makes some task newly
  claimable, or moves the instant from which it is claimable, broadcasts on the condition
  variable: without a broadcast every task that waits to be run waited before, in the same queue
  and for the same instant.
\<close>

theorem wake_complete:
  assumes "reachable b" and step: "mstep b ns b'" and quiet: "wakes b' = wakes b"
    and "fmlookup (recs b') k = Some r'"
    and "Status (task r') = StatusPending \<or> Status (task r') = StatusRetrying"
  shows "\<exists>r. fmlookup (recs b) k = Some r \<and>
    (Status (task r) = StatusPending \<or> Status (task r) = StatusRetrying) \<and>
    Queue (task r) = Queue (task r') \<and> RunAt (task r) = RunAt (task r')"
proof -
  have "quiet (recs b) (recs b')" using step
  proof cases
    case call
    then show ?thesis using mcall_quiet [OF reachable_minv [OF assms(1)]] quiet by blast
  next
    case dequeue
    then show ?thesis using Dequeue_quiet by blast
  qed
  then show ?thesis using assms(4,5) unfolding quiet_def waiting_def by blast
qed

end
