(* ===== verification/Memory_Ops.thy ===== *)
theory Memory_Ops
  imports Memory_System
begin

text \<open>
  The functional contract of each operation of the in-memory broker: what a call answers and
  what it does to the task it names, on every branch.
\<close>

section \<open>Ending an execution\<close>

text \<open>Propagation never touches the task that started it.\<close>

lemma finish_lookup:
  assumes inv: "minv b" and k: "fmlookup (recs b) k = Some r" and ev: "rec_evolves r r'"
    and nf: "\<not> isFinal (Status (task r))" and fin: "isFinal (Status (task r'))"
    and how: "Status (task r') = StatusCanceled \<or> Status (task r) \<noteq> StatusBlocked"
    and l: "lease_rec r'" and step: "finish_rec k now r' b = (b', ns)"
  shows "fmlookup (recs b') k = Some r'"
proof -
  have "evolves (fmupd k r' (recs b)) (recs b')" by (rule finish_step(4) [OF inv k ev nf fin how l step])
  then obtain s where "fmlookup (recs b') k = Some s" "rec_evolves r' s"
    using evolves_lookup [of "fmupd k r' (recs b)" "recs b'" k r'] by auto
  then show ?thesis using fin by (simp add: rec_evolves_def)
qed

lemma running_evolves:
  assumes "Status (task r) = StatusRunning"
  shows "rec_evolves r (acked_rec now result r)"
    and "rec_evolves r ((cancel_rec now r)\<lparr>cancelRequested := False\<rparr>)"
  using assms by (auto intro!: rec_evolvesI simp: acked_rec_def cancel_rec_def shape_def)

definition lease_valid :: "mrec \<Rightarrow> string \<Rightarrow> bool" where
  "lease_valid r token \<longleftrightarrow> Status (task r) = StatusRunning \<and> token \<noteq> '''' \<and> LeaseToken (task r) = token"

lemma lease_valid_check:
  assumes "fmlookup (recs b) k = Some r"
  shows "mem_checkLease b k token = (if lease_valid r token then Inr r else Inl (ErrLeaseLost k))"
  using assms by (auto simp: mem_checkLease_def lease_valid_def)

text \<open>
  C28: \<open>Ack\<close>.  Called with the current lease of a running task, \<open>Ack\<close> succeeds, and afterwards the
  task is completed with the given result (a nil result keeps the old one), its lease is gone and
  its completion instant is the clock reading rounded down to a millisecond; nothing else about
  the task has changed.  With any other token it answers \<open>ErrLeaseLost\<close> and changes nothing.
\<close>

theorem Ack_contract:
  assumes "reachable b" and init: "mem_requireInit b = None" and k: "fmlookup (recs b) k = Some r"
    and step: "mem_Ack clk k token result b = (b', ns, u)"
  shows "if lease_valid r token
    then u = Inr () \<and> map_option task (fmlookup (recs b') k) = Some ((task r)\<lparr>Status := StatusCompleted,
        Result := (if result = None then Result (task r) else clone_bytes result),
        FinishedAt := trunc_ms clk, LeaseToken := ''''\<rparr>)
    else u = Inl (ErrLeaseLost k) \<and> b' = b \<and> ns = []"
proof (cases "lease_valid r token")
  case True
  then have c: "mem_checkLease b k token = Inr r" and st: "Status (task r) = StatusRunning"
    using lease_valid_check [OF k] by (simp_all add: lease_valid_def)
  let ?r = "acked_rec (trunc_ms clk) result r"
  have u: "finish_rec k (trunc_ms clk) ?r b = (b', ns)" "u = Inr ()"
    using step by (auto simp: Ack_ok [OF init c] split: prod.splits)
  have "fmlookup (recs b') k = Some ?r"
    by (rule finish_lookup [OF reachable_minv [OF assms(1)] k running_evolves(1) [OF st] _ _ _ _ u(1)])
      (simp_all add: st acked_rec_def lease_rec_def)
  then show ?thesis using True u(2) by (simp add: acked_rec_def)
next
  case False
  then show ?thesis using step init by (simp add: mem_Ack_def lease_valid_check [OF k])
qed

definition failed_task :: "int \<Rightarrow> time \<Rightarrow> string \<Rightarrow> failKind \<Rightarrow> time \<Rightarrow> task \<Rightarrow> task" where
  "failed_task throttledMax now msg kind retryAt t =
     (let ended = (\<lambda>t. t\<lparr>Status := StatusFailed, FinishedAt := now, LeaseToken := ''''\<rparr>);
          again = (\<lambda>t. t\<lparr>Status := StatusRetrying,
                     RunAt := trunc_ms (if isZero retryAt then now else retryAt), LeaseToken := ''''\<rparr>)
      in case kind of
           FailBusiness \<Rightarrow>
             (let t' = t\<lparr>LastError := msg, Attempts := Attempts t + 1\<rparr>
              in if Attempts t + 1 > MaxRetry t then ended t' else again t')
         | FailThrottled \<Rightarrow>
             (let t' = t\<lparr>LastError := msg, Throttled := Throttled t + 1\<rparr>
              in if Throttled t + 1 \<ge> throttledMax
                 then ended (t'\<lparr>LastError := ''throttled '' @ show_int (Throttled t + 1) @ '' times''\<rparr>)
                 else again t')
         | _ \<Rightarrow> ended (t\<lparr>LastError := msg\<rparr>))"

text \<open>
  C29: \<open>Fail\<close>.  With a valid lease, a business failure increments \<open>Attempts\<close> and ends the task once
  they exceed \<open>MaxRetry\<close>; a throttled failure increments \<open>Throttled\<close> and ends the task once they
  reach \<open>ThrottledMax\<close>, leaving \<open>Attempts\<close> alone; a skip ends the task without counting.  A task
  that is not ended waits as retrying until the given instant, or from now on if none is given.
\<close>

theorem Fail_contract:
  assumes "reachable b" and init: "mem_requireInit b = None" and k: "fmlookup (recs b) k = Some r"
    and kind: "kind \<in> {FailBusiness, FailThrottled, FailSkip}"
    and step: "mem_Fail clk k token msg kind retryAt b = (b', ns, u)"
  shows "if lease_valid r token
    then u = Inr () \<and> map_option task (fmlookup (recs b') k) =
      Some (failed_task (ThrottledMax (opts b)) (trunc_ms clk) msg kind retryAt (task r))
    else u = Inl (ErrLeaseLost k) \<and> b' = b \<and> ns = []"
proof (cases "lease_valid r token")
  case True
  then have c: "mem_checkLease b k token = Inr r" and st: "Status (task r) = StatusRunning"
    using lease_valid_check [OF k] by (simp_all add: lease_valid_def)
  have "\<exists>t f. fail_counts (ThrottledMax (opts b)) kind msg (task r) = (t, Inr f)"
    using kind by (auto simp: fail_counts_def Let_def)
  then obtain t f where fc: "fail_counts (ThrottledMax (opts b)) kind msg (task r) = (t, Inr f)" by blast
  note sh = fail_counts_shape [OF fc st] and eq = Fail_ok [OF init c fc, of clk retryAt]
  have result: "failed_task (ThrottledMax (opts b)) (trunc_ms clk) msg kind retryAt (task r) =
      (if f then task (failed_rec (trunc_ms clk) t r)
       else task (retry_rec (if isZero retryAt then trunc_ms clk else retryAt) t r))"
    using fc kind by (auto simp: failed_task_def fail_counts_def failed_rec_def retry_rec_def Let_def
        split: if_splits)
  show ?thesis
  proof (cases f)
    case f: True
    have u: "finish_rec k (trunc_ms clk) (failed_rec (trunc_ms clk) t r) b = (b', ns)" "u = Inr ()"
      using step f by (auto simp: eq split: prod.splits)
    have "fmlookup (recs b') k = Some (failed_rec (trunc_ms clk) t r)"
      by (rule finish_lookup [OF reachable_minv [OF assms(1)] k sh(1) _ _ _ _ u(1)])
        (simp_all add: st failed_rec_def lease_rec_def)
    then show ?thesis using \<open>lease_valid r token\<close> u(2) f result by simp
  next
    case False
    then show ?thesis using \<open>lease_valid r token\<close> result step
      by (auto simp: eq Let_def mem_broadcast_def put_rec_def)
  qed
next
  case False
  then show ?thesis using step init by (simp add: mem_Fail_def lease_valid_check [OF k])
qed

text \<open>
  C31: giving a task back.  \<open>Requeue\<close> with a valid lease makes the task pending again and drops the
  lease; counters, the instant it may run from and the last error stay as they are, and the task
  is announced and the sleeping consumers are woken.  An invalid lease changes nothing.
\<close>

theorem Requeue_contract:
  assumes init: "mem_requireInit b = None" and k: "fmlookup (recs b) k = Some r"
    and step: "mem_Requeue k token b = (b', ns, u)"
  shows "if lease_valid r token
    then u = Inr () \<and> wakes b' = Suc (wakes b) \<and>
      fmlookup (recs b') k = Some (r\<lparr>task := (task r)\<lparr>Status := StatusPending, LeaseToken := ''''\<rparr>,
        leaseUntil := zero_time, cancelRequested := False\<rparr>) \<and>
      ns = [cloneTask ((task r)\<lparr>Status := StatusPending, LeaseToken := ''''\<rparr>)]
    else u = Inl (ErrLeaseLost k) \<and> b' = b \<and> ns = []"
proof (cases "lease_valid r token")
  case True
  then have c: "mem_checkLease b k token = Inr r" using lease_valid_check [OF k] by simp
  then show ?thesis using True step
    by (auto simp: Requeue_ok [OF init c] mem_broadcast_def put_rec_def requeued_rec_def)
next
  case False
  then show ?thesis using step init by (simp add: mem_Requeue_def lease_valid_check [OF k])
qed

text \<open>
  \<open>Heartbeat\<close>.  With a valid lease it moves the deadline to now plus the lease time of the
  task's queue, and it reports a pending cancellation to the worker, still renewing the lease;
  the task itself is unchanged.
\<close>

theorem Heartbeat_contract:
  assumes init: "mem_requireInit b = None" and k: "fmlookup (recs b) k = Some r"
    and step: "mem_Heartbeat clk k token b = (b', ns, u)"
  shows "if lease_valid r token
    then u = (if cancelRequested r then Inl (ErrTaskCanceled k) else Inr ()) \<and> ns = [] \<and>
      fmlookup (recs b') k = Some (r\<lparr>leaseUntil := trunc_ms clk + mem_ttlFor b (Queue (task r))\<rparr>)
    else u = Inl (ErrLeaseLost k) \<and> b' = b \<and> ns = []"
  using step init by (auto simp: mem_Heartbeat_def lease_valid_check [OF k] Let_def put_rec_def split: if_splits)

text \<open>
  C30: \<open>Cancel\<close>.  An unknown task and a finished task are refused without any change; a running task
  is only flagged, so that its worker learns of it at the next heartbeat; any other task is
  cancelled on the spot, lease and counters cleared as for every final task.
\<close>

theorem Cancel_contract:
  assumes "reachable b" and init: "mem_requireInit b = None"
    and step: "mem_Cancel clk k b = (b', ns, u)"
  shows "case fmlookup (recs b) k of
      None \<Rightarrow> u = Inl (ErrTaskNotFound k) \<and> b' = b
    | Some r \<Rightarrow>
        if isFinal (Status (task r)) then u = Inl (ErrAlreadyFinal k (Status (task r))) \<and> b' = b
        else if Status (task r) = StatusRunning
          then u = Inr () \<and> ns = [] \<and> b' = put_rec k (r\<lparr>cancelRequested := True\<rparr>) b
        else u = Inr () \<and> map_option task (fmlookup (recs b') k) = Some ((task r)\<lparr>Status := StatusCanceled,
          LastError := ''canceled'', FinishedAt := trunc_ms clk, LeaseToken := ''''\<rparr>)"
proof (cases "\<exists>r. fmlookup (recs b) k = Some r \<and> \<not> isFinal (Status (task r)) \<and> Status (task r) \<noteq> StatusRunning")
  case False
  then show ?thesis using step init by (auto simp: mem_Cancel_def split: option.splits)
next
  case True
  then obtain r where k: "fmlookup (recs b) k = Some r" and nf: "\<not> isFinal (Status (task r))"
    and nr: "Status (task r) \<noteq> StatusRunning" by blast
  let ?r = "cancel_rec (trunc_ms clk) r"
  have u: "finish_rec k (trunc_ms clk) ?r b = (b', ns)" "u = Inr ()"
    using step by (auto simp: Cancel_ok [OF init k nf nr] split: prod.splits)
  have "rec_evolves r ?r" using nonfinal_can_cancel [OF nf] nf
    by (intro rec_evolvesI) (simp_all add: cancel_rec_def shape_def)
  then have "fmlookup (recs b') k = Some ?r"
    by (rule finish_lookup [OF reachable_minv [OF assms(1)] k _ nf _ _ _ u(1)])
      (simp_all add: cancel_rec_def lease_rec_def)
  then show ?thesis using k nf nr u(2) by (simp add: cancel_rec_def)
qed

section \<open>Claiming\<close>

definition claim_before :: "mrec \<Rightarrow> mrec \<Rightarrow> bool" where
  "claim_before r s \<longleftrightarrow> RunAt (task r) < RunAt (task s) \<or>
     RunAt (task r) = RunAt (task s) \<and> ID (task r) \<le> ID (task s)"

lemma claim_before_better: "claim_before r s \<longleftrightarrow> \<not> pick_better s r"
  by (auto simp: claim_before_def pick_better_def)

lemma claim_before_trans: "claim_before r s \<Longrightarrow> claim_before s t \<Longrightarrow> claim_before r t"
  by (auto simp: claim_before_def)

lemma pickReady_loop_Some:
  assumes "mem_pickReady_loop queues now m xs best = Some (k, r)"
  shows "(\<forall>x s. x \<in> set xs \<longrightarrow> fmlookup m x = Some s \<longrightarrow> due queues now s \<longrightarrow> claim_before r s) \<and>
    (\<forall>kb rb. best = Some (kb, rb) \<longrightarrow> claim_before r rb)"
  using assms
proof (induction xs arbitrary: best)
  case Nil
  then show ?case by (auto simp: claim_before_def)
next
  case (Cons x xs)
  let ?best = "case fmlookup m x of None \<Rightarrow> best
    | Some s \<Rightarrow> if \<not> claimable queues s then best else if now < RunAt (task s) then best
      else (case best of None \<Rightarrow> Some (x, s) | Some (kb, rb) \<Rightarrow> if pick_better s rb then Some (x, s) else best)"
  have IH: "(\<forall>x s. x \<in> set xs \<longrightarrow> fmlookup m x = Some s \<longrightarrow> due queues now s \<longrightarrow> claim_before r s) \<and>
      (\<forall>kb rb. ?best = Some (kb, rb) \<longrightarrow> claim_before r rb)"
    by (rule Cons.IH) (use Cons.prems in simp)
  have one: "claim_before r s" if "fmlookup m x = Some s" "due queues now s" for s
    using IH that claim_before_trans [of r _ s]
    by (auto simp: due_def claim_before_better split: option.splits if_splits)
  have "claim_before r rb" if "best = Some (kb, rb)" for kb rb
    using IH that claim_before_trans [of r _ rb]
    by (auto simp: claim_before_def pick_better_def split: option.splits if_splits)
  then show ?case using IH one by auto
qed

lemma pickReady_loop_None:
  "mem_pickReady_loop queues now m xs best = None \<longleftrightarrow>
     best = None \<and> (\<forall>x s. x \<in> set xs \<longrightarrow> fmlookup m x = Some s \<longrightarrow> \<not> due queues now s)"
proof (induction xs arbitrary: best)
  case (Cons x xs)
  have "fmlookup m x = None \<or> (\<exists>s. fmlookup m x = Some s)" by (cases "fmlookup m x") auto
  then show ?case
  proof (elim disjE exE)
    fix s assume "fmlookup m x = Some s"
    then show ?thesis by (cases "due queues now s") (auto simp: Cons.IH due_def split: option.splits if_splits)
  qed (auto simp: Cons.IH)
qed simp

definition next_ok :: "string list \<Rightarrow> time \<Rightarrow> store \<Rightarrow> id list \<Rightarrow> time \<Rightarrow> time \<Rightarrow> bool" where
  "next_ok queues now m xs next t \<longleftrightarrow>
     (t = next \<or> (\<exists>x s. x \<in> set xs \<and> fmlookup m x = Some s \<and> claimable queues s \<and>
        now < RunAt (task s) \<and> t = RunAt (task s))) \<and>
     (next \<noteq> zero_time \<longrightarrow> t \<noteq> zero_time \<and> t \<le> next) \<and>
     (\<forall>x s. x \<in> set xs \<longrightarrow> fmlookup m x = Some s \<longrightarrow> claimable queues s \<longrightarrow> now < RunAt (task s) \<longrightarrow>
        t \<noteq> zero_time \<and> t \<le> RunAt (task s))"

lemma nextRunAt_loop_spec:
  assumes "zero_time \<le> now"
  shows "next_ok queues now m xs next (mem_nextRunAt_loop queues now m xs next)"
proof (induction xs arbitrary: "next")
  case (Cons x xs)
  define nx where "nx = (case fmlookup m x of None \<Rightarrow> next
    | Some s \<Rightarrow> if \<not> claimable queues s then next
      else if now < RunAt (task s) \<and> (isZero next \<or> RunAt (task s) < next) then RunAt (task s) else next)"
  define t where "t = mem_nextRunAt_loop queues now m xs nx"
  have eq: "mem_nextRunAt_loop queues now m (x # xs) next = t" by (simp add: nx_def t_def)
  have IH: "next_ok queues now m xs nx t" unfolding t_def by (rule Cons.IH)
  have le: "nx \<noteq> zero_time \<and> nx \<le> RunAt (task s)"
    if "fmlookup m x = Some s" "claimable queues s" "now < RunAt (task s)" for s
    using that assms by (auto simp: nx_def isZero_def)
  have prev: "nx \<noteq> zero_time \<and> nx \<le> next" if "next \<noteq> zero_time"
    using that assms by (auto simp: nx_def isZero_def split: option.splits)
  have src: "nx = next \<or> (\<exists>s. fmlookup m x = Some s \<and> claimable queues s \<and> now < RunAt (task s) \<and>
      nx = RunAt (task s))" by (auto simp: nx_def split: option.splits)
  have 1: "t = next \<or> (\<exists>y s. y \<in> set (x # xs) \<and> fmlookup m y = Some s \<and> claimable queues s \<and>
      now < RunAt (task s) \<and> t = RunAt (task s))"
    using IH src unfolding next_ok_def by (metis list.set_intros(1,2))
  have 2: "t \<noteq> zero_time \<and> t \<le> next" if "next \<noteq> zero_time"
    using IH prev [OF that] order_trans unfolding next_ok_def by blast
  have 3: "t \<noteq> zero_time \<and> t \<le> RunAt (task s)"
    if "y \<in> set (x # xs)" "fmlookup m y = Some s" "claimable queues s" "now < RunAt (task s)" for y s
  proof (cases "y = x")
    case True
    then show ?thesis using IH le that order_trans unfolding next_ok_def by blast
  next
    case False
    then show ?thesis using IH that unfolding next_ok_def by auto
  qed
  show ?case unfolding eq next_ok_def using 1 2 3 by blast
qed (simp add: next_ok_def)

text \<open>
  C25: \<open>Dequeue\<close>.  One turn of an open broker claims the due task of the asked queues that comes
  first by run instant and then by identifier, whatever order the map is visited in, and gives it
  a lease under the fresh token; it goes to sleep only when no task is due, with its timer set to
  the earliest instant at which a waiting task becomes due (or no timer if there is none).
\<close>

theorem Dequeue_contract:
  assumes "reachable b" and init: "mem_requireInit b = None" and "queues \<noteq> []"
    and xs: "range_order xs (recs b)" and clk: "zero_time \<le> trunc_ms clk"
  shows "case mem_Dequeue_turn xs None token clk queues b of
      (b', ns, Claimed t) \<Rightarrow>
        (\<exists>k r. fmlookup (recs b) k = Some r \<and> due queues (trunc_ms clk) r \<and>
           (\<forall>k' r'. fmlookup (recs b) k' = Some r' \<longrightarrow> due queues (trunc_ms clk) r' \<longrightarrow>
              RunAt (task r) < RunAt (task r') \<or> RunAt (task r) = RunAt (task r') \<and> k \<le> k') \<and>
           (let r1 = claimed_rec token (trunc_ms clk) (mem_ttlFor b (Queue (task r))) r
            in b' = put_rec k r1 b \<and> t = cloneTask (task r1) \<and> ns = [t]))
    | (b', ns, WaitFor w) \<Rightarrow> b' = b \<and> ns = [] \<and>
        (\<forall>k r. fmlookup (recs b) k = Some r \<longrightarrow> \<not> due queues (trunc_ms clk) r) \<and>
        (\<forall>k r. fmlookup (recs b) k = Some r \<longrightarrow> claimable queues r \<longrightarrow>
           w \<noteq> zero_time \<and> w \<le> RunAt (task r)) \<and>
        (w \<noteq> zero_time \<longrightarrow> (\<exists>k r. fmlookup (recs b) k = Some r \<and> claimable queues r \<and>
           RunAt (task r) = w))
    | (b', ns, DequeueErr e) \<Rightarrow> False"
proof (cases "mem_pickReady xs queues (trunc_ms clk) (recs b)")
  case None
  have no: "\<not> due queues (trunc_ms clk) r" if "fmlookup (recs b) k = Some r" for k r
    using None that range_order_in [OF xs, of k] by (auto simp: mem_pickReady_def pickReady_loop_None)
  let ?w = "mem_nextRunAt xs queues (trunc_ms clk) (recs b)"
  have spec: "next_ok queues (trunc_ms clk) (recs b) xs zero_time ?w"
    unfolding mem_nextRunAt_def by (rule nextRunAt_loop_spec [OF clk])
  have late: "trunc_ms clk < RunAt (task r)" if "fmlookup (recs b) k = Some r" "claimable queues r" for k r
    using no [OF that(1)] that(2) by (auto simp: due_def)
  have "?w \<noteq> zero_time \<and> ?w \<le> RunAt (task r)" if "fmlookup (recs b) k = Some r" "claimable queues r" for k r
    using spec that late [OF that] range_order_in [OF xs, of k] unfolding next_ok_def by blast
  moreover have "\<exists>k r. fmlookup (recs b) k = Some r \<and> claimable queues r \<and> RunAt (task r) = ?w"
    if "?w \<noteq> zero_time" using spec that unfolding next_ok_def by metis
  ultimately show ?thesis using assms(3) init None no by (simp add: mem_Dequeue_turn_def Let_def)
next
  case (Some kr)
  then obtain k r where p: "mem_pickReady xs queues (trunc_ms clk) (recs b) = Some (k, r)" by (cases kr) auto
  have k: "fmlookup (recs b) k = Some r" "due queues (trunc_ms clk) r" using pickReady_sound [OF p] by simp_all
  have id: "ID (task s) = j" if "fmlookup (recs b) j = Some s" for j s
    using reachable_graph(1) [OF assms(1)] that by (simp add: graph_ok_def)
  have "claim_before r s" if "fmlookup (recs b) j = Some s" "due queues (trunc_ms clk) s" for j s
    using pickReady_loop_Some [OF p [unfolded mem_pickReady_def]] that range_order_in [OF xs, of j] by blast
  then have "\<forall>k' r'. fmlookup (recs b) k' = Some r' \<longrightarrow> due queues (trunc_ms clk) r' \<longrightarrow>
      RunAt (task r) < RunAt (task r') \<or> RunAt (task r) = RunAt (task r') \<and> k \<le> k'"
    using id k(1) unfolding claim_before_def by metis
  then show ?thesis using k by (auto simp: Dequeue_claim [OF assms(3) init p] Let_def)
qed

section \<open>Reclaiming expired leases\<close>

definition expired_in :: "time \<Rightarrow> store \<Rightarrow> id \<Rightarrow> bool" where
  "expired_in now m k \<longleftrightarrow>
     (\<exists>r. fmlookup m k = Some r \<and> Status (task r) = StatusRunning \<and> leaseUntil r < now)"

lemma reaped_status:
  "Status (task (reaped_rec now lostMax r)) \<noteq> StatusBlocked"
  "Status (task (reaped_rec now lostMax r)) \<noteq> StatusRunning"
  by (simp_all add: reaped_rec_def cancel_rec_def lost_rec_def expired_rec_def)

lemma reap_skip: "\<not> expired_in now m k \<Longrightarrow> reap_step now lostMax k (m, cnt, ns) = ((m, cnt, ns), None)"
  unfolding expired_in_def by (rule reap_step_skip)

lemma reaped_not_expired: "fmlookup m k = Some (reaped_rec now lostMax r) \<Longrightarrow> \<not> expired_in now m k"
  using reaped_status(2) by (auto simp: expired_in_def)

text \<open>One visit: the visited record is reclaimed if its lease is over, the other tasks that are
  not blocked are left alone, and no other lease expires or appears.\<close>

lemma reap_step_frame:
  assumes ok: "store_ok m" and step: "reap_step now lostMax k (m, cnt, ns) = ((m', cnt', ns'), e)"
  shows "store_ok m' \<and> e = None \<and> cnt' = (if expired_in now m k then cnt + 1 else cnt)"
    and "fmlookup m j = Some s \<Longrightarrow> Status (task s) \<noteq> StatusBlocked \<Longrightarrow> fmlookup m' j =
      Some (if j = k \<and> expired_in now m k then reaped_rec now lostMax s else s)"
    and "j \<noteq> k \<Longrightarrow> expired_in now m' j = expired_in now m j"
proof -
  have g: "good_move m ns m' ns'" "e = None" using reap_step_ok [OF ok step] by simp_all
  then have ev: "evolves m m'" and ok': "store_ok m'" and cl: "claims '''' m m'"
    by (simp_all add: good_move_def)
  have frame: "fmlookup m' j = Some (if j = k \<and> expired_in now m k then reaped_rec now lostMax s else s)"
    if j: "fmlookup m j = Some s" "Status (task s) \<noteq> StatusBlocked" for j s
  proof (cases "expired_in now m k")
    case False
    then have "m' = m" using step reap_skip by simp
    then show ?thesis using False j by simp
  next
    case True
    then obtain r where r: "fmlookup m k = Some r" "Status (task r) = StatusRunning" "leaseUntil r < now"
      by (auto simp: expired_in_def)
    have "only_blocked (fmupd k (reaped_rec now lostMax r) m) m'"
      using reap_step_expired [OF ok r step] by simp
    then have "fmlookup m' j = fmlookup (fmupd k (reaped_rec now lostMax r) m) j"
      using j reaped_status(1) unfolding only_blocked_def by (metis fmupd_lookup)
    then show ?thesis using True j r(1) by auto
  qed
  show "store_ok m' \<and> e = None \<and> cnt' = (if expired_in now m k then cnt + 1 else cnt)"
  proof (cases "expired_in now m k")
    case False
    then show ?thesis using step reap_skip ok by auto
  next
    case True
    then show ?thesis using reap_step_expired [OF ok _ _ _ step] g ok' by (auto simp: expired_in_def)
  qed
  show "fmlookup m j = Some s \<Longrightarrow> Status (task s) \<noteq> StatusBlocked \<Longrightarrow> fmlookup m' j =
      Some (if j = k \<and> expired_in now m k then reaped_rec now lostMax s else s)"
    by (rule frame)
  show "expired_in now m' j = expired_in now m j" if "j \<noteq> k"
  proof
    assume "expired_in now m' j"
    then obtain s' where s': "fmlookup m' j = Some s'" "Status (task s') = StatusRunning" "leaseUntil s' < now"
      by (auto simp: expired_in_def)
    have "LeaseToken (task s') \<noteq> ''''"
      using s' ok' lease_okD by (auto simp: store_ok_def lease_rec_def)
    then obtain s where s: "fmlookup m j = Some s" "LeaseToken (task s) \<noteq> ''''"
      using cl s'(1) unfolding claims_def by metis
    have "Status (task s) = StatusRunning"
      using s ok lease_okD by (auto simp: store_ok_def lease_rec_def)
    then show "expired_in now m j" using frame [OF s(1)] s(1) s' that by (auto simp: expired_in_def)
  next
    assume "expired_in now m j"
    then show "expired_in now m' j" using frame [of j] that by (fastforce simp: expired_in_def)
  qed
qed

lemma reap_loop_frame:
  assumes "store_ok m" and "distinct xs" and "reap_loop now lostMax xs (m, cnt, ns) = ((m', cnt', ns'), e)"
  shows "store_ok m' \<and> e = None \<and> cnt' = cnt + int (length (filter (expired_in now m) xs)) \<and>
    (\<forall>j s. fmlookup m j = Some s \<longrightarrow> Status (task s) \<noteq> StatusBlocked \<longrightarrow> fmlookup m' j =
       Some (if j \<in> set xs \<and> expired_in now m j then reaped_rec now lostMax s else s)) \<and>
    (\<forall>j. expired_in now m' j \<longrightarrow> j \<notin> set xs \<and> expired_in now m j)"
  using assms
proof (induction xs arbitrary: m cnt ns)
  case (Cons k xs)
  obtain m1 cnt1 ns1 e1 where one: "reap_step now lostMax k (m, cnt, ns) = ((m1, cnt1, ns1), e1)"
    by (metis prod.exhaust)
  note fr = reap_step_frame [OF Cons.prems(1) one]
  have IH: "store_ok m' \<and> e = None \<and> cnt' = cnt1 + int (length (filter (expired_in now m1) xs)) \<and>
    (\<forall>j s. fmlookup m1 j = Some s \<longrightarrow> Status (task s) \<noteq> StatusBlocked \<longrightarrow> fmlookup m' j =
       Some (if j \<in> set xs \<and> expired_in now m1 j then reaped_rec now lostMax s else s)) \<and>
    (\<forall>j. expired_in now m' j \<longrightarrow> j \<notin> set xs \<and> expired_in now m1 j)"
    using Cons.prems(2,3) one fr(1) by (intro Cons.IH [of m1 cnt1 ns1]) auto
  have k: "k \<notin> set xs" using Cons.prems(2) by simp
  have gone: "\<not> expired_in now m1 k"
  proof (cases "expired_in now m k")
    case True
    then obtain r where "fmlookup m k = Some r" "Status (task r) \<noteq> StatusBlocked"
      by (auto simp: expired_in_def)
    then have "fmlookup m1 k = Some (reaped_rec now lostMax r)" using fr(2) True by simp
    then show ?thesis by (rule reaped_not_expired)
  next
    case False
    then show ?thesis using one reap_skip by simp
  qed
  have ex: "expired_in now m1 j = expired_in now m j" if "j \<in> set xs" for j
    using fr(3) [of j] that k by auto
  have look: "fmlookup m' j = Some (if j \<in> set (k # xs) \<and> expired_in now m j then reaped_rec now lostMax s else s)"
    if j: "fmlookup m j = Some s" "Status (task s) \<noteq> StatusBlocked" for j s
  proof -
    let ?s = "if j = k \<and> expired_in now m k then reaped_rec now lostMax s else s"
    have "fmlookup m1 j = Some ?s" "Status (task ?s) \<noteq> StatusBlocked"
      using fr(2) [OF j] j(2) reaped_status(1) by auto
    then have "fmlookup m' j = Some (if j \<in> set xs \<and> expired_in now m1 j then reaped_rec now lostMax ?s else ?s)"
      using IH by blast
    then show ?thesis using k ex by auto
  qed
  have "filter (expired_in now m1) xs = filter (expired_in now m) xs" using ex by (rule filter_cong [OF refl])
  then have "cnt' = cnt + int (length (filter (expired_in now m) (k # xs)))" using IH fr(1) by auto
  moreover have "j \<notin> set (k # xs) \<and> expired_in now m j" if "expired_in now m' j" for j
    using IH that gone fr(3) [of j] by (cases "j = k") auto
  ultimately show ?case using IH look by blast
qed simp

text \<open>
  C32: the reaper.  A pass over all records ends every lease whose deadline has passed and no other:
  such a task is cancelled if that had been asked for, else it loses one life and is failed when
  the lives are used up and pending otherwise.  Running tasks with a live lease are untouched,
  afterwards no running task has an expired lease, and the count returned is the number of leases
  ended.
\<close>

theorem ReapExpired_contract:
  assumes "reachable b" and init: "mem_requireInit b = None" and xs: "range_order xs (recs b)"
    and step: "mem_ReapExpired xs ys clk b = (b', ns, n, e)"
  shows "e = None \<and> n = int (length (filter (expired_in (trunc_ms clk) (recs b)) xs)) \<and>
    (\<forall>k r. fmlookup (recs b) k = Some r \<longrightarrow> Status (task r) = StatusRunning \<longrightarrow>
       fmlookup (recs b') k = Some (if leaseUntil r < trunc_ms clk
         then reaped_rec (trunc_ms clk) (LeaseLostMax (opts b)) r else r)) \<and>
    (\<forall>k. \<not> expired_in (trunc_ms clk) (recs b') k)"
proof -
  obtain m1 cnt ns1 e1 where
    loop: "reap_loop (trunc_ms clk) (LeaseLostMax (opts b)) xs (recs b, 0, []) = ((m1, cnt, ns1), e1)"
    by (metis prod.exhaust)
  note fr = reap_loop_frame [OF minv_store_ok [OF reachable_minv [OF assms(1)]] _ loop]
  have d: "distinct xs" "expired_in (trunc_ms clk) (recs b) j \<Longrightarrow> j \<in> set xs" for j
    using xs range_order_in [OF xs] by (auto simp: range_order_def expired_in_def)
  have "recs b' = m1 \<and> n = cnt \<and> e = None"
    using step init loop fr [OF d(1)] repair_pass_noop [of m1]
    by (auto simp: mem_ReapExpired_def Let_def mem_broadcast_def split: if_splits)
  moreover have "expired_in (trunc_ms clk) (recs b) k \<longleftrightarrow> leaseUntil r < trunc_ms clk"
    if "fmlookup (recs b) k = Some r" "Status (task r) = StatusRunning" for k r
    using that by (simp add: expired_in_def)
  ultimately show ?thesis using fr [OF d(1)] d(2) by auto
qed

section \<open>Submitting and replaying\<close>



lemma tail_exists:
  assumes "chains_ok b" and "chain_of b key \<noteq> []"
  shows "\<exists>r. fmlookup (recs b) (last (chain_of b key)) = Some r \<and> BusinessKey (task r) = key"
proof -
  have c: "fmlookup (chains b) key = Some (chain_of b key)"
    using assms(2) by (cases "fmlookup (chains b) key") (simp_all add: chain_of_def)
  note one = one_chainD [OF chains_okD(1) [OF assms(1) c]]
  show ?thesis using one(5) [of "last (chain_of b key)"] one(2) by simp
qed






text \<open>The identifier of the execution a request names.\<close>

definition named_target :: "replayRequest \<Rightarrow> mbroker \<Rightarrow> id option" where
  "named_target req b =
     (if rq_ExecutionID req \<noteq> '''' then Some (rq_ExecutionID req)
      else if chain_of b (rq_BusinessKey req) = [] then None else Some (last (chain_of b (rq_BusinessKey req))))"

lemma replay_target_named:
  assumes "reachable b" and one: "(rq_ExecutionID req = '''') \<noteq> (rq_BusinessKey req = '''')"
  shows "replay_target req b =
    (case named_target req b of
       None \<Rightarrow> Inl (ErrTaskNotFound (rq_BusinessKey req))
     | Some k \<Rightarrow> (case fmlookup (recs b) k of None \<Rightarrow> Inl (ErrTaskNotFound k) | Some r \<Rightarrow> Inr r))"
proof (cases "rq_ExecutionID req = '''' \<and> chain_of b (rq_BusinessKey req) \<noteq> []")
  case True
  then have "fmlookup (recs b) (last (chain_of b (rq_BusinessKey req))) \<noteq> None"
    using tail_exists [OF reachable_graph(5) [OF assms(1)]] by fastforce
  then show ?thesis using True by (auto simp: replay_target_def named_target_def Let_def)
qed (auto simp: replay_target_def named_target_def Let_def)

text \<open>
  C27: \<open>Replay\<close>.  A replay names its target by execution or by business key (its latest
  execution).  It is refused, without any change and without a notification, on a broker that is not
  usable, when it names its target in neither or in both ways, and when the target does not exist, is
  not final, has been replayed before, or completed without the caller allowing it.  Otherwise exactly
  one record is added: a pending execution, due at once, with cleared counters and times, no result,
  no parents and no lease, and with the type, queue, key, retry limit and failure policy of the target
  and its payload unless another is given.  It is returned and announced, its chain is extended by it,
  the target is marked replayed, and every other record, the target's included, is left as it was.
\<close>

theorem Replay_contract:
  assumes "reachable b" and fresh: "fresh_id fresh b" and step: "mem_Replay fresh clk req b = (b', ns, res)"
  shows "let refused = (\<lambda>e. res = Inl e \<and> b' = b \<and> ns = []) in
    case mem_requireInit b of
      Some e \<Rightarrow> refused e
    | None \<Rightarrow>
        if (rq_ExecutionID req = '''') = (rq_BusinessKey req = '''') then refused ErrReplayTarget
        else (case named_target req b of
          None \<Rightarrow> refused (ErrTaskNotFound (rq_BusinessKey req))
        | Some k \<Rightarrow> (case fmlookup (recs b) k of
            None \<Rightarrow> refused (ErrTaskNotFound k)
          | Some r \<Rightarrow>
              if \<not> isFinal (Status (task r)) then refused (ErrReplayNotFinal k (Status (task r)))
              else if is_replayed (replayed b) k then refused (ErrAlreadyReplayed k)
              else if Status (task r) = StatusCompleted \<and> \<not> rq_AllowCompleted req then refused (ErrCompletedNotAllowed k)
              else \<exists>t. ID t = fresh \<and> ReplayOf t = k \<and> Status t = StatusPending \<and> Attempts t = 0 \<and> LeaseLost t = 0 \<and>
                Throttled t = 0 \<and> RunAt t = trunc_ms clk \<and> CreatedAt t = trunc_ms clk \<and> StartedAt t = zero_time \<and>
                FinishedAt t = zero_time \<and> Result t = None \<and> LastError t = '''' \<and> DependsOn t = [] \<and> LeaseToken t = '''' \<and>
                Type t = Type (task r) \<and> Queue t = Queue (task r) \<and> BusinessKey t = BusinessKey (task r) \<and>
                MaxRetry t = MaxRetry (task r) \<and> OnParentFailure t = OnParentFailure (task r) \<and>
                Payload t = clone_bytes (if rq_Payload req = None then Payload (task r) else rq_Payload req) \<and>
                res = Inr (cloneTask t) \<and> ns = [cloneTask t] \<and>
                fmlookup (recs b') fresh = Some \<lparr>task = t, pendingParents = 0, leaseUntil = zero_time, cancelRequested = False, children = []\<rparr> \<and>
                (\<forall>j. j \<noteq> fresh \<longrightarrow> fmlookup (recs b') j = fmlookup (recs b) j) \<and> is_replayed (replayed b') k \<and>
                (BusinessKey (task r) \<noteq> '''' \<longrightarrow>
                   chain_of b' (BusinessKey (task r)) = chain_of b (BusinessKey (task r)) @ [fresh])))"
proof (cases "mem_requireInit b = None \<and> (rq_ExecutionID req = '''') \<noteq> (rq_BusinessKey req = '''')")
  case False
  then show ?thesis using step by (auto simp: mem_Replay_def Let_def split: option.split)
next
  case True
  note init = True [THEN conjunct1] and one = True [THEN conjunct2]
  note tgt = replay_target_named [OF assms(1) one]
  show ?thesis
  proof (cases "replay_target req b")
    case (Inl e)
    then show ?thesis using step init one tgt by (auto simp: mem_Replay_def Let_def split: option.splits)
  next
    case (Inr r)
    then obtain k where k: "named_target req b = Some k" "fmlookup (recs b) k = Some r"
      using tgt by (auto split: option.splits)
    have id: "ID (task r) = k" "k \<noteq> ''''" using reachable_graph(1) [OF assms(1)] k(2) by (simp_all add: graph_ok_def)
    show ?thesis
    proof (cases "replayable req b (task r)")
      case False
      then show ?thesis using step init one Inr id k
        by (auto simp: mem_Replay_def Let_def replayable_def is_replayed_def)
    next
      case ok: True
      define t where "t = replay_task fresh (trunc_ms clk) (if rq_Payload req = None then Payload (task r) else rq_Payload req) (task r)"
      let ?r = "\<lparr>task = t, pendingParents = 0, leaseUntil = zero_time, cancelRequested = False, children = []\<rparr>"
      have res: "b' = mem_broadcast ((push_chain (BusinessKey (task r)) fresh (put_rec fresh ?r b))
            \<lparr>replayed := fmupd k True (replayed (push_chain (BusinessKey (task r)) fresh (put_rec fresh ?r b)))\<rparr>)"
          "ns = [cloneTask t]" "res = Inr (cloneTask t)"
        using step init one Inr ok id by (auto simp: mem_Replay_def Let_def replayable_def is_replayed_def t_def)
      have store: "fmlookup (recs b') j = (if j = fresh then Some ?r else fmlookup (recs b) j)" for j
        by (simp add: res(1) mem_broadcast_def push_chain_def put_rec_def)
      have chain: "chain_of b' (BusinessKey (task r)) = chain_of b (BusinessKey (task r)) @ [fresh]" if "BusinessKey (task r) \<noteq> ''''"
        using that by (simp add: res(1) mem_broadcast_def push_chain_def put_rec_def chain_of_def)
      have rep: "is_replayed (replayed b') k" by (simp add: res(1) mem_broadcast_def is_replayed_def)
      show ?thesis using ok init one k id store chain rep res(2,3)
        by (auto simp: Let_def replayable_def is_replayed_def t_def replay_task_def intro!: exI [of _ t])
    qed
  qed
qed

section \<open>Queries\<close>

lemma collect_tasks_eq:
  "collect_tasks f m ks =
     map (\<lambda>k. cloneTask (task (the (fmlookup m k))))
       (filter (\<lambda>k. \<exists>r. fmlookup m k = Some r \<and> matches f (task r)) ks)"
  by (induction ks) (auto split: option.splits)

lemma list_less_key: "list_less a b \<longleftrightarrow> CreatedAt a < CreatedAt b \<or> CreatedAt a = CreatedAt b \<and> ID a < ID b"
  by (auto simp: list_less_def)

definition listed_before :: "task \<Rightarrow> task \<Rightarrow> bool" where
  "listed_before a b \<longleftrightarrow> CreatedAt a < CreatedAt b \<or> CreatedAt a = CreatedAt b \<and> ID a \<le> ID b"

lemma listed_before_trans: "listed_before a b \<Longrightarrow> listed_before b c \<Longrightarrow> listed_before a c"
  by (auto simp: listed_before_def)

lemma insert_sorted_mset [simp]: "mset (insert_sorted t us) = add_mset t (mset us)"
  by (induction us) auto

lemma insert_sorted_set [simp]: "set (insert_sorted t us) = insert t (set us)"
  by (induction us) auto

lemma sort_tasks_mset [simp]: "mset (sort_tasks ts) = mset ts"
  by (induction ts) auto

lemma insert_sorted_sorted: "sorted_wrt listed_before us \<Longrightarrow> sorted_wrt listed_before (insert_sorted t us)"
  by (induction us) (auto simp: list_less_key listed_before_def intro: listed_before_trans)

lemma sort_tasks_sorted: "sorted_wrt listed_before (sort_tasks ts)"
  by (induction ts) (auto intro: insert_sorted_sorted)

lemma listed_unique:
  assumes "sorted_wrt listed_before xs" and "sorted_wrt listed_before ys" and "mset xs = mset ys"
    and "distinct (map ID xs)"
  shows "xs = ys"
  using assms
proof (induction xs arbitrary: ys)
  case (Cons x xs)
  then obtain y ys' where ys: "ys = y # ys'" by (cases ys) auto
  have mem: "x \<in> set ys" "y \<in> set (x # xs)" using Cons.prems(3) ys
    by (metis list.set_intros(1) mset_eq_setD)+
  have "x = y"
  proof (rule ccontr)
    assume "x \<noteq> y"
    then have "listed_before x y" "listed_before y x" "y \<in> set xs" using mem Cons.prems(1,2) ys by auto
    then have "ID x = ID y" by (auto simp: listed_before_def)
    then show False using Cons.prems(4) \<open>y \<in> set xs\<close> by auto
  qed
  then show ?case using Cons.IH [of ys'] Cons.prems ys by simp
qed simp

definition matching :: "filterSpec \<Rightarrow> mbroker \<Rightarrow> task set" where
  "matching f b = {cloneTask (task r) |k r. fmlookup (recs b) k = Some r \<and> matches f (task r)}"

lemma cloneTask_ID [simp]: "ID (cloneTask t) = ID t" "CreatedAt (cloneTask t) = CreatedAt t"
  by (simp_all add: cloneTask_def)

lemma collect_tasks_order:
  assumes g: "graph_ok (recs b)" and xs: "range_order xs (recs b)"
  shows "set (collect_tasks f (recs b) xs) = matching f b" "distinct (map ID (collect_tasks f (recs b) xs))"
proof -
  show "set (collect_tasks f (recs b) xs) = matching f b"
    using range_order_in [OF xs] by (force simp: collect_tasks_eq matching_def)
  have "map ID (collect_tasks f (recs b) xs) =
      filter (\<lambda>k. \<exists>r. fmlookup (recs b) k = Some r \<and> matches f (task r)) xs"
    using g by (auto simp: collect_tasks_eq graph_ok_def o_def intro!: map_idI)
  then show "distinct (map ID (collect_tasks f (recs b) xs))"
    using xs by (simp add: range_order_def)
qed

text \<open>
  C33: \<open>List\<close>.  The answer is the page that the offset and the limit cut out of one fixed list: all
  stored tasks that match the filter, each once, by creation instant and then by identifier.  The
  list does not depend on the order in which the map is visited.
\<close>

theorem List_contract:
  assumes "reachable b" and xs: "range_order xs (recs b)"
  shows "\<exists>L. set L = matching f b \<and> distinct (map ID L) \<and>
      sorted_wrt (\<lambda>s t. CreatedAt s < CreatedAt t \<or> CreatedAt s = CreatedAt t \<and> ID s \<le> ID t) L \<and>
      (\<forall>ys. range_order ys (recs b) \<longrightarrow> mem_List ys f b =
         (let rest = drop (nat (f_Offset f)) L
          in if f_Limit f > 0 then take (nat (f_Limit f)) rest else rest))"
proof -
  let ?L = "\<lambda>zs. sort_tasks (collect_tasks f (recs b) zs)"
  note coll = collect_tasks_order [OF reachable_graph(1) [OF assms(1)]]
  have srt: "sorted_wrt listed_before (?L zs)" for zs by (rule sort_tasks_sorted)
  have ids: "mset (map ID (?L zs)) = mset (map ID (collect_tasks f (recs b) zs))" for zs by simp
  have props: "set (?L zs) = matching f b" "distinct (map ID (?L zs))" if "range_order zs (recs b)" for zs
    using coll [OF that] mset_eq_setD [OF sort_tasks_mset] mset_eq_imp_distinct_iff [OF ids] by auto
  have page: "mem_List ys f b = (let rest = drop (nat (f_Offset f)) (?L ys)
      in if f_Limit f > 0 then take (nat (f_Limit f)) rest else rest)" for ys
    by (auto simp: mem_List_def pageSlice_def Let_def)
  have same: "?L ys = ?L xs" if "range_order ys (recs b)" for ys
  proof (rule listed_unique [OF srt srt])
    have "distinct (?L ys)" "distinct (?L xs)" using props(2) that xs distinct_map by blast+
    then show "mset (?L ys) = mset (?L xs)"
      using props(1) [OF that] props(1) [OF xs] by (simp only: set_eq_iff_mset_eq_distinct [symmetric])
    show "distinct (map ID (?L ys))" using props(2) [OF that] .
  qed
  show ?thesis
    using props [OF xs] srt [of xs] same page unfolding listed_before_def by (intro exI [of _ "?L xs"]) auto
qed

definition count_at :: "countMatrix \<Rightarrow> string \<Rightarrow> status \<Rightarrow> int" where
  "count_at out ty st =
     (case fmlookup out ty of None \<Rightarrow> 0 | Some m \<Rightarrow> (case fmlookup m st of None \<Rightarrow> 0 | Some n \<Rightarrow> n))"

definition stored_with :: "store \<Rightarrow> (task \<Rightarrow> bool) \<Rightarrow> id \<Rightarrow> bool" where
  "stored_with m P k \<longleftrightarrow> (\<exists>r. fmlookup m k = Some r \<and> P (task r))"

lemma count_at_bump:
  "count_at (bump_count t out) ty st = count_at out ty st + (if Type t = ty \<and> Status t = st then 1 else 0)"
  by (auto simp: count_at_def bump_count_def Let_def split: option.splits)

lemma Counts_loop_count:
  "count_at (mem_Counts_loop m ks out) ty st =
     count_at out ty st + int (length (filter (stored_with m (\<lambda>t. Type t = ty \<and> Status t = st)) ks))"
  by (induction ks arbitrary: out) (auto simp: count_at_bump stored_with_def split: option.splits)

lemma QueueLen_loop_count:
  "mem_QueueLen_loop q m ks n = n + int (length (filter (stored_with m
     (\<lambda>t. Queue t = q \<and> (Status t = StatusPending \<or> Status t = StatusRetrying))) ks))"
  by (induction ks arbitrary: n) (auto simp: stored_with_def split: option.splits)

lemma filter_card:
  assumes "range_order xs m"
  shows "length (filter (stored_with m P) xs) = card {k. stored_with m P k}"
proof -
  have "set (filter (stored_with m P) xs) = {k. stored_with m P k}"
    using range_order_in [OF assms] by (auto simp: stored_with_def)
  then show ?thesis using assms distinct_card [of "filter (stored_with m P) xs"] by (simp add: range_order_def)
qed

text \<open>
  C34: statistics.  \<open>Counts\<close> reports for every type and status the number of stored tasks of that type
  and status, and \<open>QueueLen\<close> the number of tasks of a queue that wait to be run, whatever order the
  map is visited in.
\<close>

theorem statistics_exact:
  assumes xs: "range_order xs (recs b)"
  shows "count_at (mem_Counts xs b) ty st =
      int (card {k. \<exists>r. fmlookup (recs b) k = Some r \<and> Type (task r) = ty \<and> Status (task r) = st}) \<and>
    mem_QueueLen xs q b =
      int (card {k. \<exists>r. fmlookup (recs b) k = Some r \<and> Queue (task r) = q \<and>
        (Status (task r) = StatusPending \<or> Status (task r) = StatusRetrying)})"
proof -
  have "count_at (mem_Counts xs b) ty st =
      int (card {k. stored_with (recs b) (\<lambda>t. Type t = ty \<and> Status t = st) k})"
    unfolding mem_Counts_def Counts_loop_count filter_card [OF xs] by (simp add: count_at_def)
  moreover have "mem_QueueLen xs q b = int (card {k. stored_with (recs b)
      (\<lambda>t. Queue t = q \<and> (Status t = StatusPending \<or> Status t = StatusRetrying)) k})"
    unfolding mem_QueueLen_def QueueLen_loop_count filter_card [OF xs] by simp
  ultimately show ?thesis by (simp add: stored_with_def)
qed

end
