(* ===== verification/Config.thy ===== *)
theory Config
  imports Task_Model
begin

text \<open>
  Configuration (\<open>taskgate.go\<close>): queue settings, their validation and defaults, and the
  functional options of \<open>Submit\<close> and \<open>Replay\<close>.  The main result characterises the accepted
  configurations without reference to the order in which the maps are visited and says what the
  accepted configuration is after its defaults have been filled in.
\<close>

section \<open>Settings\<close>

text \<open>
  \<open>RPS\<close> is a \<open>float64\<close>; a finite one is a rational number.  The model has no \<open>NaN\<close> and no infinities, which
  \<open>validateQueue\<close> does not refuse: what is shown about configurations is shown for finite rates.
\<close>

record queueConfig =
  Workers :: int
  RPS :: rat
  Burst :: int
  QLeaseTTL :: duration
  ManualHeartbeat :: bool
  QuotaLimit :: int
  QuotaPeriod :: duration
  QuotaKey :: string

definition zeroQueue :: queueConfig where
  "zeroQueue = \<lparr>Workers = 0, RPS = 0, Burst = 0, QLeaseTTL = 0, ManualHeartbeat = False,
     QuotaLimit = 0, QuotaPeriod = 0, QuotaKey = ''''\<rparr>"

text \<open>The broker and the notification callback are run-time objects; only whether a broker is given matters.\<close>

record config =
  HasBroker :: bool
  Queues :: "(string, queueConfig) fmap"
  Routes :: "(string, string) fmap"
  DefaultQueue :: queueConfig
  CLeaseLostMax :: int
  CThrottledMax :: int

abbreviation defaultLeaseTTL :: duration where "defaultLeaseTTL \<equiv> 60 * second"

section \<open>Validation\<close>

definition validateQueue :: "string \<Rightarrow> queueConfig \<Rightarrow> tg_error + queueConfig" where
  "validateQueue name q =
     (if Workers q < 1 then Inl (ErrConfig (''workers: '' @ name))
      else if RPS q < 0 then Inl (ErrConfig (''rps: '' @ name))
      else if Burst q < 0 then Inl (ErrConfig (''burst: '' @ name))
      else if QLeaseTTL q < 0 then Inl (ErrConfig (''lease_ttl: '' @ name))
      else
        let q1 = (if QLeaseTTL q = 0 then q\<lparr>QLeaseTTL := defaultLeaseTTL\<rparr> else q) in
        if QuotaLimit q1 < 0 then Inl (ErrConfig (''quota_limit: '' @ name))
        else if QuotaPeriod q1 < 0 then Inl (ErrConfig (''quota_period: '' @ name))
        else if QuotaLimit q1 > 0 \<and> QuotaPeriod q1 < second then Inl (ErrConfig (''quota_period: '' @ name))
        else Inr q1)"

fun validate_queues :: "string list \<Rightarrow> (string, queueConfig) fmap \<Rightarrow> tg_error + (string, queueConfig) fmap" where
  "validate_queues [] qs = Inr qs"
| "validate_queues (name # ns) qs =
     (case fmlookup qs name of
        None \<Rightarrow> validate_queues ns qs
      | Some q \<Rightarrow>
          (case validateQueue name q of
             Inl e \<Rightarrow> Inl e
           | Inr q1 \<Rightarrow> validate_queues ns (fmupd name q1 qs)))"

fun validate_routes ::
  "string list \<Rightarrow> (string, string) fmap \<Rightarrow> (string, queueConfig) fmap \<Rightarrow> queueConfig \<Rightarrow> bool \<Rightarrow> tg_error + bool" where
  "validate_routes [] rs qs dq need = Inr need"
| "validate_routes (typ # ts) rs qs dq need =
     (case fmlookup rs typ of
        None \<Rightarrow> validate_routes ts rs qs dq need
      | Some target \<Rightarrow>
          if fmlookup qs target = None then
            (if Workers dq < 1 then Inl (ErrConfig (''route: '' @ typ))
             else validate_routes ts rs qs dq True)
          else validate_routes ts rs qs dq need)"

type_synonym quotaKeys = "(string, string \<times> int \<times> duration) fmap"

definition checkQuotaKey :: "string \<Rightarrow> string \<Rightarrow> queueConfig \<Rightarrow> quotaKeys \<Rightarrow> tg_error + quotaKeys" where
  "checkQuotaKey queue key q seen =
     (if QuotaLimit q \<le> 0 \<or> key = '''' then Inr seen
      else
        (case fmlookup seen key of
           Some (_, limit, period) \<Rightarrow>
             if limit \<noteq> QuotaLimit q \<or> period \<noteq> QuotaPeriod q then Inl (ErrConfig (''quota key: '' @ key))
             else Inr (fmupd key (queue, QuotaLimit q, QuotaPeriod q) seen)
         | None \<Rightarrow> Inr (fmupd key (queue, QuotaLimit q, QuotaPeriod q) seen)))"

definition effectiveKey :: "string \<Rightarrow> queueConfig \<Rightarrow> string" where
  "effectiveKey name q = (if QuotaKey q = '''' then name else QuotaKey q)"

fun check_quota_keys :: "string list \<Rightarrow> (string, queueConfig) fmap \<Rightarrow> quotaKeys \<Rightarrow> tg_error + quotaKeys" where
  "check_quota_keys [] qs seen = Inr seen"
| "check_quota_keys (name # ns) qs seen =
     (case fmlookup qs name of
        None \<Rightarrow> check_quota_keys ns qs seen
      | Some q \<Rightarrow>
          (case checkQuotaKey name (effectiveKey name q) q seen of
             Inl e \<Rightarrow> Inl e
           | Inr seen' \<Rightarrow> check_quota_keys ns qs seen'))"

definition validate_caps :: "config \<Rightarrow> tg_error + config" where
  "validate_caps c =
     (if CLeaseLostMax c < 0 then Inl (ErrConfig ''lease_lost_max'')
      else
        let c1 = (if CLeaseLostMax c = 0 then c\<lparr>CLeaseLostMax := 3\<rparr> else c) in
        if CThrottledMax c1 < 0 then Inl (ErrConfig ''throttled_max'')
        else Inr (if CThrottledMax c1 = 0 then c1\<lparr>CThrottledMax := 100\<rparr> else c1))"

text \<open>
  \<open>xs\<close>, \<open>ts\<close> and \<open>ys\<close> are the orders in which the three loops over the maps of queues, routes
  and queues run.
\<close>

definition validate :: "string list \<Rightarrow> string list \<Rightarrow> string list \<Rightarrow> config \<Rightarrow> tg_error + config" where
  "validate xs ts ys c =
     (if \<not> HasBroker c then Inl (ErrConfig ''config.Broker is required'')
      else (case validate_queues xs (Queues c) of Inl e \<Rightarrow> Inl e
      | Inr qs \<Rightarrow> (case validate_routes ts (Routes c) qs (DefaultQueue c) False of Inl e \<Rightarrow> Inl e
      | Inr needDefault \<Rightarrow>
          (case (if needDefault \<or> DefaultQueue c \<noteq> zeroQueue then validateQueue ''(default)'' (DefaultQueue c)
                 else Inr (DefaultQueue c)) of Inl e \<Rightarrow> Inl e
      | Inr dq \<Rightarrow> (case check_quota_keys ys qs fmempty of Inl e \<Rightarrow> Inl e
      | Inr seen \<Rightarrow> (case checkQuotaKey ''(default)'' (QuotaKey dq) dq seen of Inl e \<Rightarrow> Inl e
      | Inr _ \<Rightarrow> validate_caps (c\<lparr>Queues := qs, DefaultQueue := dq\<rparr>)))))))"

section \<open>Options\<close>

record submitOptions =
  o_businessKey :: string
  o_delay :: duration
  o_runAt :: time
  o_maxRetry :: int
  o_dependsOn :: "id list"
  o_ignoreParentFailure :: bool

text \<open>A \<open>SubmitOption\<close> is a closure over the options struct; the constructors are the functions that build one.\<close>

datatype submitOption =
    WithBusinessKey string
  | WithID string
  | Delay duration
  | RunAtOpt time
  | MaxRetryOpt int
  | DependsOnOpt "id list"
  | IgnoreParentFailure

fun applySubmitOption :: "submitOption \<Rightarrow> submitOptions \<Rightarrow> submitOptions" where
  "applySubmitOption (WithBusinessKey key) o0 = o0\<lparr>o_businessKey := key\<rparr>"
| "applySubmitOption (WithID i) o0 = o0\<lparr>o_businessKey := i\<rparr>"
| "applySubmitOption (Delay d) o0 = o0\<lparr>o_delay := d\<rparr>"
| "applySubmitOption (RunAtOpt t) o0 = o0\<lparr>o_runAt := t\<rparr>"
| "applySubmitOption (MaxRetryOpt n) o0 = o0\<lparr>o_maxRetry := n\<rparr>"
| "applySubmitOption (DependsOnOpt ids) o0 = o0\<lparr>o_dependsOn := o_dependsOn o0 @ ids\<rparr>"
| "applySubmitOption IgnoreParentFailure o0 = o0\<lparr>o_ignoreParentFailure := True\<rparr>"

definition applySubmitOptions :: "submitOption list \<Rightarrow> submitOptions" where
  "applySubmitOptions opts = fold applySubmitOption opts
     \<lparr>o_businessKey = '''', o_delay = 0, o_runAt = zero_time, o_maxRetry = 0, o_dependsOn = [],
      o_ignoreParentFailure = False\<rparr>"

record replayOptions =
  ro_allowCompleted :: bool
  ro_payload :: bytes

datatype replayOption = AllowCompleted | WithPayload bytes

fun applyReplayOption :: "replayOption \<Rightarrow> replayOptions \<Rightarrow> replayOptions" where
  "applyReplayOption AllowCompleted o0 = o0\<lparr>ro_allowCompleted := True\<rparr>"
| "applyReplayOption (WithPayload p) o0 = o0\<lparr>ro_payload := p\<rparr>"

definition applyReplayOptions :: "replayOption list \<Rightarrow> replayOptions" where
  "applyReplayOptions opts = fold applyReplayOption opts \<lparr>ro_allowCompleted = False, ro_payload = None\<rparr>"

section \<open>What validation accepts\<close>

definition queue_valid :: "queueConfig \<Rightarrow> bool" where
  "queue_valid q \<longleftrightarrow> 1 \<le> Workers q \<and> 0 \<le> RPS q \<and> 0 \<le> Burst q \<and> 0 \<le> QLeaseTTL q \<and>
     0 \<le> QuotaLimit q \<and> 0 \<le> QuotaPeriod q \<and> (0 < QuotaLimit q \<longrightarrow> second \<le> QuotaPeriod q)"

definition fill :: "queueConfig \<Rightarrow> queueConfig" where
  "fill q = (if QLeaseTTL q = 0 then q\<lparr>QLeaseTTL := defaultLeaseTTL\<rparr> else q)"

text \<open>The quota budgets in use: key, limit and period.\<close>

definition budget :: "string \<Rightarrow> queueConfig \<Rightarrow> (string \<times> int \<times> duration) set" where
  "budget key q = (if QuotaLimit q \<le> 0 \<or> key = '''' then {} else {(key, QuotaLimit q, QuotaPeriod q)})"

definition budgets :: "string set \<Rightarrow> (string, queueConfig) fmap \<Rightarrow> (string \<times> int \<times> duration) set" where
  "budgets N qs = (\<Union>n \<in> N. case fmlookup qs n of None \<Rightarrow> {} | Some q \<Rightarrow> budget (effectiveKey n q) q)"

definition agree :: "(string \<times> int \<times> duration) set \<Rightarrow> bool" where
  "agree S \<longleftrightarrow> (\<forall>k a b. (k, a) \<in> S \<longrightarrow> (k, b) \<in> S \<longrightarrow> a = b)"

definition unrouted :: "config \<Rightarrow> bool" where
  "unrouted c \<longleftrightarrow> (\<exists>typ target. fmlookup (Routes c) typ = Some target \<and> fmlookup (Queues c) target = None)"

definition config_valid :: "config \<Rightarrow> bool" where
  "config_valid c \<longleftrightarrow> HasBroker c \<and>
     (\<forall>n q. fmlookup (Queues c) n = Some q \<longrightarrow> queue_valid q) \<and>
     (unrouted c \<or> DefaultQueue c \<noteq> zeroQueue \<longrightarrow> queue_valid (DefaultQueue c)) \<and>
     agree (budgets (fset (fmdom (Queues c))) (Queues c) \<union>
       budget (QuotaKey (DefaultQueue c)) (DefaultQueue c)) \<and>
     0 \<le> CLeaseLostMax c \<and> 0 \<le> CThrottledMax c"

definition normalize :: "config \<Rightarrow> config" where
  "normalize c = c\<lparr>Queues := fmmap fill (Queues c),
     DefaultQueue := (if unrouted c \<or> DefaultQueue c \<noteq> zeroQueue then fill (DefaultQueue c) else DefaultQueue c),
     CLeaseLostMax := (if CLeaseLostMax c = 0 then 3 else CLeaseLostMax c),
     CThrottledMax := (if CThrottledMax c = 0 then 100 else CThrottledMax c)\<rparr>"

section \<open>The loops of validation\<close>

lemma validateQueue_iff: "validateQueue name q = Inr q' \<longleftrightarrow> queue_valid q \<and> q' = fill q"
  by (auto simp: validateQueue_def queue_valid_def fill_def Let_def)

lemma fill_quota [simp]:
  "QuotaLimit (fill q) = QuotaLimit q" "QuotaPeriod (fill q) = QuotaPeriod q" "QuotaKey (fill q) = QuotaKey q"
  "Workers (fill q) = Workers q" "RPS (fill q) = RPS q"
  by (simp_all add: fill_def)

lemma budget_fill [simp]: "budget key (fill q) = budget key q" "effectiveKey n (fill q) = effectiveKey n q"
  by (simp_all add: budget_def effectiveKey_def)

lemma validate_queues_iff:
  "distinct xs \<Longrightarrow> validate_queues xs qs = Inr qs' \<longleftrightarrow>
     (\<forall>n \<in> set xs. \<forall>q. fmlookup qs n = Some q \<longrightarrow> queue_valid q) \<and>
     (\<forall>n. fmlookup qs' n = (if n \<in> set xs then map_option fill (fmlookup qs n) else fmlookup qs n))"
proof (induction xs arbitrary: qs)
  case Nil
  then show ?case by (auto intro: fmap_ext)
next
  case (Cons x xs)
  show ?case
  proof (cases "fmlookup qs x")
    case None
    then show ?thesis using Cons by (auto split: if_splits)
  next
    case (Some q)
    have "validate_queues (x # xs) qs = Inr qs' \<longleftrightarrow> queue_valid q \<and> validate_queues xs (fmupd x (fill q) qs) = Inr qs'"
    proof (cases "validateQueue x q")
      case (Inl e)
      then show ?thesis using Some validateQueue_iff [of x q "fill q"] by simp
    next
      case (Inr q1)
      then show ?thesis using Some validateQueue_iff [of x q q1] by simp
    qed
    then show ?thesis using Cons Some by (auto split: if_splits)
  qed
qed

lemma validate_queues_all:
  assumes "range_order xs qs"
  shows "validate_queues xs qs = Inr qs' \<longleftrightarrow>
    (\<forall>n q. fmlookup qs n = Some q \<longrightarrow> queue_valid q) \<and> qs' = fmmap fill qs"
proof -
  have d: "distinct xs" and mem: "fmlookup qs n = Some q \<Longrightarrow> n \<in> set xs" for n q
    using assms range_order_in [OF assms] by (auto simp: range_order_def)
  have "(if n \<in> set xs then map_option fill (fmlookup qs n) else fmlookup qs n) = map_option fill (fmlookup qs n)" for n
    using mem by (cases "fmlookup qs n") auto
  then have "(\<forall>n. fmlookup qs' n = (if n \<in> set xs then map_option fill (fmlookup qs n) else fmlookup qs n))
      \<longleftrightarrow> qs' = fmmap fill qs"
    by (auto intro: fmap_ext)
  then show ?thesis using validate_queues_iff [OF d, of qs qs'] mem by blast
qed

lemma validate_routes_iff:
  "validate_routes ts rs qs dq need = Inr need' \<longleftrightarrow>
     (let open_routes = \<exists>typ \<in> set ts. \<exists>target. fmlookup rs typ = Some target \<and> fmlookup qs target = None
      in (open_routes \<longrightarrow> 1 \<le> Workers dq) \<and> need' = (need \<or> open_routes))"
  by (induction ts arbitrary: need) (auto simp: Let_def split: option.splits)

definition params :: "quotaKeys \<Rightarrow> (string \<times> int \<times> duration) set" where
  "params seen = {(k, a) |k n a. fmlookup seen k = Some (n, a)}"

lemma params_iff: "(k, a) \<in> params seen \<longleftrightarrow> (\<exists>n. fmlookup seen k = Some (n, a))"
  by (auto simp: params_def)

lemma params_upd:
  assumes "fmlookup seen key = None \<or> (\<exists>n. fmlookup seen key = Some (n, a))"
  shows "params (fmupd key (queue, a) seen) = insert (key, a) (params seen)"
proof (rule set_eqI)
  fix x :: "string \<times> int \<times> duration"
  obtain k v where x: "x = (k, v)" by (cases x)
  show "x \<in> params (fmupd key (queue, a) seen) \<longleftrightarrow> x \<in> insert (key, a) (params seen)"
    using assms by (cases "k = key") (auto simp: x params_iff)
qed

lemma checkQuotaKey_ok:
  assumes "agree (params seen)"
  shows "(\<exists>seen'. checkQuotaKey queue key q seen = Inr seen') \<longleftrightarrow> agree (params seen \<union> budget key q)"
    and "checkQuotaKey queue key q seen = Inr seen' \<Longrightarrow> params seen' = params seen \<union> budget key q"
proof -
  consider (off) "QuotaLimit q \<le> 0 \<or> key = ''''"
    | (new) "\<not> (QuotaLimit q \<le> 0 \<or> key = '''')" "fmlookup seen key = None"
    | (old) n l p where "\<not> (QuotaLimit q \<le> 0 \<or> key = '''')" "fmlookup seen key = Some (n, l, p)"
    by (cases "fmlookup seen key") auto
  then have "((\<exists>seen'. checkQuotaKey queue key q seen = Inr seen') \<longleftrightarrow> agree (params seen \<union> budget key q)) \<and>
      (\<forall>seen'. checkQuotaKey queue key q seen = Inr seen' \<longrightarrow> params seen' = params seen \<union> budget key q)"
  proof cases
    case off
    then show ?thesis using assms by (auto simp: checkQuotaKey_def budget_def)
  next
    case new
    have bud: "budget key q = {(key, QuotaLimit q, QuotaPeriod q)}" using new(1) by (simp add: budget_def)
    have no: "(key, a) \<notin> params seen" for a using new(2) by (auto simp: params_def)
    have "agree (params seen \<union> budget key q)"
      using assms no unfolding agree_def bud by blast
    moreover have "params (fmupd key (queue, QuotaLimit q, QuotaPeriod q) seen) = params seen \<union> budget key q"
      using new(2) unfolding bud by (simp add: params_upd)
    ultimately show ?thesis using new by (auto simp: checkQuotaKey_def)
  next
    case old
    then have mem: "(key, l, p) \<in> params seen" by (auto simp: params_def)
    have bud: "budget key q = {(key, QuotaLimit q, QuotaPeriod q)}" using old(1) by (simp add: budget_def)
    show ?thesis
    proof (cases "l = QuotaLimit q \<and> p = QuotaPeriod q")
      case True
      then have "params (fmupd key (queue, l, p) seen) = params seen"
        using old(2) mem by (simp add: params_upd insert_absorb)
      moreover have "params seen \<union> budget key q = params seen" using bud True mem by auto
      ultimately show ?thesis using True old assms by (auto simp: checkQuotaKey_def)
    next
      case False
      then have "\<not> agree (params seen \<union> budget key q)"
        unfolding agree_def bud using mem by (metis UnI1 UnI2 prod.inject singletonI)
      then show ?thesis using False old by (auto simp: checkQuotaKey_def)
    qed
  qed
  then show "(\<exists>seen'. checkQuotaKey queue key q seen = Inr seen') \<longleftrightarrow> agree (params seen \<union> budget key q)"
    and "checkQuotaKey queue key q seen = Inr seen' \<Longrightarrow> params seen' = params seen \<union> budget key q" by blast+
qed

lemma agree_mono: "agree T \<Longrightarrow> S \<subseteq> T \<Longrightarrow> agree S"
  unfolding agree_def by blast

lemma check_quota_keys_ok:
  assumes "agree (params seen)"
  shows "((\<exists>seen'. check_quota_keys ns qs seen = Inr seen') \<longleftrightarrow> agree (params seen \<union> budgets (set ns) qs)) \<and>
    (\<forall>seen'. check_quota_keys ns qs seen = Inr seen' \<longrightarrow> params seen' = params seen \<union> budgets (set ns) qs)"
  using assms
proof (induction ns arbitrary: seen)
  case Nil
  then show ?case by (auto simp: budgets_def)
next
  case (Cons n ns)
  show ?case
  proof (cases "fmlookup qs n")
    case None
    then have "budgets (set (n # ns)) qs = budgets (set ns) qs" by (auto simp: budgets_def)
    then show ?thesis using Cons None by simp
  next
    case (Some q)
    let ?b = "budget (effectiveKey n q) q"
    have split: "budgets (set (n # ns)) qs = ?b \<union> budgets (set ns) qs" using Some by (auto simp: budgets_def)
    note one = checkQuotaKey_ok [OF Cons.prems, of n "effectiveKey n q" q]
    show ?thesis
    proof (cases "checkQuotaKey n (effectiveKey n q) q seen")
      case (Inl e)
      then have "\<not> agree (params seen \<union> ?b)" using one(1) by simp
      then have "\<not> agree (params seen \<union> budgets (set (n # ns)) qs)"
        unfolding split using agree_mono by blast
      then show ?thesis using Some Inl by simp
    next
      case (Inr seen1)
      then have "agree (params seen \<union> ?b)" "params seen1 = params seen \<union> ?b" using one by auto
      then show ?thesis using Cons.IH [of seen1] Some Inr split by (simp add: Un_assoc)
    qed
  qed
qed

section \<open>Acceptance\<close>

lemma budgets_fill: "budgets N (fmmap fill qs) = budgets N qs"
  unfolding budgets_def by (rule SUP_cong [OF refl]) (simp split: option.splits)

lemma validate_caps_ok:
  "(\<exists>c'. validate_caps c = Inr c') \<longleftrightarrow> 0 \<le> CLeaseLostMax c \<and> 0 \<le> CThrottledMax c"
  "validate_caps c = Inr c' \<Longrightarrow> c' = c\<lparr>CLeaseLostMax := (if CLeaseLostMax c = 0 then 3 else CLeaseLostMax c),
     CThrottledMax := (if CThrottledMax c = 0 then 100 else CThrottledMax c)\<rparr>"
  by (auto simp: validate_caps_def Let_def split: if_splits)

text \<open>The part of \<open>validate\<close> after the queues, the routes and the fallback queue: the quota keys and the caps.\<close>

lemma validate_tail:
  assumes ys: "range_order ys (Queues c)" and valid: "HasBroker c" "\<forall>n q. fmlookup (Queues c) n = Some q \<longrightarrow> queue_valid q"
    and ok: "unrouted c \<or> DefaultQueue c \<noteq> zeroQueue \<longrightarrow> queue_valid (DefaultQueue c)"
    and q: "validate_queues xs (Queues c) = Inr (fmmap fill (Queues c))"
    and r: "validate_routes ts (Routes c) (fmmap fill (Queues c)) (DefaultQueue c) False = Inr (unrouted c)"
  shows "(\<exists>c'. validate xs ts ys c = Inr c') = config_valid c \<and>
    (\<forall>c'. validate xs ts ys c = Inr c' \<longrightarrow> c' = normalize c)"
proof -
  let ?qs = "fmmap fill (Queues c)" and ?dq = "DefaultQueue c"
  let ?use = "unrouted c \<or> ?dq \<noteq> zeroQueue"
  define dq where "dq = (if ?use then fill ?dq else ?dq)"
  have d: "(if unrouted c \<or> ?dq \<noteq> zeroQueue then validateQueue ''(default)'' ?dq else Inr ?dq) = Inr dq"
    using ok validateQueue_iff [of "''(default)''" ?dq] by (auto simp: dq_def)
  have bud: "budget (QuotaKey dq) dq = budget (QuotaKey ?dq) ?dq" by (simp add: dq_def)
  have ysd: "set ys = fset (fmdom (Queues c))" using ys by (simp add: range_order_def)
  let ?B = "budgets (fset (fmdom (Queues c))) (Queues c)"
  have p0: "params fmempty = {}" by (auto simp: params_def)
  have k: "(\<exists>seen. check_quota_keys ys ?qs fmempty = Inr seen) \<longleftrightarrow> agree ?B"
    "\<And>seen. check_quota_keys ys ?qs fmempty = Inr seen \<Longrightarrow> params seen = ?B"
    using check_quota_keys_ok [of fmempty ys ?qs] p0 by (auto simp: agree_def budgets_fill ysd)
  have eq: "validate xs ts ys c = (case check_quota_keys ys ?qs fmempty of Inl e \<Rightarrow> Inl e
      | Inr seen \<Rightarrow> (case checkQuotaKey ''(default)'' (QuotaKey dq) dq seen of Inl e \<Rightarrow> Inl e
      | Inr _ \<Rightarrow> validate_caps (c\<lparr>Queues := ?qs, DefaultQueue := dq\<rparr>)))"
    using valid(1) q d r by (simp add: validate_def)
  have acc: "config_valid c \<longleftrightarrow> agree (?B \<union> budget (QuotaKey dq) dq) \<and> 0 \<le> CLeaseLostMax c \<and> 0 \<le> CThrottledMax c"
    using valid ok by (simp add: config_valid_def bud)
  have norm: "c' = normalize c" if "validate_caps (c\<lparr>Queues := ?qs, DefaultQueue := dq\<rparr>) = Inr c'" for c'
    using validate_caps_ok(2) [OF that] by (simp add: normalize_def dq_def)
  show ?thesis
  proof (cases "check_quota_keys ys ?qs fmempty")
    case (Inl e)
    then have "\<not> agree (?B \<union> budget (QuotaKey dq) dq)" using k(1) agree_mono by auto
    then show ?thesis using Inl acc eq by simp
  next
    case (Inr seen)
    then have p: "params seen = ?B" "agree ?B" using k by auto
    then have "(\<exists>s. checkQuotaKey ''(default)'' (QuotaKey dq) dq seen = Inr s) \<longleftrightarrow>
        agree (?B \<union> budget (QuotaKey dq) dq)"
      using checkQuotaKey_ok(1) [of seen "''(default)''" "QuotaKey dq" dq] by simp
    then show ?thesis
      using Inr acc eq norm validate_caps_ok(1) [of "c\<lparr>Queues := ?qs, DefaultQueue := dq\<rparr>"]
      by (cases "checkQuotaKey ''(default)'' (QuotaKey dq) dq seen") auto
  qed
qed

text \<open>
  C36: configuration checking.  Whatever order Go visits the maps in, \<open>validate\<close> accepts exactly the
  configurations that name a broker, whose queues all have legal settings, whose fallback queue is
  usable whenever it is set or needed by a route, and in which all users of one quota key agree on
  limit and period; and the configuration it accepts is the given one with its defaults filled in.
\<close>

theorem validate_correct:
  assumes xs: "range_order xs (Queues c)" and ts: "range_order ts (Routes c)"
    and ys: "range_order ys (Queues c)"
  shows "(\<exists>c'. validate xs ts ys c = Inr c') = config_valid c \<and>
    (\<forall>c'. validate xs ts ys c = Inr c' \<longrightarrow> c' = normalize c)"
proof (cases "HasBroker c \<and> (\<forall>n q. fmlookup (Queues c) n = Some q \<longrightarrow> queue_valid q)")
  case False
  then have "\<nexists>c'. validate xs ts ys c = Inr c'"
    using validate_queues_all [OF xs] by (auto simp: validate_def split: sum.splits)
  then show ?thesis using False by (auto simp: config_valid_def)
next
  case True
  let ?qs = "fmmap fill (Queues c)" and ?dq = "DefaultQueue c"
  let ?use = "unrouted c \<or> ?dq \<noteq> zeroQueue"
  have q: "validate_queues xs (Queues c) = Inr ?qs" using True validate_queues_all [OF xs] by simp
  have open_iff: "(\<exists>typ \<in> set ts. \<exists>target. fmlookup (Routes c) typ = Some target \<and> fmlookup ?qs target = None)
      \<longleftrightarrow> unrouted c"
    using range_order_in [OF ts] by (auto simp: unrouted_def)
  note r = validate_routes_iff [of ts "Routes c" ?qs ?dq False, unfolded open_iff Let_def]
  show ?thesis
  proof (cases "?use \<longrightarrow> queue_valid ?dq")
    case False
    then have "\<nexists>c'. validate xs ts ys c = Inr c'"
      using True q r validateQueue_iff [of "''(default)''" ?dq] by (auto simp: validate_def split: sum.splits)
    then show ?thesis using False by (auto simp: config_valid_def)
  next
    case ok: True
    have "unrouted c \<longrightarrow> 1 \<le> Workers ?dq" using ok by (auto simp: queue_valid_def)
    then have "validate_routes ts (Routes c) ?qs ?dq False = Inr (unrouted c)" using r [of "unrouted c"] by simp
    then show ?thesis using True ok q by (intro validate_tail [OF ys]) auto
  qed
qed

section \<open>Options\<close>

text \<open>
  Options.  Later options override earlier ones, except that the parents of all \<open>DependsOn\<close>
  options accumulate in order; \<open>WithID\<close> is the same as \<open>WithBusinessKey\<close>.
\<close>

theorem submit_options_accumulate:
  "o_dependsOn (applySubmitOptions opts) = concat (map (\<lambda>x. case x of DependsOnOpt ids \<Rightarrow> ids | _ \<Rightarrow> []) opts) \<and>
   o_ignoreParentFailure (applySubmitOptions opts) = (IgnoreParentFailure \<in> set opts) \<and>
   o_businessKey (applySubmitOptions (opts @ [WithID k])) = k \<and>
   applySubmitOptions (opts @ [WithID k]) = applySubmitOptions (opts @ [WithBusinessKey k])"
proof -
  have "o_dependsOn (fold applySubmitOption opts o0) =
      o_dependsOn o0 @ concat (map (\<lambda>x. case x of DependsOnOpt ids \<Rightarrow> ids | _ \<Rightarrow> []) opts) \<and>
    o_ignoreParentFailure (fold applySubmitOption opts o0) =
      (o_ignoreParentFailure o0 \<or> IgnoreParentFailure \<in> set opts)" for o0
  proof (induction opts arbitrary: o0)
    case (Cons x opts)
    then show ?case by (cases x) auto
  qed simp
  then show ?thesis by (simp add: applySubmitOptions_def)
qed

definition demo_config :: config where
  "demo_config = \<lparr>HasBroker = True,
     Queues = fmupd ''q'' (zeroQueue\<lparr>Workers := 2, QuotaLimit := 5, QuotaPeriod := 10 * second\<rparr>) fmempty,
     Routes = fmempty, DefaultQueue = zeroQueue, CLeaseLostMax = 0, CThrottledMax = 7\<rparr>"

theorem validate_correct_witness:
  "config_valid demo_config \<and> validate [''q''] [] [''q''] demo_config = Inr (normalize demo_config)"
proof -
  have "case validate [''q''] [] [''q''] demo_config of Inr _ \<Rightarrow> True | Inl _ \<Rightarrow> False"
    and o: "range_order [''q''] (Queues demo_config)" "range_order [] (Routes demo_config)" by code_simp+
  then obtain c where c: "validate [''q''] [] [''q''] demo_config = Inr c" by (auto split: sum.splits)
  then show ?thesis using validate_correct [OF o(1,2,1)] by auto
qed

end
