(* ===== verification/Limiter.thy ===== *)
theory Limiter
  imports Config
begin

text \<open>
  The limiter of a queue (\<open>limiter.go\<close>).  The locale states what the scheduler relies on:
  slots are counted, at most \<open>cap\<close> are held, and a held slot can always be given back.  The
  in-process limiter \<open>localLimiter\<close>, a buffered channel and a token bucket, is interpreted as
  one.  The token bucket itself is \<open>golang.org/x/time/rate\<close>; its answer is a parameter.
\<close>

section \<open>The in-process limiter\<close>

record tokenBucket =
  tb_limit :: rat
  tb_burst :: int

text \<open>The channel \<open>sem\<close> by its capacity and the number of values in it.\<close>

record localLimiter =
  sem_cap :: int
  sem_len :: int
  tb :: "tokenBucket option"

text \<open>
  \<open>int(rps)\<close> truncates; \<open>rps\<close> is positive there.  The capacity of the channel is at least one
  by validation (a negative one would panic in \<open>make\<close>).
\<close>

definition newLocalLimiter :: "int \<Rightarrow> rat \<Rightarrow> int \<Rightarrow> localLimiter" where
  "newLocalLimiter workers rps burst =
     \<lparr>sem_cap = workers, sem_len = 0,
      tb = (if rps > 0 then
              let burst1 = (if burst \<le> 0 then (let b = \<lfloor>rps\<rfloor> in if b < 1 then 1 else b) else burst)
              in Some \<lparr>tb_limit = rps, tb_burst = burst1\<rparr>
            else None)\<rparr>"

text \<open>
  The \<open>select\<close> of \<open>AcquireSlot\<close>: a ready case is taken, and when both are ready the run time
  picks (\<open>pick\<close>: the send).  \<^term>\<open>None\<close> is a call that blocks.  \<open>ctx\<close> is \<open>ctx.Err()\<close>.
\<close>

definition AcquireSlot :: "tg_error option \<Rightarrow> bool \<Rightarrow> localLimiter \<Rightarrow> (localLimiter \<times> tg_error option) option" where
  "AcquireSlot ctx pick l =
     (if sem_len l < sem_cap l \<and> (ctx = None \<or> pick)
      then Some (l\<lparr>sem_len := sem_len l + 1\<rparr>, None)
      else case ctx of Some e \<Rightarrow> Some (l, Some e) | None \<Rightarrow> None)"

text \<open>A receive from an empty channel blocks.\<close>

definition ReleaseSlot :: "localLimiter \<Rightarrow> localLimiter option" where
  "ReleaseSlot l = (if sem_len l > 0 then Some (l\<lparr>sem_len := sem_len l - 1\<rparr>) else None)"

definition WaitToken :: "(tokenBucket \<Rightarrow> tg_error option) \<Rightarrow> localLimiter \<Rightarrow> tg_error option" where
  "WaitToken wait l = (case tb l of None \<Rightarrow> None | Some b \<Rightarrow> wait b)"

section \<open>The contract\<close>

text \<open>
  A trace of a limiter: \<open>True\<close> is a call of \<open>AcquireSlot\<close> that obtained a slot, \<open>False\<close> a
  completed \<open>ReleaseSlot\<close>.
\<close>

inductive slot_trace ::
  "(tg_error option \<Rightarrow> bool \<Rightarrow> 'l \<Rightarrow> ('l \<times> tg_error option) option) \<Rightarrow> ('l \<Rightarrow> 'l option) \<Rightarrow>
   'l \<Rightarrow> bool list \<Rightarrow> 'l \<Rightarrow> bool"
  for acquire release l where
  start: "slot_trace acquire release l [] l"
| obtained: "slot_trace acquire release l evs l1 \<Longrightarrow> acquire ctx pick l1 = Some (l2, None) \<Longrightarrow>
    slot_trace acquire release l (evs @ [True]) l2"
| gave_up: "slot_trace acquire release l evs l1 \<Longrightarrow> acquire ctx pick l1 = Some (l2, Some e) \<Longrightarrow>
    slot_trace acquire release l evs l2"
| returned: "slot_trace acquire release l evs l1 \<Longrightarrow> release l1 = Some l2 \<Longrightarrow>
    slot_trace acquire release l (evs @ [False]) l2"

definition outstanding :: "bool list \<Rightarrow> int" where
  "outstanding evs = int (length (filter (\<lambda>e. e) evs)) - int (length (filter (\<lambda>e. \<not> e) evs))"

lemma outstanding_simps [simp]:
  "outstanding [] = 0" "outstanding (evs @ [True]) = outstanding evs + 1"
  "outstanding (evs @ [False]) = outstanding evs - 1"
  by (simp_all add: outstanding_def)

locale queue_limiter =
  fixes acquire :: "tg_error option \<Rightarrow> bool \<Rightarrow> 'l \<Rightarrow> ('l \<times> tg_error option) option"
    and release :: "'l \<Rightarrow> 'l option"
    and held :: "'l \<Rightarrow> int"
    and cap :: "'l \<Rightarrow> int"
  assumes acquire_ok: "acquire ctx pick l = Some (l', None) \<Longrightarrow>
      held l < cap l \<and> held l' = held l + 1 \<and> cap l' = cap l"
    and acquire_err: "acquire ctx pick l = Some (l', Some e) \<Longrightarrow> l' = l \<and> ctx = Some e"
    and acquire_blocks: "acquire ctx pick l = None \<Longrightarrow> cap l \<le> held l \<and> ctx = None"
    and release_ok: "release l = Some l' \<Longrightarrow> 0 < held l \<and> held l' = held l - 1 \<and> cap l' = cap l"
    and release_free: "0 < held l \<Longrightarrow> release l \<noteq> None"
begin

lemma trace_held:
  assumes "slot_trace acquire release l evs l'" and "0 \<le> held l" and "held l \<le> cap l"
  shows "held l' = held l + outstanding evs \<and> cap l' = cap l \<and> 0 \<le> held l' \<and> held l' \<le> cap l"
  using assms(1)
proof (induction rule: slot_trace.induct)
  case (obtained evs l1 ctx pick l2)
  then show ?case using acquire_ok [OF obtained.hyps(2)] by simp
next
  case (gave_up evs l1 ctx pick l2 e)
  then show ?case using acquire_err [OF gave_up.hyps(2)] by simp
next
  case (returned evs l1 l2)
  then show ?case using release_ok [OF returned.hyps(2)] by simp
qed (use assms in auto)

text \<open>A caller that returns only what it obtained never blocks in \<open>ReleaseSlot\<close>.\<close>

lemma paired_release:
  assumes "slot_trace acquire release l evs l'" and "held l = 0" and "0 \<le> cap l" and "0 < outstanding evs"
  shows "\<exists>l2. release l' = Some l2"
  using trace_held [OF assms(1)] assms(2-4) release_free [of l'] by auto

end

interpretation ll: queue_limiter AcquireSlot ReleaseSlot sem_len sem_cap
  by unfold_locales (auto simp: AcquireSlot_def ReleaseSlot_def split: if_splits option.splits)

text \<open>
  The concurrency limit of one queue.  However calls of \<open>AcquireSlot\<close> and \<open>ReleaseSlot\<close> are
  interleaved on a fresh in-process limiter, the slots out at any moment are those obtained and not
  yet returned, never more than \<open>workers\<close>; a paired \<open>ReleaseSlot\<close> never blocks; \<open>AcquireSlot\<close>
  blocks only while all slots are out and its context is live.
\<close>

theorem local_limiter_slots:
  assumes "slot_trace AcquireSlot ReleaseSlot (newLocalLimiter workers rps burst) evs l" and "1 \<le> workers"
  shows "sem_len l = outstanding evs \<and> outstanding evs \<le> workers \<and>
    (0 < outstanding evs \<longrightarrow> ReleaseSlot l \<noteq> None) \<and>
    (AcquireSlot ctx pick l = None \<longleftrightarrow> outstanding evs = workers \<and> ctx = None)"
proof -
  let ?l0 = "newLocalLimiter workers rps burst"
  have l0: "sem_len ?l0 = 0" "sem_cap ?l0 = workers" by (simp_all add: newLocalLimiter_def)
  have held: "sem_len l = outstanding evs" "sem_cap l = workers" "outstanding evs \<le> workers"
    using ll.trace_held [OF assms(1)] l0 assms(2) by auto
  have "AcquireSlot ctx pick l = None \<longleftrightarrow> outstanding evs = workers \<and> ctx = None"
    using held by (auto simp: AcquireSlot_def split: option.splits)
  then show ?thesis using held ll.release_free [of l] by auto
qed

theorem local_limiter_slots_witness:
  "slot_trace AcquireSlot ReleaseSlot (newLocalLimiter 1 (1/2) 0) [True] (newLocalLimiter 1 (1/2) 0 \<lparr>sem_len := 1\<rparr>) \<and>
   AcquireSlot None True (newLocalLimiter 1 (1/2) 0 \<lparr>sem_len := 1\<rparr>) = None \<and>
   tb (newLocalLimiter 1 (1/2) 0) = Some \<lparr>tb_limit = 1/2, tb_burst = 1\<rparr>"
proof -
  let ?l = "newLocalLimiter 1 (1/2) 0"
  have "AcquireSlot None True ?l = Some (?l\<lparr>sem_len := 1\<rparr>, None)"
    by (simp add: AcquireSlot_def newLocalLimiter_def)
  then have trace: "slot_trace AcquireSlot ReleaseSlot ?l [True] (?l\<lparr>sem_len := 1\<rparr>)"
    using slot_trace.obtained [OF slot_trace.start] by fastforce
  have "outstanding [True] = 1" by (simp add: outstanding_def)
  then show ?thesis using local_limiter_slots [OF trace, of None True] trace
    by (simp add: newLocalLimiter_def)
qed

end
