(* ===== verification/Broker_Interface.thy ===== *)
theory Broker_Interface
  imports Memory_Ops Limiter
begin

text \<open>
  The interface between the front end and its storage back end (\<open>broker.go\<close>): Go's interface
  type \<open>Broker\<close>, with the optional interfaces \<open>QuotaProvider\<close> and \<open>LimiterProvider\<close>, is a
  record of functions over the state of the back end.  The gate and the scheduler are written
  against that record.  The locale \<open>lease_broker\<close> states the lease laws they rely on; the
  in-memory broker is an instance of the record and interprets the locale.
\<close>

section \<open>The interface\<close>

text \<open>
  What the run time supplies to one call: the reading of the clock, a new ULID (used as an
  identifier or as a lease token), the orders of the loops over maps, and \<open>ctx.Err()\<close>.
\<close>

record env =
  e_now :: time
  e_ulid :: id
  e_order :: "id list"
  e_order2 :: "id list"
  e_ctx :: "tg_error option"

record ('b, 'q) Broker =
  op_Init :: "brokerOptions \<Rightarrow> 'b \<Rightarrow> 'b \<times> tg_error option"
  op_Enqueue :: "env \<Rightarrow> task \<Rightarrow> 'b \<Rightarrow> 'b \<times> (tg_error + task)"
  op_Dequeue :: "env \<Rightarrow> string list \<Rightarrow> 'b \<Rightarrow> 'b \<times> dequeueTurn"
  op_Ack :: "env \<Rightarrow> id \<Rightarrow> string \<Rightarrow> bytes \<Rightarrow> 'b \<Rightarrow> 'b \<times> tg_error option"
  op_Fail :: "env \<Rightarrow> id \<Rightarrow> string \<Rightarrow> string \<Rightarrow> failKind \<Rightarrow> time \<Rightarrow> 'b \<Rightarrow> 'b \<times> tg_error option"
  op_Cancel :: "env \<Rightarrow> id \<Rightarrow> 'b \<Rightarrow> 'b \<times> tg_error option"
  op_FinishCanceled :: "env \<Rightarrow> id \<Rightarrow> string \<Rightarrow> 'b \<Rightarrow> 'b \<times> tg_error option"
  op_Requeue :: "env \<Rightarrow> id \<Rightarrow> string \<Rightarrow> 'b \<Rightarrow> 'b \<times> tg_error option"
  op_Heartbeat :: "env \<Rightarrow> id \<Rightarrow> string \<Rightarrow> 'b \<Rightarrow> 'b \<times> tg_error option"
  op_Get :: "env \<Rightarrow> id \<Rightarrow> 'b \<Rightarrow> tg_error + task"
  op_Replay :: "env \<Rightarrow> replayRequest \<Rightarrow> 'b \<Rightarrow> 'b \<times> (tg_error + task)"
  op_List :: "env \<Rightarrow> filterSpec \<Rightarrow> 'b \<Rightarrow> tg_error + task list"
  op_QueueLen :: "env \<Rightarrow> string \<Rightarrow> 'b \<Rightarrow> tg_error + int"
  op_Counts :: "env \<Rightarrow> 'b \<Rightarrow> tg_error + countMatrix"
  op_ReapExpired :: "env \<Rightarrow> 'b \<Rightarrow> 'b \<times> int \<times> tg_error option"
  op_Close :: "'b \<Rightarrow> 'b"
  op_QueueQuota :: "(string \<Rightarrow> queueConfig \<Rightarrow> tg_error + 'q) option"
  op_Reserve :: "env \<Rightarrow> 'q \<Rightarrow> 'b \<Rightarrow> 'b \<times> (tg_error + int option)"
  op_Release :: "'q \<Rightarrow> int option \<Rightarrow> 'b \<Rightarrow> 'b"
  op_QueueLimiter :: "(string \<Rightarrow> queueConfig \<Rightarrow> tg_error + localLimiter) option"

section \<open>The in-memory broker as an instance\<close>

definition err_of :: "tg_error + 'a \<Rightarrow> tg_error option" where
  "err_of r = (case r of Inl e \<Rightarrow> Some e | Inr _ \<Rightarrow> None)"

text \<open>The snapshots handed to the notification callback are dropped here.\<close>

definition memory_broker :: "(mbroker, memQuotaGate) Broker" where
  "memory_broker = \<lparr>
     op_Init = (\<lambda>o0 b. (mem_Init o0 b, None)),
     op_Enqueue = (\<lambda>e t b. let (b', _, r) = mem_Enqueue (e_ulid e) (e_now e) t b in (b', r)),
     op_Dequeue = (\<lambda>e qs b. let (b', _, turn) = mem_Dequeue_turn (e_order e) (e_ctx e) (e_ulid e) (e_now e) qs b in (b', turn)),
     op_Ack = (\<lambda>e i tok res b. let (b', _, r) = mem_Ack (e_now e) i tok res b in (b', err_of r)),
     op_Fail = (\<lambda>e i tok msg kind retryAt b. let (b', _, r) = mem_Fail (e_now e) i tok msg kind retryAt b in (b', err_of r)),
     op_Cancel = (\<lambda>e i b. let (b', _, r) = mem_Cancel (e_now e) i b in (b', err_of r)),
     op_FinishCanceled = (\<lambda>e i tok b. let (b', _, r) = mem_FinishCanceled (e_now e) i tok b in (b', err_of r)),
     op_Requeue = (\<lambda>e i tok b. let (b', _, r) = mem_Requeue i tok b in (b', err_of r)),
     op_Heartbeat = (\<lambda>e i tok b. let (b', _, r) = mem_Heartbeat (e_now e) i tok b in (b', err_of r)),
     op_Get = (\<lambda>e i b. mem_Get i b),
     op_Replay = (\<lambda>e req b. let (b', _, r) = mem_Replay (e_ulid e) (e_now e) req b in (b', r)),
     op_List = (\<lambda>e f b. Inr (mem_List (e_order e) f b)),
     op_QueueLen = (\<lambda>e q b. Inr (mem_QueueLen (e_order e) q b)),
     op_Counts = (\<lambda>e b. Inr (mem_Counts (e_order e) b)),
     op_ReapExpired = (\<lambda>e b. let (b', _, n, er) = mem_ReapExpired (e_order e) (e_order2 e) (e_now e) b in (b', n, er)),
     op_Close = mem_Close,
     op_QueueQuota = Some (\<lambda>q qc. mem_QueueQuota q (QuotaKey qc) (QuotaLimit qc) (QuotaPeriod qc)),
     op_Reserve = (\<lambda>e g b. mem_Reserve (e_now e) g b),
     op_Release = mem_Release,
     op_QueueLimiter = None\<rparr>"

section \<open>Lease laws\<close>

text \<open>
  \<open>held b i token\<close>: the back end considers task \<open>i\<close> running under \<open>token\<close>.  Claiming gives out
  the lease; the four receipts take effect only for the holder of the current lease and end it;
  a heartbeat renews the lease of the holder and tells everybody else that it is lost.
  \<open>usable\<close> holds of the states in which the back end answers (initialised, not closed).
\<close>

locale lease_broker =
  fixes B :: "('b, 'q) Broker"
    and usable :: "'b \<Rightarrow> bool"
    and held :: "'b \<Rightarrow> id \<Rightarrow> string \<Rightarrow> bool"
  assumes claim_holds: "usable b \<Longrightarrow> op_Dequeue B e qs b = (b', Claimed t) \<Longrightarrow> e_ulid e \<noteq> '''' \<Longrightarrow>
      held b' (ID t) (LeaseToken t) \<and> LeaseToken t = e_ulid e \<and> Queue t \<in> set qs"
    and ack_ends: "usable b \<Longrightarrow> op_Ack B e i token res b = (b', er) \<Longrightarrow>
      (if held b i token then er = None \<and> \<not> held b' i token else b' = b \<and> er \<noteq> None)"
    and fail_ends: "usable b \<Longrightarrow> op_Fail B e i token msg kind retryAt b = (b', er) \<Longrightarrow>
      (if held b i token then (\<forall>n. kind \<noteq> FailOther n) \<longrightarrow> er = None \<and> \<not> held b' i token
       else b' = b \<and> er \<noteq> None)"
    and finish_ends: "usable b \<Longrightarrow> op_FinishCanceled B e i token b = (b', er) \<Longrightarrow>
      (if held b i token then er = None \<and> \<not> held b' i token else b' = b \<and> er \<noteq> None)"
    and requeue_ends: "usable b \<Longrightarrow> op_Requeue B e i token b = (b', er) \<Longrightarrow>
      (if held b i token then er = None \<and> \<not> held b' i token else b' = b \<and> er \<noteq> None)"
    and heartbeat_keeps: "usable b \<Longrightarrow> op_Heartbeat B e i token b = (b', er) \<Longrightarrow>
      (if held b i token then held b' i token \<and> (er = None \<or> er = Some (ErrTaskCanceled i))
       else b' = b \<and> (er = Some (ErrLeaseLost i) \<or> er = Some (ErrTaskNotFound i)))"

text \<open>The in-memory broker.\<close>

definition mem_usable :: "mbroker \<Rightarrow> bool" where
  "mem_usable b \<longleftrightarrow> minv b \<and> mem_requireInit b = None"

definition mem_held :: "mbroker \<Rightarrow> id \<Rightarrow> string \<Rightarrow> bool" where
  "mem_held b i token \<longleftrightarrow> (\<exists>r. mem_checkLease b i token = Inr r)"

lemma mem_held_lookup:
  "fmlookup (recs b) i = Some r \<Longrightarrow> Status (task r) \<noteq> StatusRunning \<Longrightarrow> \<not> mem_held b i token"
  by (simp add: mem_held_def checkLease_iff)

lemma mem_usable_minv: "mem_usable b \<Longrightarrow> minv b"
  by (simp add: mem_usable_def)

lemma finish_unheld:
  assumes "minv b" and c: "mem_checkLease b i token = Inr r" and "rec_evolves r r'"
    and fin: "isFinal (Status (task r'))" and "lease_rec r'"
    and step: "finish_rec i now r' b = (b', ns)"
  shows "\<not> mem_held b' i token"
proof -
  note run = running_rec [OF assms(1) c]
  have "fmlookup (recs b') i = Some r'"
    by (rule finish_lookup [OF assms(1) run(1) assms(3) _ fin _ assms(5) step]) (simp_all add: run(2))
  then show ?thesis using fin by (intro mem_held_lookup) auto
qed

lemma mem_unheld: "\<not> mem_held b i token \<Longrightarrow> \<exists>e. mem_checkLease b i token = Inl e \<and> (e = ErrLeaseLost i \<or> e = ErrTaskNotFound i)"
  by (auto simp: mem_held_def mem_checkLease_def split: option.splits if_splits)

text \<open>Without the lease every operation under a token is refused and leaves the state alone.\<close>

lemma mem_refused:
  assumes "\<not> mem_held b i token"
  shows "\<exists>er. op_Ack memory_broker e i token res b = (b, Some er)"
    "\<exists>er. op_Fail memory_broker e i token msg kind retryAt b = (b, Some er)"
    "\<exists>er. op_FinishCanceled memory_broker e i token b = (b, Some er)"
    "\<exists>er. op_Requeue memory_broker e i token b = (b, Some er)"
proof -
  obtain e' where "mem_checkLease b i token = Inl e'" using mem_unheld [OF assms] by blast
  note no = rejected_ops [OF this]
  show "\<exists>er. op_Ack memory_broker e i token res b = (b, Some er)"
    "\<exists>er. op_Fail memory_broker e i token msg kind retryAt b = (b, Some er)"
    "\<exists>er. op_FinishCanceled memory_broker e i token b = (b, Some er)"
    "\<exists>er. op_Requeue memory_broker e i token b = (b, Some er)"
    using no(1) [of "e_now e" res] no(2) [of "e_now e" msg kind retryAt] no(3) [of "e_now e"] no(4)
    by (auto simp: memory_broker_def err_of_def)
qed

lemma mem_held_cases:
  assumes "mem_usable b" and "mem_held b i token"
  obtains r where "mem_checkLease b i token = Inr r" "mem_requireInit b = None" "minv b"
    "fmlookup (recs b) i = Some r" "Status (task r) = StatusRunning"
proof -
  obtain r where c: "mem_checkLease b i token = Inr r" using assms(2) by (auto simp: mem_held_def)
  then show thesis using that running_rec [OF _ c] assms(1) by (auto simp: mem_usable_def)
qed

lemma mem_Ack_ends:
  assumes "mem_usable b" and step: "op_Ack memory_broker e i token res b = (b', er)" and "mem_held b i token"
  shows "er = None \<and> \<not> mem_held b' i token"
proof -
  obtain r where r: "mem_checkLease b i token = Inr r" "mem_requireInit b = None" "minv b"
    "Status (task r) = StatusRunning" using mem_held_cases [OF assms(1,3)] by metis
  then obtain ns where "finish_rec i (trunc_ms (e_now e)) (acked_rec (trunc_ms (e_now e)) res r) b = (b', ns)" "er = None"
    using step by (auto simp: memory_broker_def Ack_ok [OF r(2,1)] err_of_def split: prod.splits)
  then show ?thesis using finish_unheld [OF r(3,1) running_evolves(1) [OF r(4)]]
    by (simp add: acked_rec_def lease_rec_def)
qed

lemma mem_FinishCanceled_ends:
  assumes "mem_usable b" and step: "op_FinishCanceled memory_broker e i token b = (b', er)" and "mem_held b i token"
  shows "er = None \<and> \<not> mem_held b' i token"
proof -
  obtain r where r: "mem_checkLease b i token = Inr r" "mem_requireInit b = None" "minv b"
    "Status (task r) = StatusRunning" using mem_held_cases [OF assms(1,3)] by metis
  then obtain ns where "finish_rec i (trunc_ms (e_now e)) ((cancel_rec (trunc_ms (e_now e)) r)\<lparr>cancelRequested := False\<rparr>) b = (b', ns)"
    "er = None"
    using step by (auto simp: memory_broker_def FinishCanceled_ok [OF r(2,1)] err_of_def split: prod.splits)
  then show ?thesis using finish_unheld [OF r(3,1) running_evolves(2) [OF r(4)]]
    by (simp add: cancel_rec_def lease_rec_def)
qed

lemma mem_Requeue_ends:
  assumes "mem_usable b" and step: "op_Requeue memory_broker e i token b = (b', er)" and "mem_held b i token"
  shows "er = None \<and> \<not> mem_held b' i token"
proof -
  obtain r where r: "mem_checkLease b i token = Inr r" "mem_requireInit b = None"
    using mem_held_cases [OF assms(1,3)] by metis
  then have "er = None \<and> fmlookup (recs b') i = Some (requeued_rec r)"
    using step by (auto simp: memory_broker_def Requeue_ok [OF r(2,1)] err_of_def mem_broadcast_def put_rec_def)
  then show ?thesis using mem_held_lookup [of b' i "requeued_rec r" token] by (simp add: requeued_rec_def)
qed

lemma mem_Fail_ends:
  assumes "mem_usable b" and step: "op_Fail memory_broker e i token msg kind retryAt b = (b', er)"
    and "mem_held b i token" and "\<forall>n. kind \<noteq> FailOther n"
  shows "er = None \<and> \<not> mem_held b' i token"
proof -
  obtain r where r: "mem_checkLease b i token = Inr r" "mem_requireInit b = None" "minv b"
    "Status (task r) = StatusRunning" using mem_held_cases [OF assms(1,3)] by metis
  have "\<exists>t f. fail_counts (ThrottledMax (opts b)) kind msg (task r) = (t, Inr f)"
    using assms(4) by (cases kind) (auto simp: fail_counts_def Let_def)
  then obtain t f where fc: "fail_counts (ThrottledMax (opts b)) kind msg (task r) = (t, Inr f)" by blast
  note eq = Fail_ok [OF r(2,1) fc, of "e_now e" retryAt]
  show ?thesis
  proof (cases f)
    case True
    then obtain ns where "finish_rec i (trunc_ms (e_now e)) (failed_rec (trunc_ms (e_now e)) t r) b = (b', ns)" "er = None"
      using step by (auto simp: memory_broker_def eq err_of_def split: prod.splits)
    then show ?thesis using finish_unheld [OF r(3,1) fail_counts_shape(1) [OF fc r(4)]]
      by (simp add: failed_rec_def lease_rec_def)
  next
    case False
    then have "er = None \<and> (\<exists>ra. fmlookup (recs b') i = Some (retry_rec ra t r))"
      using step by (auto simp: memory_broker_def eq err_of_def Let_def mem_broadcast_def put_rec_def)
    then show ?thesis using mem_held_lookup [of b' i _ token] by (auto simp: retry_rec_def)
  qed
qed

lemma mem_Heartbeat_keeps:
  assumes "mem_usable b" and step: "op_Heartbeat memory_broker e i token b = (b', er)"
  shows "if mem_held b i token then mem_held b' i token \<and> (er = None \<or> er = Some (ErrTaskCanceled i))
    else b' = b \<and> (er = Some (ErrLeaseLost i) \<or> er = Some (ErrTaskNotFound i))"
proof (cases "mem_held b i token")
  case True
  then obtain r where r: "mem_checkLease b i token = Inr r" "mem_requireInit b = None"
    using mem_held_cases [OF assms(1)] by metis
  then have "token \<noteq> ''''" "LeaseToken (task r) = token" "Status (task r) = StatusRunning"
    by (simp_all add: checkLease_iff)
  then show ?thesis using step True r
    by (auto simp: memory_broker_def mem_Heartbeat_def Let_def err_of_def put_rec_def mem_held_def
        checkLease_iff split: if_splits)
next
  case False
  then show ?thesis using mem_unheld [OF False] step assms(1)
    by (auto simp: memory_broker_def mem_Heartbeat_def err_of_def mem_usable_def)
qed

lemma mem_claim_holds:
  assumes "mem_usable b" and step: "op_Dequeue memory_broker e qs b = (b', Claimed t)" and tok: "e_ulid e \<noteq> ''''"
  shows "mem_held b' (ID t) (LeaseToken t) \<and> LeaseToken t = e_ulid e \<and> Queue t \<in> set qs"
proof -
  let ?p = "mem_pickReady (e_order e) qs (trunc_ms (e_now e)) (recs b)"
  have turn: "\<exists>ns. mem_Dequeue_turn (e_order e) (e_ctx e) (e_ulid e) (e_now e) qs b = (b', ns, Claimed t)"
    using step by (auto simp: memory_broker_def split: prod.splits)
  have g: "qs \<noteq> []" "mem_requireInit b = None" "e_ctx e = None"
    using turn by (auto simp: mem_Dequeue_turn_def split: if_splits option.splits)
  obtain k r where p: "?p = Some (k, r)"
    using turn g by (auto simp: mem_Dequeue_turn_def Let_def split: option.splits)
  have k: "fmlookup (recs b) k = Some r" "Queue (task r) \<in> set qs"
    using pickReady_sound [OF p] by (auto simp: due_def claimable_def)
  have "ID (task r) = k"
    using mem_usable_minv [OF assms(1)] k(1) by (simp add: minv_def graph_ok_def)
  then show ?thesis using turn g(3) k tok
    by (auto simp: Dequeue_claim [OF g(1,2) p] Let_def claimed_rec_def cloneTask_def mem_held_def
        checkLease_iff put_rec_def)
qed

interpretation mem: lease_broker memory_broker mem_usable mem_held
proof unfold_locales
  fix b e i token res b' er
  assume u: "mem_usable b"
  show "if mem_held b i token then er = None \<and> \<not> mem_held b' i token else b' = b \<and> er \<noteq> None"
    if "op_Ack memory_broker e i token res b = (b', er)"
    using mem_Ack_ends [OF u that] mem_refused(1) [of b i token e res] that by auto
  show "if mem_held b i token then (\<forall>n. kind \<noteq> FailOther n) \<longrightarrow> er = None \<and> \<not> mem_held b' i token
      else b' = b \<and> er \<noteq> None"
    if "op_Fail memory_broker e i token msg kind retryAt b = (b', er)" for msg kind retryAt
    using mem_Fail_ends [OF u that] mem_refused(2) [of b i token e msg kind retryAt] that by auto
  show "if mem_held b i token then er = None \<and> \<not> mem_held b' i token else b' = b \<and> er \<noteq> None"
    if "op_FinishCanceled memory_broker e i token b = (b', er)"
    using mem_FinishCanceled_ends [OF u that] mem_refused(3) [of b i token e] that by auto
  show "if mem_held b i token then er = None \<and> \<not> mem_held b' i token else b' = b \<and> er \<noteq> None"
    if "op_Requeue memory_broker e i token b = (b', er)"
    using mem_Requeue_ends [OF u that] mem_refused(4) [of b i token e] that by auto
qed (rule mem_claim_holds mem_Heartbeat_keeps; assumption)+

end
