(* ===== verification/Go_Float.thy ===== *)
theory Go_Float
  imports Prelude "HOL-Library.Log_Nat"
begin

text \<open>
  Go's \<open>float64\<close> arithmetic on the numbers of its normal range: a value is a rational number, and
  every operation computes the exact result and rounds it to 53 significant binary digits, ties to
  even.  Infinities, not-a-number and subnormal numbers are outside this model; the one computation
  that uses it, the jitter of a retry delay, stays between \<open>2 powi (- 55)\<close> and \<open>2 powi 41\<close> or is zero.
\<close>

section \<open>Rounding\<close>

text \<open>The exponent \<open>e\<close> with \<open>2 powi e \<le> x < 2 powi (e + 1)\<close>, from the lengths of numerator and denominator.\<close>

definition binary_exponent :: "rat \<Rightarrow> int" where
  "binary_exponent x = (let (p, q) = quotient_of x; e = bitlen p - bitlen q in if 2 powi e \<le> x then e else e - 1)"

lemma binary_exponent_bounds:
  assumes "0 < x"
  shows "2 powi binary_exponent x \<le> x" and "x < 2 powi (binary_exponent x + 1)"
proof -
  obtain p q where pq: "quotient_of x = (p, q)" by (cases "quotient_of x")
  have q: "0 < q" and x: "x = of_int p / of_int q"
    using quotient_of_denom_pos [OF pq] quotient_of_div [OF pq] by simp_all
  then have p: "0 < p" using assms by (simp add: zero_less_divide_iff)
  have size: "2 powi (bitlen k - 1) \<le> (of_int k :: rat)" "(of_int k :: rat) < 2 powi bitlen k" if "0 < k" for k
  proof -
    have "1 \<le> bitlen k" using that by (simp add: bitlen_alt_def)
    then show "2 powi (bitlen k - 1) \<le> (of_int k :: rat)" "(of_int k :: rat) < 2 powi bitlen k"
      using bitlen_bounds [OF that] by (simp_all add: power_int_def)
  qed
  let ?e = "bitlen p - bitlen q"
  have lo: "2 powi (?e - 1) \<le> x"
  proof -
    have "2 powi (?e - 1) * (of_int q :: rat) \<le> 2 powi (?e - 1) * 2 powi bitlen q"
      using size(2) [OF q] by (intro mult_left_mono) simp_all
    also have "\<dots> = (2 powi (bitlen p - 1) :: rat)" by (simp flip: power_int_add)
    finally show ?thesis using size(1) [OF p] q by (simp add: x field_simps)
  qed
  have hi: "x < 2 powi (?e + 1)"
  proof -
    have "of_int p < (2 powi bitlen p :: rat)" using size(2) [OF p] .
    also have "\<dots> = 2 powi (?e + 1) * 2 powi (bitlen q - 1)" by (simp flip: power_int_add)
    also have "\<dots> \<le> 2 powi (?e + 1) * of_int q" using size(1) [OF q] by (intro mult_left_mono) simp_all
    finally show ?thesis using q by (simp add: x field_simps)
  qed
  show "2 powi binary_exponent x \<le> x" "x < 2 powi (binary_exponent x + 1)" using lo hi pq by (auto simp: binary_exponent_def Let_def)
qed

text \<open>To the nearest integer, ties to the even one.\<close>

definition round_even :: "rat \<Rightarrow> int" where
  "round_even y =
     (let n = \<lfloor>y\<rfloor>; r = y - of_int n
      in if r < 1 / 2 then n else if r > 1 / 2 then n + 1 else if even n then n else n + 1)"

lemma round_even_error: "\<bar>of_int (round_even y) - y\<bar> \<le> 1 / 2"
proof -
  let ?r = "y - of_int \<lfloor>y\<rfloor>"
  have r: "0 \<le> ?r" "?r < 1" by linarith+
  show ?thesis using r by (simp add: round_even_def Let_def)
qed

text \<open>The nearest number with 53 significant binary digits.\<close>

definition float64 :: "rat \<Rightarrow> rat" where
  "float64 x = (if x = 0 then 0 else let ulp = 2 powi (binary_exponent \<bar>x\<bar> - 52) in of_int (round_even (x / ulp)) * ulp)"


lemma float64_error: "\<bar>float64 x - x\<bar> \<le> \<bar>x\<bar> / 2 ^ 53"
proof (cases "x = 0")
  case False
  define ulp where "ulp = (2 powi (binary_exponent \<bar>x\<bar> - 52) :: rat)"
  have pos: "0 < ulp" by (simp add: ulp_def)
  have "float64 x - x = (of_int (round_even (x / ulp)) - x / ulp) * ulp"
    using False pos by (simp add: float64_def Let_def flip: ulp_def) (simp add: field_simps)
  then have "\<bar>float64 x - x\<bar> \<le> 1 / 2 * ulp"
    using round_even_error [of "x / ulp"] pos by (simp add: abs_mult)
  moreover have "2 ^ 52 * ulp = (2 powi binary_exponent \<bar>x\<bar> :: rat)"
    by (simp add: ulp_def power_int_diff)
  then have "2 ^ 52 * ulp \<le> \<bar>x\<bar>" using binary_exponent_bounds(1) [of "\<bar>x\<bar>"] False by simp
  ultimately show ?thesis by simp
qed (simp add: float64_def)

text \<open>Go's conversion to an integer type truncates towards zero.\<close>

definition trunc_rat :: "rat \<Rightarrow> int" where
  "trunc_rat x = (if x < 0 then \<lceil>x\<rceil> else \<lfloor>x\<rfloor>)"

section \<open>Propagation of rounding errors\<close>

lemma near_mult:
  fixes a b :: rat
  assumes "\<bar>a' - a\<bar> \<le> d" and "\<bar>b' - b\<bar> \<le> e" and "\<bar>b'\<bar> \<le> B" and "\<bar>a\<bar> \<le> A"
  shows "\<bar>a' * b' - a * b\<bar> \<le> d * B + A * e"
proof -
  have "a' * b' - a * b = (a' - a) * b' + a * (b' - b)" by (simp add: algebra_simps)
  also have "\<bar>\<dots>\<bar> \<le> \<bar>a' - a\<bar> * \<bar>b'\<bar> + \<bar>a\<bar> * \<bar>b' - b\<bar>" by (metis abs_triangle_ineq abs_mult)
  also have "\<dots> \<le> d * B + A * e" using assms by (intro add_mono mult_mono) auto
  finally show ?thesis .
qed

lemma float64_near:
  assumes "\<bar>a - x\<bar> \<le> d" and "\<bar>a\<bar> \<le> B"
  shows "\<bar>float64 a - x\<bar> \<le> d + B / 9007199254740992"
proof -
  have "\<bar>float64 a - a\<bar> \<le> B / 9007199254740992" using float64_error [of a] assms(2) by simp
  then show ?thesis using assms(1) by linarith
qed

end
