(* ===== verification/Backoff.thy ===== *)
theory Backoff
  imports Task_Model Go_Float
begin

text \<open>
  The retry delay of \<open>backoff.go\<close>: exponential with a cap, computed by a shift of a 64-bit
  duration, times a random factor between 0.8 and 1.2 computed in \<open>float64\<close>.
\<close>

definition backoffBase :: "64 word" where
  "backoffBase = 1000000000"

definition backoffCap :: duration where
  "backoffCap = 10 * minute"

definition backoff_exp :: "int \<Rightarrow> duration" where
  "backoff_exp n =
     (if 0 \<le> n \<and> n < 10 then
        let v = sint (push_bit (nat n) backoffBase) in if v < backoffCap then v else backoffCap
      else backoffCap)"

text \<open>
  What the jitter of one delay depends on: the number \<open>rng.Float64()\<close> returns, and whether the
  compiled code fuses the product and the sum into one rounding, which the language permits and
  some targets do.
\<close>

datatype jitter = Jitter bool rat

definition backoffJitter :: rat where
  "backoffJitter = float64 (2 / 10)"

fun jitter_factor :: "jitter \<Rightarrow> rat" where
  "jitter_factor (Jitter fused u) =
     (let x = float64 (float64 (2 * u) - 1); y = backoffJitter * x
      in float64 (1 + (if fused then y else float64 y)))"

definition newBackoffFunc :: "jitter \<Rightarrow> int \<Rightarrow> duration" where
  "newBackoffFunc j n = trunc_rat (float64 (float64 (of_int (backoff_exp n)) * jitter_factor j))"

lemma backoff_shift:
  assumes "k < 10"
  shows "sint (push_bit k backoffBase) = 2 ^ k * second"
proof -
  have "k \<in> {0, 1, 2, 3, 4, 5, 6, 7, 8, 9}" using assms by auto
  then show ?thesis by (auto simp: backoffBase_def push_bit_eq_mult)
qed

lemma backoff_exp_eq: "0 \<le> n \<Longrightarrow> backoff_exp n = min (2 ^ nat n * second) backoffCap"
proof -
  assume n: "0 \<le> n"
  show ?thesis
  proof (cases "n < 10")
    case True
    then show ?thesis using n backoff_shift [of "nat n"]
      by (simp add: backoff_exp_def Let_def min_def nat_less_iff)
  next
    case False
    then have "(2::int) ^ 10 \<le> 2 ^ nat n" using n by (intro power_increasing) auto
    then show ?thesis using False by (simp add: backoff_exp_def backoffCap_def min_def)
  qed
qed

lemma backoff_exp_range:
  "backoff_exp n = (if 0 \<le> n then min (2 ^ nat n * second) (10 * minute) else 10 * minute)"
  "second \<le> backoff_exp n" "backoff_exp n \<le> 10 * minute"
proof -
  show d: "backoff_exp n = (if 0 \<le> n then min (2 ^ nat n * second) (10 * minute) else 10 * minute)"
    using backoff_exp_eq [of n] by (auto simp: backoff_exp_def backoffCap_def)
  show "second \<le> backoff_exp n" "backoff_exp n \<le> 10 * minute" unfolding d by (auto simp: min_def)
qed

lemma jitter_factor_near:
  assumes "0 \<le> u" and "u < 1"
  shows "\<bar>jitter_factor (Jitter fused u) - (1 + 2 / 10 * (2 * u - 1))\<bar> \<le> 5 / 9007199254740992"
proof -
  define x where "x = float64 (float64 (2 * u) - 1)"
  have e: "\<bar>float64 (2 * u) - 2 * u\<bar> \<le> 2 / 9007199254740992" using float64_error [of "2 * u"] assms by simp
  then have "\<bar>float64 (2 * u) - 1\<bar> \<le> 2" using assms by linarith
  then have x: "\<bar>x - (2 * u - 1)\<bar> \<le> 4 / 9007199254740992"
    unfolding x_def using float64_near [of "float64 (2 * u) - 1" "2 * u - 1" "2 / 9007199254740992" 2] e by simp
  then have x1: "\<bar>x\<bar> \<le> 2" using assms by linarith
  define y where "y = backoffJitter * x"
  have "\<bar>backoffJitter - 2 / 10\<bar> \<le> (2 / 10) / 9007199254740992" unfolding backoffJitter_def using float64_error [of "2 / 10"] by simp
  then have y: "\<bar>y - 2 / 10 * (2 * u - 1)\<bar> \<le> 12 / 10 / 9007199254740992"
    unfolding y_def using near_mult [OF _ x x1, of backoffJitter "2 / 10" "2 / 10 / 9007199254740992" "2 / 10"] by simp
  have c: "\<bar>2 / 10 * (2 * u - 1)\<bar> \<le> 2 / 10" using assms by (simp add: abs_le_iff)
  then have y1: "\<bar>y\<bar> \<le> 1" using y by linarith
  define z where "z = (if fused then y else float64 y)"
  have z: "\<bar>z - 2 / 10 * (2 * u - 1)\<bar> \<le> 22 / 10 / 9007199254740992"
    unfolding z_def using y float64_near [OF y y1] by auto
  have "\<bar>1 + z - (1 + 2 / 10 * (2 * u - 1))\<bar> \<le> 22 / 10 / 9007199254740992" using z by simp
  moreover have "\<bar>1 + z\<bar> \<le> 2" using z c by linarith
  ultimately have "\<bar>float64 (1 + z) - (1 + 2 / 10 * (2 * u - 1))\<bar> \<le> 22 / 10 / 9007199254740992 + 2 / 9007199254740992"
    by (rule float64_near)
  moreover have "jitter_factor (Jitter fused u) = float64 (1 + z)" by (simp add: z_def y_def x_def Let_def)
  ultimately show ?thesis by simp
qed

lemma newBackoffFunc_near:
  assumes "0 \<le> u" and "u < 1"
  shows "4 * backoff_exp n - 5 \<le> 5 * newBackoffFunc (Jitter fused u) n"
    and "5 * newBackoffFunc (Jitter fused u) n \<le> 6 * backoff_exp n"
proof -
  have n: "0 < backoff_exp n" "backoff_exp n \<le> 10 * minute" using backoff_exp_range [of n] by simp_all
  define d where "d = (of_int (backoff_exp n) :: rat)"
  define F where "F = 1 + 2 / 10 * (2 * u - 1)"
  have "F = 4 / 5 + 2 / 5 * u" by (simp add: F_def field_simps)
  then have F: "4 / 5 \<le> F" "F \<le> 6 / 5" using assms(1,2) by linarith+
  have "of_int (backoff_exp n) \<le> (of_int (10 * minute) :: rat)" using n(2) by (simp only: of_int_le_iff)
  then have d: "0 < d" "d \<le> 600000000000" using n(1) by (simp_all add: d_def)
  have d1: "1 \<le> d" using n(1) by (simp add: d_def)
  have "\<bar>float64 d - d\<bar> \<le> d / 9007199254740992" using float64_error [of d] d by simp
  moreover have "\<bar>jitter_factor (Jitter fused u) - F\<bar> \<le> 5 / 9007199254740992"
    unfolding F_def by (rule jitter_factor_near [OF assms(1,2)])
  moreover from this have "\<bar>jitter_factor (Jitter fused u)\<bar> \<le> 2" using F by linarith
  ultimately have "\<bar>float64 d * jitter_factor (Jitter fused u) - d * F\<bar> \<le> d / 9007199254740992 * 2 + d * (5 / 9007199254740992)"
    using d by (intro near_mult) simp_all
  then have p: "\<bar>float64 d * jitter_factor (Jitter fused u) - d * F\<bar> \<le> 7 * d / 9007199254740992" by simp
  define v where "v = float64 (float64 d * jitter_factor (Jitter fused u))"
  have dF: "4 / 5 * d \<le> d * F" "d * F \<le> 6 / 5 * d" using F d by simp_all
  have p2: "\<bar>float64 d * jitter_factor (Jitter fused u)\<bar> \<le> 2 * d" using p dF d by linarith
  have "\<bar>v - d * F\<bar> \<le> 7 * d / 9007199254740992 + 2 * d / 9007199254740992"
    unfolding v_def using float64_near [OF p p2] by simp
  then have v: "\<bar>v - d * F\<bar> < 1 / 5" using d by simp
  then have "0 \<le> v" using dF d1 by linarith
  then have "newBackoffFunc (Jitter fused u) n = \<lfloor>v\<rfloor>" by (simp add: newBackoffFunc_def trunc_rat_def v_def d_def)
  moreover have "of_int \<lfloor>v\<rfloor> \<le> v" "v < of_int \<lfloor>v\<rfloor> + 1" by linarith+
  then have "5 * of_int \<lfloor>v\<rfloor> < 6 * d + 1" "4 * d - 6 < 5 * of_int \<lfloor>v\<rfloor>" using v dF by linarith+
  then have "(of_int (5 * \<lfloor>v\<rfloor>) :: rat) < of_int (6 * backoff_exp n + 1)"
    "(of_int (4 * backoff_exp n - 6) :: rat) < of_int (5 * \<lfloor>v\<rfloor>)"
    by (simp_all add: d_def)
  then have "5 * \<lfloor>v\<rfloor> < 6 * backoff_exp n + 1" "4 * backoff_exp n - 6 < 5 * \<lfloor>v\<rfloor>"
    by (simp_all only: of_int_less_iff)
  ultimately show "4 * backoff_exp n - 5 \<le> 5 * newBackoffFunc (Jitter fused u) n"
    "5 * newBackoffFunc (Jitter fused u) n \<le> 6 * backoff_exp n" by simp_all
qed

text \<open>
  C37: retry delays.  The shift never overflows: for every number of earlier attempts the nominal
  delay is two to that power in seconds, at most ten minutes, and a negative count is treated like a
  very large one.  The delay computed in \<open>float64\<close>, with or without fused operations, is at most 120
  percent of the nominal delay, a bound the rounding can reach, and at most one
  nanosecond, lost by the truncation, below 80 percent of it.
\<close>

theorem backoff_bounds:
  assumes "0 \<le> u" and "u < 1"
  shows "backoff_exp n = (if 0 \<le> n then min (2 ^ nat n * second) (10 * minute) else 10 * minute) \<and>
    4 * backoff_exp n - 5 \<le> 5 * newBackoffFunc (Jitter fused u) n \<and>
    5 * newBackoffFunc (Jitter fused u) n \<le> 6 * backoff_exp n \<and> second \<le> backoff_exp n"
  using backoff_exp_range [of n] newBackoffFunc_near [OF assms] by blast

theorem backoff_bounds_witness:
  "newBackoffFunc (Jitter False (1 - 1 / 2 ^ 53)) 3 = 9600000000 \<and>
   5 * newBackoffFunc (Jitter False (1 - 1 / 2 ^ 53)) 3 \<le> 6 * backoff_exp 3"
proof -
  have "newBackoffFunc (Jitter False (1 - 1 / 2 ^ 53)) 3 = 9600000000" by code_simp
  then show ?thesis using backoff_bounds [of "1 - 1 / 2 ^ 53" 3 False] by simp
qed

end
