(* ===== verification/Go_Errors.thy ===== *)
theory Go_Errors
  imports Task_Model
begin

text \<open>
  Errors a handler may return, as the scheduler looks at them: an error value is a tree
  (\<open>errors.As\<close> walks it through \<open>Unwrap\<close>), with the two types of \<open>errors.go\<close> as special
  nodes.  \<open>Error()\<close> of the two types is modelled to the letter, which needs the text of a
  \<open>time.Duration\<close>.  The lemmas characterise what the two searches of \<open>failTask\<close> find.
\<close>

section \<open>The text of a duration\<close>

text \<open>\<open>Duration.String\<close>: decimal digits with a fraction whose trailing zeros are dropped.\<close>

fun pad_digits :: "nat \<Rightarrow> int \<Rightarrow> string" where
  "pad_digits 0 n = ''''"
| "pad_digits (Suc k) n = pad_digits k (n div 10) @ [char_of (48 + n mod 10)]"

function fmtInt :: "int \<Rightarrow> string" where
  "fmtInt n = (if n < 10 then [char_of (48 + n)] else fmtInt (n div 10) @ [char_of (48 + n mod 10)])"
  by pat_completeness auto
termination by (relation "measure nat") (auto simp: nat_less_iff)

declare fmtInt.simps [simp del]

definition fmtFrac :: "nat \<Rightarrow> int \<Rightarrow> string" where
  "fmtFrac prec n =
     (let ds = rev (dropWhile (\<lambda>c. c = CHR ''0'') (rev (pad_digits prec (n mod 10 ^ prec))))
      in fmtInt (n div 10 ^ prec) @ (if ds = '''' then '''' else ''.'' @ ds))"

definition durationText :: "duration \<Rightarrow> string" where
  "durationText d =
     (let u = \<bar>d\<bar>;
          body =
            (if u = 0 then ''0s''
             else if u < 1000 then fmtInt u @ ''ns''
             else if u < 1000000 then fmtFrac 3 u @ [char_of (194::int), char_of (181::int)] @ ''s''
             else if u < 1000000000 then fmtFrac 6 u @ ''ms''
             else
               let secs = u div 1000000000;
                   mins = secs div 60;
                   hours = mins div 60;
                   s_txt = fmtFrac 9 (secs mod 60 * 1000000000 + u mod 1000000000) @ ''s''
               in (if mins = 0 then s_txt
                   else if hours = 0 then fmtInt mins @ ''m'' @ s_txt
                   else fmtInt hours @ ''h'' @ fmtInt (mins mod 60) @ ''m'' @ s_txt))
      in if d < 0 then ''-'' @ body else body)"

section \<open>Error values\<close>

text \<open>
  \<open>GoWrap\<close> and \<open>GoJoin\<close> are errors of other types with one or several wrapped errors, with the
  text their \<open>Error()\<close> gives.  The error inside \<open>ErrSkipRetry\<close> may be nil.  An error returned by
  pointer where \<open>errors.As\<close> looks for a value is a \<open>GoErr\<close>.
\<close>

datatype goerr =
    GoErr string
  | GoThrottled duration
  | GoSkipRetry "goerr option"
  | GoWrap string goerr
  | GoJoin string "goerr list"

fun errorText :: "goerr \<Rightarrow> string" where
  "errorText (GoErr s) = s"
| "errorText (GoThrottled d) = ''taskgate: throttled, retry after '' @ durationText d"
| "errorText (GoSkipRetry None) = ''taskgate: skip retry: <nil>''"
| "errorText (GoSkipRetry (Some e)) = ''taskgate: skip retry: '' @ errorText e"
| "errorText (GoWrap s e) = s"
| "errorText (GoJoin s es) = s"

text \<open>\<open>errors.As(err, &skip)\<close> and \<open>errors.As(err, &thr)\<close>: depth first, the error before what it wraps.\<close>

fun asSkip :: "goerr \<Rightarrow> bool" and asSkips :: "goerr list \<Rightarrow> bool" where
  "asSkip (GoErr s) = False"
| "asSkip (GoThrottled d) = False"
| "asSkip (GoSkipRetry e) = True"
| "asSkip (GoWrap s e) = asSkip e"
| "asSkip (GoJoin s es) = asSkips es"
| "asSkips [] = False"
| "asSkips (e # es) = (asSkip e \<or> asSkips es)"

fun asThrottled :: "goerr \<Rightarrow> duration option" and asThrottleds :: "goerr list \<Rightarrow> duration option" where
  "asThrottled (GoErr s) = None"
| "asThrottled (GoThrottled d) = Some d"
| "asThrottled (GoSkipRetry None) = None"
| "asThrottled (GoSkipRetry (Some e)) = asThrottled e"
| "asThrottled (GoWrap s e) = asThrottled e"
| "asThrottled (GoJoin s es) = asThrottleds es"
| "asThrottleds [] = None"
| "asThrottleds (e # es) = (case asThrottled e of Some d \<Rightarrow> Some d | None \<Rightarrow> asThrottleds es)"

section \<open>What the searches find\<close>

text \<open>The errors reachable from an error through \<open>Unwrap\<close>, the error included.\<close>

inductive unwraps :: "goerr \<Rightarrow> goerr \<Rightarrow> bool" for e where
  self: "unwraps e e"
| skip: "unwraps e (GoSkipRetry (Some x)) \<Longrightarrow> unwraps e x"
| wrap: "unwraps e (GoWrap s x) \<Longrightarrow> unwraps e x"
| join: "unwraps e (GoJoin s xs) \<Longrightarrow> x \<in> set xs \<Longrightarrow> unwraps e x"

lemma unwraps_trans:
  assumes "unwraps a b" and "unwraps b c"
  shows "unwraps a c"
  using assms(2,1) by (induction rule: unwraps.induct) (auto intro: unwraps.intros)

lemma asSkip_sound: "asSkip e \<Longrightarrow> \<exists>x. unwraps e (GoSkipRetry x)"
  and asSkips_sound: "asSkips es \<Longrightarrow> \<exists>e\<in>set es. \<exists>x. unwraps e (GoSkipRetry x)"
proof (induction e and es rule: asSkip_asSkips.induct)
  case (3 e)
  then show ?case by (auto intro: unwraps.self)
next
  case (4 s e)
  then show ?case using unwraps_trans [of "GoWrap s e" e] unwraps.wrap [OF unwraps.self] by (metis asSkip.simps(4))
next
  case (5 s es)
  then show ?case using unwraps_trans [of "GoJoin s es"] unwraps.join [OF unwraps.self] by (metis asSkip.simps(5))
qed auto

lemma asThrottled_sound: "asThrottled e = Some d \<Longrightarrow> unwraps e (GoThrottled d)"
  and asThrottleds_sound: "asThrottleds es = Some d \<Longrightarrow> \<exists>e\<in>set es. unwraps e (GoThrottled d)"
proof (induction e and es rule: asThrottled_asThrottleds.induct)
  case (4 e)
  then show ?case using unwraps_trans [OF unwraps.skip [OF unwraps.self]] by auto
next
  case (5 s e)
  then show ?case using unwraps_trans [OF unwraps.wrap [OF unwraps.self]] by auto
next
  case (6 s es)
  then show ?case using unwraps_trans [OF unwraps.join [OF unwraps.self]] by auto
qed (auto intro: unwraps.self split: option.splits)

lemma asThrottleds_None: "asThrottleds es = None \<longleftrightarrow> (\<forall>e\<in>set es. asThrottled e = None)"
  by (induction es) (auto split: option.splits)

lemma asSkips_iff: "asSkips es \<longleftrightarrow> (\<exists>e\<in>set es. asSkip e)"
  by (induction es) auto

lemma not_asThrottled: "unwraps e x \<Longrightarrow> asThrottled e = None \<Longrightarrow> asThrottled x = None"
  by (induction rule: unwraps.induct) (auto simp: asThrottleds_None)

lemma not_asSkip: "unwraps e x \<Longrightarrow> \<not> asSkip e \<Longrightarrow> \<not> asSkip x"
  by (induction rule: unwraps.induct) (auto simp: asSkips_iff)

lemma asSkip_iff: "asSkip e \<longleftrightarrow> (\<exists>x. unwraps e (GoSkipRetry x))"
  using asSkip_sound not_asSkip by fastforce

lemma asThrottled_None_iff: "asThrottled e = None \<longleftrightarrow> (\<forall>d. \<not> unwraps e (GoThrottled d))"
  using asThrottled_sound not_asThrottled by (metis asThrottled.simps(2) not_None_eq)

end
