(* ===== verification/Gate.thy ===== *)
theory Gate
  imports Broker_Interface Backoff Go_Errors
begin

text \<open>
  The state of one process that uses taskgate (\<open>client.go\<close>, \<open>scheduler.go\<close>): the gate with its
  configuration and registered types, the scheduler with its table of running tasks, and the
  operations of the gate that callers use.  Everything is written against the interface of
  \<open>Broker_Interface\<close>: \<open>B\<close> is the back end and \<open>broker g\<close> its state.
\<close>

section \<open>Scheduler state\<close>

text \<open>
  \<open>runningTask\<close> is shared by the goroutine that runs the handler, its heartbeat, \<open>Cancel\<close> and
  \<open>Shutdown\<close>.  \<open>rt_ctxDone\<close> is whether its \<open>cancel\<close> has been called, i.e. \<open>taskCtx.Err() != nil\<close>.
\<close>

record runningTask =
  rt_ctxDone :: bool
  rt_canceled :: bool
  rt_leaseLost :: bool
  rt_requeue :: bool

record quotaState =
  qs_exhausted :: bool
  qs_stalled :: bool

text \<open>What the handler of a task did: it returned a result and possibly an error, or it panicked.\<close>

datatype outcome = HReturned bytes "goerr option" | HPanicked string

text \<open>The receipt of an execution, with its arguments.\<close>

datatype receipt =
    RAck bytes
  | RFinishCanceled
  | RRequeue
  | RFail string failKind time

text \<open>
  The program counter of a worker goroutine: the points of \<open>execute\<close> between which other
  goroutines may run.  \<open>PRun\<close> carries whether the heartbeat goroutine is alive; \<open>PJoin\<close> is the
  wait for it to exit after the handler returned; the next three are the conditions of the final
  \<open>switch\<close>, read one after the other.
\<close>

datatype phase =
    PStart
  | PSkip
  | PTrack
  | PRun bool
  | PJoin bytes "goerr option" bool
  | PReadLost bytes "goerr option"
  | PReadCanceled bytes "goerr option"
  | PReadRequeue goerr
  | PSend receipt
  | PUntrack
  | PExit

record worker =
  w_queue :: string
  w_task :: task
  w_qc :: queueConfig
  w_phase :: phase
  w_rt :: runningTask

text \<open>The program counter of the claim loop of a queue; \<open>CDequeue\<close> carries the reservation.\<close>

datatype claimPc =
    CAcquire
  | CToken
  | CQueueLen
  | CReserve
  | CDequeue "int option"
  | CSleepQuota
  | CSleepRetry
  | CExited

text \<open>
  One call of \<open>run\<close>: the error of \<open>runCtx\<close> once it is done, the limiters and quota gates built for
  it, the claim loops it started, and whether the reaper is still running.
\<close>

record 'q runState =
  r_ctx :: "tg_error option"
  r_queues :: "(string, queueConfig) fmap"
  r_limiters :: "(string, localLimiter) fmap"
  r_quotas :: "(string, 'q) fmap"
  r_claims :: "(string, claimPc) fmap"
  r_reaper :: bool

text \<open>
  The scheduler.  \<open>s_run\<close> is the run in progress; \<open>stopClaims\<close> and \<open>runExited\<close> are not nil exactly
  while there is one.  \<open>s_workers\<close> are the worker goroutines alive, by the address of their
  \<open>runningTask\<close>, and \<open>s_tasks\<close> maps a task to such an address.
\<close>

record 'q scheduler =
  s_started :: bool
  s_run :: "'q runState option"
  s_running :: "(string, int) fmap"
  s_quota :: "(string, quotaState) fmap"
  s_workers :: "(nat, worker) fmap"
  s_tasks :: "(id, nat) fmap"
  s_draining :: bool

definition newScheduler :: "'q scheduler" where
  "newScheduler = \<lparr>s_started = False, s_run = None, s_running = fmempty, s_quota = fmempty,
     s_workers = fmempty, s_tasks = fmempty, s_draining = False\<rparr>"

definition quotaStateFor :: "'q scheduler \<Rightarrow> string \<Rightarrow> bool \<times> bool" where
  "quotaStateFor s queue =
     (case fmlookup (s_quota s) queue of
        Some qs \<Rightarrow> (qs_exhausted qs, qs_stalled qs)
      | None \<Rightarrow> (False, False))"

definition runningCount :: "'q scheduler \<Rightarrow> string \<Rightarrow> int" where
  "runningCount s queue = (case fmlookup (s_running s) queue of Some c \<Rightarrow> c | None \<Rightarrow> 0)"

text \<open>Changing the \<open>runningTask\<close> at an address.\<close>

definition upd_rt :: "nat \<Rightarrow> (runningTask \<Rightarrow> runningTask) \<Rightarrow> 'q scheduler \<Rightarrow> 'q scheduler" where
  "upd_rt p f s =
     (case fmlookup (s_workers s) p of
        None \<Rightarrow> s
      | Some w \<Rightarrow> s\<lparr>s_workers := fmupd p (w\<lparr>w_rt := f (w_rt w)\<rparr>) (s_workers s)\<rparr>)"

definition interrupt :: "runningTask \<Rightarrow> runningTask" where
  "interrupt rt = rt\<lparr>rt_requeue := True, rt_ctxDone := True\<rparr>"

definition track :: "id \<Rightarrow> nat \<Rightarrow> 'q scheduler \<Rightarrow> 'q scheduler" where
  "track i p s =
     (let s1 = s\<lparr>s_tasks := fmupd i p (s_tasks s)\<rparr>
      in if s_draining s1 then upd_rt p interrupt s1 else s1)"

definition untrack :: "id \<Rightarrow> nat \<Rightarrow> 'q scheduler \<Rightarrow> 'q scheduler" where
  "untrack i p s =
     (if fmlookup (s_tasks s) i = Some p then s\<lparr>s_tasks := fmdrop i (s_tasks s)\<rparr> else s)"

definition cancelLocal :: "id \<Rightarrow> 'q scheduler \<Rightarrow> 'q scheduler" where
  "cancelLocal i s =
     (case fmlookup (s_tasks s) i of
        None \<Rightarrow> s
      | Some p \<Rightarrow> upd_rt p (\<lambda>rt. rt\<lparr>rt_canceled := True, rt_ctxDone := True\<rparr>) s)"

section \<open>Gates\<close>

text \<open>
  \<open>g_handlers\<close> are the registered types; the functions themselves are supplied by the caller.
  \<open>g_cancels\<close> are the calls of \<open>Cancel\<close> that have returned from the back end and have not yet
  reached \<open>cancelLocal\<close>; \<open>g_shutdownPc\<close> is the progress of the one effective call of \<open>Shutdown\<close>.
\<close>

datatype shutdownPc = SIdle | SWaiting | SDrained | SReturned "tg_error option"

record ('b, 'q) gate =
  g_cfg :: config
  broker :: 'b
  g_handlers :: "string fset"
  sched :: "'q scheduler"
  g_shutdown :: bool
  g_cancels :: "id list"
  g_shutdownPc :: shutdownPc

text \<open>
  \<open>newGate\<close>.  \<open>xs\<close>, \<open>ts\<close>, \<open>ys\<close> are the orders of the loops of \<open>validate\<close>, \<open>zs\<close> the order of the
  loop that looks for queues with a quota when the back end is no \<open>QuotaProvider\<close>.
\<close>

definition leaseTTLs :: "config \<Rightarrow> (string, duration) fmap" where
  "leaseTTLs c = fmmap QLeaseTTL (Queues c)"

definition brokerOptions_of :: "config \<Rightarrow> brokerOptions" where
  "brokerOptions_of c = \<lparr>LeaseTTL = leaseTTLs c,
     DefaultLeaseTTL = (if QLeaseTTL (DefaultQueue c) > 0 then QLeaseTTL (DefaultQueue c) else defaultLeaseTTL),
     LeaseLostMax = CLeaseLostMax c, ThrottledMax = CThrottledMax c\<rparr>"

fun quota_unsupported :: "string list \<Rightarrow> (string, queueConfig) fmap \<Rightarrow> tg_error option" where
  "quota_unsupported [] qs = None"
| "quota_unsupported (n # ns) qs =
     (case fmlookup qs n of
        None \<Rightarrow> quota_unsupported ns qs
      | Some q \<Rightarrow> if QuotaLimit q > 0 then Some (ErrConfig (''quota: '' @ n)) else quota_unsupported ns qs)"

definition newGate ::
  "('b, 'q) Broker \<Rightarrow> string list \<Rightarrow> string list \<Rightarrow> string list \<Rightarrow> string list \<Rightarrow> config \<Rightarrow> 'b \<Rightarrow>
   tg_error + ('b, 'q) gate" where
  "newGate B xs ts ys zs cfg b =
     (case validate xs ts ys cfg of Inl e \<Rightarrow> Inl e
      | Inr c \<Rightarrow>
        (case (if op_QueueQuota B = None then
                 (case quota_unsupported zs (Queues c) of
                    Some e \<Rightarrow> Some e
                  | None \<Rightarrow> if QuotaLimit (DefaultQueue c) > 0 then Some (ErrConfig ''quota: default_queue'') else None)
               else None) of Some e \<Rightarrow> Inl e
      | None \<Rightarrow>
        (case op_Init B (brokerOptions_of c) b of
           (b', Some e) \<Rightarrow> Inl e
         | (b', None) \<Rightarrow>
             Inr \<lparr>g_cfg = c, broker = b', g_handlers = {||}, sched = newScheduler,
                  g_shutdown = False, g_cancels = [], g_shutdownPc = SIdle\<rparr>)))"

definition Handle :: "string \<Rightarrow> ('b, 'q) gate \<Rightarrow> ('b, 'q) gate" where
  "Handle typ g = g\<lparr>g_handlers := finsert typ (g_handlers g)\<rparr>"

definition handlerFor :: "('b, 'q) gate \<Rightarrow> string \<Rightarrow> bool" where
  "handlerFor g typ \<longleftrightarrow> typ |\<in>| g_handlers g"

definition queueFor :: "config \<Rightarrow> string \<Rightarrow> tg_error + (string \<times> queueConfig)" where
  "queueFor c typ =
     (let name = (case fmlookup (Routes c) typ of Some target \<Rightarrow> target | None \<Rightarrow> typ) in
      case fmlookup (Queues c) name of
        Some qc \<Rightarrow> Inr (name, qc)
      | None \<Rightarrow>
          if Workers (DefaultQueue c) \<ge> 1 then Inr (name, DefaultQueue c)
          else Inl (ErrConfig (''queue not configured: '' @ name)))"

section \<open>Operations for callers\<close>

text \<open>
  The task \<open>Submit\<close> hands to the back end; \<open>now\<close> is the clock, read only for a delay.  Its status is
  the empty string in the code; \<open>Enqueue\<close> overwrites it without reading it.
\<close>

definition submit_task :: "time \<Rightarrow> string \<Rightarrow> string \<Rightarrow> bytes \<Rightarrow> submitOptions \<Rightarrow> task" where
  "submit_task now typ queue payload o1 =
     \<lparr>ID = '''', BusinessKey = o_businessKey o1, ReplayOf = '''', Type = typ, Queue = queue,
      Payload = payload, Status = StatusBlocked, Result = None, LastError = '''', Attempts = 0,
      MaxRetry = o_maxRetry o1, LeaseLost = 0, Throttled = 0,
      RunAt = (if \<not> isZero (o_runAt o1) then o_runAt o1
               else if o_delay o1 > 0 then now + o_delay o1 else zero_time),
      DependsOn = o_dependsOn o1,
      OnParentFailure = (if o_ignoreParentFailure o1 then IgnoreParentFail else FailFast),
      LeaseToken = '''', CreatedAt = zero_time, StartedAt = zero_time, FinishedAt = zero_time\<rparr>"

definition Submit ::
  "('b, 'q) Broker \<Rightarrow> env \<Rightarrow> string \<Rightarrow> bytes \<Rightarrow> submitOption list \<Rightarrow> ('b, 'q) gate \<Rightarrow>
   ('b, 'q) gate \<times> (tg_error + id)" where
  "Submit B e typ payload os g =
     (if g_shutdown g then (g, Inl ErrShutdown)
      else if typ = '''' then (g, Inl (ErrConfig ''submit: task type is required''))
      else (case queueFor (g_cfg g) typ of Inl er \<Rightarrow> (g, Inl er)
      | Inr (queue, _) \<Rightarrow>
          (case op_Enqueue B e (submit_task (e_now e) typ queue payload (applySubmitOptions os)) (broker g) of
             (b', Inl er) \<Rightarrow> (g\<lparr>broker := b'\<rparr>, Inl er)
           | (b', Inr t) \<Rightarrow> (g\<lparr>broker := b'\<rparr>, Inr (ID t)))))"

definition Get :: "('b, 'q) Broker \<Rightarrow> env \<Rightarrow> id \<Rightarrow> ('b, 'q) gate \<Rightarrow> tg_error + task" where
  "Get B e i g = op_Get B e i (broker g)"

definition gate_replay ::
  "('b, 'q) Broker \<Rightarrow> env \<Rightarrow> replayRequest \<Rightarrow> replayOption list \<Rightarrow> ('b, 'q) gate \<Rightarrow>
   ('b, 'q) gate \<times> (tg_error + id)" where
  "gate_replay B e req os g =
     (if g_shutdown g then (g, Inl ErrShutdown)
      else
        let o1 = applyReplayOptions os;
            req1 = req\<lparr>rq_AllowCompleted := ro_allowCompleted o1, rq_Payload := ro_payload o1\<rparr>
        in (case op_Replay B e req1 (broker g) of
              (b', Inl er) \<Rightarrow> (g\<lparr>broker := b'\<rparr>, Inl er)
            | (b', Inr nt) \<Rightarrow> (g\<lparr>broker := b'\<rparr>, Inr (ID nt))))"

definition Replay :: "('b, 'q) Broker \<Rightarrow> env \<Rightarrow> id \<Rightarrow> replayOption list \<Rightarrow> ('b, 'q) gate \<Rightarrow>
    ('b, 'q) gate \<times> (tg_error + id)" where
  "Replay B e i = gate_replay B e \<lparr>rq_ExecutionID = i, rq_BusinessKey = '''', rq_AllowCompleted = False, rq_Payload = None\<rparr>"

definition ReplayByKey :: "('b, 'q) Broker \<Rightarrow> env \<Rightarrow> string \<Rightarrow> replayOption list \<Rightarrow> ('b, 'q) gate \<Rightarrow>
    ('b, 'q) gate \<times> (tg_error + id)" where
  "ReplayByKey B e key = gate_replay B e \<lparr>rq_ExecutionID = '''', rq_BusinessKey = key, rq_AllowCompleted = False, rq_Payload = None\<rparr>"

definition History :: "('b, 'q) Broker \<Rightarrow> env \<Rightarrow> string \<Rightarrow> ('b, 'q) gate \<Rightarrow> tg_error + task list" where
  "History B e key g = op_List B e \<lparr>f_Type = '''', f_Queue = '''', f_Status = None, f_BusinessKey = key,
     f_Limit = 0, f_Offset = 0\<rparr> (broker g)"

text \<open>\<open>Cancel\<close> in two steps, the call of the back end and \<open>cancelLocal\<close>: other goroutines may run between them.\<close>

definition Cancel_broker :: "('b, 'q) Broker \<Rightarrow> env \<Rightarrow> id \<Rightarrow> ('b, 'q) gate \<Rightarrow> ('b, 'q) gate \<times> tg_error option" where
  "Cancel_broker B e i g =
     (case op_Cancel B e i (broker g) of
        (b', Some er) \<Rightarrow> (g\<lparr>broker := b'\<rparr>, Some er)
      | (b', None) \<Rightarrow> (g\<lparr>broker := b', g_cancels := i # g_cancels g\<rparr>, None))"

definition Cancel_local :: "id \<Rightarrow> ('b, 'q) gate \<Rightarrow> ('b, 'q) gate" where
  "Cancel_local i g = g\<lparr>sched := cancelLocal i (sched g), g_cancels := remove1 i (g_cancels g)\<rparr>"

definition gate_List :: "('b, 'q) Broker \<Rightarrow> env \<Rightarrow> filterSpec \<Rightarrow> ('b, 'q) gate \<Rightarrow> tg_error + task list" where
  "gate_List B e f g = op_List B e f (broker g)"

record queueStats =
  st_Workers :: int
  st_Running :: int
  st_QueueLen :: int
  st_RPS :: rat
  st_QuotaExhausted :: bool
  st_QuotaStalled :: bool

definition Stats :: "('b, 'q) Broker \<Rightarrow> env \<Rightarrow> string \<Rightarrow> ('b, 'q) gate \<Rightarrow> tg_error + queueStats" where
  "Stats B e queue g =
     (case (case fmlookup (Queues (g_cfg g)) queue of
              Some qc \<Rightarrow> Inr qc
            | None \<Rightarrow> if Workers (DefaultQueue (g_cfg g)) < 1
                      then Inl (ErrConfig (''stats: queue not configured: '' @ queue))
                      else Inr (DefaultQueue (g_cfg g))) of
        Inl er \<Rightarrow> Inl er
      | Inr qc \<Rightarrow>
          (case op_QueueLen B e queue (broker g) of
             Inl er \<Rightarrow> Inl er
           | Inr n \<Rightarrow>
               (case quotaStateFor (sched g) queue of (exhausted, stalled) \<Rightarrow>
                  Inr \<lparr>st_Workers = Workers qc, st_Running = runningCount (sched g) queue, st_QueueLen = n,
                       st_RPS = RPS qc, st_QuotaExhausted = exhausted, st_QuotaStalled = stalled\<rparr>)))"

definition Overview :: "('b, 'q) Broker \<Rightarrow> env \<Rightarrow> ('b, 'q) gate \<Rightarrow> tg_error + countMatrix" where
  "Overview B e g = op_Counts B e (broker g)"

text \<open>
  \<open>Wait\<close> polls.  One turn either returns or sleeps; \<open>wait_loop\<close> runs the turns over the states the
  gate goes through meanwhile (\<open>gs\<close>, with the result of each sleep), and \<^term>\<open>None\<close> says that it is
  still waiting after the last of them.
\<close>

datatype waitError = WaitErr tg_error | TaskFailedError id status string

definition taskFailedText :: "id \<Rightarrow> status \<Rightarrow> string \<Rightarrow> string" where
  "taskFailedText i st msg = ''taskgate: task '' @ i @ '' '' @ statusText st @ '': '' @ msg"

definition wait_turn :: "tg_error + task \<Rightarrow> (waitError + bytes) option" where
  "wait_turn r =
     (case r of
        Inl er \<Rightarrow> Some (Inl (WaitErr er))
      | Inr t \<Rightarrow>
          (case Status t of
             StatusCompleted \<Rightarrow> Some (Inr (Result t))
           | StatusFailed \<Rightarrow> Some (Inl (TaskFailedError (ID t) (Status t) (LastError t)))
           | StatusCanceled \<Rightarrow> Some (Inl (TaskFailedError (ID t) (Status t) (LastError t)))
           | _ \<Rightarrow> None))"

fun wait_loop ::
  "('b, 'q) Broker \<Rightarrow> id \<Rightarrow> (env \<times> ('b, 'q) gate \<times> tg_error option) list \<Rightarrow> (waitError + bytes) option" where
  "wait_loop B i [] = None"
| "wait_loop B i ((e, g, slept) # gs) =
     (case wait_turn (op_Get B e i (broker g)) of
        Some r \<Rightarrow> Some r
      | None \<Rightarrow> (case slept of Some er \<Rightarrow> Some (Inl (WaitErr er)) | None \<Rightarrow> wait_loop B i gs))"

end
