(* ===== verification/Runtime.thy ===== *)
theory Runtime
  imports Gate
begin

text \<open>
  The consuming side of a process (\<open>scheduler.go\<close>): starting and ending a run, the claim loop of a
  queue, the execution of a claimed task with its heartbeat, the reaper and \<open>Shutdown\<close>.  Every
  goroutine is a program counter, every step between two points where it may block or is
  visible to others a function on the state of the gate, \<^term>\<open>None\<close> meaning that the step is not
  enabled.  The relation \<open>gstep\<close> interleaves the steps of all goroutines with calls of the gate's
  users and with the work of other processes on the same back end.
\<close>

section \<open>Quota waits\<close>

definition quotaRecheckFloor :: duration where "quotaRecheckFloor = 10 * millisecond"
definition dequeueRetryWait :: duration where "dequeueRetryWait = 100 * millisecond"

definition quotaBackoff :: "duration \<Rightarrow> duration" where
  "quotaBackoff period =
     (let w = period sdiv 8;
          w1 = (if w > second then second else w)
      in if w1 < quotaRecheckFloor then quotaRecheckFloor else w1)"

definition quotaDequeueBound :: "duration \<Rightarrow> duration" where
  "quotaDequeueBound period = (if period < 3 * second then period else 3 * second)"

section \<open>Starting a run\<close>

fun consumeQueues_loop :: "config \<Rightarrow> string list \<Rightarrow> (string, queueConfig) fmap \<Rightarrow> tg_error + (string, queueConfig) fmap" where
  "consumeQueues_loop c [] out = Inr out"
| "consumeQueues_loop c (typ # ts) out =
     (case queueFor c typ of
        Inl e \<Rightarrow> Inl e
      | Inr (name, qc) \<Rightarrow> consumeQueues_loop c ts (fmupd name qc out))"

definition consumeQueues :: "config \<Rightarrow> string list \<Rightarrow> tg_error + (string, queueConfig) fmap" where
  "consumeQueues c hs = consumeQueues_loop c hs fmempty"

text \<open>
  The loop of \<open>run\<close> that builds quota gates and limiters, over the queues in the order \<open>ns\<close>.  The
  entries of \<open>running\<close> and \<open>quota\<close> it has made stay when a later queue fails.
\<close>

record 'q built =
  bt_running :: "(string, int) fmap"
  bt_quota :: "(string, quotaState) fmap"
  bt_limiters :: "(string, localLimiter) fmap"
  bt_quotas :: "(string, 'q) fmap"

definition build_running :: "string \<Rightarrow> 'q built \<Rightarrow> 'q built" where
  "build_running name bt =
     (if fmlookup (bt_running bt) name = None
      then bt\<lparr>bt_running := fmupd name 0 (bt_running bt)\<rparr> else bt)"

definition build_quota :: "('b, 'q) Broker \<Rightarrow> string \<Rightarrow> queueConfig \<Rightarrow> 'q built \<Rightarrow> 'q built \<times> tg_error option" where
  "build_quota B name qc bt =
     (if QuotaLimit qc > 0 then
        (case op_QueueQuota B of
           None \<Rightarrow> (bt, Some (ErrConfig (''quota: '' @ name)))
         | Some qp \<Rightarrow>
             (case qp name qc of
                Inl e \<Rightarrow> (bt, Some e)
              | Inr qg \<Rightarrow>
                  (bt\<lparr>bt_quotas := fmupd name qg (bt_quotas bt),
                      bt_quota := (if fmlookup (bt_quota bt) name = None
                                   then fmupd name \<lparr>qs_exhausted = False, qs_stalled = False\<rparr> (bt_quota bt)
                                   else bt_quota bt)\<rparr>, None)))
      else (bt, None))"

definition build_limiter :: "('b, 'q) Broker \<Rightarrow> string \<Rightarrow> queueConfig \<Rightarrow> 'q built \<Rightarrow> 'q built \<times> tg_error option" where
  "build_limiter B name qc bt =
     (case op_QueueLimiter B of
        Some lp \<Rightarrow>
          (case lp name qc of
             Inl e \<Rightarrow> (bt, Some e)
           | Inr ql \<Rightarrow> (bt\<lparr>bt_limiters := fmupd name ql (bt_limiters bt)\<rparr>, None))
      | None \<Rightarrow> (bt\<lparr>bt_limiters := fmupd name (newLocalLimiter (Workers qc) (RPS qc) (Burst qc)) (bt_limiters bt)\<rparr>, None))"

fun build_queues :: "('b, 'q) Broker \<Rightarrow> (string, queueConfig) fmap \<Rightarrow> string list \<Rightarrow> 'q built \<Rightarrow> 'q built \<times> tg_error option" where
  "build_queues B queues [] bt = (bt, None)"
| "build_queues B queues (name # ns) bt =
     (case fmlookup queues name of
        None \<Rightarrow> build_queues B queues ns bt
      | Some qc \<Rightarrow>
          (case build_quota B name qc (build_running name bt) of
             (bt1, Some e) \<Rightarrow> (bt1, Some e)
           | (bt1, None) \<Rightarrow>
               (case build_limiter B name qc bt1 of
                  (bt2, Some e) \<Rightarrow> (bt2, Some e)
                | (bt2, None) \<Rightarrow> build_queues B queues ns bt2)))"

text \<open>
  The first half of \<open>run\<close>, up to the point where all goroutines are started; \<^term>\<open>None\<close> as the error
  means that the call goes on.  \<open>hs\<close> is the order of the loop over the handlers; \<open>ctx\<close> is
  \<open>ctx.Err()\<close>.
\<close>

definition run_start ::
  "('b, 'q) Broker \<Rightarrow> string list \<Rightarrow> string list \<Rightarrow> tg_error option \<Rightarrow> ('b, 'q) gate \<Rightarrow> ('b, 'q) gate \<times> tg_error option" where
  "run_start B hs ns ctx g =
     (case consumeQueues (g_cfg g) hs of Inl e \<Rightarrow> (g, Some e)
      | Inr queues \<Rightarrow>
        if queues = fmempty then (g, Some (ErrConfig ''run: no handler registered''))
        else if g_shutdown g then (g, Some ErrShutdown)
        else if s_started (sched g) then (g, Some (ErrConfig ''run: already running''))
        else
          (case build_queues B queues ns
                  \<lparr>bt_running = s_running (sched g), bt_quota = s_quota (sched g),
                   bt_limiters = fmempty, bt_quotas = fmempty\<rparr> of
             (bt, Some e) \<Rightarrow>
               (g\<lparr>sched := (sched g)\<lparr>s_running := bt_running bt, s_quota := bt_quota bt\<rparr>\<rparr>, Some e)
           | (bt, None) \<Rightarrow>
               (g\<lparr>sched := (sched g)\<lparr>s_running := bt_running bt, s_quota := bt_quota bt, s_started := True,
                  s_run := Some \<lparr>r_ctx = ctx, r_queues = queues, r_limiters = bt_limiters bt,
                    r_quotas = bt_quotas bt, r_claims = fmmap (\<lambda>_. CAcquire) queues, r_reaper = True\<rparr>\<rparr>\<rparr>,
                None)))"

text \<open>The shortest lease of the consumed queues; the reaper ticks every half of it.\<close>

fun minTTL :: "(string, queueConfig) fmap \<Rightarrow> string list \<Rightarrow> duration \<Rightarrow> duration" where
  "minTTL queues [] m = m"
| "minTTL queues (name # ns) m =
     minTTL queues ns
       (case fmlookup queues name of
          None \<Rightarrow> m
        | Some qc \<Rightarrow> if m = 0 \<or> QLeaseTTL qc < m then QLeaseTTL qc else m)"

definition reapInterval :: "(string, queueConfig) fmap \<Rightarrow> string list \<Rightarrow> duration" where
  "reapInterval queues ns = minTTL queues ns 0 sdiv 2"

definition heartbeatInterval :: "queueConfig \<Rightarrow> duration" where
  "heartbeatInterval qc = QLeaseTTL qc sdiv 3"

section \<open>The claim loop\<close>

definition upd_run :: "('q runState \<Rightarrow> 'q runState) \<Rightarrow> ('b, 'q) gate \<Rightarrow> ('b, 'q) gate" where
  "upd_run f g = g\<lparr>sched := (sched g)\<lparr>s_run := map_option f (s_run (sched g))\<rparr>\<rparr>"

definition goto :: "string \<Rightarrow> claimPc \<Rightarrow> ('b, 'q) gate \<Rightarrow> ('b, 'q) gate" where
  "goto q pc = upd_run (\<lambda>rs. rs\<lparr>r_claims := fmupd q pc (r_claims rs)\<rparr>)"

definition set_limiter :: "string \<Rightarrow> localLimiter \<Rightarrow> ('b, 'q) gate \<Rightarrow> ('b, 'q) gate" where
  "set_limiter q l = upd_run (\<lambda>rs. rs\<lparr>r_limiters := fmupd q l (r_limiters rs)\<rparr>)"

definition set_quota :: "string \<Rightarrow> (quotaState \<Rightarrow> quotaState) \<Rightarrow> ('b, 'q) gate \<Rightarrow> ('b, 'q) gate" where
  "set_quota q f g =
     (case fmlookup (s_quota (sched g)) q of
        None \<Rightarrow> g
      | Some qs \<Rightarrow> g\<lparr>sched := (sched g)\<lparr>s_quota := fmupd q (f qs) (s_quota (sched g))\<rparr>\<rparr>)"

text \<open>\<open>lim.ReleaseSlot()\<close> followed by a jump; \<^term>\<open>None\<close> if the receive blocks.\<close>

definition release_goto :: "string \<Rightarrow> localLimiter \<Rightarrow> claimPc \<Rightarrow> ('b, 'q) gate \<Rightarrow> ('b, 'q) gate option" where
  "release_goto q l pc g =
     (case ReleaseSlot l of None \<Rightarrow> None | Some l' \<Rightarrow> Some (goto q pc (set_limiter q l' g)))"

text \<open>
  What the environment decides in a step of a claim loop: the arguments of the back end, which
  ready case a \<open>select\<close> takes, the answer of the token bucket, whether the deadline of \<open>dctx\<close> has
  passed, whether \<open>Sleep\<close> ended with the context, and the address of a new \<open>runningTask\<close>.
\<close>

record claimEv =
  ce_env :: env
  ce_pick :: bool
  ce_wait :: "tokenBucket \<Rightarrow> tg_error option"
  ce_timeout :: bool
  ce_sleepErr :: bool
  ce_ptr :: nat

definition new_worker :: "string \<Rightarrow> task \<Rightarrow> queueConfig \<Rightarrow> worker" where
  "new_worker q t qc = \<lparr>w_queue = q, w_task = t, w_qc = qc, w_phase = PStart,
     w_rt = \<lparr>rt_ctxDone = False, rt_canceled = False, rt_leaseLost = False, rt_requeue = False\<rparr>\<rparr>"

definition add_running :: "string \<Rightarrow> int \<Rightarrow> 'q scheduler \<Rightarrow> 'q scheduler" where
  "add_running q d s =
     (case fmlookup (s_running s) q of
        None \<Rightarrow> s
      | Some c \<Rightarrow> s\<lparr>s_running := fmupd q (c + d) (s_running s)\<rparr>)"

definition spawn :: "nat \<Rightarrow> string \<Rightarrow> task \<Rightarrow> queueConfig \<Rightarrow> ('b, 'q) gate \<Rightarrow> ('b, 'q) gate" where
  "spawn p q t qc g =
     (let s1 = add_running q 1 (sched g)
      in g\<lparr>sched := s1\<lparr>s_workers := fmupd p (new_worker q t qc) (s_workers s1)\<rparr>\<rparr>)"

definition dequeueCtx :: "claimEv \<Rightarrow> int option \<Rightarrow> tg_error option \<Rightarrow> tg_error option" where
  "dequeueCtx ev res ctx =
     (case ctx of
        Some e \<Rightarrow> Some e
      | None \<Rightarrow> if res \<noteq> None \<and> ce_timeout ev then Some (ErrCtx ''deadline exceeded'') else None)"

definition claim_dequeue ::
  "('b, 'q) Broker \<Rightarrow> claimEv \<Rightarrow> string \<Rightarrow> 'q runState \<Rightarrow> queueConfig \<Rightarrow> localLimiter \<Rightarrow> int option \<Rightarrow>
   ('b, 'q) gate \<Rightarrow> ('b, 'q) gate option" where
  "claim_dequeue B ev q rs qc l res g =
     (case op_Dequeue B ((ce_env ev)\<lparr>e_ctx := dequeueCtx ev res (r_ctx rs)\<rparr>) [q] (broker g) of
        (b', Claimed t) \<Rightarrow>
          if fmlookup (s_workers (sched g)) (ce_ptr ev) = None
          then Some (goto q CAcquire (spawn (ce_ptr ev) q t qc (g\<lparr>broker := b'\<rparr>))) else None
      | (b', WaitFor _) \<Rightarrow> Some (g\<lparr>broker := b'\<rparr>)
      | (b', DequeueErr e) \<Rightarrow>
          let b2 = (case (res, fmlookup (r_quotas rs) q) of (Some _, Some qg) \<Rightarrow> op_Release B qg res b' | _ \<Rightarrow> b')
          in release_goto q l (if r_ctx rs \<noteq> None then CExited else CSleepRetry) (g\<lparr>broker := b2\<rparr>))"

definition claim_reserve ::
  "('b, 'q) Broker \<Rightarrow> claimEv \<Rightarrow> string \<Rightarrow> 'q runState \<Rightarrow> 'q \<Rightarrow> localLimiter \<Rightarrow> ('b, 'q) gate \<Rightarrow> ('b, 'q) gate option" where
  "claim_reserve B ev q rs qg l g =
     (case op_Reserve B ((ce_env ev)\<lparr>e_ctx := r_ctx rs\<rparr>) qg (broker g) of
        (b', Inl e) \<Rightarrow>
          release_goto q l (if r_ctx rs \<noteq> None then CExited else CSleepQuota)
            (set_quota q (\<lambda>qs. qs\<lparr>qs_stalled := True\<rparr>) (g\<lparr>broker := b'\<rparr>))
      | (b', Inr None) \<Rightarrow>
          release_goto q l CSleepQuota (set_quota q (\<lambda>qs. qs\<lparr>qs_exhausted := True\<rparr>) (g\<lparr>broker := b'\<rparr>))
      | (b', Inr (Some w)) \<Rightarrow>
          Some (goto q (CDequeue (Some w))
            (set_quota q (\<lambda>qs. qs\<lparr>qs_exhausted := False, qs_stalled := False\<rparr>) (g\<lparr>broker := b'\<rparr>))))"

definition claim_at ::
  "('b, 'q) Broker \<Rightarrow> claimEv \<Rightarrow> string \<Rightarrow> 'q runState \<Rightarrow> queueConfig \<Rightarrow> localLimiter \<Rightarrow> claimPc \<Rightarrow>
   ('b, 'q) gate \<Rightarrow> ('b, 'q) gate option" where
  "claim_at B ev q rs qc l pc g =
     (case pc of
        CAcquire \<Rightarrow>
          (case AcquireSlot (r_ctx rs) (ce_pick ev) l of
             None \<Rightarrow> None
           | Some (_, Some e) \<Rightarrow> Some (goto q CExited g)
           | Some (l', None) \<Rightarrow> Some (goto q CToken (set_limiter q l' g)))
      | CToken \<Rightarrow>
          (case WaitToken (ce_wait ev) l of
             Some e \<Rightarrow> release_goto q l CExited g
           | None \<Rightarrow> Some (goto q (if fmlookup (r_quotas rs) q = None then CDequeue None else CQueueLen) g))
      | CQueueLen \<Rightarrow>
          if op_QueueLen B ((ce_env ev)\<lparr>e_ctx := r_ctx rs\<rparr>) q (broker g) = Inr 0
          then release_goto q l CSleepQuota g
          else Some (goto q CReserve g)
      | CReserve \<Rightarrow>
          (case fmlookup (r_quotas rs) q of
             None \<Rightarrow> None
           | Some qg \<Rightarrow> claim_reserve B ev q rs qg l g)
      | CDequeue res \<Rightarrow> claim_dequeue B ev q rs qc l res g
      | CSleepQuota \<Rightarrow>
          if ce_sleepErr ev then (if r_ctx rs = None then None else Some (goto q CExited g))
          else Some (goto q CAcquire g)
      | CSleepRetry \<Rightarrow> Some (goto q CAcquire g)
      | CExited \<Rightarrow> None)"

text \<open>One step of the claim loop of queue \<open>q\<close>.\<close>

definition claim_step :: "('b, 'q) Broker \<Rightarrow> claimEv \<Rightarrow> string \<Rightarrow> ('b, 'q) gate \<Rightarrow> ('b, 'q) gate option" where
  "claim_step B ev q g =
     (case s_run (sched g) of None \<Rightarrow> None
      | Some rs \<Rightarrow>
          (case (fmlookup (r_queues rs) q, fmlookup (r_limiters rs) q, fmlookup (r_claims rs) q) of
             (Some qc, Some l, Some pc) \<Rightarrow> claim_at B ev q rs qc l pc g
           | _ \<Rightarrow> None))"

section \<open>Executing a task\<close>

text \<open>The echo of a heartbeat: what it does to the \<open>runningTask\<close> and whether the loop goes on.\<close>

definition heartbeat_echo :: "tg_error option \<Rightarrow> runningTask \<Rightarrow> runningTask \<times> bool" where
  "heartbeat_echo er rt =
     (case er of
        None \<Rightarrow> (rt, True)
      | Some (ErrTaskCanceled _) \<Rightarrow> (rt\<lparr>rt_canceled := True, rt_ctxDone := True\<rparr>, True)
      | Some (ErrLeaseLost _) \<Rightarrow> (rt\<lparr>rt_leaseLost := True, rt_ctxDone := True\<rparr>, False)
      | Some (ErrTaskNotFound _) \<Rightarrow> (rt\<lparr>rt_leaseLost := True, rt_ctxDone := True\<rparr>, False)
      | Some _ \<Rightarrow> (rt, True))"

text \<open>The renewal closure handed to the handler; its error goes to the handler.\<close>

definition renew_echo :: "id \<Rightarrow> tg_error option \<Rightarrow> runningTask \<Rightarrow> runningTask \<times> tg_error option" where
  "renew_echo i er rt =
     (case er of
        None \<Rightarrow> (rt, None)
      | Some (ErrTaskCanceled j) \<Rightarrow> (rt\<lparr>rt_canceled := True, rt_ctxDone := True\<rparr>, Some (ErrTaskCanceled j))
      | Some (ErrLeaseLost j) \<Rightarrow> (rt\<lparr>rt_leaseLost := True, rt_ctxDone := True\<rparr>, Some (ErrLeaseLost i))
      | Some (ErrTaskNotFound j) \<Rightarrow> (rt\<lparr>rt_leaseLost := True, rt_ctxDone := True\<rparr>, Some (ErrLeaseLost i))
      | Some er' \<Rightarrow> (rt, Some er'))"

text \<open>\<open>RenewLease\<close>: outside a task context there is no closure.\<close>

definition RenewLease :: "(unit \<Rightarrow> tg_error option) option \<Rightarrow> tg_error option" where
  "RenewLease fn = (case fn of None \<Rightarrow> Some ErrNoTask | Some f \<Rightarrow> f ())"

text \<open>A panic of the handler becomes an error.\<close>

definition runHandler :: "outcome \<Rightarrow> bytes \<times> goerr option" where
  "runHandler h =
     (case h of
        HReturned res er \<Rightarrow> (res, er)
      | HPanicked v \<Rightarrow> (None, Some (GoErr (''taskgate: handler panic: '' @ v))))"

text \<open>The classification of \<open>failTask\<close>; \<open>backoff\<close> is \<open>gate.backoff\<close>.\<close>

definition failTask :: "time \<Rightarrow> (int \<Rightarrow> duration) \<Rightarrow> task \<Rightarrow> goerr \<Rightarrow> receipt" where
  "failTask now backoff t herr =
     (if asSkip herr then RFail (errorText herr) FailSkip zero_time
      else (case asThrottled herr of
              Some d \<Rightarrow> RFail (errorText herr) FailThrottled (now + d)
            | None \<Rightarrow> RFail (errorText herr) FailBusiness (now + backoff (Attempts t))))"

definition send_receipt :: "('b, 'q) Broker \<Rightarrow> env \<Rightarrow> task \<Rightarrow> receipt \<Rightarrow> 'b \<Rightarrow> 'b \<times> tg_error option" where
  "send_receipt B e t r b =
     (case r of
        RAck res \<Rightarrow> op_Ack B e (ID t) (LeaseToken t) res b
      | RFinishCanceled \<Rightarrow> op_FinishCanceled B e (ID t) (LeaseToken t) b
      | RRequeue \<Rightarrow> op_Requeue B e (ID t) (LeaseToken t) b
      | RFail msg kind retryAt \<Rightarrow> op_Fail B e (ID t) (LeaseToken t) msg kind retryAt b)"

definition unknownTypeText :: "string \<Rightarrow> string" where
  "unknownTypeText typ = ''taskgate: no handler registered for task type'' @ '': '' @ typ"

text \<open>The steps a worker goroutine, its heartbeat and its handler can take.\<close>

datatype workEv =
    WNext env jitter
  | WHeartbeat env
  | WHeartbeatStop
  | WRenew env
  | WReturn outcome

definition set_worker :: "nat \<Rightarrow> worker \<Rightarrow> ('b, 'q) gate \<Rightarrow> ('b, 'q) gate" where
  "set_worker p w g = g\<lparr>sched := (sched g)\<lparr>s_workers := fmupd p w (s_workers (sched g))\<rparr>\<rparr>"

text \<open>The heartbeat goroutine of a worker that is in \<open>PRun\<close> or \<open>PJoin\<close> goes on or exits.\<close>

fun set_heartbeat :: "bool \<Rightarrow> phase \<Rightarrow> phase" where
  "set_heartbeat hb (PRun h) = PRun (h \<and> hb)"
| "set_heartbeat hb (PJoin res er h) = PJoin res er (h \<and> hb)"
| "set_heartbeat hb ph = ph"

definition heartbeat_tick :: "('b, 'q) Broker \<Rightarrow> env \<Rightarrow> nat \<Rightarrow> worker \<Rightarrow> ('b, 'q) gate \<Rightarrow> ('b, 'q) gate" where
  "heartbeat_tick B e p w g =
     (case op_Heartbeat B e (ID (w_task w)) (LeaseToken (w_task w)) (broker g) of
        (b', er) \<Rightarrow>
          (case heartbeat_echo er (w_rt w) of
             (rt', go) \<Rightarrow>
               set_worker p (w\<lparr>w_rt := rt', w_phase := set_heartbeat go (w_phase w)\<rparr>) (g\<lparr>broker := b'\<rparr>)))"

definition renew :: "('b, 'q) Broker \<Rightarrow> env \<Rightarrow> nat \<Rightarrow> worker \<Rightarrow> ('b, 'q) gate \<Rightarrow> ('b, 'q) gate \<times> tg_error option" where
  "renew B e p w g =
     (case op_Heartbeat B e (ID (w_task w)) (LeaseToken (w_task w)) (broker g) of
        (b', er) \<Rightarrow>
          (case renew_echo (ID (w_task w)) er (w_rt w) of
             (rt', er') \<Rightarrow> (set_worker p (w\<lparr>w_rt := rt'\<rparr>) (g\<lparr>broker := b'\<rparr>), er')))"

text \<open>The exit of a worker: the deferred function of \<open>claimLoop\<close>.\<close>

definition worker_exit :: "nat \<Rightarrow> worker \<Rightarrow> ('b, 'q) gate \<Rightarrow> ('b, 'q) gate option" where
  "worker_exit p w g =
     (case s_run (sched g) of None \<Rightarrow> None
      | Some rs \<Rightarrow>
          (case fmlookup (r_limiters rs) (w_queue w) of None \<Rightarrow> None
           | Some l \<Rightarrow>
               (case ReleaseSlot l of None \<Rightarrow> None
                | Some l' \<Rightarrow>
                    let g1 = set_limiter (w_queue w) l' g;
                        s1 = add_running (w_queue w) (-1) (sched g1)
                    in Some (g1\<lparr>sched := s1\<lparr>s_workers := fmdrop p (s_workers s1)\<rparr>\<rparr>))))"

text \<open>
  \<open>execute\<close>: the goroutine's own steps.  \<open>defer\<close>s run last in, first out: \<open>untrack\<close> before
  \<open>cancel\<close>.
\<close>

definition worker_next :: "('b, 'q) Broker \<Rightarrow> env \<Rightarrow> jitter \<Rightarrow> nat \<Rightarrow> worker \<Rightarrow> ('b, 'q) gate \<Rightarrow> ('b, 'q) gate option" where
  "worker_next B e jitter p w g =
     (let to = (\<lambda>ph. Some (set_worker p (w\<lparr>w_phase := ph\<rparr>) g)); rt = w_rt w; t = w_task w in
      case w_phase w of
        PStart \<Rightarrow> to (if handlerFor g (Type t) then PTrack else PSkip)
      | PSkip \<Rightarrow>
          (case op_Fail B e (ID t) (LeaseToken t) (unknownTypeText (Type t)) FailSkip zero_time (broker g) of
             (b', _) \<Rightarrow> Some (set_worker p (w\<lparr>w_phase := PExit\<rparr>) (g\<lparr>broker := b'\<rparr>)))
      | PTrack \<Rightarrow>
          let g1 = set_worker p (w\<lparr>w_phase := PRun (\<not> ManualHeartbeat (w_qc w))\<rparr>) g
          in Some (g1\<lparr>sched := track (ID t) p (sched g1)\<rparr>)
      | PRun hb \<Rightarrow> None
      | PJoin res er hb \<Rightarrow> if hb then None else to (PReadLost res er)
      | PReadLost res er \<Rightarrow> to (if rt_leaseLost rt then PUntrack else PReadCanceled res er)
      | PReadCanceled res er \<Rightarrow>
          to (if rt_canceled rt \<and> rt_ctxDone rt then PSend RFinishCanceled
              else (case er of None \<Rightarrow> PSend (RAck res) | Some herr \<Rightarrow> PReadRequeue herr))
      | PReadRequeue herr \<Rightarrow>
          to (if rt_requeue rt \<and> rt_ctxDone rt then PSend RRequeue
              else PSend (failTask (e_now e) (newBackoffFunc jitter) t herr))
      | PSend r \<Rightarrow>
          (case send_receipt B e t r (broker g) of
             (b', _) \<Rightarrow> Some (set_worker p (w\<lparr>w_phase := PUntrack\<rparr>) (g\<lparr>broker := b'\<rparr>)))
      | PUntrack \<Rightarrow>
          let g1 = set_worker p (w\<lparr>w_phase := PExit, w_rt := rt\<lparr>rt_ctxDone := True\<rparr>\<rparr>) g
          in Some (g1\<lparr>sched := untrack (ID t) p (sched g1)\<rparr>)
      | PExit \<Rightarrow> worker_exit p w g)"

text \<open>
  \<open>WRenew\<close> is a call of the handler's \<open>RenewLease\<close>.  It is possible while the handler runs; a goroutine that the
  handler leaves behind and that calls the closure later is not modelled.
\<close>

definition work_step :: "('b, 'q) Broker \<Rightarrow> workEv \<Rightarrow> nat \<Rightarrow> ('b, 'q) gate \<Rightarrow> ('b, 'q) gate option" where
  "work_step B ev p g =
     (case fmlookup (s_workers (sched g)) p of None \<Rightarrow> None
      | Some w \<Rightarrow>
          (case ev of
             WNext e jitter \<Rightarrow> worker_next B e jitter p w g
           | WHeartbeat e \<Rightarrow>
               (case w_phase w of
                  PRun True \<Rightarrow> Some (heartbeat_tick B e p w g)
                | PJoin res er True \<Rightarrow> Some (heartbeat_tick B e p w g)
                | _ \<Rightarrow> None)
           | WHeartbeatStop \<Rightarrow>
               (case w_phase w of
                  PJoin res er True \<Rightarrow> Some (set_worker p (w\<lparr>w_phase := PJoin res er False\<rparr>) g)
                | _ \<Rightarrow> None)
           | WRenew e \<Rightarrow> (case w_phase w of PRun hb \<Rightarrow> Some (fst (renew B e p w g)) | _ \<Rightarrow> None)
           | WReturn out \<Rightarrow>
               (case w_phase w of
                  PRun hb \<Rightarrow>
                    (case runHandler out of (res, er) \<Rightarrow> Some (set_worker p (w\<lparr>w_phase := PJoin res er hb\<rparr>) g))
                | _ \<Rightarrow> None)))"

section \<open>Reaper, end of a run, Shutdown\<close>

definition reap_tick :: "('b, 'q) Broker \<Rightarrow> env \<Rightarrow> ('b, 'q) gate \<Rightarrow> ('b, 'q) gate option" where
  "reap_tick B e g =
     (case s_run (sched g) of
        Some rs \<Rightarrow> if r_reaper rs then Some (g\<lparr>broker := fst (op_ReapExpired B e (broker g))\<rparr>) else None
      | None \<Rightarrow> None)"

definition reaper_stop :: "('b, 'q) gate \<Rightarrow> ('b, 'q) gate option" where
  "reaper_stop g =
     (case s_run (sched g) of
        Some rs \<Rightarrow> if r_ctx rs \<noteq> None then Some (upd_run (\<lambda>rs. rs\<lparr>r_reaper := False\<rparr>) g) else None
      | None \<Rightarrow> None)"

text \<open>The context given to \<open>run\<close> is cancelled.\<close>

definition cancel_run :: "tg_error \<Rightarrow> ('b, 'q) gate \<Rightarrow> ('b, 'q) gate" where
  "cancel_run e = upd_run (\<lambda>rs. rs\<lparr>r_ctx := (case r_ctx rs of None \<Rightarrow> Some e | Some e' \<Rightarrow> Some e')\<rparr>)"

text \<open>
  The second half of \<open>run\<close>: claim loops, workers and reaper have all exited.
\<close>

definition run_finish :: "('b, 'q) gate \<Rightarrow> ('b, 'q) gate option" where
  "run_finish g =
     (case s_run (sched g) of
        Some rs \<Rightarrow>
          if (\<forall>pc \<in> fmran' (r_claims rs). pc = CExited) \<and> s_workers (sched g) = fmempty \<and> \<not> r_reaper rs
          then Some (g\<lparr>sched := (sched g)\<lparr>s_started := False, s_run := None\<rparr>\<rparr>) else None
      | None \<Rightarrow> None)"

text \<open>
  \<open>Shutdown\<close>: the call that wins the compare-and-swap stops the claim loops and waits; every other
  call returns nil at once and changes nothing.
\<close>

definition Shutdown :: "('b, 'q) gate \<Rightarrow> ('b, 'q) gate" where
  "Shutdown g =
     (if g_shutdown g then g
      else
        let g1 = g\<lparr>g_shutdown := True\<rparr>
        in if s_run (sched g1) = None then g1\<lparr>g_shutdownPc := SReturned None\<rparr>
           else (cancel_run (ErrCtx ''context canceled'') g1)\<lparr>g_shutdownPc := SWaiting\<rparr>)"

text \<open>The table of running tasks is visited in the order \<open>is\<close>.\<close>

definition drain :: "id list \<Rightarrow> 'q scheduler \<Rightarrow> 'q scheduler" where
  "drain is s =
     fold (\<lambda>i s. case fmlookup (s_tasks s) i of None \<Rightarrow> s | Some p \<Rightarrow> upd_rt p interrupt s) is
       (s\<lparr>s_draining := True\<rparr>)"

definition shutdown_drain :: "id list \<Rightarrow> ('b, 'q) gate \<Rightarrow> ('b, 'q) gate option" where
  "shutdown_drain is g =
     (if g_shutdownPc g = SWaiting
      then Some (g\<lparr>sched := drain is (sched g), g_shutdownPc := SDrained\<rparr>) else None)"

definition shutdown_return :: "tg_error \<Rightarrow> ('b, 'q) gate \<Rightarrow> ('b, 'q) gate option" where
  "shutdown_return ctxErr g =
     (if s_run (sched g) \<noteq> None then None
      else (case g_shutdownPc g of
              SWaiting \<Rightarrow> Some (g\<lparr>g_shutdownPc := SReturned None\<rparr>)
            | SDrained \<Rightarrow> Some (g\<lparr>g_shutdownPc := SReturned (Some ctxErr)\<rparr>)
            | _ \<Rightarrow> None))"

section \<open>Interleavings\<close>

text \<open>
  One step of the process.  \<open>ext\<close> is what other processes may do to the back end.  Handlers are
  registered before a run starts.
\<close>

inductive gstep :: "('b, 'q) Broker \<Rightarrow> ('b \<Rightarrow> 'b \<Rightarrow> bool) \<Rightarrow> ('b, 'q) gate \<Rightarrow> ('b, 'q) gate \<Rightarrow> bool"
  for B ext where
  handle: "\<not> s_started (sched g) \<Longrightarrow> gstep B ext g (Handle typ g)"
| submit: "gstep B ext g (fst (Submit B e typ payload os g))"
| replay: "gstep B ext g (fst (gate_replay B e req os g))"
| cancel: "gstep B ext g (fst (Cancel_broker B e i g))"
| cancelLocal: "i \<in> set (g_cancels g) \<Longrightarrow> gstep B ext g (Cancel_local i g)"
| start: "range_order ns queues \<Longrightarrow> consumeQueues (g_cfg g) hs = Inr queues \<Longrightarrow> set hs = fset (g_handlers g) \<Longrightarrow>
    gstep B ext g (fst (run_start B hs ns ctx g))"
| claim: "claim_step B ev q g = Some g' \<Longrightarrow> gstep B ext g g'"
| work: "work_step B wev p g = Some g' \<Longrightarrow> gstep B ext g g'"
| reap: "reap_tick B e g = Some g' \<Longrightarrow> gstep B ext g g'"
| reaperStop: "reaper_stop g = Some g' \<Longrightarrow> gstep B ext g g'"
| ctxDone: "gstep B ext g (cancel_run er g)"
| finish: "run_finish g = Some g' \<Longrightarrow> gstep B ext g g'"
| shutdown: "gstep B ext g (Shutdown g)"
| drain: "range_order is (s_tasks (sched g)) \<Longrightarrow> shutdown_drain is g = Some g' \<Longrightarrow> gstep B ext g g'"
| returned: "shutdown_return er g = Some g' \<Longrightarrow> gstep B ext g g'"
| other: "ext (broker g) b' \<Longrightarrow> gstep B ext g (g\<lparr>broker := b'\<rparr>)"

abbreviation gsteps :: "('b, 'q) Broker \<Rightarrow> ('b \<Rightarrow> 'b \<Rightarrow> bool) \<Rightarrow> ('b, 'q) gate \<Rightarrow> ('b, 'q) gate \<Rightarrow> bool" where
  "gsteps B ext \<equiv> (gstep B ext)\<^sup>*\<^sup>*"

end
