(* ===== verification/Runtime_Inv.thy ===== *)
theory Runtime_Inv
  imports Runtime
begin

text \<open>
  Invariants of the interleaved process of \<open>Runtime\<close>: the slots of a limiter are exactly those of
  the claim loop and of the live workers of the queue; every entry of the table of running tasks
  points to a live worker of that task that has been tracked and not yet untracked, and all of them
  are interrupted once \<open>Shutdown\<close> drains; the flags of a worker agree with the point of \<open>execute\<close> it
  has reached; and the phases of \<open>Shutdown\<close> agree with the state of the run.  Each kind of step has a
  lemma; \<open>gsteps_ginv\<close> puts them together.
\<close>

section \<open>Counting workers\<close>

definition wqueues :: "'q scheduler \<Rightarrow> (nat, string) fmap" where
  "wqueues s = fmmap w_queue (s_workers s)"

definition nworkers :: "string \<Rightarrow> (nat, string) fmap \<Rightarrow> int" where
  "nworkers q m = int (card {p. fmlookup m p = Some q})"

lemma finite_workers [simp]: "finite {p. fmlookup m p = Some q}"
  by (rule finite_subset [of _ "fset (fmdom m)"]) (auto simp: fmlookup_dom_iff)

lemma nworkers_empty [simp]: "nworkers q fmempty = 0"
  by (simp add: nworkers_def)

lemma nworkers_nonneg [simp]: "0 \<le> nworkers q m"
  by (simp add: nworkers_def)

lemma nworkers_upd:
  assumes "fmlookup m p = None"
  shows "nworkers q (fmupd p q' m) = nworkers q m + (if q' = q then 1 else 0)"
proof -
  have "{x. fmlookup (fmupd p q' m) x = Some q} =
      (if q' = q then insert p {x. fmlookup m x = Some q} else {x. fmlookup m x = Some q})"
    using assms by auto
  then show ?thesis using assms by (simp add: nworkers_def)
qed

lemma nworkers_drop:
  assumes "fmlookup m p = Some q'"
  shows "nworkers q (fmdrop p m) = nworkers q m - (if q' = q then 1 else 0)"
proof -
  have "{x. fmlookup (fmdrop p m) x = Some q} = {x. fmlookup m x = Some q} - {p}"
    by auto
  moreover have "0 < card {x. fmlookup m x = Some q}" if "q' = q"
    using that assms by (auto simp: card_gt_0_iff)
  ultimately show ?thesis using assms
    by (cases "q' = q") (simp_all add: nworkers_def card_Diff_singleton_if of_nat_diff)
qed

lemma nworkers_pos: "fmlookup m p = Some q \<Longrightarrow> 1 \<le> nworkers q m"
proof -
  assume "fmlookup m p = Some q"
  then have "0 < card {x. fmlookup m x = Some q}" by (auto simp: card_gt_0_iff)
  then show ?thesis by (simp add: nworkers_def)
qed

lemma wqueues_upd [simp]: "wqueues (s\<lparr>s_workers := fmupd p w (s_workers s)\<rparr>) = fmupd p (w_queue w) (wqueues s)"
  by (intro fmap_ext) (simp add: wqueues_def)

lemma wqueues_same:
  "fmlookup (s_workers s) p = Some w \<Longrightarrow> w_queue w' = w_queue w \<Longrightarrow> fmupd p (w_queue w') (wqueues s) = wqueues s"
  by (intro fmap_ext) (auto simp: wqueues_def)

section \<open>Slots\<close>

text \<open>The claim loop holds a slot between \<open>AcquireSlot\<close> and the point where it hands the slot on or gives it back.\<close>

fun slot_of :: "claimPc \<Rightarrow> int" where
  "slot_of CToken = 1"
| "slot_of CQueueLen = 1"
| "slot_of CReserve = 1"
| "slot_of (CDequeue res) = 1"
| "slot_of pc = 0"

definition slots_ok :: "'q runState \<Rightarrow> (nat, string) fmap \<Rightarrow> bool" where
  "slots_ok rs m \<longleftrightarrow>
     fmdom (r_limiters rs) = fmdom (r_queues rs) \<and> fmdom (r_claims rs) = fmdom (r_queues rs) \<and>
     (\<forall>q qc l pc. fmlookup (r_queues rs) q = Some qc \<longrightarrow> fmlookup (r_limiters rs) q = Some l \<longrightarrow>
        fmlookup (r_claims rs) q = Some pc \<longrightarrow>
        sem_cap l = Workers qc \<and> sem_len l = slot_of pc + nworkers q m \<and> sem_len l \<le> sem_cap l) \<and>
     (\<forall>p q. fmlookup m p = Some q \<longrightarrow> q |\<in>| fmdom (r_queues rs))"

definition slot_inv :: "'q scheduler \<Rightarrow> bool" where
  "slot_inv s \<longleftrightarrow>
     (case s_run s of
        None \<Rightarrow> s_workers s = fmempty \<and> \<not> s_started s
      | Some rs \<Rightarrow> s_started s \<and> slots_ok rs (wqueues s) \<and> fmdom (r_queues rs) |\<subseteq>| fmdom (s_running s)) \<and>
     (\<forall>q c. fmlookup (s_running s) q = Some c \<longrightarrow> c = nworkers q (wqueues s))"

lemma slots_okD:
  assumes "slots_ok rs m" "fmlookup (r_queues rs) q = Some qc" "fmlookup (r_limiters rs) q = Some l"
    "fmlookup (r_claims rs) q = Some pc"
  shows "sem_cap l = Workers qc" "sem_len l = slot_of pc + nworkers q m" "sem_len l \<le> sem_cap l"
  using assms unfolding slots_ok_def by blast+

lemma slots_okI:
  assumes "fmdom (r_limiters rs) = fmdom (r_queues rs)" "fmdom (r_claims rs) = fmdom (r_queues rs)"
    "\<And>q qc l pc. fmlookup (r_queues rs) q = Some qc \<Longrightarrow> fmlookup (r_limiters rs) q = Some l \<Longrightarrow>
       fmlookup (r_claims rs) q = Some pc \<Longrightarrow>
       sem_cap l = Workers qc \<and> sem_len l = slot_of pc + nworkers q m \<and> sem_len l \<le> sem_cap l"
    "\<And>p q. fmlookup m p = Some q \<Longrightarrow> q |\<in>| fmdom (r_queues rs)"
  shows "slots_ok rs m"
  unfolding slots_ok_def using assms by blast

lemma slots_ok_dom:
  "slots_ok rs m \<Longrightarrow> fmdom (r_limiters rs) = fmdom (r_queues rs)"
  "slots_ok rs m \<Longrightarrow> fmdom (r_claims rs) = fmdom (r_queues rs)"
  unfolding slots_ok_def by blast+

text \<open>Moving one claim loop and its limiter.\<close>

lemma slots_ok_move:
  assumes ok: "slots_ok rs m" and q: "fmlookup (r_queues rs) q = Some qc" "fmlookup (r_limiters rs) q = Some l"
    "fmlookup (r_claims rs) q = Some pc"
    and l': "sem_cap l' = sem_cap l" "sem_len l' \<le> sem_cap l" "sem_len l' = slot_of pc' + nworkers q m'"
    and m': "\<And>v. v \<noteq> q \<Longrightarrow> nworkers v m' = nworkers v m"
    "\<And>p v. fmlookup m' p = Some v \<Longrightarrow> v = q \<or> fmlookup m p = Some v"
  shows "slots_ok (rs\<lparr>r_limiters := fmupd q l' (r_limiters rs), r_claims := fmupd q pc' (r_claims rs)\<rparr>) m'"
proof -
  have "q |\<in>| fmdom (r_queues rs)" using q(1) by (rule fmdomI)
  then have dom: "finsert q (fmdom (r_queues rs)) = fmdom (r_queues rs)" by auto
  have a: "sem_cap k = Workers c \<and> sem_len k = slot_of pc2 + nworkers v m' \<and> sem_len k \<le> sem_cap k"
    if "fmlookup (r_queues rs) v = Some c" "fmlookup (fmupd q l' (r_limiters rs)) v = Some k"
      "fmlookup (fmupd q pc' (r_claims rs)) v = Some pc2" for v c k pc2
  proof (cases "v = q")
    case True
    then show ?thesis using that q l' slots_okD(1) [OF ok q] by simp
  next
    case False
    then show ?thesis using that slots_okD [OF ok that(1), of k pc2] m'(1) [OF False] by simp
  qed
  have b: "v |\<in>| fmdom (r_queues rs)" if "fmlookup m' p = Some v" for p v
    using m'(2) [OF that] ok fmdomI [OF q(1)] unfolding slots_ok_def by blast
  show ?thesis
  proof (rule slots_okI, goal_cases)
    case (3 v c k pc2)
    then show ?case by (intro a) simp_all
  next
    case (4 p v)
    then show ?case using b by simp
  qed (use slots_ok_dom [OF ok] dom in simp_all)
qed

text \<open>Only the claim loops, the limiters and the workers' queues matter.\<close>

lemma slot_inv_cong:
  assumes "s_run s' = s_run s" "s_running s' = s_running s" "wqueues s' = wqueues s" "s_started s' = s_started s"
  shows "slot_inv s' = slot_inv s"
proof -
  have "s_workers s' = fmempty \<longleftrightarrow> s_workers s = fmempty"
    using assms(3) unfolding wqueues_def by (metis fmmap_empty fmap_ext fmempty_lookup fmlookup_map option.map_disc_iff)
  then show ?thesis using assms by (cases "s_run s") (simp_all add: slot_inv_def)
qed


section \<open>Claim loops keep the slots\<close>

lemma slot_invD:
  assumes "slot_inv s" "s_run s = Some rs"
  shows "s_started s" "slots_ok rs (wqueues s)" "fmdom (r_queues rs) |\<subseteq>| fmdom (s_running s)"
    "fmlookup (s_running s) q = Some c \<Longrightarrow> c = nworkers q (wqueues s)"
  using assms by (auto simp: slot_inv_def)

lemma sched_goto: "sched (goto q pc g) = (sched g)\<lparr>s_run :=
    map_option (\<lambda>rs. rs\<lparr>r_claims := fmupd q pc (r_claims rs)\<rparr>) (s_run (sched g))\<rparr>"
  by (simp add: goto_def upd_run_def)

lemma sched_set_limiter: "sched (set_limiter q l g) = (sched g)\<lparr>s_run :=
    map_option (\<lambda>rs. rs\<lparr>r_limiters := fmupd q l (r_limiters rs)\<rparr>) (s_run (sched g))\<rparr>"
  by (simp add: set_limiter_def upd_run_def)

lemma sched_set_quota: "sched (set_quota q f g) = (sched g)\<lparr>s_quota := s_quota (sched (set_quota q f g))\<rparr>"
  by (simp add: set_quota_def split: option.splits)

lemma slot_inv_quota [simp]: "slot_inv (sched (set_quota q f g)) = slot_inv (sched g)"
  by (subst sched_set_quota, rule slot_inv_cong) (simp_all add: wqueues_def)

lemma run_set_quota [simp]: "s_run (sched (set_quota q f g)) = s_run (sched g)"
  "s_workers (sched (set_quota q f g)) = s_workers (sched g)"
  by (subst sched_set_quota, simp)+

lemma wqueues_run [simp]: "wqueues (s\<lparr>s_run := r\<rparr>) = wqueues s"
  by (simp add: wqueues_def)

lemma goto_inv:
  assumes inv: "slot_inv (sched g)" and run: "s_run (sched g) = Some rs"
    and q: "fmlookup (r_queues rs) q = Some qc" "fmlookup (r_limiters rs) q = Some l" "fmlookup (r_claims rs) q = Some pc"
    and "slot_of pc' = slot_of pc"
  shows "slot_inv (sched (goto q pc' g))"
proof -
  note ok = slot_invD [OF inv run]
  have "slots_ok (rs\<lparr>r_limiters := fmupd q l (r_limiters rs), r_claims := fmupd q pc' (r_claims rs)\<rparr>) (wqueues (sched g))"
    using slots_okD [OF ok(2) q] assms(6) by (intro slots_ok_move [OF ok(2) q]) auto
  then show ?thesis using inv ok run fmupd_same [OF q(2)]
    by (simp add: slot_inv_def sched_goto)
qed

lemma acquire_inv:
  assumes inv: "slot_inv (sched g)" and run: "s_run (sched g) = Some rs"
    and q: "fmlookup (r_queues rs) q = Some qc" "fmlookup (r_limiters rs) q = Some l" "fmlookup (r_claims rs) q = Some pc"
    and "AcquireSlot ctx pick l = Some (l', None)" and "slot_of pc = 0" and "slot_of pc' = 1"
  shows "slot_inv (sched (goto q pc' (set_limiter q l' g)))"
proof -
  note ok = slot_invD [OF inv run]
  have "slots_ok (rs\<lparr>r_limiters := fmupd q l' (r_limiters rs), r_claims := fmupd q pc' (r_claims rs)\<rparr>) (wqueues (sched g))"
    using slots_okD [OF ok(2) q] ll.acquire_ok [OF assms(6)] assms(7,8)
    by (intro slots_ok_move [OF ok(2) q]) auto
  then show ?thesis using inv ok run by (simp add: slot_inv_def sched_goto sched_set_limiter)
qed

lemma release_inv:
  assumes inv: "slot_inv (sched g)" and run: "s_run (sched g) = Some rs"
    and q: "fmlookup (r_queues rs) q = Some qc" "fmlookup (r_limiters rs) q = Some l" "fmlookup (r_claims rs) q = Some pc"
    and step: "release_goto q l pc' g = Some g'" and "slot_of pc = 1" and "slot_of pc' = 0"
  shows "slot_inv (sched g')"
proof -
  note ok = slot_invD [OF inv run]
  obtain l' where l': "ReleaseSlot l = Some l'" "g' = goto q pc' (set_limiter q l' g)"
    using step by (auto simp: release_goto_def split: option.splits)
  have "slots_ok (rs\<lparr>r_limiters := fmupd q l' (r_limiters rs), r_claims := fmupd q pc' (r_claims rs)\<rparr>) (wqueues (sched g))"
    using slots_okD [OF ok(2) q] ll.release_ok [OF l'(1)] assms(7,8)
    by (intro slots_ok_move [OF ok(2) q]) auto
  then show ?thesis using inv ok run l'(2) by (simp add: slot_inv_def sched_goto sched_set_limiter)
qed

lemma spawn_inv:
  assumes inv: "slot_inv (sched g)" and run: "s_run (sched g) = Some rs"
    and q: "fmlookup (r_queues rs) q = Some qc" "fmlookup (r_limiters rs) q = Some l" "fmlookup (r_claims rs) q = Some pc"
    and new: "fmlookup (s_workers (sched g)) p = None" and "slot_of pc = 1" and "slot_of pc' = 0"
  shows "slot_inv (sched (goto q pc' (spawn p q t qc g)))"
proof -
  note ok = slot_invD [OF inv run]
  let ?m = "fmupd p q (wqueues (sched g))"
  have p: "fmlookup (wqueues (sched g)) p = None" using new by (simp add: wqueues_def)
  note n = nworkers_upd [OF p]
  have "slots_ok (rs\<lparr>r_limiters := fmupd q l (r_limiters rs), r_claims := fmupd q pc' (r_claims rs)\<rparr>) ?m"
    using slots_okD [OF ok(2) q] assms(7,8)
    by (intro slots_ok_move [OF ok(2) q]) (auto simp: n split: if_splits)
  moreover obtain c where c: "fmlookup (s_running (sched g)) q = Some c"
    using ok(3) fmdomI [OF q(1)] by (metis fmdomE fsubsetD)
  moreover have "wqueues (sched (goto q pc' (spawn p q t qc g))) = ?m"
    using c by (intro fmap_ext) (simp add: sched_goto spawn_def Let_def add_running_def wqueues_def new_worker_def)
  ultimately show ?thesis using ok run fmupd_same [OF q(2)] slot_invD(4) [OF inv run]
    by (auto simp: slot_inv_def sched_goto spawn_def Let_def add_running_def n)
qed


lemma claim_dequeue_inv:
  assumes inv: "slot_inv (sched g)" and run: "s_run (sched g) = Some rs"
    and q: "fmlookup (r_queues rs) q = Some qc" "fmlookup (r_limiters rs) q = Some l"
      "fmlookup (r_claims rs) q = Some (CDequeue res)"
    and step: "claim_dequeue B ev q rs qc l res g = Some g'"
  shows "slot_inv (sched g')"
proof -
  obtain b' turn where d: "op_Dequeue B ((ce_env ev)\<lparr>e_ctx := dequeueCtx ev res (r_ctx rs)\<rparr>) [q] (broker g) = (b', turn)"
    by fastforce
  show ?thesis
  proof (cases turn)
    case (Claimed t)
    then show ?thesis using step d run q inv spawn_inv [of "g\<lparr>broker := b'\<rparr>" rs q qc l "CDequeue res" "ce_ptr ev" CAcquire t]
      by (auto simp: claim_dequeue_def split: if_splits)
  next
    case (DequeueErr e)
    then obtain b2 where "release_goto q l (if r_ctx rs \<noteq> None then CExited else CSleepRetry) (g\<lparr>broker := b2\<rparr>) = Some g'"
      using step d by (auto simp: claim_dequeue_def Let_def)
    then show ?thesis by (rule release_inv [rotated 5]) (use inv run q in auto)
  next
    case (WaitFor t)
    then show ?thesis using step d inv by (auto simp: claim_dequeue_def)
  qed
qed

lemma claim_reserve_inv:
  assumes inv: "slot_inv (sched g)" and run: "s_run (sched g) = Some rs"
    and q: "fmlookup (r_queues rs) q = Some qc" "fmlookup (r_limiters rs) q = Some l"
      "fmlookup (r_claims rs) q = Some CReserve"
    and step: "claim_reserve B ev q rs qg l g = Some g'"
  shows "slot_inv (sched g')"
proof -
  obtain b' res where d: "op_Reserve B ((ce_env ev)\<lparr>e_ctx := r_ctx rs\<rparr>) qg (broker g) = (b', res)" by fastforce
  consider (err) e where "res = Inl e" | (none) "res = Inr None" | (some) w where "res = Inr (Some w)"
    by (cases res) auto
  then show ?thesis
  proof cases
    case err
    then have "release_goto q l (if r_ctx rs \<noteq> None then CExited else CSleepQuota)
        (set_quota q (\<lambda>qs. qs\<lparr>qs_stalled := True\<rparr>) (g\<lparr>broker := b'\<rparr>)) = Some g'"
      using step d by (simp add: claim_reserve_def)
    then show ?thesis by (rule release_inv [rotated 5]) (use inv run q in auto)
  next
    case none
    then have "release_goto q l CSleepQuota (set_quota q (\<lambda>qs. qs\<lparr>qs_exhausted := True\<rparr>) (g\<lparr>broker := b'\<rparr>)) = Some g'"
      using step d by (simp add: claim_reserve_def)
    then show ?thesis by (rule release_inv [rotated 5]) (use inv run q in auto)
  next
    case (some w)
    then have "g' = goto q (CDequeue (Some w)) (set_quota q (\<lambda>qs. qs\<lparr>qs_exhausted := False, qs_stalled := False\<rparr>) (g\<lparr>broker := b'\<rparr>))"
      using step d by (simp add: claim_reserve_def)
    then show ?thesis using goto_inv [of "set_quota q (\<lambda>qs. qs\<lparr>qs_exhausted := False, qs_stalled := False\<rparr>) (g\<lparr>broker := b'\<rparr>)" rs q qc l CReserve "CDequeue (Some w)"]
        inv run q by simp
  qed
qed

lemma claim_step_inv:
  assumes inv: "slot_inv (sched g)" and step: "claim_step B ev q g = Some g'"
  shows "slot_inv (sched g')"
proof -
  obtain rs qc l pc where run: "s_run (sched g) = Some rs"
    and q: "fmlookup (r_queues rs) q = Some qc" "fmlookup (r_limiters rs) q = Some l" "fmlookup (r_claims rs) q = Some pc"
    and cs: "claim_at B ev q rs qc l pc g = Some g'"
    using step by (auto simp: claim_step_def split: option.splits)
  note go = goto_inv [OF inv run q] and rel = release_inv [OF inv run q]
  show ?thesis
  proof (cases pc)
    case CAcquire
    then show ?thesis using cs go acquire_inv [OF inv run q]
      by (auto simp: claim_at_def split: option.splits)
  next
    case CToken
    then show ?thesis using cs go rel by (auto simp: claim_at_def split: option.splits if_splits)
  next
    case CQueueLen
    then show ?thesis using cs go rel by (auto simp: claim_at_def split: if_splits)
  next
    case CReserve
    then show ?thesis using cs claim_reserve_inv [OF inv run q(1,2)] q(3)
      by (auto simp: claim_at_def split: option.splits)
  next
    case (CDequeue res)
    then show ?thesis using cs claim_dequeue_inv [OF inv run q(1,2)] q(3) by (auto simp: claim_at_def)
  next
    case CSleepQuota
    then show ?thesis using cs go by (auto simp: claim_at_def split: if_splits)
  qed (use cs go in \<open>auto simp: claim_at_def\<close>)
qed

section \<open>Everything else keeps the slots\<close>

text \<open>Two schedulers with the same slots.\<close>

definition same_slots :: "'q scheduler \<Rightarrow> 'q scheduler \<Rightarrow> bool" where
  "same_slots s s' \<longleftrightarrow> s_run s' = s_run s \<and> s_running s' = s_running s \<and> wqueues s' = wqueues s \<and> s_started s' = s_started s"

lemma same_slots_inv: "same_slots s s' \<Longrightarrow> slot_inv s' = slot_inv s"
  by (intro slot_inv_cong) (simp_all add: same_slots_def)

lemma same_slots_refl [simp]: "same_slots s s"
  by (simp add: same_slots_def)

lemma same_slots_trans: "same_slots s s1 \<Longrightarrow> same_slots s1 s2 \<Longrightarrow> same_slots s s2"
  by (simp add: same_slots_def)

lemma same_slots_worker:
  "fmlookup (s_workers s) p = Some w \<Longrightarrow> w_queue w' = w_queue w \<Longrightarrow>
   same_slots s (s\<lparr>s_workers := fmupd p w' (s_workers s)\<rparr>)"
  using wqueues_same [of s p w w'] by (simp add: same_slots_def)

lemma same_slots_set_worker:
  "fmlookup (s_workers (sched g)) p = Some w \<Longrightarrow> w_queue w' = w_queue w \<Longrightarrow>
   same_slots (sched g) (sched (set_worker p w' (g\<lparr>broker := b\<rparr>)))"
  "fmlookup (s_workers (sched g)) p = Some w \<Longrightarrow> w_queue w' = w_queue w \<Longrightarrow>
   same_slots (sched g) (sched (set_worker p w' g))"
  by (simp_all add: set_worker_def same_slots_worker)

lemma same_slots_upd_rt: "same_slots s (upd_rt p f s)"
  by (auto simp: upd_rt_def same_slots_worker split: option.splits)

lemma same_slots_tasks: "same_slots s (s\<lparr>s_tasks := x\<rparr>)" "same_slots s (s\<lparr>s_draining := d\<rparr>)"
  by (simp_all add: same_slots_def wqueues_def)

lemma same_slots_track: "same_slots s (track i p s)"
  using same_slots_trans [OF same_slots_tasks(1) same_slots_upd_rt]
  by (auto simp: track_def Let_def same_slots_tasks)

lemma same_slots_untrack: "same_slots s (untrack i p s)"
  by (simp add: untrack_def same_slots_tasks)

lemma same_slots_cancelLocal: "same_slots s (cancelLocal i s)"
  by (simp add: cancelLocal_def same_slots_upd_rt split: option.splits)

lemma same_slots_drain: "same_slots s (drain is s)"
proof -
  have "same_slots s0 s1 \<Longrightarrow> same_slots s0 (fold (\<lambda>i s. case fmlookup (s_tasks s) i of None \<Rightarrow> s
      | Some p \<Rightarrow> upd_rt p interrupt s) is s1)" for s0 s1 :: "'a scheduler"
    by (induction "is" arbitrary: s1) (auto split: option.splits intro: same_slots_trans [OF _ same_slots_upd_rt])
  then show ?thesis unfolding drain_def by (simp add: same_slots_tasks)
qed


lemma worker_exit_inv:
  assumes inv: "slot_inv (sched g)" and p: "fmlookup (s_workers (sched g)) p = Some w"
    and step: "worker_exit p w g = Some g'"
  shows "slot_inv (sched g')"
proof -
  let ?q = "w_queue w"
  obtain rs l l' where run: "s_run (sched g) = Some rs" and l: "fmlookup (r_limiters rs) ?q = Some l"
    and l': "ReleaseSlot l = Some l'"
    and g': "g' = (let g1 = set_limiter ?q l' g; s1 = add_running ?q (-1) (sched g1)
       in g1\<lparr>sched := s1\<lparr>s_workers := fmdrop p (s_workers s1)\<rparr>\<rparr>)"
    using step by (auto simp: worker_exit_def Let_def split: option.splits)
  note ok = slot_invD [OF inv run]
  have dom: "?q |\<in>| fmdom (r_queues rs)" using fmdomI [OF l] slots_ok_dom(1) [OF ok(2)] by simp
  obtain qc pc where q: "fmlookup (r_queues rs) ?q = Some qc" "fmlookup (r_claims rs) ?q = Some pc"
    using dom slots_ok_dom(2) [OF ok(2)] by (metis fmdomE)
  obtain c where c: "fmlookup (s_running (sched g)) ?q = Some c" using ok(3) dom by (metis fmdomE fsubsetD)
  let ?m = "fmdrop p (wqueues (sched g))"
  have pq: "fmlookup (wqueues (sched g)) p = Some ?q" using p by (simp add: wqueues_def)
  note n = nworkers_drop [OF pq]
  have "slots_ok (rs\<lparr>r_limiters := fmupd ?q l' (r_limiters rs), r_claims := fmupd ?q pc (r_claims rs)\<rparr>) ?m"
    using slots_okD [OF ok(2) q(1) l q(2)] ll.release_ok [OF l']
    by (intro slots_ok_move [OF ok(2) q(1) l q(2)]) (auto simp: n split: if_splits)
  moreover have "wqueues (sched g') = ?m"
    unfolding g' using c by (intro fmap_ext) (simp add: sched_set_limiter Let_def add_running_def wqueues_def)
  ultimately show ?thesis using ok run c fmupd_same [OF q(2)] slot_invD(4) [OF inv run] unfolding g'
    by (auto simp: slot_inv_def sched_set_limiter Let_def add_running_def n)
qed

lemma worker_next_inv:
  assumes inv: "slot_inv (sched g)" and p: "fmlookup (s_workers (sched g)) p = Some w"
    and step: "worker_next B e jitter p w g = Some g'"
  shows "slot_inv (sched g')"
proof -
  note same = same_slots_set_worker [OF p]
  have inv1: "slot_inv (sched (set_worker p w' (g\<lparr>broker := b\<rparr>)))" "slot_inv (sched (set_worker p w' g))"
    "slot_inv (track (ID (w_task w)) p (sched (set_worker p w' g)))"
    "slot_inv (untrack (ID (w_task w)) p (sched (set_worker p w' g)))"
    if "w_queue w' = w_queue w" for w' b
    using inv same_slots_inv [OF same(1) [OF that]] same_slots_inv [OF same(2) [OF that]]
      same_slots_inv [OF same_slots_track] same_slots_inv [OF same_slots_untrack] by blast+
  show ?thesis
  proof (cases "w_phase w")
    case PExit
    then show ?thesis using step worker_exit_inv [OF inv p] by (simp add: worker_next_def Let_def)
  qed (use step in \<open>auto simp: worker_next_def Let_def inv1 split: prod.splits if_splits\<close>)
qed

lemma work_step_inv:
  assumes inv: "slot_inv (sched g)" and step: "work_step B ev p g = Some g'"
  shows "slot_inv (sched g')"
proof -
  obtain w where p: "fmlookup (s_workers (sched g)) p = Some w"
    using step by (auto simp: work_step_def split: option.splits)
  have inv1: "slot_inv (sched (set_worker p w' (g\<lparr>broker := b\<rparr>)))" "slot_inv (sched (set_worker p w' g))"
    if "w_queue w' = w_queue w" for w' b
    using inv same_slots_inv [OF same_slots_set_worker(1) [OF p that]]
      same_slots_inv [OF same_slots_set_worker(2) [OF p that]] by blast+
  have hb: "slot_inv (sched (heartbeat_tick B e p w g))" and rn: "slot_inv (sched (fst (renew B e p w g)))" for e
    by (auto simp: heartbeat_tick_def renew_def inv1 split: prod.splits)
  show ?thesis
  proof (cases ev)
    case (WNext e j)
    then show ?thesis using step p worker_next_inv [OF inv p] by (simp add: work_step_def)
  next
    case (WHeartbeat e)
    then show ?thesis using step p hb by (auto simp: work_step_def split: phase.splits bool.splits)
  next
    case WHeartbeatStop
    then show ?thesis using step p inv1 by (auto simp: work_step_def split: phase.splits bool.splits)
  next
    case (WRenew e)
    then show ?thesis using step p rn by (auto simp: work_step_def split: phase.splits)
  next
    case (WReturn out)
    then show ?thesis using step p inv1 by (auto simp: work_step_def split: phase.splits prod.splits)
  qed
qed

section \<open>Starting a run\<close>

definition cfg_ok :: "config \<Rightarrow> bool" where
  "cfg_ok c \<longleftrightarrow> (\<forall>n q. fmlookup (Queues c) n = Some q \<longrightarrow> 1 \<le> Workers q)"

lemma queueFor_workers: "cfg_ok c \<Longrightarrow> queueFor c typ = Inr (name, qc) \<Longrightarrow> 1 \<le> Workers qc"
  by (auto simp: queueFor_def cfg_ok_def Let_def split: option.splits if_splits)

lemma consumeQueues_workers:
  assumes "consumeQueues c hs = Inr queues" and "cfg_ok c" and "fmlookup queues q = Some qc"
  shows "1 \<le> Workers qc"
proof -
  have "consumeQueues_loop c hs out = Inr queues \<Longrightarrow> (\<And>q qc. fmlookup out q = Some qc \<Longrightarrow> 1 \<le> Workers qc) \<Longrightarrow>
      fmlookup queues q = Some qc \<Longrightarrow> 1 \<le> Workers qc" for out
  proof (induction hs arbitrary: out)
    case (Cons ty hs)
    then obtain name qc' where "queueFor c ty = Inr (name, qc')" by (cases "queueFor c ty") auto
    then have "consumeQueues_loop c hs (fmupd name qc' out) = Inr queues" "1 \<le> Workers qc'"
      using Cons.prems(1) queueFor_workers [OF assms(2)] by simp_all
    then show ?case using Cons.prems(2,3) by (intro Cons.IH [of "fmupd name qc' out"]) (auto split: if_splits)
  qed simp
  then show ?thesis using assms unfolding consumeQueues_def by fastforce
qed

text \<open>What the loop over the queues builds, with in-process limiters.\<close>

lemma build_quota_keeps:
  "build_quota B name qc bt = (bt', e) \<Longrightarrow> bt_running bt' = bt_running bt \<and> bt_limiters bt' = bt_limiters bt"
  by (auto simp: build_quota_def split: if_splits option.splits sum.splits)

lemma build_queues_running:
  assumes "build_queues B queues ns bt = (bt', e)"
  shows "fmlookup (bt_running bt') q = Some c \<Longrightarrow> fmlookup (bt_running bt) q = Some c \<or> c = 0"
  using assms
proof (induction ns arbitrary: bt)
  case (Cons n ns)
  show ?case
  proof (cases "fmlookup queues n")
    case None
    then show ?thesis using Cons by simp
  next
    case (Some qc)
    obtain bt1 e1 where b1: "build_quota B n qc (build_running n bt) = (bt1, e1)" by fastforce
    have r1: "fmlookup (bt_running bt1) q = Some c \<Longrightarrow> fmlookup (bt_running bt) q = Some c \<or> c = 0" for q c
      using build_quota_keeps [OF b1] by (auto simp: build_running_def split: if_splits)
    obtain bt2 e2 where b2: "build_limiter B n qc bt1 = (bt2, e2)" by fastforce
    have "bt_running bt2 = bt_running bt1"
      using b2 by (auto simp: build_limiter_def split: option.splits sum.splits)
    then have "e1 = None \<and> e2 = None \<longrightarrow> ?thesis"
      using Cons.IH [of bt2] Cons.prems Some b1 b2 r1 [of q c] by (cases e1; cases e2) auto
    then show ?thesis using Cons.prems Some b1 b2 r1 [of q c] \<open>bt_running bt2 = bt_running bt1\<close>
      by (cases e1; cases e2) auto
  qed
qed simp

lemma build_queues_ok:
  assumes "op_QueueLimiter B = None" and "build_queues B queues ns bt = (bt', None)"
  shows "(\<forall>q. fmlookup (bt_limiters bt') q =
      (if q \<in> set ns then (case fmlookup queues q of
          None \<Rightarrow> fmlookup (bt_limiters bt) q
        | Some qc \<Rightarrow> Some (newLocalLimiter (Workers qc) (RPS qc) (Burst qc)))
       else fmlookup (bt_limiters bt) q)) \<and>
    (\<forall>q. q |\<in>| fmdom (bt_running bt) \<or> q \<in> set ns \<and> q |\<in>| fmdom queues \<longrightarrow> q |\<in>| fmdom (bt_running bt'))"
  using assms(2)
proof (induction ns arbitrary: bt)
  case (Cons n ns)
  show ?case
  proof (cases "fmlookup queues n")
    case None
    then show ?thesis using Cons by (auto simp: fmdom_notI)
  next
    case (Some qc)
    obtain bt1 where b1: "build_quota B n qc (build_running n bt) = (bt1, None)"
      using Cons.prems Some by (auto split: prod.splits option.splits)
    let ?bt2 = "bt1\<lparr>bt_limiters := fmupd n (newLocalLimiter (Workers qc) (RPS qc) (Burst qc)) (bt_limiters bt1)\<rparr>"
    have "build_queues B queues ns ?bt2 = (bt', None)"
      using Cons.prems Some b1 assms(1) by (simp add: build_limiter_def)
    note ih = Cons.IH [OF this]
    have "bt_limiters bt1 = bt_limiters bt" "n |\<in>| fmdom (bt_running bt1)"
      "\<And>q. q |\<in>| fmdom (bt_running bt) \<Longrightarrow> q |\<in>| fmdom (bt_running bt1)"
      using build_quota_keeps [OF b1] by (auto simp: build_running_def fmdomI split: if_splits)
    then show ?thesis using ih Some by (auto split: option.splits)
  qed
qed simp


lemma run_start_inv:
  assumes inv: "slot_inv (sched g)" and lim: "op_QueueLimiter B = None" and cfg: "cfg_ok (g_cfg g)"
    and ns: "consumeQueues (g_cfg g) hs = Inr queues" "range_order ns queues"
    and step: "run_start B hs ns ctx g = (g', er)"
  shows "slot_inv (sched g')"
proof (cases "queues = fmempty \<or> g_shutdown g \<or> s_started (sched g)")
  case True
  then show ?thesis using step ns(1) inv by (auto simp: run_start_def split: if_splits prod.splits option.splits)
next
  case False
  then have run: "s_run (sched g) = None" using inv by (auto simp: slot_inv_def split: option.splits)
  then have none: "s_workers (sched g) = fmempty" "wqueues (sched g) = fmempty"
    and zero: "fmlookup (s_running (sched g)) q = Some c \<Longrightarrow> c = 0" for q c
    using inv by (auto simp: slot_inv_def wqueues_def)
  let ?bt = "\<lparr>bt_running = s_running (sched g), bt_quota = s_quota (sched g),
      bt_limiters = fmempty, bt_quotas = fmempty\<rparr>"
  obtain bt' er' where b: "build_queues B queues ns ?bt = (bt', er')" by fastforce
  have zero': "fmlookup (bt_running bt') q = Some c \<Longrightarrow> c = 0" for q c
    using build_queues_running [OF b, of q c] zero by auto
  show ?thesis
  proof (cases er')
    case (Some e)
    then show ?thesis using False step ns(1) b none run zero' inv
      by (auto simp: run_start_def slot_inv_def wqueues_def)
  next
    case None
    have set_ns: "q \<in> set ns \<longleftrightarrow> q |\<in>| fmdom queues" for q
      using ns(2) by (simp add: range_order_def)
    have lims: "fmlookup (bt_limiters bt') q =
        map_option (\<lambda>qc. newLocalLimiter (Workers qc) (RPS qc) (Burst qc)) (fmlookup queues q)" for q
      using build_queues_ok [OF lim b [unfolded None]] set_ns
      by (auto simp: fmdomI split: option.splits)
    have "bt_limiters bt' = fmmap (\<lambda>qc. newLocalLimiter (Workers qc) (RPS qc) (Burst qc)) queues"
      by (intro fmap_ext) (simp add: lims)
    then have "fmdom (bt_limiters bt') = fmdom queues" by simp
    moreover have "fmdom queues |\<subseteq>| fmdom (bt_running bt')"
      using build_queues_ok [OF lim b [unfolded None]] set_ns by auto
    moreover have "sem_cap l = Workers qc \<and> sem_len l = 0 \<and> 0 \<le> Workers qc"
      if "fmlookup queues q = Some qc" "fmlookup (bt_limiters bt') q = Some l" for q qc l
      using that lims [of q] consumeQueues_workers [OF ns(1) cfg that(1)] by (auto simp: newLocalLimiter_def)
    ultimately have "slots_ok \<lparr>r_ctx = ctx, r_queues = queues, r_limiters = bt_limiters bt',
        r_quotas = bt_quotas bt', r_claims = fmmap (\<lambda>_. CAcquire) queues, r_reaper = True\<rparr> fmempty"
      by (intro slots_okI) (auto simp: none)
    then have ok: "slot_inv ((sched g)\<lparr>s_running := bt_running bt', s_quota := bt_quota bt', s_started := True,
        s_run := Some \<lparr>r_ctx = ctx, r_queues = queues, r_limiters = bt_limiters bt', r_quotas = bt_quotas bt',
          r_claims = fmmap (\<lambda>_. CAcquire) queues, r_reaper = True\<rparr>\<rparr>)"
      using zero' \<open>fmdom queues |\<subseteq>| fmdom (bt_running bt')\<close> none by (simp add: slot_inv_def wqueues_def)
    have "g' = g\<lparr>sched := (sched g)\<lparr>s_running := bt_running bt', s_quota := bt_quota bt', s_started := True,
        s_run := Some \<lparr>r_ctx = ctx, r_queues = queues, r_limiters = bt_limiters bt', r_quotas = bt_quotas bt',
          r_claims = fmmap (\<lambda>_. CAcquire) queues, r_reaper = True\<rparr>\<rparr>\<rparr>"
      using False None step ns(1) b by (simp add: run_start_def)
    then show ?thesis using ok by simp
  qed
qed

section \<open>The table of running tasks\<close>

fun in_table :: "phase \<Rightarrow> bool" where
  "in_table PStart = False"
| "in_table PSkip = False"
| "in_table PTrack = False"
| "in_table PExit = False"
| "in_table ph = True"

text \<open>What is known of the flags at each point of \<open>execute\<close>.\<close>

fun phase_ok :: "phase \<Rightarrow> runningTask \<Rightarrow> bool" where
  "phase_ok PStart rt = (\<not> rt_ctxDone rt)"
| "phase_ok PSkip rt = (\<not> rt_ctxDone rt)"
| "phase_ok PTrack rt = (\<not> rt_ctxDone rt)"
| "phase_ok (PReadCanceled res er) rt = (\<not> rt_leaseLost rt)"
| "phase_ok (PReadRequeue er) rt = (\<not> rt_leaseLost rt)"
| "phase_ok (PSend r) rt = (\<not> rt_leaseLost rt \<and> (r = RFinishCanceled \<longrightarrow> rt_canceled rt) \<and>
     (r = RRequeue \<longrightarrow> rt_requeue rt) \<and> (\<forall>msg n retryAt. r \<noteq> RFail msg (FailOther n) retryAt))"
| "phase_ok ph rt = True"

definition worker_ok :: "worker \<Rightarrow> bool" where
  "worker_ok w \<longleftrightarrow> phase_ok (w_phase w) (w_rt w) \<and>
     (rt_canceled (w_rt w) \<or> rt_leaseLost (w_rt w) \<or> rt_requeue (w_rt w) \<longrightarrow> rt_ctxDone (w_rt w))"

definition entry_ok :: "bool \<Rightarrow> id \<Rightarrow> worker \<Rightarrow> bool" where
  "entry_ok draining i w \<longleftrightarrow> ID (w_task w) = i \<and> in_table (w_phase w) \<and>
     (draining \<longrightarrow> rt_requeue (w_rt w) \<and> rt_ctxDone (w_rt w))"

definition table_inv :: "'q scheduler \<Rightarrow> bool" where
  "table_inv s \<longleftrightarrow>
     (\<forall>p w. fmlookup (s_workers s) p = Some w \<longrightarrow> worker_ok w) \<and>
     (\<forall>i p. fmlookup (s_tasks s) i = Some p \<longrightarrow>
        (\<exists>w. fmlookup (s_workers s) p = Some w \<and> entry_ok (s_draining s) i w))"

lemma table_invD:
  assumes "table_inv s"
  shows "fmlookup (s_workers s) p = Some w \<Longrightarrow> worker_ok w"
    "fmlookup (s_tasks s) i = Some p \<Longrightarrow> \<exists>w. fmlookup (s_workers s) p = Some w \<and> entry_ok (s_draining s) i w"
  using assms unfolding table_inv_def by blast+

lemma table_inv_cong:
  "s_workers s' = s_workers s \<Longrightarrow> s_tasks s' = s_tasks s \<Longrightarrow> s_draining s' = s_draining s \<Longrightarrow>
   table_inv s' = table_inv s"
  by (simp add: table_inv_def)

text \<open>A worker moves on without leaving the table.\<close>

definition moves_to :: "worker \<Rightarrow> worker \<Rightarrow> bool" where
  "moves_to w w' \<longleftrightarrow> w_task w' = w_task w \<and> (in_table (w_phase w) \<longrightarrow> in_table (w_phase w')) \<and>
     (rt_requeue (w_rt w) \<longrightarrow> rt_requeue (w_rt w')) \<and> (rt_ctxDone (w_rt w) \<longrightarrow> rt_ctxDone (w_rt w'))"

lemma table_invI:
  assumes "\<And>p w. fmlookup (s_workers s) p = Some w \<Longrightarrow> worker_ok w"
    "\<And>i p. fmlookup (s_tasks s) i = Some p \<Longrightarrow> \<exists>w. fmlookup (s_workers s) p = Some w \<and> entry_ok (s_draining s) i w"
  shows "table_inv s"
  using assms unfolding table_inv_def by blast

lemma entry_ok_moves: "entry_ok d i w \<Longrightarrow> moves_to w w' \<Longrightarrow> entry_ok d i w'"
  by (auto simp: entry_ok_def moves_to_def)

lemma table_inv_worker:
  assumes inv: "table_inv s" and p: "fmlookup (s_workers s) p = Some w" and ok: "worker_ok w'" "moves_to w w'"
  shows "table_inv (s\<lparr>s_workers := fmupd p w' (s_workers s)\<rparr>)"
proof (rule table_invI, goal_cases)
  case (1 p' v)
  then show ?case using table_invD(1) [OF inv, of p' v] ok by (auto split: if_splits)
next
  case (2 i p')
  then show ?case using table_invD(2) [OF inv, of i p'] p entry_ok_moves [OF _ ok(2)] by auto
qed

lemma table_inv_new:
  assumes inv: "table_inv s" and p: "fmlookup (s_workers s) p = None" and ok: "worker_ok w"
  shows "table_inv (s\<lparr>s_workers := fmupd p w (s_workers s)\<rparr>)"
proof (rule table_invI, goal_cases)
  case (1 p' v)
  then show ?case using table_invD(1) [OF inv, of p' v] ok by (auto split: if_splits)
next
  case (2 i p')
  then show ?case using table_invD(2) [OF inv, of i p'] p by auto
qed

lemma table_inv_gone:
  assumes inv: "table_inv s" and p: "fmlookup (s_workers s) p = Some w" and ph: "\<not> in_table (w_phase w)"
  shows "table_inv (s\<lparr>s_workers := fmdrop p (s_workers s)\<rparr>)"
proof (rule table_invI, goal_cases)
  case (1 p' v)
  then show ?case using table_invD(1) [OF inv, of p' v] by (auto split: if_splits)
next
  case (2 i p')
  then show ?case using table_invD(2) [OF inv, of i p'] p ph by (auto simp: entry_ok_def)
qed

lemma moves_rt:
  "worker_ok w \<Longrightarrow> fmlookup (s_workers s) p = Some w \<Longrightarrow> table_inv s \<Longrightarrow> worker_ok (w\<lparr>w_rt := f (w_rt w)\<rparr>) \<Longrightarrow>
   moves_to w (w\<lparr>w_rt := f (w_rt w)\<rparr>) \<Longrightarrow> table_inv (upd_rt p f s)"
  by (auto simp: upd_rt_def intro: table_inv_worker)

text \<open>An entry of the table points to a worker that has been tracked: its flags may be raised at any time.\<close>

lemma interrupt_ok:
  assumes "entry_ok d i w" "worker_ok w"
  shows "worker_ok (w\<lparr>w_rt := interrupt (w_rt w)\<rparr>)" "moves_to w (w\<lparr>w_rt := interrupt (w_rt w)\<rparr>)"
    "entry_ok True i (w\<lparr>w_rt := interrupt (w_rt w)\<rparr>)"
  using assms by (cases "w_phase w"; auto simp: worker_ok_def moves_to_def entry_ok_def interrupt_def)+

lemma cancelLocal_table:
  assumes inv: "table_inv s"
  shows "table_inv (cancelLocal i s)"
proof (cases "fmlookup (s_tasks s) i")
  case (Some p)
  then obtain w where w: "fmlookup (s_workers s) p = Some w" "entry_ok (s_draining s) i w"
    using table_invD(2) [OF inv] by blast
  then have "worker_ok w" using table_invD(1) [OF inv] by blast
  then have "worker_ok (w\<lparr>w_rt := (w_rt w)\<lparr>rt_canceled := True, rt_ctxDone := True\<rparr>\<rparr>)"
    using w(2) by (cases "w_phase w") (auto simp: worker_ok_def entry_ok_def)
  then show ?thesis using Some w inv
    by (auto simp: cancelLocal_def upd_rt_def moves_to_def intro!: table_inv_worker)
qed (simp add: cancelLocal_def inv)


text \<open>The sweep of \<open>Shutdown\<close> over the table.\<close>

definition swept :: "id set \<Rightarrow> 'q scheduler \<Rightarrow> bool" where
  "swept I s \<longleftrightarrow> table_inv (s\<lparr>s_draining := False\<rparr>) \<and>
     (\<forall>i\<in>I. \<forall>p w. fmlookup (s_tasks s) i = Some p \<longrightarrow> fmlookup (s_workers s) p = Some w \<longrightarrow>
        rt_requeue (w_rt w) \<and> rt_ctxDone (w_rt w))"

lemma swept_step:
  assumes "swept I s" and "fmlookup (s_tasks s) i = Some p"
  shows "swept (insert i I) (upd_rt p interrupt s)"
proof -
  have inv: "table_inv (s\<lparr>s_draining := False\<rparr>)" using assms(1) by (simp add: swept_def)
  then obtain w where w: "fmlookup (s_workers s) p = Some w" "entry_ok False i w" "worker_ok w"
    using table_invD [OF inv] assms(2) by fastforce
  note ok = interrupt_ok [OF w(2,3)]
  have "table_inv ((s\<lparr>s_draining := False\<rparr>)\<lparr>s_workers := fmupd p (w\<lparr>w_rt := interrupt (w_rt w)\<rparr>) (s_workers s)\<rparr>)"
    using table_inv_worker [OF inv _ ok(1,2), of p] w(1) by simp
  moreover have "upd_rt p interrupt s = s\<lparr>s_workers := fmupd p (w\<lparr>w_rt := interrupt (w_rt w)\<rparr>) (s_workers s)\<rparr>"
    using w(1) by (simp add: upd_rt_def)
  ultimately have "table_inv ((upd_rt p interrupt s)\<lparr>s_draining := False\<rparr>)"
    by (subst table_inv_cong [where s = "s\<lparr>s_draining := False, s_workers := fmupd p (w\<lparr>w_rt := interrupt (w_rt w)\<rparr>) (s_workers s)\<rparr>"])
      simp_all
  then show ?thesis using assms w(1)
    by (auto simp: swept_def upd_rt_def interrupt_def)
qed

lemma drain_table:
  assumes inv: "table_inv s" and "is": "range_order is (s_tasks s)"
  shows "table_inv (drain is s)" "s_tasks (drain is s) = s_tasks s" "s_draining (drain is s)"
proof -
  let ?f = "\<lambda>i s. case fmlookup (s_tasks s) i of None \<Rightarrow> s | Some p \<Rightarrow> upd_rt p interrupt s"
  have keep: "s_tasks (fold ?f xs s1) = s_tasks s1 \<and> s_draining (fold ?f xs s1) = s_draining s1"
    for xs and s1 :: "'a scheduler"
    by (induction xs arbitrary: s1) (auto simp: upd_rt_def split: option.splits)
  have sweep: "swept I s1 \<Longrightarrow> swept (set xs \<union> I) (fold ?f xs s1)" for xs I and s1 :: "'a scheduler"
  proof (induction xs arbitrary: s1 I)
    case (Cons i xs)
    have "swept (insert i I) (?f i s1)"
    proof (cases "fmlookup (s_tasks s1) i")
      case None
      then show ?thesis using Cons.prems by (simp add: swept_def)
    next
      case (Some p)
      then show ?thesis using swept_step [OF Cons.prems Some] by simp
    qed
    from Cons.IH [OF this] show ?case by simp
  qed simp
  have "table_inv (s\<lparr>s_draining := False\<rparr>)"
    using table_invD [OF inv] by (intro table_invI) (auto simp: entry_ok_def, fastforce)
  then have "swept {} (s\<lparr>s_draining := True\<rparr>)" by (simp add: swept_def)
  from sweep [OF this, of "is"] have sw: "swept (set is) (drain is s)" by (simp add: drain_def)
  show tasks: "s_tasks (drain is s) = s_tasks s" and d: "s_draining (drain is s)"
    using keep by (simp_all add: drain_def)
  show "table_inv (drain is s)"
  proof (rule table_invI)
    show "worker_ok w" if "fmlookup (s_workers (drain is s)) p = Some w" for p w
      using sw that table_invD(1) [of "(drain is s)\<lparr>s_draining := False\<rparr>" p w] by (simp add: swept_def)
    fix i p assume ip: "fmlookup (s_tasks (drain is s)) i = Some p"
    then have "i \<in> set is" using "is" tasks by (auto simp: range_order_in)
    moreover obtain w where "fmlookup (s_workers (drain is s)) p = Some w" "entry_ok False i w"
      using sw ip table_invD(2) [of "(drain is s)\<lparr>s_draining := False\<rparr>" i p] by (auto simp: swept_def)
    ultimately show "\<exists>w. fmlookup (s_workers (drain is s)) p = Some w \<and> entry_ok (s_draining (drain is s)) i w"
      using sw ip by (auto simp: swept_def entry_ok_def)
  qed
qed

section \<open>Workers keep the table\<close>

lemma set_worker_table:
  assumes "table_inv (sched g)" "fmlookup (s_workers (sched g)) p = Some w" "worker_ok w'" "moves_to w w'"
  shows "table_inv (sched (set_worker p w' g))" "table_inv (sched (set_worker p w' (g\<lparr>broker := b\<rparr>)))"
  using table_inv_worker [OF assms] by (simp_all add: set_worker_def)

lemma track_table:
  assumes inv: "table_inv s" and p: "fmlookup (s_workers s) p = Some w" and ph: "w_phase w = PTrack"
  shows "table_inv (track (ID (w_task w)) p (s\<lparr>s_workers := fmupd p (w\<lparr>w_phase := PRun hb\<rparr>) (s_workers s)\<rparr>))"
proof -
  let ?w = "if s_draining s then w\<lparr>w_phase := PRun hb, w_rt := interrupt (w_rt w)\<rparr> else w\<lparr>w_phase := PRun hb\<rparr>"
  have ok: "worker_ok w" using table_invD(1) [OF inv p] .
  have eq: "track (ID (w_task w)) p (s\<lparr>s_workers := fmupd p (w\<lparr>w_phase := PRun hb\<rparr>) (s_workers s)\<rparr>) =
      s\<lparr>s_workers := fmupd p ?w (s_workers s), s_tasks := fmupd (ID (w_task w)) p (s_tasks s)\<rparr>"
    by (auto simp: track_def Let_def upd_rt_def)
  have w': "worker_ok ?w" "entry_ok (s_draining s) (ID (w_task w)) ?w" "moves_to w ?w"
    using ok ph by (auto simp: worker_ok_def entry_ok_def interrupt_def moves_to_def)
  have inv': "table_inv (s\<lparr>s_workers := fmupd p ?w (s_workers s)\<rparr>)"
    by (rule table_inv_worker [OF inv p w'(1,3)])
  show ?thesis unfolding eq
  proof (rule table_invI, goal_cases)
    case (1 p' v)
    then show ?case using table_invD(1) [OF inv', of p' v] by simp
  next
    case (2 i p')
    then show ?case using table_invD(2) [OF inv', of i p'] w'(2) by (cases "i = ID (w_task w)") auto
  qed
qed

lemma untrack_table:
  assumes inv: "table_inv s" and p: "fmlookup (s_workers s) p = Some w"
    and w': "worker_ok w'" "w_task w' = w_task w"
  shows "table_inv (untrack (ID (w_task w)) p (s\<lparr>s_workers := fmupd p w' (s_workers s)\<rparr>))"
proof (rule table_invI, goal_cases)
  case (1 p' v)
  then show ?case using table_invD(1) [OF inv, of p' v] w' by (auto simp: untrack_def split: if_splits)
next
  case (2 i p')
  then have ip: "fmlookup (s_tasks s) i = Some p'" "p' = p \<longrightarrow> i \<noteq> ID (w_task w)"
    by (auto simp: untrack_def split: if_splits)
  then obtain v where v: "fmlookup (s_workers s) p' = Some v" "entry_ok (s_draining s) i v"
    using table_invD(2) [OF inv] by blast
  then have "p' \<noteq> p" using p ip(2) by (auto simp: entry_ok_def)
  then show ?case using v by (auto simp: untrack_def)
qed


text \<open>What every step of a worker leaves alone.\<close>

definition frame :: "('b, 'q) gate \<Rightarrow> ('b, 'q) gate \<Rightarrow> bool" where
  "frame g g' \<longleftrightarrow> g_cfg g' = g_cfg g \<and> g_handlers g' = g_handlers g \<and> g_shutdown g' = g_shutdown g \<and>
     g_shutdownPc g' = g_shutdownPc g \<and> g_cancels g' = g_cancels g \<and>
     map_option r_ctx (s_run (sched g')) = map_option r_ctx (s_run (sched g)) \<and>
     map_option r_queues (s_run (sched g')) = map_option r_queues (s_run (sched g)) \<and>
     map_option r_quotas (s_run (sched g')) = map_option r_quotas (s_run (sched g)) \<and>
     s_draining (sched g') = s_draining (sched g)"

lemma frame_refl [simp]: "frame g g"
  by (simp add: frame_def)

lemma frame_trans: "frame g g1 \<Longrightarrow> frame g1 g2 \<Longrightarrow> frame g g2"
  by (simp add: frame_def)

lemma frame_simps [simp]:
  "frame g (g\<lparr>broker := b\<rparr>)" "frame g (goto q pc g)" "frame g (set_limiter q l g)"
  "frame g (set_worker p w g)"
  by (simp_all add: frame_def goto_def set_limiter_def upd_run_def set_worker_def option.map_comp o_def)

lemma upd_rt_keeps [simp]:
  "s_run (upd_rt p f s) = s_run s" "s_draining (upd_rt p f s) = s_draining s" "s_tasks (upd_rt p f s) = s_tasks s"
  by (simp_all add: upd_rt_def split: option.splits)

lemma track_keeps [simp]:
  "s_run (track i p s) = s_run s" "s_draining (track i p s) = s_draining s"
  "s_run (untrack i p s) = s_run s" "s_draining (untrack i p s) = s_draining s"
  by (simp_all add: track_def untrack_def Let_def)

lemma frame_more [simp]:
  "frame g (set_quota q f g)" "frame g (spawn p q t qc g)"
  "frame g (g\<lparr>sched := track i p (sched g)\<rparr>)" "frame g (g\<lparr>sched := untrack i p (sched g)\<rparr>)"
  by (simp_all add: frame_def set_quota_def spawn_def Let_def add_running_def split: option.splits)

lemma release_goto_frame:
  "release_goto q l pc g = Some g' \<Longrightarrow> frame g g' \<and> s_workers (sched g') = s_workers (sched g) \<and>
     s_tasks (sched g') = s_tasks (sched g)"
  using frame_trans [OF frame_simps(3) frame_simps(2)]
  by (auto simp: release_goto_def sched_goto sched_set_limiter split: option.splits)

lemma set_quota_tasks [simp]: "s_tasks (sched (set_quota q f g)) = s_tasks (sched g)"
  by (subst sched_set_quota) simp

text \<open>A claim loop adds at most one worker and touches nothing else of the table.\<close>

definition claim_frame :: "('b, 'q) gate \<Rightarrow> ('b, 'q) gate \<Rightarrow> bool" where
  "claim_frame g g' \<longleftrightarrow> frame g g' \<and> s_tasks (sched g') = s_tasks (sched g) \<and>
     (s_workers (sched g') = s_workers (sched g) \<or>
      (\<exists>p q t qc. fmlookup (s_workers (sched g)) p = None \<and>
         s_workers (sched g') = fmupd p (new_worker q t qc) (s_workers (sched g))))"

lemma claim_frameI:
  "frame g g1 \<Longrightarrow> s_tasks (sched g1) = s_tasks (sched g) \<Longrightarrow> s_workers (sched g1) = s_workers (sched g) \<Longrightarrow>
   release_goto q l pc g1 = Some g' \<Longrightarrow> claim_frame g g'"
  "frame g g1 \<Longrightarrow> s_tasks (sched g1) = s_tasks (sched g) \<Longrightarrow> s_workers (sched g1) = s_workers (sched g) \<Longrightarrow>
   claim_frame g (goto q pc g1)"
  using release_goto_frame [of q l pc g1 g'] frame_trans [of g g1 g'] frame_trans [OF _ frame_simps(2)]
  by (auto simp: claim_frame_def sched_goto)

lemma claim_reserve_frame:
  assumes "claim_reserve B ev q rs qg l g = Some g'"
  shows "claim_frame g g'"
proof -
  obtain b' res where d: "op_Reserve B ((ce_env ev)\<lparr>e_ctx := r_ctx rs\<rparr>) qg (broker g) = (b', res)" by fastforce
  have "frame g (set_quota q f (g\<lparr>broker := b'\<rparr>))" for f
    by (rule frame_trans [OF frame_simps(1) frame_more(1)])
  note rel = claim_frameI(1) [OF this] and go = claim_frameI(2) [OF this]
  show ?thesis using assms d rel go
    by (auto simp: claim_reserve_def split: sum.splits option.splits if_splits)
qed

lemma claim_dequeue_frame:
  assumes "claim_dequeue B ev q rs qc l res g = Some g'"
  shows "claim_frame g g'"
proof -
  obtain b' turn where d: "op_Dequeue B ((ce_env ev)\<lparr>e_ctx := dequeueCtx ev res (r_ctx rs)\<rparr>) [q] (broker g) = (b', turn)"
    by fastforce
  show ?thesis
  proof (cases turn)
    case (Claimed t)
    have "frame g (goto q CAcquire (spawn (ce_ptr ev) q t qc (g\<lparr>broker := b'\<rparr>)))"
      by (rule frame_trans [OF frame_trans [OF frame_simps(1) frame_more(2)] frame_simps(2)])
    moreover have "s_workers (sched g') = fmupd (ce_ptr ev) (new_worker q t qc) (s_workers (sched g))"
      "s_tasks (sched g') = s_tasks (sched g)" "fmlookup (s_workers (sched g)) (ce_ptr ev) = None"
      using assms d Claimed
      by (auto simp: claim_dequeue_def sched_goto spawn_def Let_def add_running_def split: if_splits option.splits)
    ultimately show ?thesis using assms d Claimed
      by (simp add: claim_dequeue_def claim_frame_def split: if_splits) blast
  next
    case (DequeueErr e)
    then show ?thesis using assms d claim_frameI(1) [OF frame_simps(1)] by (auto simp: claim_dequeue_def Let_def)
  next
    case (WaitFor t)
    then show ?thesis using assms d by (auto simp: claim_dequeue_def claim_frame_def)
  qed
qed

lemma claim_step_frame:
  assumes "claim_step B ev q g = Some g'"
  shows "claim_frame g g'"
proof -
  obtain rs qc l pc where cs: "claim_at B ev q rs qc l pc g = Some g'"
    using assms by (auto simp: claim_step_def split: option.splits)
  have acq: "claim_frame g (goto q pc' (set_limiter q l' g))" for pc' l'
    using claim_frameI(2) [OF frame_simps(3)] by (auto simp: sched_set_limiter)
  note rel = claim_frameI(1) [OF frame_refl refl refl] and go = claim_frameI(2) [OF frame_refl refl refl]
  show ?thesis
  proof (cases pc)
    case CReserve
    then show ?thesis using cs claim_reserve_frame by (auto simp: claim_at_def split: option.splits)
  next
    case (CDequeue res)
    then show ?thesis using cs claim_dequeue_frame by (auto simp: claim_at_def)
  qed (use cs acq rel go in \<open>auto simp: claim_at_def split: option.splits if_splits\<close>)
qed

lemma claim_step_table:
  assumes "table_inv (sched g)" and "claim_step B ev q g = Some g'"
  shows "table_inv (sched g')"
proof -
  have new: "worker_ok (new_worker v t qc)" for v t qc by (simp add: worker_ok_def new_worker_def)
  have fr: "claim_frame g g'" by (rule claim_step_frame [OF assms(2)])
  then consider "s_workers (sched g') = s_workers (sched g)"
    | p v t qc where "fmlookup (s_workers (sched g)) p = None"
        "s_workers (sched g') = fmupd p (new_worker v t qc) (s_workers (sched g))"
    by (auto simp: claim_frame_def)
  then show ?thesis
  proof cases
    case 1
    then show ?thesis using fr assms(1) table_inv_cong [of "sched g'" "sched g"]
      by (simp add: claim_frame_def frame_def)
  next
    case 2
    then show ?thesis using fr table_inv_new [OF assms(1) 2(1) new]
        table_inv_cong [of "sched g'" "(sched g)\<lparr>s_workers := s_workers (sched g')\<rparr>"]
      by (simp add: claim_frame_def frame_def)
  qed
qed


text \<open>Every transition of \<open>execute\<close> that stays in the table respects the flags.\<close>

lemma phase_moves:
  assumes "worker_ok w" "w_phase w \<noteq> PExit" "w_phase w \<noteq> PUntrack" "w_phase w \<noteq> PTrack"
  shows "\<lbrakk>in_table (w_phase w) \<Longrightarrow> in_table ph; phase_ok ph (w_rt w)\<rbrakk> \<Longrightarrow>
    worker_ok (w\<lparr>w_phase := ph\<rparr>) \<and> moves_to w (w\<lparr>w_phase := ph\<rparr>)"
  using assms by (auto simp: worker_ok_def moves_to_def)

lemma worker_next_frame:
  assumes "worker_next B e jitter p w g = Some g'"
  shows "frame g g'"
proof (cases "w_phase w")
  case PExit
  then show ?thesis using assms
    by (auto simp: worker_next_def Let_def worker_exit_def frame_def set_limiter_def upd_run_def
        add_running_def option.map_comp o_def split: option.splits)
next
  case PTrack
  then show ?thesis using assms
    by (auto simp: worker_next_def Let_def intro!: frame_trans [OF frame_simps(4) frame_more(3)])
next
  case PUntrack
  then show ?thesis using assms
    by (auto simp: worker_next_def Let_def intro!: frame_trans [OF frame_simps(4) frame_more(4)])
next
  case PSkip
  then show ?thesis using assms
    by (auto simp: worker_next_def Let_def split: prod.splits intro!: frame_trans [OF frame_simps(1) frame_simps(4)])
next
  case (PSend r)
  then show ?thesis using assms
    by (auto simp: worker_next_def Let_def split: prod.splits intro!: frame_trans [OF frame_simps(1) frame_simps(4)])
qed (use assms in \<open>auto simp: worker_next_def Let_def split: if_splits\<close>)

lemma worker_next_table:
  assumes inv: "table_inv (sched g)" and p: "fmlookup (s_workers (sched g)) p = Some w"
    and step: "worker_next B e jitter p w g = Some g'"
  shows "table_inv (sched g')"
proof -
  have ok: "worker_ok w" by (rule table_invD(1) [OF inv p])
  have move: "table_inv (sched (set_worker p (w\<lparr>w_phase := ph\<rparr>) g))"
      "table_inv (sched (set_worker p (w\<lparr>w_phase := ph\<rparr>) (g\<lparr>broker := b\<rparr>)))"
    if "w_phase w \<noteq> PExit" "w_phase w \<noteq> PUntrack" "w_phase w \<noteq> PTrack"
      "in_table (w_phase w) \<Longrightarrow> in_table ph" "phase_ok ph (w_rt w)" for ph b
    using set_worker_table [OF inv p] phase_moves [OF ok that(1-3) that(4,5)] by blast+
  note pk = ok [unfolded worker_ok_def]
  show ?thesis
  proof (cases "w_phase w")
    case PStart
    then show ?thesis using step pk by (auto simp: worker_next_def Let_def intro!: move)
  next
    case PSkip
    then show ?thesis using step pk by (auto simp: worker_next_def Let_def split: prod.splits intro!: move)
  next
    case PTrack
    then show ?thesis using step track_table [OF inv p PTrack]
      by (auto simp: worker_next_def Let_def set_worker_def)
  next
    case (PJoin res er hb)
    then show ?thesis using step by (auto simp: worker_next_def Let_def split: if_splits intro!: move)
  next
    case (PReadLost res er)
    then show ?thesis using step by (auto simp: worker_next_def Let_def split: if_splits intro!: move)
  next
    case (PReadCanceled res er)
    then show ?thesis using step pk by (auto simp: worker_next_def Let_def split: if_splits option.splits intro!: move)
  next
    case (PReadRequeue er)
    then show ?thesis using step pk
      by (auto simp: worker_next_def Let_def failTask_def split: if_splits option.splits intro!: move)
  next
    case (PSend r)
    then show ?thesis using step by (auto simp: worker_next_def Let_def split: prod.splits intro!: move)
  next
    case PUntrack
    have "worker_ok (w\<lparr>w_phase := PExit, w_rt := (w_rt w)\<lparr>rt_ctxDone := True\<rparr>\<rparr>)" by (simp add: worker_ok_def)
    then show ?thesis using step PUntrack untrack_table [OF inv p]
      by (auto simp: worker_next_def Let_def set_worker_def)
  next
    case PExit
    have "table_inv (sched g\<lparr>s_workers := fmdrop p (s_workers (sched g))\<rparr>)"
      using table_inv_gone [OF inv p] PExit by simp
    then show ?thesis using step PExit
        table_inv_cong [of "sched g'" "sched g\<lparr>s_workers := fmdrop p (s_workers (sched g))\<rparr>"]
      by (auto simp: worker_next_def Let_def worker_exit_def sched_set_limiter add_running_def split: option.splits)
  qed (use step in \<open>simp add: worker_next_def\<close>)
qed

definition flagged :: "runningTask \<Rightarrow> runningTask \<Rightarrow> bool" where
  "flagged r r' \<longleftrightarrow> r' = r \<or> r' = r\<lparr>rt_canceled := True, rt_ctxDone := True\<rparr> \<or>
     r' = r\<lparr>rt_leaseLost := True, rt_ctxDone := True\<rparr>"

lemma echo_flagged:
  "heartbeat_echo x r = (r', go) \<Longrightarrow> flagged r r'" "renew_echo i x r = (r', y) \<Longrightarrow> flagged r r'"
proof -
  show "flagged r r'" if "heartbeat_echo x r = (r', go)"
  proof (cases x)
    case (Some e)
    then show ?thesis using that by (cases e) (simp_all add: heartbeat_echo_def flagged_def)
  qed (use that in \<open>simp add: heartbeat_echo_def flagged_def\<close>)
  show "flagged r r'" if "renew_echo i x r = (r', y)"
  proof (cases x)
    case (Some e)
    then show ?thesis using that by (cases e) (simp_all add: renew_echo_def flagged_def)
  qed (use that in \<open>simp add: renew_echo_def flagged_def\<close>)
qed

lemma flagged_ok:
  assumes ok: "worker_ok w" and ph: "w_phase w = PRun hb \<or> w_phase w = PJoin res er hb"
    and fl: "flagged (w_rt w) rt"
  shows "worker_ok (w\<lparr>w_rt := rt, w_phase := set_heartbeat go (w_phase w)\<rparr>) \<and>
      moves_to w (w\<lparr>w_rt := rt, w_phase := set_heartbeat go (w_phase w)\<rparr>)"
    and "worker_ok (w\<lparr>w_rt := rt\<rparr>) \<and> moves_to w (w\<lparr>w_rt := rt\<rparr>)"
proof -
  have free: "phase_ok (w_phase w) r" "in_table (set_heartbeat go (w_phase w))"
    "phase_ok (set_heartbeat go (w_phase w)) r" for r using ph by auto
  have rt: "rt_canceled rt \<or> rt_leaseLost rt \<or> rt_requeue rt \<longrightarrow> rt_ctxDone rt"
    "rt_requeue (w_rt w) \<longrightarrow> rt_requeue rt" "rt_ctxDone (w_rt w) \<longrightarrow> rt_ctxDone rt"
    using fl ok by (auto simp: flagged_def worker_ok_def)
  show "worker_ok (w\<lparr>w_rt := rt, w_phase := set_heartbeat go (w_phase w)\<rparr>) \<and>
      moves_to w (w\<lparr>w_rt := rt, w_phase := set_heartbeat go (w_phase w)\<rparr>)"
    "worker_ok (w\<lparr>w_rt := rt\<rparr>) \<and> moves_to w (w\<lparr>w_rt := rt\<rparr>)"
    unfolding worker_ok_def moves_to_def using free rt by simp_all
qed

lemma work_step_table:
  assumes inv: "table_inv (sched g)" and step: "work_step B ev p g = Some g'"
  shows "table_inv (sched g') \<and> frame g g'"
proof -
  obtain w where p: "fmlookup (s_workers (sched g)) p = Some w"
    using step by (auto simp: work_step_def split: option.splits)
  have ok: "worker_ok w" by (rule table_invD(1) [OF inv p])
  have fr: "frame g (set_worker p w' (g\<lparr>broker := b\<rparr>))" for w' b
    by (rule frame_trans [OF frame_simps(1) frame_simps(4)])
  have tick: "table_inv (sched (heartbeat_tick B e p w g)) \<and> frame g (heartbeat_tick B e p w g)"
    if "w_phase w = PRun hb \<or> w_phase w = PJoin res er hb" for e hb res er
    using flagged_ok(1) [OF ok that echo_flagged(1)] set_worker_table(2) [OF inv p] fr
    by (auto simp: heartbeat_tick_def split: prod.splits)
  have ren: "table_inv (sched (fst (renew B e p w g))) \<and> frame g (fst (renew B e p w g))"
    if "w_phase w = PRun hb" for e hb
    using flagged_ok(2) [OF ok disjI1 [OF that] echo_flagged(2)] set_worker_table(2) [OF inv p] fr
    by (auto simp: renew_def split: prod.splits)
  show ?thesis
  proof (cases ev)
    case (WNext e j)
    then show ?thesis using step p worker_next_table [OF inv p] worker_next_frame by (auto simp: work_step_def)
  next
    case (WHeartbeat e)
    then show ?thesis using step p tick by (auto simp: work_step_def split: phase.splits bool.splits)
  next
    case WHeartbeatStop
    then show ?thesis using step p ok set_worker_table(1) [OF inv p]
      by (auto simp: work_step_def worker_ok_def moves_to_def split: phase.splits bool.splits)
  next
    case (WRenew e)
    then show ?thesis using step p ren by (auto simp: work_step_def split: phase.splits)
  next
    case (WReturn out)
    then show ?thesis using step p ok set_worker_table(1) [OF inv p]
      by (auto simp: work_step_def worker_ok_def moves_to_def split: phase.splits prod.splits)
  qed
qed


section \<open>The invariant of a process\<close>

definition shut_inv :: "('b, 'q) gate \<Rightarrow> bool" where
  "shut_inv g \<longleftrightarrow> (g_shutdownPc g = SIdle \<longleftrightarrow> \<not> g_shutdown g) \<and>
     (\<forall>rs. g_shutdown g \<longrightarrow> s_run (sched g) = Some rs \<longrightarrow> r_ctx rs \<noteq> None) \<and>
     (\<forall>e. g_shutdownPc g = SReturned e \<longrightarrow> s_run (sched g) = None) \<and>
     (s_draining (sched g) \<longrightarrow> g_shutdown g)"

definition ginv :: "('b, 'q) gate \<Rightarrow> bool" where
  "ginv g \<longleftrightarrow> cfg_ok (g_cfg g) \<and> slot_inv (sched g) \<and> table_inv (sched g) \<and> shut_inv g"

lemma shut_inv_frame:
  assumes fr: "frame g g'" and inv: "shut_inv g"
  shows "shut_inv g'"
proof -
  have "\<exists>rs0. s_run (sched g) = Some rs0 \<and> r_ctx rs0 = r_ctx rs" if "s_run (sched g') = Some rs" for rs
    using fr that by (cases "s_run (sched g)") (auto simp: frame_def)
  moreover have "s_run (sched g') = None \<longleftrightarrow> s_run (sched g) = None"
    using fr by (auto simp: frame_def dest: arg_cong [where f = "\<lambda>x. x = None"])
  ultimately show ?thesis using fr inv unfolding shut_inv_def frame_def by (metis (no_types))
qed

lemma ginv_frame:
  "ginv g \<Longrightarrow> frame g g' \<Longrightarrow> slot_inv (sched g') \<Longrightarrow> table_inv (sched g') \<Longrightarrow> ginv g'"
  using shut_inv_frame [of g g'] by (auto simp: ginv_def frame_def)

lemma ginv_broker [simp]: "ginv (g\<lparr>broker := b\<rparr>) = ginv g"
  by (simp add: ginv_def shut_inv_def)

lemma slot_inv_upd_run:
  assumes "slot_inv (sched g)" and "\<And>rs m. slots_ok (f rs) m = slots_ok rs m" and "\<And>rs. r_queues (f rs) = r_queues rs"
  shows "slot_inv (sched (upd_run f g))"
  using assms by (cases "s_run (sched g)") (auto simp: slot_inv_def upd_run_def)

lemma table_inv_upd_run [simp]: "table_inv (sched (upd_run f g)) = table_inv (sched g)"
  by (rule table_inv_cong) (simp_all add: upd_run_def)

lemma ginv_cancel_run:
  assumes "ginv g"
  shows "ginv (cancel_run e g)"
proof -
  have "slot_inv (sched (cancel_run e g))"
    unfolding cancel_run_def using assms
    by (intro slot_inv_upd_run) (auto simp: ginv_def slots_ok_def)
  then show ?thesis using assms
    by (auto simp: ginv_def shut_inv_def cancel_run_def upd_run_def split: option.splits
        intro: table_inv_cong [THEN iffD2])
qed

lemma ginv_reaper: "ginv g \<Longrightarrow> reaper_stop g = Some g' \<Longrightarrow> ginv g'"
proof -
  assume g: "ginv g" and "reaper_stop g = Some g'"
  then have g': "g' = upd_run (\<lambda>rs. rs\<lparr>r_reaper := False\<rparr>) g"
    by (auto simp: reaper_stop_def split: option.splits if_splits)
  have "slot_inv (sched g')" unfolding g' using g by (intro slot_inv_upd_run) (auto simp: ginv_def slots_ok_def)
  moreover have "frame g g'" unfolding g' by (simp add: frame_def upd_run_def option.map_comp o_def)
  moreover have "table_inv (sched g')" using g unfolding g' by (simp add: ginv_def)
  ultimately show ?thesis using ginv_frame [OF g] by blast
qed

lemma ginv_shutdown:
  assumes "ginv g"
  shows "ginv (Shutdown g)"
proof (cases "g_shutdown g \<or> s_run (sched g) = None")
  case True
  then show ?thesis using assms by (auto simp: Shutdown_def ginv_def shut_inv_def)
next
  case False
  have "cfg_ok (g_cfg (cancel_run e g)) \<and> slot_inv (sched (cancel_run e g)) \<and> table_inv (sched (cancel_run e g))" for e
    using ginv_cancel_run [OF assms] by (simp add: ginv_def)
  then show ?thesis using False assms
    by (auto simp: Shutdown_def ginv_def shut_inv_def cancel_run_def upd_run_def split: option.splits)
qed

lemma ginv_drain:
  assumes "ginv g" and "range_order is (s_tasks (sched g))" and "shutdown_drain is g = Some g'"
  shows "ginv g'"
proof -
  have g': "g' = g\<lparr>sched := drain is (sched g), g_shutdownPc := SDrained\<rparr>" "g_shutdownPc g = SWaiting"
    using assms(3) by (auto simp: shutdown_drain_def split: if_splits)
  have "slot_inv (drain is (sched g))" "s_run (drain is (sched g)) = s_run (sched g)"
    using same_slots_inv [OF same_slots_drain] same_slots_drain assms(1)
    by (auto simp: ginv_def same_slots_def)
  moreover have "table_inv (drain is (sched g))" using drain_table(1) assms by (auto simp: ginv_def)
  ultimately show ?thesis using assms(1) g' by (auto simp: ginv_def shut_inv_def)
qed

lemma ginv_finish:
  assumes g: "ginv g" and "run_finish g = Some g'"
  shows "ginv g'"
proof -
  have g': "g' = g\<lparr>sched := (sched g)\<lparr>s_started := False, s_run := None\<rparr>\<rparr>"
    and none: "s_workers (sched g) = fmempty"
    using assms(2) by (auto simp: run_finish_def split: option.splits if_splits)
  have "table_inv (sched g') = table_inv (sched g)" unfolding g' by (rule table_inv_cong) simp_all
  moreover have "slot_inv (sched g')" using g none unfolding g' by (simp add: ginv_def slot_inv_def wqueues_def)
  moreover have "shut_inv g'" using g unfolding g' by (simp add: ginv_def shut_inv_def)
  ultimately show ?thesis using g unfolding g' by (simp add: ginv_def)
qed

lemma ginv_cancelLocal: "ginv g \<Longrightarrow> ginv (Cancel_local i g)"
  using same_slots_inv [OF same_slots_cancelLocal, of i "sched g"] cancelLocal_table [of "sched g" i]
  by (auto simp: ginv_def Cancel_local_def shut_inv_def cancelLocal_def split: option.splits)

lemma ginv_start:
  assumes "ginv g" and "op_QueueLimiter B = None" and "consumeQueues (g_cfg g) hs = Inr queues" "range_order ns queues"
  shows "ginv (fst (run_start B hs ns ctx g))"
proof -
  obtain g' er where step: "run_start B hs ns ctx g = (g', er)" by fastforce
  have "slot_inv (sched g')"
    using run_start_inv [OF _ assms(2) _ assms(3,4) step] assms(1) by (simp add: ginv_def)
  moreover have "table_inv (sched g') = table_inv (sched g)" "g_cfg g' = g_cfg g"
    by (rule table_inv_cong; use step in \<open>auto simp: run_start_def split: sum.splits if_splits prod.splits option.splits\<close>)
      (use step in \<open>auto simp: run_start_def split: sum.splits if_splits prod.splits option.splits\<close>)
  moreover have "shut_inv g'"
    using step assms(1)
    by (auto simp: run_start_def ginv_def shut_inv_def slot_inv_def split: sum.splits if_splits prod.splits option.splits)
  ultimately show ?thesis using assms(1) step by (simp add: ginv_def)
qed

lemma gstep_ginv:
  assumes lim: "op_QueueLimiter B = None"
  shows "gstep B ext g g' \<Longrightarrow> ginv g \<Longrightarrow> ginv g'"
proof (induction rule: gstep.induct)
  case (submit g e ty payload os)
  then show ?case by (auto simp: Submit_def split: sum.splits prod.splits)
next
  case (replay g e req os)
  then show ?case by (auto simp: gate_replay_def Let_def split: sum.splits prod.splits)
next
  case (cancel g e i)
  then show ?case by (auto simp: Cancel_broker_def ginv_def shut_inv_def split: option.splits prod.splits)
next
  case (claim ev q g g')
  then have "frame g g'" using claim_step_frame unfolding claim_frame_def by blast
  then show ?case using claim claim_step_inv claim_step_table unfolding ginv_def
    by (intro ginv_frame [of g g', unfolded ginv_def]) blast+
next
  case (work wev p g g')
  then show ?case using work_step_inv work_step_table unfolding ginv_def
    by (intro ginv_frame [of g g', unfolded ginv_def]) blast+
next
  case (reap e g g')
  then show ?case by (auto simp: reap_tick_def split: option.splits if_splits)
next
  case (returned er g g')
  then show ?case by (auto simp: shutdown_return_def ginv_def shut_inv_def split: if_splits shutdownPc.splits)
next
  case (handle g ty)
  then show ?case by (simp add: Handle_def ginv_def shut_inv_def)
next
  case (start ns queues g hs ctx)
  then show ?case using ginv_start [OF _ lim] by blast
next
  case (cancelLocal i g)
  then show ?case by (intro ginv_cancelLocal)
next
  case (reaperStop g g')
  then show ?case by (intro ginv_reaper [of g g'])
next
  case (ctxDone g er)
  then show ?case by (intro ginv_cancel_run)
next
  case (finish g g')
  then show ?case by (intro ginv_finish [of g g'])
next
  case (shutdown g)
  then show ?case by (intro ginv_shutdown)
next
  case (drain "is" g g')
  then show ?case by (intro ginv_drain [of g "is" g'])
next
  case (other g b')
  then show ?case by simp
qed

lemma gsteps_ginv: "op_QueueLimiter B = None \<Longrightarrow> gsteps B ext g g' \<Longrightarrow> ginv g \<Longrightarrow> ginv g'"
  by (erule rtranclp_induct) (auto intro: gstep_ginv)


lemma validate_workers:
  assumes "validate xs ts ys c = Inr c'" and "range_order xs (Queues c)"
  shows "cfg_ok c'"
proof -
  obtain qs where qs: "validate_queues xs (Queues c) = Inr qs" "Queues c' = qs"
    using assms(1)
    by (auto simp: validate_def validate_caps_def Let_def split: if_splits sum.splits)
  then show ?thesis using validate_queues_all [OF assms(2)]
    by (auto simp: cfg_ok_def queue_valid_def split: if_splits)
qed

lemma newGate_ginv:
  assumes "newGate B xs ts ys zs c b = Inr g" and "range_order xs (Queues c)"
  shows "ginv g" "\<exists>c'. validate xs ts ys c = Inr c' \<and> g_cfg g = c'"
proof -
  obtain c' b' where c': "validate xs ts ys c = Inr c'"
    "g = \<lparr>g_cfg = c', broker = b', g_handlers = {||}, sched = newScheduler,
          g_shutdown = False, g_cancels = [], g_shutdownPc = SIdle\<rparr>"
    using assms(1) by (auto simp: newGate_def split: sum.splits option.splits prod.splits if_splits)
  then show "ginv g" using validate_workers [OF c'(1) assms(2)]
    by (simp add: ginv_def slot_inv_def table_inv_def shut_inv_def newScheduler_def wqueues_def)
  show "\<exists>c'. validate xs ts ys c = Inr c' \<and> g_cfg g = c'" using c' by simp
qed

end
