(* ===== verification/Runtime_Props.thy ===== *)
theory Runtime_Props
  imports Runtime_Inv
begin

text \<open>
  What the invariants of \<open>Runtime_Inv\<close> mean for the users of the library: the concurrency limit,
  the table behind \<open>Cancel\<close> and \<open>Shutdown\<close>, the receipts of an execution, the end of a run, quotas
  and the classification of errors.  The results hold for every back end with the interface of
  \<open>Broker_Interface\<close> that leaves limiting to the process, and under any work of other processes.
\<close>

section \<open>Reachable processes\<close>

text \<open>A process that was built by \<open>newGate\<close> and has run for a while.\<close>

definition reached :: "('b, 'q) Broker \<Rightarrow> ('b \<Rightarrow> 'b \<Rightarrow> bool) \<Rightarrow> ('b, 'q) gate \<Rightarrow> bool" where
  "reached B ext g \<longleftrightarrow> op_QueueLimiter B = None \<and>
     (\<exists>xs ts ys zs c b g0. newGate B xs ts ys zs c b = Inr g0 \<and> range_order xs (Queues c) \<and> gsteps B ext g0 g)"

lemma reached_ginv:
  assumes "reached B ext g"
  shows "ginv g"
proof -
  obtain xs ts ys zs c b g0 where g0: "newGate B xs ts ys zs c b = Inr g0" "range_order xs (Queues c)"
    "gsteps B ext g0 g" and lim: "op_QueueLimiter B = None"
    using assms unfolding reached_def by blast
  show ?thesis by (rule gsteps_ginv [OF lim g0(3) newGate_ginv(1) [OF g0(1,2)]])
qed

lemma reached_step: "reached B ext g \<Longrightarrow> gstep B ext g g' \<Longrightarrow> reached B ext g'"
  unfolding reached_def using rtranclp.rtrancl_into_rtrancl by (metis (no_types))

lemma reached_steps: "gsteps B ext g g' \<Longrightarrow> reached B ext g \<Longrightarrow> reached B ext g'"
  by (induction rule: rtranclp_induct) (auto intro: reached_step)

lemma reached_newGate:
  "op_QueueLimiter B = None \<Longrightarrow> newGate B xs ts ys zs c b = Inr g \<Longrightarrow> range_order xs (Queues c) \<Longrightarrow> reached B ext g"
  unfolding reached_def by blast

lemma memory_no_limiter: "op_QueueLimiter memory_broker = None"
  by (simp add: memory_broker_def)

text \<open>
  C15: the concurrency limit.  At every moment of every interleaving, the executions of a queue that
  are in progress in this process are at most the configured \<open>Workers\<close>, the figure \<open>Stats\<close> reports
  for them is exact, the slots taken are exactly theirs plus the one the claim loop is about to use,
  and the \<open>ReleaseSlot\<close> at the end of an execution never blocks.
\<close>

theorem concurrency_limit:
  assumes "reached B ext g" and run: "s_run (sched g) = Some rs"
    and q: "fmlookup (r_queues rs) q = Some qc" "fmlookup (r_limiters rs) q = Some l" "fmlookup (r_claims rs) q = Some pc"
  shows "nworkers q (wqueues (sched g)) \<le> Workers qc \<and>
    runningCount (sched g) q = nworkers q (wqueues (sched g)) \<and>
    sem_len l = nworkers q (wqueues (sched g)) + slot_of pc \<and>
    (0 < nworkers q (wqueues (sched g)) \<longrightarrow> ReleaseSlot l \<noteq> None)"
proof -
  have inv: "slot_inv (sched g)" using reached_ginv [OF assms(1)] by (simp add: ginv_def)
  note ok = slot_invD [OF inv run]
  note l = slots_okD [OF ok(2) q]
  have slot: "0 \<le> slot_of pc" by (cases pc) simp_all
  obtain c where c: "fmlookup (s_running (sched g)) q = Some c"
    using ok(3) fmdomI [OF q(1)] by (metis fmdomE fsubsetD)
  then have "runningCount (sched g) q = nworkers q (wqueues (sched g))"
    using ok(4) by (simp add: runningCount_def)
  then show ?thesis using l slot ll.release_free [of l] by auto
qed

text \<open>
  C19: the table behind \<open>Cancel\<close> and \<open>Shutdown\<close>.  Every entry points to a live execution of
  that task, and while \<open>Shutdown\<close> is draining the execution an entry points to has been interrupted: its context
  is cancelled and it is marked to be given back.  Between runs there are no executions and no entries.
  The entries are all the sweep reaches: an execution whose entry a later claim of the same task in this process has replaced
  is not interrupted (\<open>drain_misses_replaced\<close> in \<open>Runtime_Witness\<close>).
\<close>

theorem handles_exact:
  assumes "reached B ext g"
  shows "(\<forall>i p. fmlookup (s_tasks (sched g)) i = Some p \<longrightarrow>
      (\<exists>w. fmlookup (s_workers (sched g)) p = Some w \<and> ID (w_task w) = i \<and> in_table (w_phase w) \<and>
        (s_draining (sched g) \<longrightarrow> rt_requeue (w_rt w) \<and> rt_ctxDone (w_rt w)))) \<and>
    (s_run (sched g) = None \<longrightarrow> s_workers (sched g) = fmempty \<and> s_tasks (sched g) = fmempty)"
proof -
  have inv: "table_inv (sched g)" "slot_inv (sched g)" using reached_ginv [OF assms] by (simp_all add: ginv_def)
  have entry: "\<exists>w. fmlookup (s_workers (sched g)) p = Some w \<and> entry_ok (s_draining (sched g)) i w"
    if "fmlookup (s_tasks (sched g)) i = Some p" for i p by (rule table_invD(2) [OF inv(1) that])
  moreover have "s_workers (sched g) = fmempty \<and> s_tasks (sched g) = fmempty" if "s_run (sched g) = None"
  proof -
    have none: "s_workers (sched g) = fmempty" using inv(2) that by (simp add: slot_inv_def)
    then have "fmlookup (s_tasks (sched g)) i = None" for i using entry [of i] by (cases "fmlookup (s_tasks (sched g)) i") auto
    then show ?thesis using none by (auto intro: fmap_ext)
  qed
  ultimately show ?thesis unfolding entry_ok_def by blast
qed

section \<open>Where the flags come from\<close>

text \<open>
  The step from \<open>g\<close> to \<open>g'\<close> tells execution \<open>p\<close> that its task is cancelled: the back end answers its
  heartbeat or its renewal with \<open>ErrTaskCanceled\<close>, or a call of \<open>Cancel\<close> that the back end has accepted
  reaches it in this process.
\<close>

definition told_canceled :: "('b, 'q) Broker \<Rightarrow> nat \<Rightarrow> ('b, 'q) gate \<Rightarrow> ('b, 'q) gate \<Rightarrow> bool" where
  "told_canceled B p g g' \<longleftrightarrow>
     (\<exists>w. fmlookup (s_workers (sched g)) p = Some w \<and>
        ((\<exists>e j. op_Heartbeat B e (ID (w_task w)) (LeaseToken (w_task w)) (broker g) = (broker g', Some (ErrTaskCanceled j))) \<or>
         ID (w_task w) \<in> set (g_cancels g) \<and> g' = Cancel_local (ID (w_task w)) g))"

text \<open>How the flags of one execution may change: a new one has none; an old one gets them for a reason.\<close>

definition flags_from :: "('b, 'q) Broker \<Rightarrow> ('b, 'q) gate \<Rightarrow> ('b, 'q) gate \<Rightarrow> bool" where
  "flags_from B g g' \<longleftrightarrow> (s_draining (sched g) \<longrightarrow> s_draining (sched g')) \<and>
     (\<forall>p w'. fmlookup (s_workers (sched g')) p = Some w' \<longrightarrow>
        \<not> rt_canceled (w_rt w') \<and> \<not> rt_requeue (w_rt w') \<or>
        (\<exists>w. fmlookup (s_workers (sched g)) p = Some w \<and> w_task w' = w_task w \<and>
           (rt_canceled (w_rt w') \<longrightarrow> rt_canceled (w_rt w) \<or> told_canceled B p g g') \<and>
           (rt_requeue (w_rt w') \<longrightarrow> rt_requeue (w_rt w) \<or> s_draining (sched g'))))"

lemma flags_same:
  "s_workers (sched g') = s_workers (sched g) \<Longrightarrow> s_draining (sched g') = s_draining (sched g) \<Longrightarrow> flags_from B g g'"
  by (auto simp: flags_from_def)

lemma flags_worker:
  assumes "frame g g'" "fmlookup (s_workers (sched g)) p = Some w" "w_task w' = w_task w"
    and "s_workers (sched g') = fmupd p w' (s_workers (sched g)) \<or> s_workers (sched g') = fmdrop p (s_workers (sched g))"
    and "rt_canceled (w_rt w') \<Longrightarrow> rt_canceled (w_rt w) \<or> told_canceled B p g g'"
    and "rt_requeue (w_rt w') \<Longrightarrow> rt_requeue (w_rt w) \<or> s_draining (sched g)"
  shows "flags_from B g g'"
  using assms by (auto simp: flags_from_def frame_def split: if_splits)

lemma echo_reasons:
  "heartbeat_echo er rt = (rt', go) \<Longrightarrow>
     (rt_canceled rt' \<longrightarrow> rt_canceled rt \<or> (\<exists>j. er = Some (ErrTaskCanceled j))) \<and> (rt_requeue rt' \<longrightarrow> rt_requeue rt)"
  "renew_echo i er rt = (rt', y) \<Longrightarrow>
     (rt_canceled rt' \<longrightarrow> rt_canceled rt \<or> (\<exists>j. er = Some (ErrTaskCanceled j))) \<and> (rt_requeue rt' \<longrightarrow> rt_requeue rt)"
  by (auto simp: heartbeat_echo_def renew_echo_def split: option.splits tg_error.splits)

lemma flags_work:
  assumes inv: "table_inv (sched g)" and step: "work_step B ev p g = Some g'"
  shows "flags_from B g g'"
proof -
  obtain w where p: "fmlookup (s_workers (sched g)) p = Some w"
    using step by (auto simp: work_step_def split: option.splits)
  have fr: "frame g g'" using work_step_table [OF inv step] by blast
  note one = flags_worker [OF fr p]
  have phase: "flags_from B g (set_worker p (w\<lparr>w_phase := ph\<rparr>) g)" for ph
    by (rule flags_worker [OF frame_simps(4) p _ disjI1, where w' = "w\<lparr>w_phase := ph\<rparr>"]) (simp_all add: set_worker_def)
  have echo: "flags_from B g g'"
    if "op_Heartbeat B e (ID (w_task w)) (LeaseToken (w_task w)) (broker g) = (b', er)" "broker g' = b'"
      "s_workers (sched g') = fmupd p w' (s_workers (sched g))" "w_task w' = w_task w"
      "(\<exists>go. heartbeat_echo er (w_rt w) = (w_rt w', go)) \<or> (\<exists>y. renew_echo (ID (w_task w)) er (w_rt w) = (w_rt w', y))" for e b' er w'
  proof -
    have why: "rt_canceled (w_rt w') \<longrightarrow> rt_canceled (w_rt w) \<or> (\<exists>j. er = Some (ErrTaskCanceled j))" "rt_requeue (w_rt w') \<longrightarrow> rt_requeue (w_rt w)"
      using that(5) echo_reasons by blast+
    moreover have "told_canceled B p g g'" if "er = Some (ErrTaskCanceled j)" for j
      using p \<open>op_Heartbeat _ _ _ _ _ = _\<close> \<open>broker g' = b'\<close> that by (auto simp: told_canceled_def)
    ultimately show ?thesis by (intro one [OF that(4) disjI1 [OF that(3)]]) blast+
  qed
  show ?thesis
  proof (cases ev)
    case (WNext e jitter)
    have step': "worker_next B e jitter p w g = Some g'" using step p WNext by (simp add: work_step_def)
    show ?thesis
    proof (cases "w_phase w")
      case PTrack
      define w1 where "w1 = w\<lparr>w_phase := PRun (\<not> ManualHeartbeat (w_qc w))\<rparr>"
      define w2 where "w2 = (if s_draining (sched g) then w1\<lparr>w_rt := interrupt (w_rt w1)\<rparr> else w1)"
      have "s_workers (sched g') = fmupd p w2 (s_workers (sched g))"
        using step' PTrack by (auto simp: worker_next_def set_worker_def track_def upd_rt_def w1_def w2_def Let_def)
      moreover have "w_task w2 = w_task w" "rt_canceled (w_rt w2) = rt_canceled (w_rt w)"
        "rt_requeue (w_rt w2) \<Longrightarrow> rt_requeue (w_rt w) \<or> s_draining (sched g)" by (auto simp: w1_def w2_def interrupt_def)
      ultimately show ?thesis by (intro one [of w2]) auto
    next
      case PExit
      then have "s_workers (sched g') = fmdrop p (s_workers (sched g))" using step'
        by (auto simp: worker_next_def worker_exit_def set_limiter_def upd_run_def add_running_def Let_def split: option.splits)
      then show ?thesis by (intro one [OF refl]) auto
    next
      case PUntrack
      then have "s_workers (sched g') = fmupd p (w\<lparr>w_phase := PExit, w_rt := (w_rt w)\<lparr>rt_ctxDone := True\<rparr>\<rparr>) (s_workers (sched g))"
        using step' by (auto simp: worker_next_def set_worker_def untrack_def Let_def)
      then show ?thesis by (intro one [OF _ disjI1]) auto
    next
      case PSkip
      then have "s_workers (sched g') = fmupd p (w\<lparr>w_phase := PExit\<rparr>) (s_workers (sched g))"
        using step' by (auto simp: worker_next_def set_worker_def Let_def split: prod.splits)
      then show ?thesis by (intro one [OF _ disjI1]) auto
    next
      case (PSend r)
      then have "s_workers (sched g') = fmupd p (w\<lparr>w_phase := PUntrack\<rparr>) (s_workers (sched g))"
        using step' by (auto simp: worker_next_def set_worker_def Let_def split: prod.splits)
      then show ?thesis by (intro one [OF _ disjI1]) auto
    next
      case (PRun hb)
      then show ?thesis using step' by (simp add: worker_next_def)
    next
      case (PJoin res er hb)
      then have "s_workers (sched g') = fmupd p (w\<lparr>w_phase := PReadLost res er\<rparr>) (s_workers (sched g))"
        using step' by (auto simp: worker_next_def set_worker_def Let_def split: if_splits)
      then show ?thesis by (intro one [OF _ disjI1]) auto
    qed (use step' phase in \<open>auto simp: worker_next_def Let_def\<close>)
  next
    case (WHeartbeat e)
    obtain b' er where h: "op_Heartbeat B e (ID (w_task w)) (LeaseToken (w_task w)) (broker g) = (b', er)" by fastforce
    obtain rt go where r: "heartbeat_echo er (w_rt w) = (rt, go)" by fastforce
    have "g' = heartbeat_tick B e p w g" using step p WHeartbeat by (auto simp: work_step_def split: phase.splits bool.splits)
    then show ?thesis using r
      by (intro echo [OF h, of "w\<lparr>w_rt := rt, w_phase := set_heartbeat go (w_phase w)\<rparr>"]) (auto simp: heartbeat_tick_def h set_worker_def)
  next
    case (WRenew e)
    obtain b' er where h: "op_Heartbeat B e (ID (w_task w)) (LeaseToken (w_task w)) (broker g) = (b', er)" by fastforce
    obtain rt y where r: "renew_echo (ID (w_task w)) er (w_rt w) = (rt, y)" by fastforce
    have "g' = fst (renew B e p w g)" using step p WRenew by (auto simp: work_step_def split: phase.splits)
    then show ?thesis using r by (intro echo [OF h, of "w\<lparr>w_rt := rt\<rparr>"]) (auto simp: renew_def h set_worker_def)
  next
    case WHeartbeatStop
    then show ?thesis using step p phase by (auto simp: work_step_def split: phase.splits bool.splits)
  next
    case (WReturn out)
    then show ?thesis using step p phase by (auto simp: work_step_def split: phase.splits prod.splits)
  qed
qed

lemma flags_drain:
  assumes "fmlookup (s_workers (drain is s)) p = Some w'"
  shows "\<exists>w. fmlookup (s_workers s) p = Some w \<and> w_task w' = w_task w \<and> (rt_canceled (w_rt w') \<longrightarrow> rt_canceled (w_rt w))"
proof -
  let ?f = "\<lambda>i s. case fmlookup (s_tasks s) i of None \<Rightarrow> s | Some p \<Rightarrow> upd_rt p interrupt s"
  have "fmlookup (s_workers (fold ?f js s0)) p = Some v \<Longrightarrow>
      \<exists>w. fmlookup (s_workers s0) p = Some w \<and> w_task v = w_task w \<and> (rt_canceled (w_rt v) \<longrightarrow> rt_canceled (w_rt w))" for js s0 v
  proof (induction js arbitrary: s0)
    case (Cons j js)
    from Cons.IH [of "?f j s0"] Cons.prems show ?case
      by (auto simp: upd_rt_def interrupt_def split: option.splits if_splits)
  qed simp
  from this [of "is" "s\<lparr>s_draining := True\<rparr>"] assms show ?thesis by (auto simp: drain_def)
qed

lemma drain_draining [simp]: "s_draining (drain is s)"
proof -
  have "s_draining (fold (\<lambda>i s. case fmlookup (s_tasks s) i of None \<Rightarrow> s | Some p \<Rightarrow> upd_rt p interrupt s) js s0) = s_draining s0" for js and s0 :: "'a scheduler"
    by (induction js arbitrary: s0) (auto split: option.split)
  then show ?thesis by (simp add: drain_def)
qed

lemma gstep_flags:
  assumes "gstep B ext g g'" and "ginv g"
  shows "flags_from B g g'"
  using assms
proof (induction rule: gstep.induct)
  case (submit g e ty payload os)
  then show ?case by (intro flags_same) (auto simp: Submit_def split: sum.splits prod.splits)
next
  case (replay g e req os)
  then show ?case by (intro flags_same) (auto simp: gate_replay_def Let_def split: sum.splits prod.splits)
next
  case (cancel g e i)
  then show ?case by (intro flags_same) (auto simp: Cancel_broker_def split: option.splits prod.splits)
next
  case (claim ev q g g')
  then have "claim_frame g g'" by (intro claim_step_frame)
  then show ?case by (auto simp: claim_frame_def frame_def flags_from_def new_worker_def split: if_splits)
next
  case (work wev p g g')
  then show ?case using flags_work by (auto simp: ginv_def)
next
  case (reap e g g')
  then show ?case by (intro flags_same) (auto simp: reap_tick_def split: option.splits if_splits)
next
  case (returned er g g')
  then show ?case by (intro flags_same) (auto simp: shutdown_return_def split: if_splits shutdownPc.splits)
next
  case (handle g ty)
  then show ?case by (intro flags_same) (simp_all add: Handle_def)
next
  case (start ns queues g hs ctx)
  then show ?case by (intro flags_same) (auto simp: run_start_def split: sum.splits if_splits prod.splits option.splits)
next
  case (cancelLocal i g)
  have drain: "s_draining (sched (Cancel_local i g)) = s_draining (sched g)"
    by (simp add: Cancel_local_def cancelLocal_def split: option.split)
  show ?case
  proof (cases "fmlookup (s_tasks (sched g)) i")
    case None
    then show ?thesis by (intro flags_same) (simp_all add: Cancel_local_def cancelLocal_def)
  next
    case (Some p)
    from table_invD(2) [OF _ Some] cancelLocal.prems obtain w where
      w: "fmlookup (s_workers (sched g)) p = Some w" "ID (w_task w) = i" by (auto simp: ginv_def entry_ok_def)
    have "told_canceled B p g (Cancel_local i g)" using w cancelLocal.hyps by (auto simp: told_canceled_def)
    then show ?thesis using Some w drain
      by (auto simp: flags_from_def Cancel_local_def cancelLocal_def upd_rt_def split: if_splits)
  qed
next
  case (reaperStop g g')
  then show ?case by (intro flags_same) (auto simp: reaper_stop_def upd_run_def split: option.splits if_splits)
next
  case (ctxDone g er)
  then show ?case by (intro flags_same) (simp_all add: cancel_run_def upd_run_def)
next
  case (finish g g')
  then show ?case by (intro flags_same) (auto simp: run_finish_def split: option.splits if_splits)
next
  case (shutdown g)
  then show ?case by (intro flags_same) (auto simp: Shutdown_def cancel_run_def upd_run_def Let_def)
next
  case (drain "is" g g')
  then have g': "sched g' = Runtime.drain is (sched g)" by (auto simp: shutdown_drain_def split: if_splits)
  then show ?case using flags_drain [of "is" "sched g"] by (fastforce simp: flags_from_def)
next
  case (other g b')
  then show ?case by (intro flags_same) simp_all
qed

lemma reached_flags:
  assumes "reached B ext g" "fmlookup (s_workers (sched g)) p = Some w"
  shows "(rt_canceled (w_rt w) \<longrightarrow> (\<exists>g1 g2 w1. reached B ext g1 \<and> fmlookup (s_workers (sched g1)) p = Some w1 \<and> w_task w1 = w_task w \<and>
      told_canceled B p g1 g2 \<and> gstep B ext g1 g2 \<and> gsteps B ext g2 g)) \<and>
    (rt_requeue (w_rt w) \<longrightarrow> s_draining (sched g))"
proof -
  obtain xs ts ys zs c b g0 where g0: "newGate B xs ts ys zs c b = Inr g0" "range_order xs (Queues c)" "gsteps B ext g0 g"
    and lim: "op_QueueLimiter B = None" using assms(1) unfolding reached_def by blast
  have r0: "reached B ext g0" by (rule reached_newGate [OF lim g0(1,2)])
  let ?P = "\<lambda>g. \<forall>p w. fmlookup (s_workers (sched g)) p = Some w \<longrightarrow>
      (rt_canceled (w_rt w) \<longrightarrow> (\<exists>g1 g2 w1. reached B ext g1 \<and> fmlookup (s_workers (sched g1)) p = Some w1 \<and> w_task w1 = w_task w \<and>
        told_canceled B p g1 g2 \<and> gstep B ext g1 g2 \<and> gsteps B ext g2 g)) \<and> (rt_requeue (w_rt w) \<longrightarrow> s_draining (sched g))"
  from g0(3) have "?P g"
  proof (induction rule: rtranclp_induct)
    case base
    have "s_workers (sched g0) = fmempty" using g0(1)
      by (auto simp: newGate_def newScheduler_def split: sum.splits option.splits prod.splits if_splits)
    then show ?case by simp
  next
    case (step h h')
    have "reached B ext h" by (rule reached_steps [OF step.hyps(1) r0])
    note rh = this and fl = gstep_flags [OF step.hyps(2) reached_ginv [OF this]]
    show ?case
    proof (intro allI impI)
      fix p w' assume w': "fmlookup (s_workers (sched h')) p = Some w'"
      from fl [unfolded flags_from_def] w' consider "\<not> rt_canceled (w_rt w')" "\<not> rt_requeue (w_rt w')"
        | w where "fmlookup (s_workers (sched h)) p = Some w" "w_task w' = w_task w"
          "rt_canceled (w_rt w') \<longrightarrow> rt_canceled (w_rt w) \<or> told_canceled B p h h'" "rt_requeue (w_rt w') \<longrightarrow> rt_requeue (w_rt w) \<or> s_draining (sched h')"
        by blast
      then show "(rt_canceled (w_rt w') \<longrightarrow> (\<exists>g1 g2 w1. reached B ext g1 \<and> fmlookup (s_workers (sched g1)) p = Some w1 \<and> w_task w1 = w_task w' \<and>
          told_canceled B p g1 g2 \<and> gstep B ext g1 g2 \<and> gsteps B ext g2 h')) \<and> (rt_requeue (w_rt w') \<longrightarrow> s_draining (sched h'))"
      proof cases
        case 2
        have drain: "s_draining (sched h) \<longrightarrow> s_draining (sched h')" using fl by (simp add: flags_from_def)
        note old = step.IH [rule_format, OF 2(1)]
        show ?thesis
        proof (intro conjI impI)
          assume "rt_canceled (w_rt w')"
          with 2(3) consider "rt_canceled (w_rt w)" | "told_canceled B p h h'" by blast
          then show "\<exists>g1 g2 w1. reached B ext g1 \<and> fmlookup (s_workers (sched g1)) p = Some w1 \<and> w_task w1 = w_task w' \<and>
              told_canceled B p g1 g2 \<and> gstep B ext g1 g2 \<and> gsteps B ext g2 h'"
          proof cases
            case 1
            with old obtain g1 g2 w1 where "reached B ext g1" "fmlookup (s_workers (sched g1)) p = Some w1" "w_task w1 = w_task w"
              "told_canceled B p g1 g2" "gstep B ext g1 g2" "gsteps B ext g2 h" by blast
            then show ?thesis using 2(2) step.hyps(2) rtranclp.rtrancl_into_rtrancl by metis
          next
            case told: 2
            then show ?thesis using rh \<open>fmlookup (s_workers (sched h)) p = Some w\<close> 2(2) step.hyps(2) by (metis rtranclp.rtrancl_refl)
          qed
        qed (use 2 old drain in blast)
      qed simp
    qed
  qed
  then show ?thesis using assms(2) by blast
qed

text \<open>
  C18: receipts are justified.  When an execution is about to send its receipt, no loss of its lease
  has been noticed, so a result that is known to be void is never sent.  It reports a cancellation only if earlier in
  the run this execution, of this task, was told of one: the back end answered its heartbeat or renewal with \<open>ErrTaskCanceled\<close>, or a call of
  \<open>Cancel\<close> that the back end had accepted reached it in this process.  It gives the task back only after
  \<open>Shutdown\<close> was called and has begun to interrupt executions.  In both cases the context of the handler had been cancelled.
\<close>

theorem receipts_justified:
  assumes "reached B ext g" and "fmlookup (s_workers (sched g)) p = Some w" and "w_phase w = PSend r"
  shows "\<not> rt_leaseLost (w_rt w) \<and>
    (r = RFinishCanceled \<longrightarrow> rt_canceled (w_rt w) \<and> rt_ctxDone (w_rt w) \<and>
      (\<exists>g1 g2 w1. reached B ext g1 \<and> fmlookup (s_workers (sched g1)) p = Some w1 \<and> w_task w1 = w_task w \<and>
        told_canceled B p g1 g2 \<and> gstep B ext g1 g2 \<and> gsteps B ext g2 g)) \<and>
    (r = RRequeue \<longrightarrow> rt_requeue (w_rt w) \<and> rt_ctxDone (w_rt w) \<and> s_draining (sched g) \<and> g_shutdown g)"
proof -
  have inv: "ginv g" by (rule reached_ginv [OF assms(1)])
  from table_invD(1) [OF _ assms(2)] inv have "\<not> rt_leaseLost (w_rt w)" "r = RFinishCanceled \<Longrightarrow> rt_canceled (w_rt w) \<and> rt_ctxDone (w_rt w)"
    "r = RRequeue \<Longrightarrow> rt_requeue (w_rt w) \<and> rt_ctxDone (w_rt w)" using assms(3) by (auto simp: worker_ok_def ginv_def)
  then show ?thesis using reached_flags [OF assms(1,2)] inv by (auto simp: ginv_def shut_inv_def)
qed

section \<open>Shutdown\<close>

lemma SReturned_stable:
  assumes "gstep B ext g g'" and "ginv g" and "g_shutdownPc g = SReturned e"
  shows "g_shutdownPc g' = SReturned e"
  using assms
proof (induction rule: gstep.induct)
  case (claim ev q g g')
  then show ?case using claim_step_frame [of B ev q g g'] by (simp add: claim_frame_def frame_def)
next
  case (work wev p g g')
  then show ?case using work_step_table [of g B wev p g'] by (simp add: ginv_def frame_def)
next
  case (start ns queues g hs ctx)
  then show ?case by (auto simp: run_start_def ginv_def shut_inv_def split: sum.splits if_splits prod.splits option.splits)
next
  case (submit g e ty payload os)
  then show ?case by (auto simp: Submit_def split: sum.splits prod.splits)
next
  case (replay g e req os)
  then show ?case by (auto simp: gate_replay_def Let_def split: sum.splits prod.splits)
next
  case (cancel g e i)
  then show ?case by (auto simp: Cancel_broker_def split: option.splits prod.splits)
next
  case (reap e g g')
  then show ?case by (auto simp: reap_tick_def split: option.splits if_splits)
next
  case (reaperStop g g')
  then show ?case by (auto simp: reaper_stop_def upd_run_def split: option.splits if_splits)
next
  case (finish g g')
  then show ?case by (auto simp: run_finish_def split: option.splits if_splits)
next
  case (shutdown g)
  then show ?case by (auto simp: Shutdown_def ginv_def shut_inv_def)
next
  case (drain "is" g g')
  then show ?case by (simp add: shutdown_drain_def)
next
  case (returned er g g')
  then show ?case by (auto simp: shutdown_return_def split: if_splits)
qed (simp_all add: Handle_def Cancel_local_def cancel_run_def upd_run_def)

text \<open>
  C20: after \<open>Shutdown\<close>.  Once \<open>Shutdown\<close> has returned, with or without an error, nothing of the
  process is left running: there is no run, no execution and no entry in the table.  This never
  changes again, whatever is called: \<open>Run\<close> is refused, and \<open>Submit\<close> and \<open>Replay\<close> answer
  \<open>ErrShutdown\<close> without touching the back end.
\<close>

theorem shutdown_final:
  assumes "reached B ext g" and "g_shutdownPc g = SReturned er" and "gsteps B ext g g'"
  shows "s_run (sched g') = None \<and> s_workers (sched g') = fmempty \<and> s_tasks (sched g') = fmempty \<and>
    Submit B e typ payload os g' = (g', Inl ErrShutdown) \<and>
    gate_replay B e req ros g' = (g', Inl ErrShutdown) \<and> snd (run_start B hs ns ctx g') \<noteq> None"
proof -
  have "reached B ext g' \<and> g_shutdownPc g' = SReturned er"
    using assms(3)
  proof (induction rule: rtranclp_induct)
    case (step y z)
    then show ?case using reached_step SReturned_stable reached_ginv by blast
  qed (use assms in simp)
  then have inv: "ginv g'" "g_shutdownPc g' = SReturned er" using reached_ginv by blast+
  then have run: "s_run (sched g') = None" and shut: "g_shutdown g'"
    by (auto simp: ginv_def shut_inv_def)
  have none: "s_workers (sched g') = fmempty" using inv(1) run by (simp add: ginv_def slot_inv_def)
  moreover have "fmlookup (s_tasks (sched g')) i = None" for i
    using inv(1) none table_invD(2) [of "sched g'" i] by (cases "fmlookup (s_tasks (sched g')) i") (auto simp: ginv_def)
  then have "s_tasks (sched g') = fmempty" by (auto intro: fmap_ext)
  ultimately show ?thesis using run shut
    by (auto simp: Submit_def gate_replay_def run_start_def split: sum.splits)
qed


section \<open>Quotas before claims\<close>

fun quota_pc :: "bool \<Rightarrow> claimPc \<Rightarrow> bool" where
  "quota_pc gated CQueueLen = gated"
| "quota_pc gated CReserve = gated"
| "quota_pc gated CSleepQuota = gated"
| "quota_pc gated (CDequeue res) = (gated = (res \<noteq> None))"
| "quota_pc gated pc = True"

definition quota_ok :: "'q runState \<Rightarrow> bool" where
  "quota_ok rs \<longleftrightarrow>
     (\<forall>q qc. fmlookup (r_queues rs) q = Some qc \<longrightarrow> (fmlookup (r_quotas rs) q \<noteq> None) = (0 < QuotaLimit qc)) \<and>
     (\<forall>q pc. fmlookup (r_claims rs) q = Some pc \<longrightarrow> quota_pc (fmlookup (r_quotas rs) q \<noteq> None) pc)"

definition quota_inv :: "('b, 'q) gate \<Rightarrow> bool" where
  "quota_inv g \<longleftrightarrow> (\<forall>rs. s_run (sched g) = Some rs \<longrightarrow> quota_ok rs)"

text \<open>Where a step of a claim loop can lead, as far as quotas go.\<close>

lemma release_goto_run:
  assumes "release_goto q l pc g = Some g'" and "s_run (sched g) = Some rs"
  shows "\<exists>ls. s_run (sched g') = Some (rs\<lparr>r_limiters := ls, r_claims := fmupd q pc (r_claims rs)\<rparr>)"
  using assms by (auto simp: release_goto_def sched_goto sched_set_limiter split: option.splits)

lemma goto_run:
  assumes "s_run (sched g) = Some rs"
  shows "\<exists>ls. s_run (sched (goto q pc g)) = Some (rs\<lparr>r_limiters := ls, r_claims := fmupd q pc (r_claims rs)\<rparr>)"
proof -
  have "rs\<lparr>r_limiters := r_limiters rs, r_claims := fmupd q pc (r_claims rs)\<rparr> = rs\<lparr>r_claims := fmupd q pc (r_claims rs)\<rparr>"
    by simp
  then show ?thesis using assms by (auto simp: sched_goto intro!: exI [of _ "r_limiters rs"])
qed

lemma claim_moves:
  assumes step: "claim_step B ev q g = Some g'" and run: "s_run (sched g) = Some rs"
    and pc: "fmlookup (r_claims rs) q = Some pc" and ok: "quota_pc (fmlookup (r_quotas rs) q \<noteq> None) pc"
  shows "\<exists>ls pc'. s_run (sched g') = Some (rs\<lparr>r_limiters := ls, r_claims := fmupd q pc' (r_claims rs)\<rparr>) \<and>
    quota_pc (fmlookup (r_quotas rs) q \<noteq> None) pc'"
proof -
  let ?to = "\<lambda>pc'. \<exists>ls. s_run (sched g') = Some (rs\<lparr>r_limiters := ls, r_claims := fmupd q pc' (r_claims rs)\<rparr>)"
  obtain qc l where q: "fmlookup (r_queues rs) q = Some qc" "fmlookup (r_limiters rs) q = Some l"
    and cs: "claim_at B ev q rs qc l pc g = Some g'"
    using step run pc by (auto simp: claim_step_def split: option.splits)
  have rel: "?to pc'" if "release_goto q l pc' g1 = Some g'" "s_run (sched g1) = Some rs" for pc' g1
    using release_goto_run [OF that] .
  have go: "?to pc'" if "g' = goto q pc' g1" "s_run (sched g1) = Some rs" for pc' and g1 :: "('a, 'b) gate"
    using goto_run [OF that(2)] that(1) by simp
  have lim: "?to pc'" if "g' = goto q pc' (set_limiter q l' g)" for pc' l'
    using that run by (auto simp: sched_goto sched_set_limiter)
  have "\<exists>pc'. ?to pc' \<and> quota_pc (fmlookup (r_quotas rs) q \<noteq> None) pc'"
  proof (cases pc)
    case CAcquire
    then have "g' = goto q CExited g \<or> (\<exists>l'. g' = goto q CToken (set_limiter q l' g))"
      using cs by (auto simp: claim_at_def split: option.splits)
    then have "?to CExited \<or> ?to CToken" using go [OF _ run] lim by blast
    then show ?thesis by force
  next
    case CToken
    then have "?to CExited \<or> ?to (if fmlookup (r_quotas rs) q = None then CDequeue None else CQueueLen)"
      using cs go [OF _ run] rel [OF _ run] by (auto simp: claim_at_def split: option.splits)
    then show ?thesis by (auto split: if_splits)
  next
    case CQueueLen
    then have "?to CSleepQuota \<or> ?to CReserve"
      using cs go [OF _ run] rel [OF _ run] by (auto simp: claim_at_def split: if_splits)
    then show ?thesis using ok CQueueLen by auto
  next
    case CReserve
    then obtain qg where "fmlookup (r_quotas rs) q = Some qg" "claim_reserve B ev q rs qg l g = Some g'"
      using cs by (auto simp: claim_at_def split: option.splits)
    moreover have sq: "s_run (sched (set_quota q f (g\<lparr>broker := b\<rparr>))) = Some rs" for f b using run by simp
    have "?to CExited \<or> ?to CSleepQuota \<or> (\<exists>w. ?to (CDequeue (Some w)))"
    proof (cases "op_Reserve B ((ce_env ev)\<lparr>e_ctx := r_ctx rs\<rparr>) qg (broker g)")
      case (Pair b' res)
      consider e where "res = Inl e" | "res = Inr None" | w where "res = Inr (Some w)" by (cases res) auto
      then show ?thesis
      proof cases
        case 1
        then show ?thesis using Pair calculation(2) rel [OF _ sq] by (auto simp: claim_reserve_def split: if_splits)
      next
        case 2
        then show ?thesis using Pair calculation(2) rel [OF _ sq] by (auto simp: claim_reserve_def)
      next
        case 3
        then show ?thesis using Pair calculation(2) go [OF _ sq] by (simp add: claim_reserve_def) blast
      qed
    qed
    ultimately show ?thesis by force
  next
    case (CDequeue res)
    have stay: "?to (CDequeue res)" if "g' = g\<lparr>broker := b\<rparr>" for b
      using that run pc CDequeue fmupd_same [OF pc] by (auto intro!: exI [of _ "r_limiters rs"])
    have spawned: "?to CAcquire" if "g' = goto q CAcquire (spawn p q t qc (g\<lparr>broker := b\<rparr>))" for p t b
      using that run by (intro go [OF that]) (simp add: spawn_def Let_def add_running_def split: option.splits)
    have "?to CAcquire \<or> ?to (CDequeue res) \<or> ?to CExited \<or> ?to CSleepRetry"
      using cs CDequeue stay spawned rel run
      by (auto simp: claim_at_def claim_dequeue_def Let_def split: prod.splits dequeueTurn.splits if_splits)
    then show ?thesis using ok CDequeue by force
  next
    case CSleepQuota
    then have "?to CExited \<or> ?to CAcquire" using cs go [OF _ run] by (auto simp: claim_at_def split: if_splits)
    then show ?thesis by force
  next
    case CSleepRetry
    then have "?to CAcquire" using cs go [OF _ run] by (auto simp: claim_at_def)
    then show ?thesis by force
  qed (use cs in \<open>simp add: claim_at_def\<close>)
  then show ?thesis by blast
qed


lemma worker_next_claims:
  assumes "worker_next B e jitter p w g = Some g'"
  shows "map_option r_claims (s_run (sched g')) = map_option r_claims (s_run (sched g))"
proof (cases "w_phase w")
  case PExit
  then show ?thesis using assms
    by (auto simp: worker_next_def Let_def worker_exit_def set_limiter_def upd_run_def
        add_running_def option.map_comp o_def split: option.splits)
qed (use assms in \<open>auto simp: worker_next_def Let_def set_worker_def split: if_splits prod.splits\<close>)

lemma work_step_claims:
  assumes "work_step B ev p g = Some g'"
  shows "map_option r_claims (s_run (sched g')) = map_option r_claims (s_run (sched g))"
proof -
  obtain w where p: "fmlookup (s_workers (sched g)) p = Some w"
    using assms by (auto simp: work_step_def split: option.splits)
  have keep: "s_run (sched (set_worker p w' h)) = s_run (sched h)" for w' and h :: "('a, 'b) gate"
    by (simp add: set_worker_def)
  show ?thesis
  proof (cases ev)
    case (WNext e j)
    then show ?thesis using assms p worker_next_claims by (auto simp: work_step_def)
  qed (use assms p in \<open>auto simp: work_step_def heartbeat_tick_def renew_def keep
      split: phase.splits bool.splits prod.splits\<close>)
qed

lemma quota_inv_same:
  assumes "quota_inv g"
    and "\<And>rs'. s_run (sched g') = Some rs' \<Longrightarrow> \<exists>rs. s_run (sched g) = Some rs \<and>
      r_claims rs' = r_claims rs \<and> r_quotas rs' = r_quotas rs \<and> r_queues rs' = r_queues rs"
  shows "quota_inv g'"
  unfolding quota_inv_def
proof (intro allI impI)
  fix rs' assume "s_run (sched g') = Some rs'"
  from assms(2) [OF this] obtain rs where rs: "s_run (sched g) = Some rs"
    "r_claims rs' = r_claims rs" "r_quotas rs' = r_quotas rs" "r_queues rs' = r_queues rs" by blast
  then have "quota_ok rs" using assms(1) by (simp add: quota_inv_def)
  then show "quota_ok rs'" using rs by (simp add: quota_ok_def)
qed

lemma quota_inv_work:
  assumes step: "work_step B ev p g = Some g'" and g: "ginv g" and inv: "quota_inv g"
  shows "quota_inv g'"
proof (rule quota_inv_same [OF inv])
  fix rs' assume rs': "s_run (sched g') = Some rs'"
  have "frame g g'" using work_step_table [OF _ step] g by (simp add: ginv_def)
  then show "\<exists>rs. s_run (sched g) = Some rs \<and> r_claims rs' = r_claims rs \<and> r_quotas rs' = r_quotas rs \<and> r_queues rs' = r_queues rs"
    using work_step_claims [OF step] rs' by (cases "s_run (sched g)") (auto simp: frame_def)
qed

lemma quota_ok_move:
  "quota_ok rs \<Longrightarrow> quota_pc (fmlookup (r_quotas rs) q \<noteq> None) pc' \<Longrightarrow>
   quota_ok (rs\<lparr>r_limiters := ls, r_claims := fmupd q pc' (r_claims rs)\<rparr>)"
  by (auto simp: quota_ok_def simp del: not_None_eq)

lemma quota_inv_claim:
  assumes step: "claim_step B ev q g = Some g'" and inv: "quota_inv g"
  shows "quota_inv g'"
proof -
  obtain rs pc where run: "s_run (sched g) = Some rs" and pc: "fmlookup (r_claims rs) q = Some pc"
    using step by (auto simp: claim_step_def split: option.splits)
  have ok: "quota_ok rs" using inv run by (simp add: quota_inv_def)
  then have "quota_pc (fmlookup (r_quotas rs) q \<noteq> None) pc" using pc by (simp add: quota_ok_def)
  from claim_moves [OF step run pc this] show ?thesis using quota_ok_move [OF ok]
    by (auto simp: quota_inv_def simp del: not_None_eq)
qed

lemma build_queues_quotas:
  assumes "build_queues B queues ns bt = (bt', None)"
  shows "fmlookup (bt_quotas bt') q \<noteq> None \<longleftrightarrow> fmlookup (bt_quotas bt) q \<noteq> None \<or>
    q \<in> set ns \<and> (\<exists>qc. fmlookup queues q = Some qc \<and> 0 < QuotaLimit qc)"
  using assms
proof (induction ns arbitrary: bt)
  case (Cons n ns)
  show ?case
  proof (cases "fmlookup queues n")
    case None
    then show ?thesis using Cons by auto
  next
    case (Some qc)
    obtain bt1 bt2 where b: "build_quota B n qc (build_running n bt) = (bt1, None)"
      "build_limiter B n qc bt1 = (bt2, None)" "build_queues B queues ns bt2 = (bt', None)"
      using Cons.prems Some by (auto split: prod.splits option.splits)
    have "bt_quotas (build_running n bt) = bt_quotas bt" "bt_quotas bt2 = bt_quotas bt1"
      using b(2) by (auto simp: build_running_def build_limiter_def split: option.splits sum.splits)
    then have "fmlookup (bt_quotas bt2) q \<noteq> None \<longleftrightarrow> fmlookup (bt_quotas bt) q \<noteq> None \<or> q = n \<and> 0 < QuotaLimit qc"
      using b(1) by (auto simp: build_quota_def split: if_splits option.splits sum.splits)
    then show ?thesis using Cons.IH [OF b(3)] Some by auto
  qed
qed simp

lemma quota_inv_start:
  assumes inv: "quota_inv g" and ns: "consumeQueues (g_cfg g) hs = Inr queues" "range_order ns queues"
  shows "quota_inv (fst (run_start B hs ns ctx g))"
proof (cases "queues = fmempty \<or> g_shutdown g \<or> s_started (sched g)")
  case True
  then show ?thesis using inv ns(1) by (auto simp: run_start_def)
next
  case False
  let ?bt = "\<lparr>bt_running = s_running (sched g), bt_quota = s_quota (sched g), bt_limiters = fmempty, bt_quotas = fmempty\<rparr>"
  obtain bt' er where b: "build_queues B queues ns ?bt = (bt', er)" by fastforce
  show ?thesis
  proof (cases er)
    case (Some e)
    then show ?thesis using False inv ns(1) b by (simp add: run_start_def quota_inv_def)
  next
    case None
    have "q \<in> set ns \<longleftrightarrow> fmlookup queues q \<noteq> None" for q
      using range_order_in [OF ns(2), of q] by auto
    then have "fmlookup (bt_quotas bt') q \<noteq> None \<longleftrightarrow> (\<exists>qc. fmlookup queues q = Some qc \<and> 0 < QuotaLimit qc)" for q
      using build_queues_quotas [OF b [unfolded None], of q] by auto
    then have "quota_ok \<lparr>r_ctx = ctx, r_queues = queues, r_limiters = bt_limiters bt',
        r_quotas = bt_quotas bt', r_claims = fmmap (\<lambda>_. CAcquire) queues, r_reaper = True\<rparr>"
      by (simp add: quota_ok_def del: not_None_eq)
    then show ?thesis using False ns(1) b None by (simp add: run_start_def quota_inv_def)
  qed
qed

lemma gstep_quota_inv:
  assumes "gstep B ext g g'" and "ginv g" and "quota_inv g"
  shows "quota_inv g'"
  using assms
proof (induction rule: gstep.induct)
  case (claim ev q g g')
  show ?case by (rule quota_inv_claim [OF claim.hyps claim.prems(2)])
next
  case (work wev p g g')
  show ?case by (rule quota_inv_work [OF work.hyps work.prems])
next
  case (start ns queues g hs ctx)
  show ?case by (rule quota_inv_start [OF start.prems(2) start.hyps(2,1)])
next
  case (submit g e ty payload os)
  then show ?case by (auto simp: Submit_def quota_inv_def split: sum.splits prod.splits)
next
  case (replay g e req os)
  then show ?case by (auto simp: gate_replay_def quota_inv_def Let_def split: sum.splits prod.splits)
next
  case (cancel g e i)
  then show ?case by (auto simp: Cancel_broker_def quota_inv_def split: option.splits prod.splits)
next
  case (cancelLocal i g)
  have "s_run (cancelLocal i (sched g)) = s_run (sched g)" by (simp add: cancelLocal_def split: option.splits)
  then show ?case using cancelLocal.prems by (simp add: Cancel_local_def quota_inv_def)
next
  case (reap e g g')
  then show ?case by (auto simp: reap_tick_def quota_inv_def split: option.splits if_splits)
next
  case (reaperStop g g')
  show ?case
    by (rule quota_inv_same [OF reaperStop.prems(2)])
      (use reaperStop.hyps in \<open>auto simp: reaper_stop_def upd_run_def split: option.splits if_splits\<close>)
next
  case (ctxDone g er)
  show ?case
    by (rule quota_inv_same [OF ctxDone.prems(2)]) (auto simp: cancel_run_def upd_run_def)
next
  case (finish g g')
  then show ?case by (auto simp: run_finish_def quota_inv_def split: option.splits if_splits)
next
  case (shutdown g)
  show ?case
    by (rule quota_inv_same [OF shutdown.prems(2)])
      (auto simp: Shutdown_def cancel_run_def upd_run_def Let_def split: if_splits)
next
  case (drain "is" g g')
  have "s_run (drain is (sched g)) = s_run (sched g)" using same_slots_drain [of "sched g" "is"] by (simp add: same_slots_def)
  then show ?case using drain by (auto simp: shutdown_drain_def quota_inv_def split: if_splits)
next
  case (returned er g g')
  then show ?case by (auto simp: shutdown_return_def quota_inv_def split: if_splits shutdownPc.splits)
qed (simp_all add: Handle_def quota_inv_def)

lemma reached_quota_inv:
  assumes "reached B ext g"
  shows "quota_inv g"
proof -
  obtain xs ts ys zs c b g0 where g0: "newGate B xs ts ys zs c b = Inr g0" "range_order xs (Queues c)"
    "gsteps B ext g0 g" and lim: "op_QueueLimiter B = None"
    using assms unfolding reached_def by blast
  have "quota_inv g0" using g0(1)
    by (auto simp: newGate_def newScheduler_def quota_inv_def split: sum.splits option.splits prod.splits if_splits)
  with g0(3) show ?thesis
  proof (induction rule: rtranclp_induct)
    case (step y z)
    then show ?case using gstep_quota_inv gsteps_ginv [OF lim step.hyps(1) newGate_ginv(1) [OF g0(1,2)]] by blast
  qed
qed

text \<open>
  C21: no claim without a reservation.  Whenever a claim loop of a queue with a quota starts an
  execution, it holds a reservation of the quota of that queue at that moment; a queue without a
  quota never asks for one.
\<close>

theorem quota_before_claim:
  assumes "reached B ext g" and run: "s_run (sched g) = Some rs" and qc: "fmlookup (r_queues rs) q = Some qc"
    and step: "claim_step B ev q g = Some g'" and new: "s_workers (sched g') \<noteq> s_workers (sched g)"
  shows "\<exists>res. fmlookup (r_claims rs) q = Some (CDequeue res) \<and> (res \<noteq> None) = (0 < QuotaLimit qc) \<and>
    (fmlookup (r_quotas rs) q \<noteq> None) = (0 < QuotaLimit qc)"
proof -
  have ok: "quota_ok rs" using reached_quota_inv [OF assms(1)] run by (simp add: quota_inv_def)
  obtain l pc where pc: "fmlookup (r_claims rs) q = Some pc" "claim_at B ev q rs qc l pc g = Some g'"
    using step run qc by (auto simp: claim_step_def split: option.splits)
  have rel: "release_goto q l pc' h \<noteq> Some g'" if "s_workers (sched h) = s_workers (sched g)" for pc' h
    using release_goto_frame [of q l pc' h g'] new that by auto
  have "\<exists>res. pc = CDequeue res"
  proof (rule ccontr)
    assume "\<nexists>res. pc = CDequeue res"
    then show False using pc(2) rel new
      by (cases pc) (auto simp: claim_at_def claim_reserve_def sched_goto sched_set_limiter
          split: option.splits if_splits prod.splits sum.splits)
  qed
  then show ?thesis using ok pc(1) qc unfolding quota_ok_def by fastforce
qed


section \<open>A stopped claim loop ends\<close>

text \<open>A back end whose \<open>Dequeue\<close> returns when its context is done.\<close>

definition ctx_aware :: "('b, 'q) Broker \<Rightarrow> bool" where
  "ctx_aware B \<longleftrightarrow> (\<forall>e q b. e_ctx e \<noteq> None \<longrightarrow> (\<exists>b' er. op_Dequeue B e [q] b = (b', DequeueErr er)))"

lemma memory_ctx_aware: "ctx_aware memory_broker"
  by (auto simp: ctx_aware_def memory_broker_def mem_Dequeue_turn_def)

fun claim_rank :: "claimPc \<Rightarrow> nat" where
  "claim_rank CSleepRetry = 4"
| "claim_rank CAcquire = 3"
| "claim_rank CToken = 2"
| "claim_rank (CDequeue res) = 1"
| "claim_rank pc = 0"

definition pc_at :: "string \<Rightarrow> ('b, 'q) gate \<Rightarrow> claimPc option" where
  "pc_at q g = Option.bind (s_run (sched g)) (\<lambda>rs. fmlookup (r_claims rs) q)"

lemma pc_at_goto: "s_run (sched g) \<noteq> None \<Longrightarrow> pc_at q (goto q pc g) = Some pc"
  by (auto simp: pc_at_def sched_goto)

lemma pc_at_release: "s_run (sched g) \<noteq> None \<Longrightarrow> release_goto q l pc g = Some g' \<Longrightarrow> pc_at q g' = Some pc"
  by (auto simp: release_goto_def pc_at_def sched_goto sched_set_limiter split: option.splits)

text \<open>The two steps of a stopped loop that are not plain jumps: after the token, and the claim itself.\<close>

lemma stopped_token:
  assumes run: "s_run (sched g) \<noteq> None" and nq: "fmlookup (r_quotas rs) q = None"
    and step: "claim_at B ev q rs qc l CToken g = Some g'"
  shows "pc_at q g' = Some CExited \<or> pc_at q g' = Some (CDequeue None)"
proof (cases "WaitToken (ce_wait ev) l")
  case None
  then have "g' = goto q (CDequeue None) g" using step nq by (simp add: claim_at_def)
  then show ?thesis using pc_at_goto [OF run] by blast
next
  case (Some e)
  then have "release_goto q l CExited g = Some g'" using step by (simp add: claim_at_def)
  then show ?thesis using pc_at_release [OF run] by blast
qed

lemma stopped_dequeue:
  assumes "ctx_aware B" and ctx: "r_ctx rs \<noteq> None"
  shows "\<exists>b'. claim_at B ev q rs qc l (CDequeue None) g = release_goto q l CExited (g\<lparr>broker := b'\<rparr>)"
proof -
  have "\<exists>b' er. op_Dequeue B ((ce_env ev)\<lparr>e_ctx := dequeueCtx ev None (r_ctx rs)\<rparr>) [q] (broker g) = (b', DequeueErr er)"
    using assms unfolding ctx_aware_def by (auto simp: dequeueCtx_def)
  then show ?thesis using ctx by (auto simp: claim_at_def claim_dequeue_def)
qed

text \<open>
  C22: a stopped claim loop ends.  Once the context of the run is done, through its caller or through
  \<open>Shutdown\<close>, the claim loop of a queue without a quota can always take a step until it has
  exited, and it exits after at most four steps of its own, whatever the other goroutines do between
  them: every step decreases \<open>claim_rank\<close>.
\<close>

theorem claim_loop_stops:
  assumes "reached B ext g" and aware: "ctx_aware B" and run: "s_run (sched g) = Some rs"
    and ctx: "r_ctx rs \<noteq> None" and qc: "fmlookup (r_queues rs) q = Some qc" "QuotaLimit qc \<le> 0"
    and pc: "pc_at q g = Some pc" "pc \<noteq> CExited"
  shows "(\<exists>ev g'. claim_step B ev q g = Some g') \<and>
    (\<forall>ev g'. claim_step B ev q g = Some g' \<longrightarrow> (\<exists>pc'. pc_at q g' = Some pc' \<and> claim_rank pc' < claim_rank pc))"
proof -
  have ok: "quota_ok rs" using reached_quota_inv [OF assms(1)] run by (simp add: quota_inv_def)
  have pcq: "fmlookup (r_claims rs) q = Some pc" using pc(1) run by (simp add: pc_at_def)
  have nq: "fmlookup (r_quotas rs) q = None" using ok qc unfolding quota_ok_def by fastforce
  have inv: "slot_inv (sched g)" using reached_ginv [OF assms(1)] by (simp add: ginv_def)
  note slots = slot_invD(2) [OF inv run]
  obtain l where l: "fmlookup (r_limiters rs) q = Some l"
    using fmdomI [OF qc(1)] slots_ok_dom(1) [OF slots] by (metis fmdomE)
  have step: "claim_step B ev q g = claim_at B ev q rs qc l pc g" for ev
    using run qc(1) l pcq by (simp add: claim_step_def)
  have some: "s_run (sched (g\<lparr>broker := b\<rparr>)) \<noteq> None" "s_run (sched (set_limiter q l' g)) \<noteq> None"
    "s_run (sched g) \<noteq> None" for b l' using run by (simp_all add: sched_set_limiter)
  define ev0 :: claimEv where "ev0 = \<lparr>ce_env = \<lparr>e_now = 0, e_ulid = [], e_order = [], e_order2 = [], e_ctx = None\<rparr>,
    ce_pick = True, ce_wait = (\<lambda>_. None), ce_timeout = False, ce_sleepErr = False, ce_ptr = 0\<rparr>"
  have rel: "\<exists>l'. ReleaseSlot l = Some l'" if "slot_of pc = 1"
  proof -
    have "0 < sem_len l"
      using slots_okD(2) [OF slots qc(1) l pcq] that nworkers_nonneg [of q "wqueues (sched g)"] by linarith
    then show ?thesis by (simp add: ReleaseSlot_def)
  qed
  have "quota_pc False pc" using ok pcq nq unfolding quota_ok_def by fastforce
  then consider "pc = CAcquire" | "pc = CToken" | "pc = CDequeue None" | "pc = CSleepRetry"
    using pc(2) by (cases pc) auto
  then show ?thesis
  proof cases
    case 1
    have "claim_at B ev0 q rs qc l pc g \<noteq> None"
      using 1 ctx by (auto simp: claim_at_def AcquireSlot_def split: option.splits)
    then show ?thesis unfolding step using 1 pc_at_goto [OF some(2)] pc_at_goto [OF some(3)]
      by (auto simp: claim_at_def split: option.splits)
  next
    case 2
    have "claim_at B ev0 q rs qc l pc g \<noteq> None"
      using 2 by (auto simp: claim_at_def ev0_def WaitToken_def split: option.splits)
    then show ?thesis unfolding step using 2 stopped_token [OF some(3) nq] by fastforce
  next
    case 3
    have eq: "\<exists>b'. claim_at B ev q rs qc l pc g = release_goto q l CExited (g\<lparr>broker := b'\<rparr>)" for ev
      unfolding 3 by (rule stopped_dequeue [OF aware ctx])
    have "claim_at B ev0 q rs qc l pc g \<noteq> None"
      using eq [of ev0] rel 3 by (auto simp: release_goto_def)
    moreover have "pc_at q g' = Some CExited" if "claim_at B ev q rs qc l pc g = Some g'" for ev g'
      using eq [of ev] that pc_at_release [OF some(1)] by fastforce
    ultimately show ?thesis unfolding step using 3 by fastforce
  next
    case 4
    then show ?thesis unfolding step using pc_at_goto [OF some(3)] by (auto simp: claim_at_def)
  qed
qed

section \<open>Errors of handlers\<close>

text \<open>
  C23: the classification of a failed execution.  If an \<open>ErrSkipRetry\<close> is anywhere in the error
  the task is not retried, even when it wraps an \<open>ErrThrottled\<close>; otherwise, if an \<open>ErrThrottled\<close> is in
  it, the task is rescheduled after the pause of one of them and the failure is counted as
  throttling; every other error, a panic included, is a business failure, rescheduled after the
  back-off of the attempts made so far.
\<close>

theorem failTask_classifies:
  "failTask now backoff t herr =
     RFail (errorText herr)
       (if \<exists>x. unwraps herr (GoSkipRetry x) then FailSkip
        else if \<exists>d. unwraps herr (GoThrottled d) then FailThrottled else FailBusiness)
       (if \<exists>x. unwraps herr (GoSkipRetry x) then zero_time
        else (case asThrottled herr of Some d \<Rightarrow> now + d | None \<Rightarrow> now + backoff (Attempts t))) \<and>
   (\<forall>d. asThrottled herr = Some d \<longrightarrow> unwraps herr (GoThrottled d)) \<and>
   snd (runHandler (HPanicked v)) = Some (GoErr (''taskgate: handler panic: '' @ v)) \<and>
   \<not> asSkip (GoErr msg) \<and> asThrottled (GoErr msg) = None"
proof -
  have skip: "asSkip herr \<longleftrightarrow> (\<exists>x. unwraps herr (GoSkipRetry x))" by (rule asSkip_iff)
  have thr: "(\<exists>d. unwraps herr (GoThrottled d)) \<longleftrightarrow> asThrottled herr \<noteq> None"
    unfolding asThrottled_None_iff by simp
  show ?thesis unfolding thr skip [symmetric] using asThrottled_sound
    by (auto simp: failTask_def runHandler_def split: option.splits)
qed


section \<open>Leases end to end\<close>

text \<open>What the lease laws of a back end give for the receipts and heartbeats of an execution.\<close>

context lease_broker
begin

lemma receipt_effect:
  assumes "usable b" and "send_receipt B e t r b = (b', er)" and "\<forall>msg n retryAt. r \<noteq> RFail msg (FailOther n) retryAt"
  shows "if held b (ID t) (LeaseToken t) then er = None \<and> \<not> held b' (ID t) (LeaseToken t) else b' = b \<and> er \<noteq> None"
proof (cases r)
  case (RAck res)
  then show ?thesis using assms(2) ack_ends [OF assms(1)] by (simp add: send_receipt_def)
next
  case RFinishCanceled
  then show ?thesis using assms(2) finish_ends [OF assms(1)] by (simp add: send_receipt_def)
next
  case RRequeue
  then show ?thesis using assms(2) requeue_ends [OF assms(1)] by (simp add: send_receipt_def)
next
  case (RFail msg kind retryAt)
  then have "op_Fail B e (ID t) (LeaseToken t) msg kind retryAt b = (b', er)" "\<forall>n. kind \<noteq> FailOther n"
    using assms(2,3) by (simp_all add: send_receipt_def)
  then show ?thesis using fail_ends [OF assms(1)] by presburger
qed

lemma heartbeat_effect:
  assumes "usable b" and "op_Heartbeat B e i token b = (b', er)" and "heartbeat_echo er rt = (rt', go)"
  shows "if held b i token then held b' i token \<and> go \<and> rt_leaseLost rt' = rt_leaseLost rt
    else b' = b \<and> \<not> go \<and> rt_leaseLost rt' \<and> rt_ctxDone rt'"
  using heartbeat_keeps [OF assms(1,2)] assms(3) by (auto simp: heartbeat_echo_def split: if_splits)

lemma worker_lease:
  assumes "reached B ext g" and usable: "usable (broker g)"
    and w: "fmlookup (s_workers (sched g)) p = Some w"
  defines "i \<equiv> ID (w_task w)" and "token \<equiv> LeaseToken (w_task w)"
  shows "(w_phase w = PSend r \<longrightarrow> work_step B (WNext e j) p g = Some g' \<longrightarrow>
      (if held (broker g) i token then \<not> held (broker g') i token else broker g' = broker g)) \<and>
    (work_step B (WHeartbeat e) p g = Some g' \<longrightarrow>
      (if held (broker g) i token then held (broker g') i token
       else broker g' = broker g \<and> (\<exists>w'. fmlookup (s_workers (sched g')) p = Some w' \<and>
         rt_leaseLost (w_rt w') \<and> rt_ctxDone (w_rt w') \<and> w_phase w' = set_heartbeat False (w_phase w))))"
proof (intro conjI impI)
  assume ph: "w_phase w = PSend r" and step: "work_step B (WNext e j) p g = Some g'"
  have "table_inv (sched g)" using reached_ginv [OF assms(1)] by (simp add: ginv_def)
  from table_invD(1) [OF this w] have kind: "\<forall>msg n retryAt. r \<noteq> RFail msg (FailOther n) retryAt"
    using ph by (simp add: worker_ok_def)
  obtain b' er where sent: "send_receipt B e (w_task w) r (broker g) = (b', er)" by fastforce
  then have "broker g' = b'" using step w ph by (auto simp: work_step_def worker_next_def Let_def set_worker_def)
  then show "if held (broker g) i token then \<not> held (broker g') i token else broker g' = broker g"
    using receipt_effect [OF usable sent kind] unfolding i_def token_def by auto
next
  assume step: "work_step B (WHeartbeat e) p g = Some g'"
  then have tick: "g' = heartbeat_tick B e p w g"
    using w by (auto simp: work_step_def split: phase.splits bool.splits)
  obtain b' er where hb: "op_Heartbeat B e i token (broker g) = (b', er)" by fastforce
  obtain rt' go where echo: "heartbeat_echo er (w_rt w) = (rt', go)" by fastforce
  have g': "broker g' = b'" "fmlookup (s_workers (sched g')) p =
      Some (w\<lparr>w_rt := rt', w_phase := set_heartbeat go (w_phase w)\<rparr>)"
    using hb echo unfolding tick heartbeat_tick_def i_def token_def by (simp_all add: set_worker_def)
  show "if held (broker g) i token then held (broker g') i token
       else broker g' = broker g \<and> (\<exists>w'. fmlookup (s_workers (sched g')) p = Some w' \<and>
         rt_leaseLost (w_rt w') \<and> rt_ctxDone (w_rt w') \<and> w_phase w' = set_heartbeat False (w_phase w))"
    using heartbeat_effect [OF usable hb echo] g' by auto
qed

end

text \<open>
  C16: leases from claim to receipt, over the in-memory broker.  An execution that reaches its receipt
  while it holds the lease has it accepted, and the lease ends with it, so no second receipt under
  the same lease can succeed; one whose lease is gone changes nothing.  A heartbeat keeps the lease of
  its holder alive; on a lost lease it stops, cancels the context of the handler and marks the
  result as void.
\<close>

theorem lease_to_receipt:
  assumes "reached memory_broker ext g" and usable: "mem_usable (broker g)"
    and w: "fmlookup (s_workers (sched g)) p = Some w"
  defines "i \<equiv> ID (w_task w)" and "token \<equiv> LeaseToken (w_task w)"
  shows "(w_phase w = PSend r \<longrightarrow> work_step memory_broker (WNext e j) p g = Some g' \<longrightarrow>
      (if mem_held (broker g) i token then \<not> mem_held (broker g') i token else broker g' = broker g)) \<and>
    (work_step memory_broker (WHeartbeat e) p g = Some g' \<longrightarrow>
      (if mem_held (broker g) i token then mem_held (broker g') i token
       else broker g' = broker g \<and> (\<exists>w'. fmlookup (s_workers (sched g')) p = Some w' \<and>
         rt_leaseLost (w_rt w') \<and> rt_ctxDone (w_rt w') \<and> w_phase w' = set_heartbeat False (w_phase w))))"
  using mem.worker_lease [OF assms(1-3), of r e j g'] unfolding i_def token_def .

end
