(* ===== verification/Gate_Props.thy ===== *)
theory Gate_Props
  imports Runtime_Props
begin

text \<open>
  The operations of the gate for its callers, over the in-memory broker where they store something:
  what \<open>Submit\<close> stores is what \<open>Get\<close> returns, and \<open>Wait\<close> returns exactly when one of its polls sees
  the end of the task.
\<close>

section \<open>Submit and Get\<close>

lemma insert_store_new:
  assumes "fmlookup m i = None" and "\<forall>q \<in> set (DependsOn (task r)). fmlookup m q \<noteq> None"
  shows "fmlookup (insert_store i r m) i = Some r"
proof -
  have "i \<notin> set (DependsOn (task r))" using assms by auto
  then show ?thesis
    using fold_add_child_lookup [OF dedup_seen_distinct, of i "[]" "DependsOn (task r)" "fmupd i r m" i]
    by (simp add: insert_store_def)
qed

lemma stored_fields:
  "Type (cloneTask (task (enqueue_rec i now t pol dec))) = Type t"
  "Queue (cloneTask (task (enqueue_rec i now t pol dec))) = Queue t"
  "Payload (cloneTask (task (enqueue_rec i now t pol dec))) = clone_bytes (clone_bytes (Payload t))"
  "MaxRetry (cloneTask (task (enqueue_rec i now t pol dec))) = MaxRetry t"
  "OnParentFailure (cloneTask (task (enqueue_rec i now t pol dec))) = pol"
  "RunAt (cloneTask (task (enqueue_rec i now t pol dec))) =
     (if isZero (trunc_ms (RunAt t)) then now else trunc_ms (RunAt t))"
  "Attempts (cloneTask (task (enqueue_rec i now t pol dec))) = Attempts t"
  "Result (cloneTask (task (enqueue_rec i now t pol dec))) = clone_bytes (clone_bytes (Result t))"
  "LeaseToken (cloneTask (task (enqueue_rec i now t pol dec))) = ''''"
  "CreatedAt (task (enqueue_rec i now t pol dec)) = now"
  "Status (cloneTask (task (enqueue_rec i now t pol dec))) = d_Status dec"
  "ID (cloneTask (task (enqueue_rec i now t pol dec))) = i"
  "BusinessKey (cloneTask (task (enqueue_rec i now t pol dec))) = BusinessKey t"
  "DependsOn (cloneTask (task (enqueue_rec i now t pol dec))) = DependsOn t"
  by (simp_all add: enqueue_rec_def cloneTask_def Let_def)

lemma Enqueue_stored:
  assumes "mem_Enqueue fresh clk t b = (b', ns, Inr t')" and "ID t = ''''" and "fresh_id fresh b"
  shows "fmlookup (recs b') fresh = Some (enq_rec fresh (trunc_ms clk) t (recs b)) \<and>
    t' = cloneTask (task (enq_rec fresh (trunc_ms clk) t (recs b)))"
proof -
  have ok: "mem_requireInit b = None" "ReplayOf t = ''''" "BusinessKey t = '''' \<or> chain_of b (BusinessKey t) = []"
    "\<forall>q \<in> set (DependsOn t). fmlookup (recs b) q \<noteq> None"
    using Enqueue_error [of b t fresh clk] assms(1,2) by fastforce+
  have "fmlookup (insert_store fresh (enq_rec fresh (trunc_ms clk) t (recs b)) (recs b)) fresh =
      Some (enq_rec fresh (trunc_ms clk) t (recs b))"
    using assms(3) ok(4) by (intro insert_store_new) (simp_all add: fresh_id_def enq_rec_def)
  then show ?thesis using Enqueue_ok [OF ok(1-3) _ ok(4), of fresh clk] assms(1,2)
    by (simp add: enq_id_def Let_def enqueued_def mem_broadcast_def)
qed

text \<open>
  Of a \<open>RunAt\<close> and a later \<open>Delay\<close> the first takes effect.  The comment on \<open>RunAt\<close> in \<open>taskgate.go\<close> has it
  that the one set later does.
\<close>

lemma runAt_before_delay:
  assumes "\<not> isZero t"
  shows "RunAt (submit_task now ty queue payload (applySubmitOptions (os @ [RunAtOpt t, Delay d]))) = t"
  using assms by (simp add: submit_task_def applySubmitOptions_def)

text \<open>
  C24: submitting and reading back.  If \<open>Submit\<close> succeeds, \<open>Get\<close> on the identifier it returned gives the
  submitted task: the type, the queue chosen by the routes, the payload and every option are as given,
  it has the new identifier, no attempts, no result and no lease, and it may run from the given
  instant, after the given delay, or at once.  A given instant takes precedence over a delay in
  whatever order the two options are set; the comment on \<open>RunAt\<close> says otherwise (\<open>runAt_before_delay\<close>).
\<close>

theorem submit_get:
  assumes step: "Submit memory_broker e ty payload os g = (g', Inr i)" and fresh: "fresh_id (e_ulid e) (broker g)"
  shows "\<exists>t queue qc. Get memory_broker e' i g' = Inr t \<and> queueFor (g_cfg g) ty = Inr (queue, qc) \<and>
    i = e_ulid e \<and> ID t = i \<and> Type t = ty \<and> Queue t = queue \<and> Payload t = clone_bytes payload \<and>
    (let o1 = applySubmitOptions os in
      BusinessKey t = o_businessKey o1 \<and> MaxRetry t = o_maxRetry o1 \<and> DependsOn t = o_dependsOn o1 \<and>
      OnParentFailure t = (if o_ignoreParentFailure o1 then IgnoreParentFail else FailFast) \<and>
      RunAt t = (if \<not> isZero (trunc_ms (o_runAt o1)) then trunc_ms (o_runAt o1)
                 else if isZero (o_runAt o1) \<and> 0 < o_delay o1 \<and> \<not> isZero (trunc_ms (e_now e + o_delay o1))
                   then trunc_ms (e_now e + o_delay o1)
                 else trunc_ms (e_now e))) \<and>
    Attempts t = 0 \<and> Result t = None \<and> LeaseToken t = '''' \<and> CreatedAt t = trunc_ms (e_now e) \<and>
    Status t \<in> {StatusPending, StatusBlocked, StatusCanceled}"
proof -
  let ?o = "applySubmitOptions os"
  obtain queue qc where q: "queueFor (g_cfg g) ty = Inr (queue, qc)"
    using step by (auto simp: Submit_def split: if_splits sum.splits)
  let ?t = "submit_task (e_now e) ty queue payload ?o"
  obtain b' ns t' where enq: "mem_Enqueue (e_ulid e) (e_now e) ?t (broker g) = (b', ns, Inr t')"
    and g': "g' = g\<lparr>broker := b'\<rparr>" "i = ID t'"
    using step q by (auto simp: Submit_def memory_broker_def split: if_splits sum.splits prod.splits)
  have id: "ID ?t = ''''" by (simp add: submit_task_def)
  note st = Enqueue_stored [OF enq id fresh]
  let ?r = "enq_rec (e_ulid e) (trunc_ms (e_now e)) ?t (recs (broker g))"
  have got: "Get memory_broker e' i g' = Inr (cloneTask (task ?r))"
    using st g' by (simp add: Get_def memory_broker_def mem_Get_def enq_rec_def cloneTask_def)
  have i: "i = e_ulid e" using st g' by (simp add: enq_rec_def cloneTask_def)
  have fields: "BusinessKey ?t = o_businessKey ?o" "Type ?t = ty" "Queue ?t = queue" "Payload ?t = payload"
    "Result ?t = None" "Attempts ?t = 0" "MaxRetry ?t = o_maxRetry ?o" "DependsOn ?t = o_dependsOn ?o"
    by (simp_all add: submit_task_def)
  have clone: "clone_bytes (clone_bytes p) = clone_bytes p" "clone_bytes None = None" for p
    by (auto simp: clone_bytes_def split: option.splits list.splits)
  have pol: "enq_policy ?t = (if o_ignoreParentFailure ?o then IgnoreParentFail else FailFast)"
    by (simp add: enq_policy_def submit_task_def)
  have run: "(if isZero (trunc_ms (RunAt ?t)) then trunc_ms (e_now e) else trunc_ms (RunAt ?t)) =
      (if \<not> isZero (trunc_ms (o_runAt ?o)) then trunc_ms (o_runAt ?o)
       else if isZero (o_runAt ?o) \<and> 0 < o_delay ?o \<and> \<not> isZero (trunc_ms (e_now e + o_delay ?o))
         then trunc_ms (e_now e + o_delay ?o) else trunc_ms (e_now e))"
    by (auto simp: submit_task_def isZero_def)
  show ?thesis
    unfolding Let_def
    by (rule exI [of _ "cloneTask (task ?r)"], rule exI [of _ queue], rule exI [of _ qc], intro conjI)
      (use got [unfolded enq_rec_def pol] q i DecideOnSubmit_range in
        \<open>simp_all add: enq_rec_def stored_fields fields pol run clone\<close>)
qed

section \<open>Wait\<close>

text \<open>
  Waiting.  \<open>Wait\<close> is still waiting after a number of polls exactly if every one of them saw
  the task unfinished and every sleep between them ended normally.  If it returns a result, one of
  the polls saw the task completed with that result; if it returns a failure, one of them saw the task
  failed or cancelled with that reason.
\<close>

theorem wait_result:
  "(wait_loop B i gs = None \<longleftrightarrow>
      (\<forall>(e, g, slept) \<in> set gs. slept = None \<and> (\<exists>t. op_Get B e i (broker g) = Inr t \<and> \<not> isFinal (Status t)))) \<and>
   (wait_loop B i gs = Some (Inr r) \<longrightarrow>
      (\<exists>(e, g, slept) \<in> set gs. \<exists>t. op_Get B e i (broker g) = Inr t \<and> Status t = StatusCompleted \<and> Result t = r)) \<and>
   (wait_loop B i gs = Some (Inl (TaskFailedError j st msg)) \<longrightarrow>
      (\<exists>(e, g, slept) \<in> set gs. \<exists>t. op_Get B e i (broker g) = Inr t \<and> (Status t = StatusFailed \<or> Status t = StatusCanceled) \<and>
         ID t = j \<and> Status t = st \<and> LastError t = msg))"
proof (induction gs)
  case (Cons x gs)
  obtain e g slept where x: "x = (e, g, slept)" by (cases x)
  show ?case
  proof (cases "op_Get B e i (broker g)")
    case (Inl er)
    then show ?thesis by (auto simp: x wait_turn_def)
  next
    case (Inr t)
    then show ?thesis using Cons.IH
      by (cases "Status t"; cases slept) (auto simp: x wait_turn_def)
  qed
qed simp

end
