(* ===== verification/Memory_Witness.thy ===== *)
theory Memory_Witness
  imports Memory_Ops
begin

text \<open>
  A short run of the in-memory broker, evaluated state by state: a parent and its child are
  submitted, the parent is claimed, completed and replayed.  The states instantiate the theorems
  about reachable states at a concrete input.
\<close>

definition blank_task :: task where
  "blank_task = \<lparr>ID = '''', BusinessKey = '''', ReplayOf = '''', Type = ''job'', Queue = ''q'',
     Payload = None, Status = StatusPending, Result = None, LastError = '''', Attempts = 0,
     MaxRetry = 1, LeaseLost = 0, Throttled = 0, RunAt = zero_time, DependsOn = [],
     OnParentFailure = PolicyUnset, LeaseToken = '''', CreatedAt = zero_time, StartedAt = zero_time,
     FinishedAt = zero_time\<rparr>"

definition demo0 :: mbroker where
  "demo0 = mem_Init \<lparr>LeaseTTL = fmempty, DefaultLeaseTTL = 0, LeaseLostMax = 0, ThrottledMax = 0\<rparr> mem_New"

definition demo1 :: mbroker where
  "demo1 = fst (mem_Enqueue ''x'' 0 (blank_task\<lparr>ID := ''p'', BusinessKey := ''k''\<rparr>) demo0)"

definition demo2 :: mbroker where
  "demo2 = fst (mem_Enqueue ''x'' 0 (blank_task\<lparr>ID := ''c'', DependsOn := [''p'']\<rparr>) demo1)"

definition demo3 :: mbroker where
  "demo3 = fst (mem_Dequeue_turn [''c'', ''p''] None ''t1'' second [''q''] demo2)"

definition demo4 :: mbroker where
  "demo4 = fst (mem_Ack second ''p'' ''t1'' (Some [1]) demo3)"

definition rec_at :: "mbroker \<Rightarrow> id \<Rightarrow> mrec" where
  "rec_at b k = the (fmlookup (recs b) k)"

section \<open>The run is a run\<close>

lemma mcall_step: "mcall b ns b' \<Longrightarrow> mstep1 b b'"
  unfolding mstep1_def by (blast intro: mstep.call)

lemma step0: "mcall mem_New [] demo0"
  unfolding demo0_def by (rule mcall.init)

lemma enqueue_call: "fresh_id fresh b \<Longrightarrow> mcall b (fst (snd (mem_Enqueue fresh clk t b))) (fst (mem_Enqueue fresh clk t b))"
  by (rule mcall.enqueue) (simp_all add: prod_eq_iff)

lemma step1: "\<exists>ns. mcall demo0 ns demo1"
proof -
  have "fresh_id ''x'' demo0" by code_simp
  then show ?thesis unfolding demo1_def using enqueue_call by blast
qed

lemma step2: "\<exists>ns. mcall demo1 ns demo2"
proof -
  have "fresh_id ''x'' demo1" by code_simp
  then show ?thesis unfolding demo2_def using enqueue_call by blast
qed

lemma claim3: "\<exists>ns turn. mem_Dequeue_turn [''c'', ''p''] None ''t1'' second [''q''] demo2 = (demo3, ns, turn)"
  unfolding demo3_def by (cases "mem_Dequeue_turn [''c'', ''p''] None ''t1'' second [''q''] demo2") auto

lemma step3: "\<exists>ns. mstep demo2 ns demo3"
  using claim3 mstep.dequeue [of "''t1''"] by blast

lemma ack4: "\<exists>ns u. mem_Ack second ''p'' ''t1'' (Some [1]) demo3 = (demo4, ns, u)"
  unfolding demo4_def by (cases "mem_Ack second ''p'' ''t1'' (Some [1]) demo3") auto

lemma step4: "\<exists>ns. mcall demo3 ns demo4"
  using ack4 mcall.ack by blast

lemma reach_step: "reachable b \<Longrightarrow> \<exists>ns. mstep b ns b' \<Longrightarrow> reachable b'"
  by (rule rtranclp.rtrancl_into_rtrancl) (simp_all add: mstep1_def)

lemma reach0: "reachable demo0"
  using reach_step [OF rtranclp.rtrancl_refl] mstep.call [OF step0] by blast

lemma reach1: "reachable demo1"
  using reach_step [OF reach0] step1 mstep.call by blast

lemma reach2: "reachable demo2"
  using reach_step [OF reach1] step2 mstep.call by blast

lemma reach3: "reachable demo3"
  using reach_step [OF reach2 step3] .

lemma reach4: "reachable demo4"
  using reach_step [OF reach3] step4 mstep.call by blast

lemma later: "msteps demo2 demo4"
proof -
  have "mstep1 demo2 demo3" "mstep1 demo3 demo4"
    unfolding mstep1_def using step3 step4 mstep.call by blast+
  then show ?thesis by (blast intro: rtranclp.intros)
qed

text \<open>The same run with its lease tokens.\<close>

lemma run2: "lease_runs (mem_New, {}) (demo2, {})"
proof -
  have "lease_run (mem_New, {}) (demo0, {})" "lease_run (demo0, {}) (demo1, {})"
    "lease_run (demo1, {}) (demo2, {})"
    using step0 step1 step2 lease_run.call by blast+
  then show ?thesis by (blast intro: rtranclp.intros)
qed

lemma run3: "lease_runs (mem_New, {}) (demo3, {''t1''})"
proof -
  have "lease_run (demo2, {}) (demo3, {''t1''})"
    using claim3 lease_run.claim [of "''t1''" "{}"] by blast
  then show ?thesis using run2 by (blast intro: rtranclp.intros)
qed

lemma run4: "lease_runs (mem_New, {}) (demo4, {''t1''})"
proof -
  have "lease_run (demo3, {''t1''}) (demo4, {''t1''})" using step4 lease_run.call by blast
  then show ?thesis using run3 by (blast intro: rtranclp.intros)
qed

lemma demo_lookup:
  "fmlookup (recs demo2) ''c'' = Some (rec_at demo2 ''c'')"
  "fmlookup (recs demo2) ''p'' = Some (rec_at demo2 ''p'')"
  "fmlookup (recs demo3) ''p'' = Some (rec_at demo3 ''p'')"
  "fmlookup (recs demo4) ''c'' = Some (rec_at demo4 ''c'')"
  "fmlookup (recs demo4) ''p'' = Some (rec_at demo4 ''p'')"
  by code_simp+

lemma demo_init:
  "mem_requireInit demo2 = None" "mem_requireInit demo3 = None" "mem_requireInit demo4 = None"
  by code_simp+

lemma demo_order: "range_order [''c'', ''p''] (recs demo2)" "range_order [''c'', ''p''] (recs demo3)"
  by code_simp+

section \<open>Witnesses\<close>

theorem dependency_safety_witness:
  "\<exists>p. fmlookup (recs demo4) ''p'' = Some p \<and> Status (task p) = StatusCompleted"
proof -
  have "Status (task (rec_at demo4 ''c'')) \<noteq> StatusBlocked" "Status (task (rec_at demo4 ''c'')) \<noteq> StatusCanceled"
    "''p'' \<in> set (DependsOn (task (rec_at demo4 ''c'')))"
    "OnParentFailure (task (rec_at demo4 ''c'')) \<noteq> IgnoreParentFail" by code_simp+
  then show ?thesis using dependency_safety [OF reach4 demo_lookup(4), of "''p''"] by blast
qed

theorem blocked_counter_exact_witness:
  "Status (task (rec_at demo2 ''c'')) = StatusBlocked \<and> 0 < pendingParents (rec_at demo2 ''c'')"
proof -
  have st: "Status (task (rec_at demo2 ''c'')) = StatusBlocked" by code_simp
  show ?thesis using st blocked_counter_exact [OF reach2 demo_lookup(1) st] by blast
qed

theorem blocked_has_live_ancestor_witness:
  "\<exists>a s. (dep (recs demo2))\<^sup>+\<^sup>+ a ''c'' \<and> fmlookup (recs demo2) a = Some s \<and>
     Status (task s) \<in> {StatusPending, StatusRunning, StatusRetrying}"
proof -
  have st: "Status (task (rec_at demo2 ''c'')) = StatusBlocked" by code_simp
  show ?thesis by (rule blocked_has_live_ancestor [OF reach2 demo_lookup(1) st])
qed

theorem task_life_cycle_witness:
  "\<exists>r'. fmlookup (recs demo4) ''p'' = Some r' \<and> task_evolves (task (rec_at demo2 ''p'')) (task r')"
  by (rule task_life_cycle [OF reach2 later demo_lookup(2)])

theorem stale_token_fenced_witness:
  "(\<exists>e. mem_Ack second ''p'' ''t1'' None demo4 = (demo4, [], Inl e)) \<and>
   (\<exists>e. mem_Heartbeat second ''p'' ''t1'' demo4 = (demo4, [], Inl e))"
proof -
  have "LeaseToken (task (rec_at demo4 ''p'')) \<noteq> ''t1''" by code_simp
  then have "\<not> holds demo4 ''p'' ''t1''" using demo_lookup(5) by (simp add: holds_def)
  then show ?thesis
    using stale_token_fenced [OF run4 _ _ rtranclp.rtrancl_refl, of "''t1''" "''p''" second None] by blast
qed

theorem lease_exclusive_witness:
  "(Status (task (rec_at demo3 ''p'')) = StatusRunning) = (LeaseToken (task (rec_at demo3 ''p'')) \<noteq> '''')"
  using lease_exclusive [OF run3 demo_lookup(3)] by blast

theorem one_execution_in_flight_witness:
  "last (chain_of demo3 ''k'') = ''p'' \<and> \<not> isFinal (Status (task (rec_at demo3 ''p'')))"
proof -
  have k: "BusinessKey (task (rec_at demo3 ''p'')) = ''k''" and nf: "\<not> isFinal (Status (task (rec_at demo3 ''p'')))"
    by code_simp+
  show ?thesis using one_execution_in_flight [OF reach3 demo_lookup(3) _ nf] k nf by simp
qed

theorem status_changes_announced_witness: "\<exists>ns. mstep demo2 ns demo3 \<and> announced (recs demo2) (recs demo3) ns"
  using step3 status_changes_announced [OF reach2] by blast

theorem wake_complete_witness:
  "\<exists>r. fmlookup (recs demo0) ''p'' = Some r \<or> wakes demo1 \<noteq> wakes demo0"
proof (rule ccontr)
  assume neg: "\<not> ?thesis"
  then have quiet: "wakes demo1 = wakes demo0" by blast
  obtain ns where step: "mstep demo0 ns demo1" using step1 mstep.call by blast
  have "fmlookup (recs demo1) ''p'' = Some (rec_at demo1 ''p'')"
    "Status (task (rec_at demo1 ''p'')) = StatusPending" by code_simp+
  then show False using wake_complete [OF reach0 step quiet] neg by blast
qed

theorem Ack_contract_witness:
  "map_option task (fmlookup (recs demo4) ''p'') = Some ((task (rec_at demo3 ''p''))\<lparr>Status := StatusCompleted,
     Result := Some [1], FinishedAt := second, LeaseToken := ''''\<rparr>)"
proof -
  obtain ns u where step: "mem_Ack second ''p'' ''t1'' (Some [1]) demo3 = (demo4, ns, u)" using ack4 by blast
  have v: "lease_valid (rec_at demo3 ''p'') ''t1''" by code_simp
  show ?thesis using Ack_contract [OF reach3 demo_init(2) demo_lookup(3) step] v
    by (simp add: clone_bytes_def trunc_ms_def)
qed

theorem Fail_contract_witness:
  "map_option task (fmlookup (recs (fst (mem_Fail second ''p'' ''t1'' ''boom'' FailBusiness zero_time demo3))) ''p'') =
   Some ((task (rec_at demo3 ''p''))\<lparr>Status := StatusRetrying, LastError := ''boom'', Attempts := 1,
     RunAt := second, LeaseToken := ''''\<rparr>)"
proof -
  let ?f = "mem_Fail second ''p'' ''t1'' ''boom'' FailBusiness zero_time demo3"
  have step: "?f = (fst ?f, fst (snd ?f), snd (snd ?f))" by simp
  have v: "lease_valid (rec_at demo3 ''p'') ''t1''"
    "failed_task (ThrottledMax (opts demo3)) (trunc_ms second) ''boom'' FailBusiness zero_time
       (task (rec_at demo3 ''p'')) =
     (task (rec_at demo3 ''p''))\<lparr>Status := StatusRetrying, LastError := ''boom'', Attempts := 1,
     RunAt := second, LeaseToken := ''''\<rparr>" by code_simp+
  show ?thesis using Fail_contract [OF reach3 demo_init(2) demo_lookup(3) _ step] v by simp
qed

theorem Requeue_contract_witness:
  "wakes (fst (mem_Requeue ''p'' ''t1'' demo3)) = Suc (wakes demo3)"
proof -
  let ?f = "mem_Requeue ''p'' ''t1'' demo3"
  have step: "?f = (fst ?f, fst (snd ?f), snd (snd ?f))" by simp
  have v: "lease_valid (rec_at demo3 ''p'') ''t1''" by code_simp
  show ?thesis using Requeue_contract [OF demo_init(2) demo_lookup(3) step] v by simp
qed

theorem Heartbeat_contract_witness:
  "map_option leaseUntil (fmlookup (recs (fst (mem_Heartbeat (5 * second) ''p'' ''t1'' demo3))) ''p'') =
   Some (65 * second)"
proof -
  let ?f = "mem_Heartbeat (5 * second) ''p'' ''t1'' demo3"
  have step: "?f = (fst ?f, fst (snd ?f), snd (snd ?f))" by simp
  have v: "lease_valid (rec_at demo3 ''p'') ''t1''"
    "trunc_ms (5 * second) + mem_ttlFor demo3 (Queue (task (rec_at demo3 ''p''))) = 65 * second" by code_simp+
  show ?thesis using Heartbeat_contract [OF demo_init(2) demo_lookup(3) step] v by simp
qed

theorem Cancel_contract_witness:
  "map_option (Status \<circ> task) (fmlookup (recs (fst (mem_Cancel second ''c'' demo2))) ''c'') = Some StatusCanceled"
proof -
  let ?f = "mem_Cancel second ''c'' demo2"
  have step: "?f = (fst ?f, fst (snd ?f), snd (snd ?f))" by simp
  have "\<not> isFinal (Status (task (rec_at demo2 ''c'')))" "Status (task (rec_at demo2 ''c'')) \<noteq> StatusRunning"
    by code_simp+
  then show ?thesis using Cancel_contract [OF reach2 demo_init(1) step] demo_lookup(1) by auto
qed

theorem Dequeue_contract_witness:
  "\<exists>t. snd (snd (mem_Dequeue_turn [''c'', ''p''] None ''t1'' second [''q''] demo2)) = Claimed t \<and> ID t = ''p''"
proof -
  have "zero_time \<le> trunc_ms second" by code_simp
  then have "case mem_Dequeue_turn [''c'', ''p''] None ''t1'' second [''q''] demo2 of
      (b', ns, DequeueErr e) \<Rightarrow> False | _ \<Rightarrow> True"
    using Dequeue_contract [OF reach2 demo_init(1) _ demo_order(1), of "[''q'']" second "''t1''"]
    by (auto split: prod.splits dequeueTurn.splits)
  moreover have "(case snd (snd (mem_Dequeue_turn [''c'', ''p''] None ''t1'' second [''q''] demo2)) of
      Claimed t \<Rightarrow> ID t = ''p'' | _ \<Rightarrow> False)" by code_simp
  ultimately show ?thesis by (auto split: dequeueTurn.splits)
qed

theorem ReapExpired_contract_witness:
  "fst (snd (snd (mem_ReapExpired [''c'', ''p''] [''p'', ''c''] (100 * second) demo3))) = 1"
proof -
  let ?f = "mem_ReapExpired [''c'', ''p''] [''p'', ''c''] (100 * second) demo3"
  have step: "?f = (fst ?f, fst (snd ?f), fst (snd (snd ?f)), snd (snd (snd ?f)))" by simp
  have "filter (expired_in (trunc_ms (100 * second)) (recs demo3)) [''c'', ''p''] = [''p'']"
  proof -
    have "leaseUntil (rec_at demo3 ''p'') < trunc_ms (100 * second)"
      "Status (task (rec_at demo3 ''p'')) = StatusRunning"
      "map_option (Status \<circ> task) (fmlookup (recs demo3) ''c'') = Some StatusBlocked" by code_simp+
    then show ?thesis using demo_lookup(3) by (auto simp: expired_in_def)
  qed
  then show ?thesis using ReapExpired_contract [OF reach3 demo_init(2) demo_order(2) step] by simp
qed


theorem Replay_contract_witness:
  "\<exists>t. fmlookup (recs (fst (mem_Replay ''y'' second \<lparr>rq_ExecutionID = ''p'', rq_BusinessKey = '''',
     rq_AllowCompleted = True, rq_Payload = None\<rparr> demo4))) ''y'' =
       Some \<lparr>task = t, pendingParents = 0, leaseUntil = zero_time, cancelRequested = False, children = []\<rparr> \<and>
     ReplayOf t = ''p'' \<and> Status t = StatusPending \<and> Attempts t = 0 \<and> RunAt t = second"
proof -
  let ?q = "\<lparr>rq_ExecutionID = ''p'', rq_BusinessKey = '''', rq_AllowCompleted = True, rq_Payload = None\<rparr>"
  let ?f = "mem_Replay ''y'' second ?q demo4"
  have step: "?f = (fst ?f, fst (snd ?f), snd (snd ?f))" by simp
  have "fresh_id ''y'' demo4" "isFinal (Status (task (rec_at demo4 ''p'')))"
    "\<not> is_replayed (replayed demo4) ''p''" "named_target ?q demo4 = Some ''p''" "trunc_ms second = second" by code_simp+
  then show ?thesis using Replay_contract [OF reach4 _ step] demo_init(3) demo_lookup(5)
    by (auto simp: Let_def)
qed

definition any_task :: filterSpec where
  "any_task = \<lparr>f_Type = '''', f_Queue = '''', f_Status = None, f_BusinessKey = '''', f_Limit = 0, f_Offset = 0\<rparr>"

theorem List_contract_witness: "\<exists>L. set L = matching any_task demo2 \<and> distinct (map ID L)"
  using List_contract [OF reach2 demo_order(1), of any_task] by blast

theorem statistics_exact_witness:
  "mem_QueueLen [''c'', ''p''] ''q'' demo2 = 1 \<and>
   count_at (mem_Counts [''c'', ''p''] demo2) ''job'' StatusBlocked =
     int (card {k. \<exists>r. fmlookup (recs demo2) k = Some r \<and> Type (task r) = ''job'' \<and>
       Status (task r) = StatusBlocked})"
proof -
  have "mem_QueueLen [''c'', ''p''] ''q'' demo2 = 1" by code_simp
  then show ?thesis using statistics_exact [OF demo_order(1), of "''job''" StatusBlocked "''q''"] by blast
qed

definition gate0 :: memQuotaGate where
  "gate0 = \<lparr>g_key = ''q'', g_limit = 1, g_periodSec = 2\<rparr>"

definition quota1 :: mbroker where
  "quota1 = fst (mem_Reserve (5 * second) gate0 demo0)"

theorem quota_never_exceeded_witness:
  "mem_QueueQuota ''q'' '''' 1 (2 * second) = Inr gate0 \<and> mem_used gate0 quota1 4 = 1 \<and>
   mem_Reserve (5 * second) gate0 quota1 = (quota1, Inr None) \<and>
   int (count {#4#} (quota_window gate0 (5 * second))) = 1"
proof -
  have gate: "mem_QueueQuota ''q'' '''' 1 (2 * second) = Inr gate0" by code_simp
  have first: "mem_Reserve (5 * second) gate0 demo0 = (quota1, Inr (Some 4))"
    unfolding quota1_def by (simp add: prod_eq_iff) code_simp
  have full: "mem_Reserve (5 * second) gate0 quota1 = (quota1, Inr None)" by code_simp
  have "mem_used gate0 demo0 w = 0" for w by (simp add: demo0_def mem_Init_def mem_New_def windows_of_def)
  then have "mem_history gate0 demo0 0 {#}" by (rule quota_history.start)
  then have hist: "mem_history gate0 quota1 (5 * second) {#4#}"
    using quota_history.granted [where reserve = "\<lambda>t. mem_Reserve t gate0" and s = demo0 and t = 0
        and t' = "5 * second" and s' = quota1 and w = 4 and out = "{#}" and used = "mem_used gate0"
        and release = "\<lambda>w. mem_Release gate0 (Some w)"] first by simp
  have live: "live_window (quota_window gate0) (g_periodSec gate0) (5 * second) 4" by code_simp
  show ?thesis using quota_never_exceeded [OF gate hist, of 4 "5 * second" quota1] gate full live by simp
qed

end
