(* ===== verification/Runtime_Witness.thy ===== *)
theory Runtime_Witness
  imports Gate_Props Memory_Witness
begin

text \<open>
  A concrete run of a process over the in-memory broker, evaluated step by step: a gate is built,
  a task is submitted, a run is started, its claim loop claims the task, and a worker executes it.
  The states instantiate the theorems of \<open>Runtime_Props\<close>.  Other continuations show an execution
  that the sweep of \<open>Shutdown\<close> does not reach, and one that is cancelled; a second process has a queue with a quota.
\<close>

section \<open>The run\<close>

definition demo_cfg :: config where
  "demo_cfg = \<lparr>HasBroker = True,
     Queues = fmupd ''job'' (zeroQueue\<lparr>Workers := 2, QLeaseTTL := second, ManualHeartbeat := True\<rparr>) fmempty,
     Routes = fmempty, DefaultQueue = zeroQueue, CLeaseLostMax = 0, CThrottledMax = 0\<rparr>"

definition env_at :: "time \<Rightarrow> id \<Rightarrow> env" where
  "env_at clk u = \<lparr>e_now = clk, e_ulid = u, e_order = [''a''], e_order2 = [''a''], e_ctx = None\<rparr>"

definition ev_at :: "time \<Rightarrow> id \<Rightarrow> nat \<Rightarrow> claimEv" where
  "ev_at clk u p = \<lparr>ce_env = env_at clk u, ce_pick = True, ce_wait = (\<lambda>_. None), ce_timeout = False,
     ce_sleepErr = False, ce_ptr = p\<rparr>"

type_synonym mgate = "(mbroker, memQuotaGate) gate"

definition run0 :: mgate where
  "run0 = (case newGate memory_broker [''job''] [] [''job''] [''job''] demo_cfg mem_New of Inr g \<Rightarrow> g)"

definition run1 :: mgate where
  "run1 = fst (Submit memory_broker (env_at 0 ''a'') ''job'' None [] (Handle ''job'' run0))"

definition run2 :: mgate where
  "run2 = fst (run_start memory_broker [''job''] [''job''] None run1)"

definition claim_one :: "time \<Rightarrow> id \<Rightarrow> nat \<Rightarrow> mgate \<Rightarrow> mgate option" where
  "claim_one clk u p g = claim_step memory_broker (ev_at clk u p) ''job'' g"

definition claim_two :: "time \<Rightarrow> id \<Rightarrow> nat \<Rightarrow> mgate \<Rightarrow> mgate option" where
  "claim_two clk u p g = Option.bind (claim_one clk u p g) (claim_one clk u p)"

definition work_one :: "nat \<Rightarrow> mgate \<Rightarrow> mgate option" where
  "work_one p g = work_step memory_broker (WNext (env_at second ''x'') (Jitter False 0)) p g"

definition work_two :: "nat \<Rightarrow> mgate \<Rightarrow> mgate option" where
  "work_two p g = Option.bind (work_one p g) (work_one p)"

definition run3 :: mgate where
  "run3 = the (claim_two second ''t1'' 1 run2)"

definition run4 :: mgate where
  "run4 = the (claim_one second ''t1'' 1 run3)"

definition run5 :: mgate where
  "run5 = the (work_two 1 run4)"

definition run6 :: mgate where
  "run6 = the (work_step memory_broker (WReturn (HReturned (Some [1]) None)) 1 run5)"

definition run7 :: mgate where
  "run7 = the (Option.bind (work_two 1 run6) (work_one 1))"

abbreviation alone :: "mbroker \<Rightarrow> mbroker \<Rightarrow> bool" where
  "alone \<equiv> \<lambda>_ _. False"

section \<open>The run is a run\<close>

lemma reached_some: "reached memory_broker alone g \<Longrightarrow> (\<And>h. x = Some h \<Longrightarrow> gsteps memory_broker alone g h) \<Longrightarrow>
    x \<noteq> None \<Longrightarrow> reached memory_broker alone (the x)"
  using reached_steps by auto

lemma bind_steps:
  assumes "Option.bind x f = Some h" and "\<And>a. x = Some a \<Longrightarrow> gsteps memory_broker alone g a"
    and "\<And>a. f a = Some h \<Longrightarrow> gsteps memory_broker alone a h"
  shows "gsteps memory_broker alone g h"
proof -
  obtain a where a: "x = Some a" "f a = Some h" using assms(1) by (cases x) auto
  show ?thesis by (rule rtranclp_trans [OF assms(2) [OF a(1)] assms(3) [OF a(2)]])
qed

lemma claim_one_steps: "claim_one clk u p g = Some h \<Longrightarrow> gsteps memory_broker alone g h"
  unfolding claim_one_def by (blast intro: gstep.claim)

lemma claim_two_steps: "claim_two clk u p g = Some h \<Longrightarrow> gsteps memory_broker alone g h"
  unfolding claim_two_def by (erule bind_steps) (rule claim_one_steps, assumption)+

lemma work_one_steps: "work_one p g = Some h \<Longrightarrow> gsteps memory_broker alone g h"
  unfolding work_one_def by (blast intro: gstep.work)

lemma work_two_steps: "work_two p g = Some h \<Longrightarrow> gsteps memory_broker alone g h"
  unfolding work_two_def by (erule bind_steps) (rule work_one_steps, assumption)+

lemma reached0: "reached memory_broker alone run0"
proof -
  have "case newGate memory_broker [''job''] [] [''job''] [''job''] demo_cfg mem_New of Inr _ \<Rightarrow> True | Inl _ \<Rightarrow> False"
    by code_simp
  then have "newGate memory_broker [''job''] [] [''job''] [''job''] demo_cfg mem_New = Inr run0"
    by (auto simp: run0_def split: sum.splits)
  moreover have "range_order [''job''] (Queues demo_cfg)" by code_simp
  ultimately show ?thesis by (rule reached_newGate [OF memory_no_limiter])
qed

lemma reached1: "reached memory_broker alone run1"
proof -
  have "\<not> s_started (sched run0)" by code_simp
  then have "reached memory_broker alone (Handle ''job'' run0)"
    by (rule reached_step [OF reached0 gstep.handle])
  then show ?thesis unfolding run1_def by (rule reached_step [OF _ gstep.submit])
qed

lemma reached2: "reached memory_broker alone run2"
proof -
  have q: "consumeQueues (g_cfg run1) [''job''] = Inr (Queues (g_cfg run1))" by code_simp
  have "range_order [''job''] (Queues (g_cfg run1))" "set [''job''] = fset (g_handlers run1)" by code_simp+
  from gstep.start [OF this(1) q this(2)] show ?thesis
    unfolding run2_def by (rule reached_step [OF reached1])
qed

lemma reached3: "reached memory_broker alone run3"
  unfolding run3_def by (rule reached_some [OF reached2 claim_two_steps]) (assumption, code_simp)

lemma reached4: "reached memory_broker alone run4"
  unfolding run4_def by (rule reached_some [OF reached3 claim_one_steps]) (assumption, code_simp)

lemma reached5: "reached memory_broker alone run5"
  unfolding run5_def by (rule reached_some [OF reached4 work_two_steps]) (assumption, code_simp)

lemma reached6: "reached memory_broker alone run6"
  unfolding run6_def
  by (rule reached_some [OF reached5], blast intro: gstep.work) code_simp

lemma reached7: "reached memory_broker alone run7"
proof -
  have "gsteps memory_broker alone run6 h" if "Option.bind (work_two 1 run6) (work_one 1) = Some h" for h
    by (rule bind_steps [OF that work_two_steps work_one_steps])
  then show ?thesis unfolding run7_def by (rule reached_some [OF reached6]) (assumption, code_simp)
qed


section \<open>Witnesses\<close>

definition the_run :: "mgate \<Rightarrow> memQuotaGate runState" where
  "the_run g = the (s_run (sched g))"

lemma the_run: "s_run (sched g) \<noteq> None \<Longrightarrow> s_run (sched g) = Some (the_run g)"
  by (auto simp: the_run_def)

definition job_queue :: queueConfig where
  "job_queue = zeroQueue\<lparr>Workers := 2, QLeaseTTL := second, ManualHeartbeat := True\<rparr>"

definition worker_of :: "nat \<Rightarrow> mgate \<Rightarrow> worker" where
  "worker_of p g = the (fmlookup (s_workers (sched g)) p)"

lemma worker_of: "fmlookup (s_workers (sched g)) p \<noteq> None \<Longrightarrow> fmlookup (s_workers (sched g)) p = Some (worker_of p g)"
  by (auto simp: worker_of_def)

theorem concurrency_limit_witness:
  "nworkers ''job'' (wqueues (sched run5)) \<le> 2 \<and> runningCount (sched run5) ''job'' = 1 \<and>
   nworkers ''job'' (wqueues (sched run5)) = 1"
proof -
  have run: "s_run (sched run5) = Some (the_run run5)" by (rule the_run) code_simp
  have q: "fmlookup (r_queues (the_run run5)) ''job'' = Some job_queue"
    "fmlookup (r_limiters (the_run run5)) ''job'' = Some (the (fmlookup (r_limiters (the_run run5)) ''job''))"
    "fmlookup (r_claims (the_run run5)) ''job'' = Some CAcquire" by code_simp+
  have "Workers job_queue = 2" "runningCount (sched run5) ''job'' = 1" by code_simp+
  then show ?thesis using concurrency_limit [OF reached5 run q] by simp
qed

theorem shutdown_final_witness:
  "s_workers (sched (Shutdown run1)) = fmempty \<and>
   Submit memory_broker (env_at 0 ''b'') ''job'' None [] (Shutdown run1) = (Shutdown run1, Inl ErrShutdown)"
proof -
  have r: "reached memory_broker alone (Shutdown run1)" by (rule reached_step [OF reached1 gstep.shutdown])
  have "g_shutdownPc (Shutdown run1) = SReturned None" by code_simp
  from shutdown_final [OF r this rtranclp.rtrancl_refl] show ?thesis by blast
qed

theorem claim_loop_stops_witness:
  "\<exists>ev g'. claim_step memory_broker ev ''job'' (Shutdown run2) = Some g'"
proof -
  let ?g = "Shutdown run2"
  have r: "reached memory_broker alone ?g" by (rule reached_step [OF reached2 gstep.shutdown])
  have run: "s_run (sched ?g) = Some (the_run ?g)" by (rule the_run) code_simp
  have f: "r_ctx (the_run ?g) \<noteq> None" "fmlookup (r_queues (the_run ?g)) ''job'' = Some job_queue"
    "QuotaLimit job_queue \<le> 0" "pc_at ''job'' ?g = Some CAcquire" by code_simp+
  then show ?thesis using claim_loop_stops [OF r memory_ctx_aware run f] by blast
qed

lemma run7_usable: "mem_usable (broker run7)"
proof -
  define b1 where
    "b1 = fst (mem_Enqueue ''a'' 0 (submit_task 0 ''job'' ''job'' None (applySubmitOptions [])) (broker run0))"
  define b2 where "b2 = fst (mem_Dequeue_turn [''a''] None ''t1'' second [''job''] b1)"
  have init: "broker run0 = mem_Init (brokerOptions_of (g_cfg run0)) mem_New" by code_simp
  have "mcall mem_New [] (broker run0)" unfolding init by (rule mcall.init)
  then have s1: "mstep1 mem_New (broker run0)" by (rule mcall_step)
  have "fresh_id ''a'' (broker run0)" by code_simp
  from mcall_step [OF enqueue_call [OF this]] have s2: "mstep1 (broker run0) b1" unfolding b1_def .
  obtain ns turn where "mem_Dequeue_turn [''a''] None ''t1'' second [''job''] b1 = (b2, ns, turn)"
    unfolding b2_def by (metis prod.collapse)
  then have s3: "mstep1 b1 b2" unfolding mstep1_def using mstep.dequeue [of "''t1''"] by blast
  have "reachable b2" using s1 s2 s3 by (meson rtranclp.rtrancl_into_rtrancl rtranclp.rtrancl_refl)
  moreover have "broker run7 = b2" unfolding b2_def b1_def by code_simp
  moreover have "mem_requireInit (broker run7) = None" by code_simp
  ultimately show ?thesis using reachable_minv by (simp add: mem_usable_def)
qed

theorem lease_to_receipt_witness:
  "mem_held (broker run7) ''a'' ''t1'' \<and> \<not> mem_held (broker (the (work_one 1 run7))) ''a'' ''t1''"
proof -
  have w: "fmlookup (s_workers (sched run7)) 1 = Some (worker_of 1 run7)" by (rule worker_of) code_simp
  have ph: "w_phase (worker_of 1 run7) = PSend (RAck (Some [1]))"
    and it: "ID (w_task (worker_of 1 run7)) = ''a''" "LeaseToken (w_task (worker_of 1 run7)) = ''t1''" by code_simp+
  have "work_one 1 run7 \<noteq> None" by code_simp
  then have step: "work_step memory_broker (WNext (env_at second ''x'') (Jitter False 0)) 1 run7 = Some (the (work_one 1 run7))"
    by (auto simp: work_one_def)
  have "case mem_checkLease (broker run7) ''a'' ''t1'' of Inr _ \<Rightarrow> True | Inl _ \<Rightarrow> False" by code_simp
  then have "mem_held (broker run7) ''a'' ''t1''" by (auto simp: mem_held_def split: sum.splits)
  then show ?thesis using lease_to_receipt [OF reached7 run7_usable w] ph step unfolding it by simp
qed

theorem failTask_classifies_witness:
  "failTask 7 (\<lambda>n. 100) (w_task (worker_of 1 run5)) (GoWrap ''x: '' (GoThrottled 5)) =
   RFail (errorText (GoWrap ''x: '' (GoThrottled 5))) FailThrottled 12"
proof -
  have "\<not> (\<exists>x. unwraps (GoWrap ''x: '' (GoThrottled 5)) (GoSkipRetry x))"
    unfolding asSkip_iff [symmetric] by code_simp
  moreover have "asThrottled (GoWrap ''x: '' (GoThrottled 5)) = Some 5" by code_simp
  ultimately show ?thesis
    using failTask_classifies [of 7 "\<lambda>n. 100" "w_task (worker_of 1 run5)" "GoWrap ''x: '' (GoThrottled 5)"]
    by auto
qed

theorem submit_get_witness:
  "\<exists>t. Get memory_broker (env_at second ''z'') ''a'' run1 = Inr t \<and> Type t = ''job'' \<and> Queue t = ''job'' \<and> Attempts t = 0"
proof -
  have "snd (Submit memory_broker (env_at 0 ''a'') ''job'' None [] (Handle ''job'' run0)) = Inr ''a''" by code_simp
  then have step: "Submit memory_broker (env_at 0 ''a'') ''job'' None [] (Handle ''job'' run0) = (run1, Inr ''a'')"
    by (simp add: run1_def prod_eq_iff)
  have fresh: "fresh_id (e_ulid (env_at 0 ''a'')) (broker (Handle ''job'' run0))" by code_simp
  have "queueFor (g_cfg (Handle ''job'' run0)) ''job'' = Inr (''job'', job_queue)" by code_simp
  then show ?thesis using submit_get [OF step fresh, of "env_at second ''z''"] by auto
qed

definition stopped1 :: mgate where
  "stopped1 = fst (Cancel_broker memory_broker (env_at second ''x'') ''a'' run1)"

definition polls :: "(env \<times> mgate \<times> tg_error option) list" where
  "polls = [(env_at 0 ''x'', run1, None), (env_at second ''x'', stopped1, None)]"

theorem wait_result_witness:
  "wait_loop memory_broker ''a'' polls = Some (Inl (TaskFailedError ''a'' StatusCanceled ''canceled'')) \<and>
   (\<exists>(e, g, slept) \<in> set polls.
     \<exists>t. op_Get memory_broker e ''a'' (broker g) = Inr t \<and> (Status t = StatusFailed \<or> Status t = StatusCanceled) \<and>
       ID t = ''a'' \<and> Status t = StatusCanceled \<and> LastError t = ''canceled'')"
proof -
  have "wait_turn (op_Get memory_broker (env_at 0 ''x'') ''a'' (broker run1)) = None"
    "wait_turn (op_Get memory_broker (env_at second ''x'') ''a'' (broker stopped1)) =
      Some (Inl (TaskFailedError ''a'' StatusCanceled ''canceled''))" by code_simp+
  then have w: "wait_loop memory_broker ''a'' polls = Some (Inl (TaskFailedError ''a'' StatusCanceled ''canceled''))"
    by (simp add: polls_def)
  show ?thesis
    by (rule conjI [OF w wait_result [THEN conjunct2, THEN conjunct2, THEN mp, OF w]])
qed

section \<open>An execution the sweep misses\<close>

text \<open>
  The worker of \<open>run5\<close> is on manual heartbeats and does not renew its lease.  The reaper puts the
  task back, the same process claims it again, and the new execution takes the entry of the old one
  in the table of running tasks.  When \<open>Shutdown\<close> then runs out of time, its sweep interrupts the
  new execution only; the old handler keeps an uncancelled context, and \<open>Shutdown\<close> waits for it.
\<close>

definition late1 :: mgate where
  "late1 = the (reap_tick memory_broker (env_at (5 * second) ''x'') run5)"

definition late2 :: mgate where
  "late2 = the (Option.bind (claim_two (5 * second) ''t2'' 2 late1) (claim_one (5 * second) ''t2'' 2))"

definition late3 :: mgate where
  "late3 = the (work_two 2 late2)"

definition late4 :: mgate where
  "late4 = the (shutdown_drain [''a''] (Shutdown late3))"

lemma late_reached: "reached memory_broker alone late4"
proof -
  have "gsteps memory_broker alone run5 h" if "reap_tick memory_broker (env_at (5 * second) ''x'') run5 = Some h" for h
    using that by (blast intro: gstep.reap)
  then have 1: "reached memory_broker alone late1"
    unfolding late1_def by (rule reached_some [OF reached5]) (assumption, code_simp)
  have "gsteps memory_broker alone late1 h"
    if "Option.bind (claim_two (5 * second) ''t2'' 2 late1) (claim_one (5 * second) ''t2'' 2) = Some h" for h
    by (rule bind_steps [OF that claim_two_steps claim_one_steps])
  then have 2: "reached memory_broker alone late2"
    unfolding late2_def by (rule reached_some [OF 1]) (assumption, code_simp)
  have "reached memory_broker alone late3"
    unfolding late3_def by (rule reached_some [OF 2 work_two_steps]) (assumption, code_simp)
  then have 3: "reached memory_broker alone (Shutdown late3)" by (rule reached_step [OF _ gstep.shutdown])
  have "range_order [''a''] (s_tasks (sched (Shutdown late3)))" by code_simp
  then have "gsteps memory_broker alone (Shutdown late3) h" if "shutdown_drain [''a''] (Shutdown late3) = Some h" for h
    using that by (blast intro: gstep.drain)
  then show ?thesis unfolding late4_def by (rule reached_some [OF 3]) (assumption, code_simp)
qed

theorem drain_misses_replaced:
  "reached memory_broker alone late4 \<and> g_shutdownPc late4 = SDrained \<and> s_draining (sched late4) \<and>
   w_phase (worker_of 1 late4) = PRun False \<and> \<not> rt_ctxDone (w_rt (worker_of 1 late4)) \<and>
   rt_ctxDone (w_rt (worker_of 2 late4))"
proof -
  have "g_shutdownPc late4 = SDrained" "s_draining (sched late4)"
    "w_phase (worker_of 1 late4) = PRun False" "\<not> rt_ctxDone (w_rt (worker_of 1 late4))"
    "rt_ctxDone (w_rt (worker_of 2 late4))" by code_simp+
  then show ?thesis using late_reached by blast
qed

theorem handles_exact_witness:
  "fmlookup (s_tasks (sched late4)) ''a'' = Some 2 \<and> s_draining (sched late4) \<and>
   (\<exists>w. fmlookup (s_workers (sched late4)) 2 = Some w \<and> ID (w_task w) = ''a'' \<and> in_table (w_phase w) \<and>
     rt_requeue (w_rt w) \<and> rt_ctxDone (w_rt w))"
proof -
  have "fmlookup (s_tasks (sched late4)) ''a'' = Some 2" "s_draining (sched late4)" by code_simp+
  then show ?thesis using handles_exact [OF late_reached] by blast
qed

section \<open>A cancelled execution\<close>

text \<open>\<open>Cancel\<close> finds the task of \<open>run5\<close> running, reaches its execution, and the handler returns.\<close>

definition stop1 :: mgate where
  "stop1 = fst (Cancel_broker memory_broker (env_at second ''x'') ''a'' run5)"

definition stop2 :: mgate where
  "stop2 = Cancel_local ''a'' stop1"

definition stop3 :: mgate where
  "stop3 = the (work_step memory_broker (WReturn (HReturned (Some [1]) None)) 1 stop2)"

definition stop4 :: mgate where
  "stop4 = the (Option.bind (work_two 1 stop3) (work_one 1))"

lemma stop_reached: "reached memory_broker alone stop4"
proof -
  have 1: "reached memory_broker alone stop1" unfolding stop1_def by (rule reached_step [OF reached5 gstep.cancel])
  have "''a'' \<in> set (g_cancels stop1)" by code_simp
  then have 2: "reached memory_broker alone stop2" unfolding stop2_def by (rule reached_step [OF 1 gstep.cancelLocal])
  have 3: "reached memory_broker alone stop3" unfolding stop3_def
    by (rule reached_some [OF 2], blast intro: gstep.work) code_simp
  have "gsteps memory_broker alone stop3 h" if "Option.bind (work_two 1 stop3) (work_one 1) = Some h" for h
    by (rule bind_steps [OF that work_two_steps work_one_steps])
  then show ?thesis unfolding stop4_def by (rule reached_some [OF 3]) (assumption, code_simp)
qed

theorem receipts_justified_witness:
  "w_phase (worker_of 1 stop4) = PSend RFinishCanceled \<and> \<not> rt_leaseLost (w_rt (worker_of 1 stop4)) \<and>
   (\<exists>g1 g2. reached memory_broker alone g1 \<and> told_canceled memory_broker 1 g1 g2 \<and> gsteps memory_broker alone g2 stop4)"
proof -
  have w: "fmlookup (s_workers (sched stop4)) 1 = Some (worker_of 1 stop4)" by (rule worker_of) code_simp
  have ph: "w_phase (worker_of 1 stop4) = PSend RFinishCanceled" by code_simp
  then show ?thesis using receipts_justified [OF stop_reached w ph] by blast
qed

section \<open>A queue with a quota\<close>

definition quota_queue :: queueConfig where
  "quota_queue = job_queue\<lparr>QuotaLimit := 1, QuotaPeriod := minute\<rparr>"

definition quota_cfg :: config where
  "quota_cfg = demo_cfg\<lparr>Queues := fmupd ''job'' quota_queue fmempty\<rparr>"

definition qrun0 :: mgate where
  "qrun0 = (case newGate memory_broker [''job''] [] [''job''] [''job''] quota_cfg mem_New of Inr g \<Rightarrow> g)"

definition qrun1 :: mgate where
  "qrun1 = fst (Submit memory_broker (env_at 0 ''a'') ''job'' None [] (Handle ''job'' qrun0))"

definition qrun2 :: mgate where
  "qrun2 = fst (run_start memory_broker [''job''] [''job''] None qrun1)"

text \<open>Slot, token, queue length, reservation; then the claim.\<close>

definition qrun3 :: mgate where
  "qrun3 = the (Option.bind (claim_two second ''t1'' 1 qrun2) (claim_two second ''t1'' 1))"

definition qrun4 :: mgate where
  "qrun4 = the (claim_one second ''t1'' 1 qrun3)"

lemma quota_reached: "reached memory_broker alone qrun3"
proof -
  have "case newGate memory_broker [''job''] [] [''job''] [''job''] quota_cfg mem_New of Inr _ \<Rightarrow> True | Inl _ \<Rightarrow> False"
    by code_simp
  then have "newGate memory_broker [''job''] [] [''job''] [''job''] quota_cfg mem_New = Inr qrun0"
    by (auto simp: qrun0_def split: sum.splits)
  moreover have "range_order [''job''] (Queues quota_cfg)" "\<not> s_started (sched qrun0)" by code_simp+
  ultimately have "reached memory_broker alone (Handle ''job'' qrun0)"
    by (blast intro: reached_newGate [OF memory_no_limiter] reached_step gstep.handle)
  then have 1: "reached memory_broker alone qrun1" unfolding qrun1_def by (rule reached_step [OF _ gstep.submit])
  have q: "consumeQueues (g_cfg qrun1) [''job''] = Inr (Queues (g_cfg qrun1))" by code_simp
  have "range_order [''job''] (Queues (g_cfg qrun1))" "set [''job''] = fset (g_handlers qrun1)" by code_simp+
  from gstep.start [OF this(1) q this(2)] have 2: "reached memory_broker alone qrun2"
    unfolding qrun2_def by (rule reached_step [OF 1])
  have "gsteps memory_broker alone qrun2 h" if "Option.bind (claim_two second ''t1'' 1 qrun2) (claim_two second ''t1'' 1) = Some h" for h
    by (rule bind_steps [OF that claim_two_steps claim_two_steps])
  then show ?thesis unfolding qrun3_def by (rule reached_some [OF 2]) (assumption, code_simp)
qed

theorem quota_before_claim_witness:
  "0 < QuotaLimit quota_queue \<and> fmlookup (s_workers (sched qrun4)) 1 \<noteq> None \<and>
   (\<exists>w. fmlookup (r_claims (the_run qrun3)) ''job'' = Some (CDequeue (Some w))) \<and> fmlookup (r_quotas (the_run qrun3)) ''job'' \<noteq> None"
proof -
  have run: "s_run (sched qrun3) = Some (the_run qrun3)" by (rule the_run) code_simp
  have q: "fmlookup (r_queues (the_run qrun3)) ''job'' = Some quota_queue" and pos: "0 < QuotaLimit quota_queue" by code_simp+
  have "claim_one second ''t1'' 1 qrun3 \<noteq> None" by code_simp
  then have step: "claim_step memory_broker (ev_at second ''t1'' 1) ''job'' qrun3 = Some qrun4"
    by (auto simp: qrun4_def claim_one_def)
  have w: "fmlookup (s_workers (sched qrun4)) 1 \<noteq> None" "fmlookup (s_workers (sched qrun3)) 1 = None" by code_simp+
  then have new: "s_workers (sched qrun4) \<noteq> s_workers (sched qrun3)" by auto
  show ?thesis using quota_before_claim [OF quota_reached run q step new] pos w(1) by auto
qed

end
