(* ===== verification/Sqlite_Broker.thy ===== *)
theory Sqlite_Broker
  imports Broker_Interface
begin

text \<open>
  The sqlite back end of \<open>sqlitebroker/\<close>.  The database file is three tables: the tasks by their
  primary key, the dependency edges and the quota counters; a column holds the value the Go code
  binds to it.  An SQL statement is a function on the tables: an \<open>UPDATE\<close> changes the columns it
  names in the rows its condition selects, a \<open>SELECT\<close> with an \<open>ORDER BY\<close> returns the identifiers in
  that order, and the rows of a statement without one come in an order that is an argument.
  A transaction is a function on the tables that is applied if it succeeds and has no effect
  otherwise.

  \<^item> \<open>io\<close> is the failure of the storage during a call: of \<open>BeginTx\<close>, of a statement or of
    \<open>Commit\<close>.  Each of them ends the transaction with that error.  One argument stands for all of them: that
    the code returns the error of every statement, and that sqlite rolls the changes of the
    earlier ones back, is built into \<open>withTx\<close> and not a result.
  \<^item> \<open>drv\<close> is the text of the driver for a violated constraint.
  \<^item> \<open>fresh\<close> and \<open>token\<close> are what \<open>ulid.Make\<close> returns, \<open>clk\<close> what the clock reads.
  \<^item> The column \<open>depends_on\<close> holds the list whose JSON text the code stores; \<open>encoding/json\<close>
    reads back the list of strings it wrote.
\<close>

section \<open>Times\<close>

definition ms :: "time \<Rightarrow> int" where
  "ms t = (if isZero t then 0 else unixMilli t)"

definition fromMS :: "int \<Rightarrow> time" where
  "fromMS v = (if v = 0 then zero_time else v * millisecond)"

section \<open>Tables\<close>

record row =
  c_type :: string
  c_queue :: string
  c_payload :: bytes
  c_status :: status
  c_result :: bytes
  c_last_error :: string
  c_attempts :: int
  c_max_retry :: int
  c_lease_lost :: int
  c_throttled :: int
  c_run_at :: int
  c_depends_on :: "id list"
  c_on_parent_fail :: parentFailurePolicy
  c_pending_parents :: int
  c_lease_token :: string
  c_lease_until :: int
  c_cancel_requested :: int
  c_created_at :: int
  c_started_at :: int
  c_finished_at :: int
  c_business_key :: string
  c_replay_of :: id

record taskDep =
  child_id :: id
  parent_id :: id
  dep_done :: int

record sdb =
  t_tasks :: "(id, row) fmap"
  t_deps :: "taskDep list"
  t_quota :: "(string \<times> int, int) fmap"

record sbroker =
  sp_opts :: brokerOptions
  sp_inited :: bool
  sp_closed :: bool
  sp_wakes :: nat
  sp_lastWins :: "(nat, int) fmap"
  sp_db :: sdb

definition sq_empty :: sdb where
  "sq_empty = \<lparr>t_tasks = fmempty, t_deps = [], t_quota = fmempty\<rparr>"

text \<open>\<open>Open\<close> on a database file whose schema is up to date.\<close>

definition sq_Open :: "sdb \<Rightarrow> sbroker" where
  "sq_Open d = \<lparr>sp_opts = \<lparr>LeaseTTL = fmempty, DefaultLeaseTTL = 0, LeaseLostMax = 0, ThrottledMax = 0\<rparr>,
     sp_inited = False, sp_closed = False, sp_wakes = 0, sp_lastWins = fmempty, sp_db = d\<rparr>"

definition sq_Init :: "brokerOptions \<Rightarrow> sbroker \<Rightarrow> sbroker" where
  "sq_Init o0 s =
     (let o1 = (if DefaultLeaseTTL o0 \<le> 0 then o0\<lparr>DefaultLeaseTTL := 60 * second\<rparr> else o0);
          o2 = (if LeaseLostMax o1 \<le> 0 then o1\<lparr>LeaseLostMax := 3\<rparr> else o1);
          o3 = (if ThrottledMax o2 \<le> 0 then o2\<lparr>ThrottledMax := 100\<rparr> else o2)
      in s\<lparr>sp_opts := o3, sp_inited := True\<rparr>)"

definition wakeAll :: "sbroker \<Rightarrow> sbroker" where
  "wakeAll s = s\<lparr>sp_wakes := Suc (sp_wakes s)\<rparr>"

definition sq_Close :: "sbroker \<Rightarrow> sbroker" where
  "sq_Close s = (if sp_closed s then s else wakeAll (s\<lparr>sp_closed := True\<rparr>))"

definition sq_requireInit :: "sbroker \<Rightarrow> tg_error option" where
  "sq_requireInit s =
     (if \<not> sp_inited s then Some ErrNotInit else if sp_closed s then Some ErrClosed else None)"

definition sq_ttlFor :: "sbroker \<Rightarrow> string \<Rightarrow> duration" where
  "sq_ttlFor s q =
     (case fmlookup (LeaseTTL (sp_opts s)) q of
        Some d \<Rightarrow> if d > 0 then d else DefaultLeaseTTL (sp_opts s)
      | None \<Rightarrow> DefaultLeaseTTL (sp_opts s))"

definition withTx :: "tg_error option \<Rightarrow> (sdb \<Rightarrow> tg_error + sdb \<times> 'a) \<Rightarrow> sbroker \<Rightarrow> sbroker \<times> (tg_error + 'a)" where
  "withTx io fn s =
     (case io of
        Some er \<Rightarrow> (s, Inl er)
      | None \<Rightarrow>
          (case fn (sp_db s) of
             Inl er \<Rightarrow> (s, Inl er)
           | Inr (d, x) \<Rightarrow> (s\<lparr>sp_db := d\<rparr>, Inr x)))"

section \<open>Statements\<close>

text \<open>The identifiers of the rows that satisfy a condition, in ascending order.\<close>

definition select :: "(id \<Rightarrow> row \<Rightarrow> bool) \<Rightarrow> sdb \<Rightarrow> id list" where
  "select P d = filter (\<lambda>i. case fmlookup (t_tasks d) i of None \<Rightarrow> False | Some r \<Rightarrow> P i r)
     (sorted_list_of_fset (fmdom (t_tasks d)))"

definition row_of :: "sdb \<Rightarrow> id \<Rightarrow> row" where
  "row_of d i = the (fmlookup (t_tasks d) i)"

text \<open>\<open>UPDATE tasks SET ... WHERE id = ?\<close>.\<close>

definition update_row :: "id \<Rightarrow> (row \<Rightarrow> row) \<Rightarrow> sdb \<Rightarrow> sdb" where
  "update_row i f d =
     (case fmlookup (t_tasks d) i of
        None \<Rightarrow> d
      | Some r \<Rightarrow> d\<lparr>t_tasks := fmupd i (f r) (t_tasks d)\<rparr>)"

text \<open>\<open>UPDATE tasks SET ... WHERE <condition>\<close>.\<close>

definition update_where :: "(row \<Rightarrow> bool) \<Rightarrow> (row \<Rightarrow> row) \<Rightarrow> sdb \<Rightarrow> sdb" where
  "update_where P f d = d\<lparr>t_tasks := fmmap (\<lambda>r. if P r then f r else r) (t_tasks d)\<rparr>"

text \<open>\<open>INSERT\<close>, with the primary keys and the two partial unique indexes of the schema.\<close>

datatype constraint = PkTasks | UqChainHead | UqReplayOf | PkTaskDeps

definition insert_row :: "id \<Rightarrow> row \<Rightarrow> sdb \<Rightarrow> constraint + sdb" where
  "insert_row i r d =
     (if fmlookup (t_tasks d) i \<noteq> None then Inl PkTasks
      else if c_business_key r \<noteq> '''' \<and> c_replay_of r = '''' \<and>
        select (\<lambda>j x. c_business_key x = c_business_key r \<and> c_replay_of x = '''') d \<noteq> [] then Inl UqChainHead
      else if c_replay_of r \<noteq> '''' \<and> select (\<lambda>j x. c_replay_of x = c_replay_of r) d \<noteq> [] then Inl UqReplayOf
      else Inr (d\<lparr>t_tasks := fmupd i r (t_tasks d)\<rparr>))"

definition insert_edge :: "taskDep \<Rightarrow> sdb \<Rightarrow> constraint + sdb" where
  "insert_edge e d =
     (if \<exists>x \<in> set (t_deps d). child_id x = child_id e \<and> parent_id x = parent_id e then Inl PkTaskDeps
      else Inr (d\<lparr>t_deps := t_deps d @ [e]\<rparr>))"

text \<open>\<open>UPDATE task_deps SET done = 1 WHERE parent_id = ?\<close>.\<close>

definition mark_done :: "id \<Rightarrow> sdb \<Rightarrow> sdb" where
  "mark_done p d = d\<lparr>t_deps := map (\<lambda>e. if parent_id e = p then e\<lparr>dep_done := 1\<rparr> else e) (t_deps d)\<rparr>"

definition childrenOf :: "sdb \<Rightarrow> id \<Rightarrow> id list" where
  "childrenOf d p = sort (map child_id (filter (\<lambda>e. parent_id e = p) (t_deps d)))"

section \<open>Rows as tasks\<close>

record srec =
  sr_task :: task
  sr_pendingParents :: int
  sr_leaseUntilMS :: int
  sr_cancelRequested :: bool

definition scanRec :: "id \<Rightarrow> row \<Rightarrow> srec" where
  "scanRec i r =
     \<lparr>sr_task = \<lparr>ID = i, BusinessKey = c_business_key r, ReplayOf = c_replay_of r, Type = c_type r,
        Queue = c_queue r, Payload = c_payload r, Status = c_status r, Result = c_result r,
        LastError = c_last_error r, Attempts = c_attempts r, MaxRetry = c_max_retry r,
        LeaseLost = c_lease_lost r, Throttled = c_throttled r, RunAt = fromMS (c_run_at r),
        DependsOn = c_depends_on r, OnParentFailure = c_on_parent_fail r, LeaseToken = c_lease_token r,
        CreatedAt = fromMS (c_created_at r), StartedAt = fromMS (c_started_at r),
        FinishedAt = fromMS (c_finished_at r)\<rparr>,
      sr_pendingParents = c_pending_parents r, sr_leaseUntilMS = c_lease_until r,
      sr_cancelRequested = (c_cancel_requested r \<noteq> 0)\<rparr>"

definition getRec :: "sdb \<Rightarrow> id \<Rightarrow> tg_error + srec" where
  "getRec d i =
     (case fmlookup (t_tasks d) i of
        None \<Rightarrow> Inl (ErrTaskNotFound i)
      | Some r \<Rightarrow> Inr (scanRec i r))"

definition checkLeaseRec :: "srec \<Rightarrow> string \<Rightarrow> tg_error option" where
  "checkLeaseRec r token =
     (if Status (sr_task r) \<noteq> StatusRunning \<or> token = '''' \<or> LeaseToken (sr_task r) \<noteq> token
      then Some (ErrLeaseLost (ID (sr_task r))) else None)"

section \<open>Propagation\<close>

text \<open>
  The body of the inner loop of \<open>propagateTx\<close> for the child \<open>cid\<close> of the finished task \<open>p\<close>
  in status \<open>pst\<close>.  The state is the tables, the snapshots and the work queue.
\<close>

definition propagate_row ::
  "time \<Rightarrow> id \<Rightarrow> status \<Rightarrow> id \<Rightarrow> sdb \<times> task list \<times> (id \<times> status) list \<Rightarrow>
   sdb \<times> task list \<times> (id \<times> status) list" where
  "propagate_row now p pst cid st =
     (case st of (d, notifs, work) \<Rightarrow>
      (case getRec d cid of
         Inl _ \<Rightarrow> st
       | Inr c \<Rightarrow>
           (case DecideOnParentFinal pst (Status (sr_task c)) (OnParentFailure (sr_task c)) (sr_pendingParents c) of
              (newPending, action) \<Rightarrow>
                (case action of
                   ChildWake \<Rightarrow>
                     if \<not> canTransition (Status (sr_task c)) StatusPending then st
                     else (update_row cid (\<lambda>r. r\<lparr>c_status := StatusPending, c_pending_parents := newPending\<rparr>) d,
                           notifs @ [(sr_task c)\<lparr>Status := StatusPending\<rparr>], work)
                 | ChildCancel \<Rightarrow>
                     if Status (sr_task c) = StatusRunning
                     then (update_row cid (\<lambda>r. r\<lparr>c_cancel_requested := 1\<rparr>) d, notifs, work)
                     else if \<not> canTransition (Status (sr_task c)) StatusCanceled then st
                     else
                       let reason = ParentFailureReason p pst in
                       (update_row cid (\<lambda>r. r\<lparr>c_status := StatusCanceled, c_last_error := reason,
                            c_finished_at := unixMilli now, c_lease_token := '''', c_lease_until := 0,
                            c_pending_parents := newPending\<rparr>) d,
                        notifs @ [(sr_task c)\<lparr>Status := StatusCanceled, LastError := reason,
                            FinishedAt := now, LeaseToken := ''''\<rparr>],
                        work @ [(cid, StatusCanceled)])
                 | ChildNone \<Rightarrow>
                     (update_row cid (\<lambda>r. r\<lparr>c_pending_parents := newPending\<rparr>) d, notifs, work)))))"

definition propagate_rows ::
  "time \<Rightarrow> id \<Rightarrow> status \<Rightarrow> sdb \<times> task list \<times> (id \<times> status) list \<Rightarrow>
   sdb \<times> task list \<times> (id \<times> status) list" where
  "propagate_rows now p pst st =
     (case st of (d, notifs, work) \<Rightarrow>
        let d1 = mark_done p d
        in fold (propagate_row now p pst) (childrenOf d1 p) (d1, notifs, work))"

text \<open>As in the in-memory broker, a child that is queued has left the unfinished states for good.\<close>

definition open_rows :: "sdb \<Rightarrow> nat" where
  "open_rows d = fcard (ffilter (\<lambda>i. \<not> isFinal (c_status (row_of d i))) (fmdom (t_tasks d)))"

lemma open_rows_deps [simp]: "open_rows (d\<lparr>t_deps := e\<rparr>) = open_rows d"
  by (simp add: open_rows_def row_of_def)

lemma open_rows_same:
  assumes "fmlookup (t_tasks d) i = Some r" and "isFinal (c_status r') = isFinal (c_status r)"
  shows "open_rows (d\<lparr>t_tasks := fmupd i r' (t_tasks d)\<rparr>) = open_rows d"
proof -
  have "i |\<in>| fmdom (t_tasks d)" using assms(1) by (rule fmdomI)
  then have "ffilter (\<lambda>k. \<not> isFinal (c_status (row_of (d\<lparr>t_tasks := fmupd i r' (t_tasks d)\<rparr>) k)))
      (fmdom (t_tasks (d\<lparr>t_tasks := fmupd i r' (t_tasks d)\<rparr>))) =
    ffilter (\<lambda>k. \<not> isFinal (c_status (row_of d k))) (fmdom (t_tasks d))"
    using assms by (auto simp: row_of_def)
  then show ?thesis by (simp add: open_rows_def)
qed

lemma open_rows_final:
  assumes "fmlookup (t_tasks d) i = Some r" and "\<not> isFinal (c_status r)" and "isFinal (c_status r')"
  shows "Suc (open_rows (d\<lparr>t_tasks := fmupd i r' (t_tasks d)\<rparr>)) = open_rows d"
proof -
  let ?k = "ffilter (\<lambda>k. \<not> isFinal (c_status (row_of d k))) (fmdom (t_tasks d))"
  have k: "i |\<in>| ?k" using assms(1,2) by (auto simp: row_of_def fmdomI)
  have "ffilter (\<lambda>k. \<not> isFinal (c_status (row_of (d\<lparr>t_tasks := fmupd i r' (t_tasks d)\<rparr>) k)))
      (fmdom (t_tasks (d\<lparr>t_tasks := fmupd i r' (t_tasks d)\<rparr>))) = ?k |-| {|i|}"
    using assms by (auto simp: row_of_def split: if_splits)
  then show ?thesis using fcard_Suc_fminus1 [OF k] by (simp add: open_rows_def)
qed

text \<open>What one visit of a child does, as a case rule.\<close>

lemma propagate_row_cases:
  assumes r: "fmlookup (t_tasks d) cid = Some r"
  obtains (skip) "isFinal (c_status r) \<or> \<not> isFinal pst"
      "propagate_row now p pst cid (d, ns, work) = (d, ns, work)"
  | (silent) r' where "\<not> isFinal (c_status r)" "c_status r' = c_status r"
      "propagate_row now p pst cid (d, ns, work) = (d\<lparr>t_tasks := fmupd cid r' (t_tasks d)\<rparr>, ns, work)"
  | (wake) r' where "\<not> isFinal (c_status r)" "c_status r' = StatusPending"
      "propagate_row now p pst cid (d, ns, work) =
         (d\<lparr>t_tasks := fmupd cid r' (t_tasks d)\<rparr>, ns @ [sr_task (scanRec cid r)\<lparr>Status := StatusPending\<rparr>], work)"
  | (cancel) r' n where "\<not> isFinal (c_status r)" "c_status r' = StatusCanceled"
      "propagate_row now p pst cid (d, ns, work) =
         (d\<lparr>t_tasks := fmupd cid r' (t_tasks d)\<rparr>, ns @ [n], work @ [(cid, StatusCanceled)])"
proof -
  have self: "d\<lparr>t_tasks := fmupd cid r (t_tasks d)\<rparr> = d" using fmupd_same [OF r] by simp
  have same: "c_pending_parents r = n \<Longrightarrow> r\<lparr>c_pending_parents := n\<rparr> = r" for n by simp
  note simps = propagate_row_def getRec_def r scanRec_def update_row_def DecideOnParentFinal_def Let_def
  show thesis
  proof (cases "isFinal (c_status r) \<or> \<not> isFinal pst")
    case True
    then show thesis using self by (intro skip) (auto simp: simps)
  next
    case False
    show thesis
    proof (cases "pst = StatusCompleted \<or> c_on_parent_fail r = IgnoreParentFail")
      case True
      show thesis
      proof (cases "(if 0 < c_pending_parents r then c_pending_parents r - 1 else c_pending_parents r) = 0 \<and>
          c_status r = StatusBlocked")
        case w: True
        then show thesis using False True
          by (intro wake [of "r\<lparr>c_status := StatusPending, c_pending_parents := 0\<rparr>"]) (auto simp: simps)
      next
        case w: False
        then show thesis using False True
          by (intro silent [of "r\<lparr>c_pending_parents :=
                (if 0 < c_pending_parents r then c_pending_parents r - 1 else c_pending_parents r)\<rparr>"])
            (auto simp: simps)
      qed
    next
      case not_ok: False
      show thesis
      proof (cases "c_status r = StatusRunning")
        case True
        then show thesis using False not_ok
          by (intro silent [of "r\<lparr>c_cancel_requested := 1\<rparr>"]) (auto simp: simps)
      next
        case run: False
        then show thesis using False not_ok nonfinal_can_cancel [of "c_status r"]
          by (intro cancel [of "r\<lparr>c_status := StatusCanceled, c_last_error := ParentFailureReason p pst,
                c_finished_at := unixMilli now, c_lease_token := '''', c_lease_until := 0\<rparr>"])
            (auto simp: simps)
      qed
    qed
  qed
qed

lemma propagate_row_measure:
  assumes "propagate_row now p pst cid (d, ns, work) = (d', ns', work')"
  shows "open_rows d' + length work' \<le> open_rows d + length work"
proof (cases "fmlookup (t_tasks d) cid")
  case None
  then show ?thesis using assms by (simp add: propagate_row_def getRec_def)
next
  case (Some r)
  then show ?thesis
  proof (cases rule: propagate_row_cases [where now = now and p = p and pst = pst and ns = ns and work = work])
    case (wake r')
    then show ?thesis using assms open_rows_same [OF Some, of r'] by auto
  next
    case (cancel r' n)
    then have "isFinal (c_status r')" by simp
    then show ?thesis using assms cancel open_rows_final [OF Some, of r'] by auto
  qed (use assms open_rows_same [OF Some] in auto)
qed

lemma propagate_rows_measure:
  assumes "propagate_rows now p pst (d, ns, work) = (d', ns', work')"
  shows "open_rows d' + length work' \<le> open_rows d + length work"
proof -
  have "fold (propagate_row now p pst) cs (d, ns, work) = (d', ns', work') \<Longrightarrow>
      open_rows d' + length work' \<le> open_rows d + length work" for cs d
  proof (induction cs arbitrary: d ns work)
    case (Cons c cs)
    obtain d1 ns1 work1 where one: "propagate_row now p pst c (d, ns, work) = (d1, ns1, work1)"
      by (cases "propagate_row now p pst c (d, ns, work)")
    show ?case
      using Cons.IH [of d1 ns1 work1] Cons.prems propagate_row_measure [OF one] one by simp
  qed simp
  from this [of "childrenOf (mark_done p d) p" "mark_done p d"] show ?thesis
    using assms by (simp add: propagate_rows_def Let_def mark_done_def)
qed

function propagateTx_loop ::
  "time \<Rightarrow> (id \<times> status) list \<Rightarrow> sdb \<Rightarrow> task list \<Rightarrow> sdb \<times> task list" where
  "propagateTx_loop now [] d notifs = (d, notifs)"
| "propagateTx_loop now ((p, pst) # work) d notifs =
     (case propagate_rows now p pst (d, notifs, work) of
        (d', notifs', work') \<Rightarrow> propagateTx_loop now work' d' notifs')"
  by pat_completeness auto
termination
  by (relation "measure (\<lambda>(now, work, d, notifs). open_rows d + length work)")
    (auto dest!: propagate_rows_measure [OF sym])

definition propagateTx :: "id \<Rightarrow> status \<Rightarrow> time \<Rightarrow> sdb \<Rightarrow> task list \<Rightarrow> sdb \<times> task list" where
  "propagateTx i st now d notifs = propagateTx_loop now [(i, st)] d notifs"

section \<open>Enqueue\<close>

text \<open>The loop over \<open>DependsOn\<close>: every parent once, in order; a missing one ends the call.\<close>

fun sq_parents :: "sdb \<Rightarrow> id list \<Rightarrow> id list \<Rightarrow> tg_error + parentState list" where
  "sq_parents d seen [] = Inr []"
| "sq_parents d seen (pid # ps) =
     (if pid \<in> set seen then sq_parents d seen ps
      else (case fmlookup (t_tasks d) pid of
              None \<Rightarrow> Inl (ErrTaskNotFound pid)
            | Some r \<Rightarrow>
                (case sq_parents d (pid # seen) ps of
                   Inl e \<Rightarrow> Inl e
                 | Inr sts \<Rightarrow> Inr (\<lparr>ps_ID = pid, ps_Status = c_status r\<rparr> # sts))))"

text \<open>\<open>ORDER BY created_at DESC, id DESC LIMIT 1\<close> over the rows of a business key.\<close>

definition key_tail :: "sdb \<Rightarrow> string \<Rightarrow> id option" where
  "key_tail d key =
     (case sort_key (\<lambda>i. c_created_at (row_of d i)) (select (\<lambda>_ r. c_business_key r = key) d) of
        [] \<Rightarrow> None | is \<Rightarrow> Some (last is))"

definition enqueue_task :: "id \<Rightarrow> time \<Rightarrow> task \<Rightarrow> parentFailurePolicy \<Rightarrow> submitDecision \<Rightarrow> task" where
  "enqueue_task i now t policy dec =
     (let t0 = t\<lparr>ID := i, Status := d_Status dec, OnParentFailure := policy, CreatedAt := now,
                 RunAt := trunc_ms (RunAt t), StartedAt := trunc_ms (StartedAt t),
                 FinishedAt := trunc_ms (FinishedAt t)\<rparr>;
          t1 = (if isZero (RunAt t0) then t0\<lparr>RunAt := now\<rparr> else t0)\<lparr>LeaseToken := ''''\<rparr>
      in if d_Status dec = StatusCanceled
         then t1\<lparr>LastError := d_LastError dec, FinishedAt := now\<rparr> else t1)"

text \<open>The values bound to the columns of an \<open>INSERT INTO tasks\<close>.\<close>

definition new_row :: "task \<Rightarrow> int \<Rightarrow> row" where
  "new_row t pending =
     \<lparr>c_type = Type t, c_queue = Queue t, c_payload = Payload t, c_status = Status t, c_result = Result t,
      c_last_error = LastError t, c_attempts = Attempts t, c_max_retry = MaxRetry t,
      c_lease_lost = LeaseLost t, c_throttled = Throttled t, c_run_at = ms (RunAt t),
      c_depends_on = DependsOn t, c_on_parent_fail = OnParentFailure t, c_pending_parents = pending,
      c_lease_token = '''', c_lease_until = 0, c_cancel_requested = 0, c_created_at = ms (CreatedAt t),
      c_started_at = ms (StartedAt t), c_finished_at = ms (FinishedAt t),
      c_business_key = BusinessKey t, c_replay_of = ReplayOf t\<rparr>"

fun insert_deps :: "id \<Rightarrow> parentState list \<Rightarrow> sdb \<Rightarrow> constraint + sdb" where
  "insert_deps i [] d = Inr d"
| "insert_deps i (p # ps) d =
     (case insert_edge \<lparr>child_id = i, parent_id = ps_ID p, dep_done = (if isFinal (ps_Status p) then 1 else 0)\<rparr> d of
        Inl c \<Rightarrow> Inl c
      | Inr d' \<Rightarrow> insert_deps i ps d')"

definition enqueue_tx ::
  "(constraint \<Rightarrow> string) \<Rightarrow> id \<Rightarrow> time \<Rightarrow> task \<Rightarrow> sdb \<Rightarrow> tg_error + sdb \<times> task" where
  "enqueue_tx drv fresh clk t d =
     (case (if BusinessKey t = '''' then None else key_tail d (BusinessKey t)) of
        Some tail \<Rightarrow> Inl (TaskExistsError (BusinessKey t) tail (c_status (row_of d tail)))
      | None \<Rightarrow>
      if ID t \<noteq> '''' \<and> fmlookup (t_tasks d) (ID t) \<noteq> None then Inl (ErrTaskExists (ID t))
      else
        let i = (if ID t \<noteq> '''' then ID t else fresh);
            now = trunc_ms clk
        in (case sq_parents d [] (DependsOn t) of
              Inl e \<Rightarrow> Inl e
            | Inr parents \<Rightarrow>
                let policy = (if OnParentFailure t = PolicyUnset then FailFast else OnParentFailure t);
                    dec = DecideOnSubmit parents policy;
                    stored = enqueue_task i now t policy dec
                in (case insert_row i (new_row stored (d_PendingParents dec)) d of
                      Inl c \<Rightarrow> Inl (ErrStorage (drv c))
                    | Inr d1 \<Rightarrow>
                        (case insert_deps i parents d1 of
                           Inl c \<Rightarrow> Inl (ErrStorage (drv c))
                         | Inr d2 \<Rightarrow> Inr (d2, stored)))))"

type_synonym 'a sresult = "sbroker \<times> task list \<times> (tg_error + 'a)"

definition sq_Enqueue ::
  "(constraint \<Rightarrow> string) \<Rightarrow> tg_error option \<Rightarrow> id \<Rightarrow> time \<Rightarrow> task \<Rightarrow> sbroker \<Rightarrow> task sresult" where
  "sq_Enqueue drv io fresh clk t s =
     (case sq_requireInit s of
        Some e \<Rightarrow> (s, [], Inl e)
      | None \<Rightarrow>
      if ReplayOf t \<noteq> '''' then (s, [], Inl ErrReplayOfSet)
      else (case withTx io (enqueue_tx drv fresh clk t) s of
              (s1, Inl e) \<Rightarrow> (s1, [], Inl e)
            | (s1, Inr stored) \<Rightarrow> (wakeAll s1, [stored], Inr stored)))"

section \<open>Dequeue\<close>

definition waiting_row :: "string list \<Rightarrow> row \<Rightarrow> bool" where
  "waiting_row queues r \<longleftrightarrow>
     c_queue r \<in> set queues \<and> (c_status r = StatusPending \<or> c_status r = StatusRetrying)"

text \<open>
  The statements of \<open>tryClaim\<close>: the first due row by \<open>run_at\<close> and \<open>id\<close>, and the least future \<open>run_at\<close>.
\<close>

definition first_due :: "string list \<Rightarrow> int \<Rightarrow> sdb \<Rightarrow> id option" where
  "first_due queues nowMS d =
     (case sort_key (\<lambda>i. c_run_at (row_of d i)) (select (\<lambda>_ r. waiting_row queues r \<and> c_run_at r \<le> nowMS) d) of
        [] \<Rightarrow> None | i # _ \<Rightarrow> Some i)"

definition next_run :: "string list \<Rightarrow> int \<Rightarrow> sdb \<Rightarrow> int option" where
  "next_run queues nowMS d =
     (case sort (map (\<lambda>i. c_run_at (row_of d i)) (select (\<lambda>_ r. waiting_row queues r \<and> c_run_at r > nowMS) d)) of
        [] \<Rightarrow> None | v # _ \<Rightarrow> Some v)"

definition claim_row :: "string \<Rightarrow> int \<Rightarrow> row \<Rightarrow> row" where
  "claim_row token nowMS r =
     r\<lparr>c_status := StatusRunning, c_lease_token := token,
       c_started_at := (if c_started_at r = 0 then nowMS else c_started_at r)\<rparr>"

definition claim_tx ::
  "(string \<Rightarrow> duration) \<Rightarrow> string \<Rightarrow> time \<Rightarrow> string list \<Rightarrow> sdb \<Rightarrow> tg_error + sdb \<times> (task option \<times> time)" where
  "claim_tx ttlFor token now queues d =
     (let nowMS = unixMilli now in
      (case first_due queues nowMS d of
         None \<Rightarrow> Inr (d, None, (case next_run queues nowMS d of None \<Rightarrow> zero_time | Some v \<Rightarrow> fromMS v))
       | Some i \<Rightarrow>
           let d1 = update_row i (claim_row token nowMS) d;
               r = scanRec i (row_of d1 i);
               till = unixMilli (now + ttlFor (Queue (sr_task r)))
           in Inr (update_row i (\<lambda>x. x\<lparr>c_lease_until := till\<rparr>) d1, Some (sr_task r), zero_time)))"

definition tryClaim ::
  "tg_error option \<Rightarrow> string \<Rightarrow> time \<Rightarrow> string list \<Rightarrow> sbroker \<Rightarrow> sbroker \<times> (tg_error + task option \<times> time)" where
  "tryClaim io token clk queues s = withTx io (claim_tx (sq_ttlFor s) token clk queues) s"

definition pollInterval :: duration where
  "pollInterval = 100 * millisecond"

text \<open>
  One turn of the loop of \<open>Dequeue\<close>.  \<open>ctx\<close> and \<open>ctx2\<close> are \<open>ctx.Err()\<close> before and after the attempt,
  \<open>clk2\<close> the second reading of the clock.  \<open>WaitFor t\<close> is a turn without a task: the call sleeps until
  \<open>t\<close> at the latest, and goes on at once if \<open>t\<close> is not in the future.
\<close>

definition sq_Dequeue_turn ::
  "tg_error option \<Rightarrow> tg_error option \<Rightarrow> tg_error option \<Rightarrow> string \<Rightarrow> time \<Rightarrow> time \<Rightarrow> string list \<Rightarrow> sbroker \<Rightarrow>
   sbroker \<times> task list \<times> dequeueTurn" where
  "sq_Dequeue_turn ctx io ctx2 token clk clk2 queues s =
     (if queues = [] then (s, [], DequeueErr ErrNoQueues)
      else (case ctx of Some e \<Rightarrow> (s, [], DequeueErr e)
      | None \<Rightarrow> (case sq_requireInit s of Some e \<Rightarrow> (s, [], DequeueErr e)
      | None \<Rightarrow>
          (case tryClaim io token clk queues s of
             (s1, Inl e) \<Rightarrow> (s1, [], DequeueErr (case ctx2 of Some ce \<Rightarrow> ce | None \<Rightarrow> e))
           | (s1, Inr (Some tk, _)) \<Rightarrow> (s1, [tk], Claimed tk)
           | (s1, Inr (None, next)) \<Rightarrow>
               let wait = (if \<not> isZero next \<and> next - clk2 < pollInterval then next - clk2 else pollInterval)
               in (s1, [], WaitFor (clk2 + wait))))))"

section \<open>Receipts\<close>

text \<open>The common frame of the operations that change one task.\<close>

definition sq_change :: "tg_error option \<Rightarrow> (sdb \<Rightarrow> tg_error + sdb \<times> task list) \<Rightarrow> sbroker \<Rightarrow> unit sresult" where
  "sq_change io fn s =
     (case sq_requireInit s of
        Some e \<Rightarrow> (s, [], Inl e)
      | None \<Rightarrow>
          (case withTx io fn s of
             (s1, Inl e) \<Rightarrow> (s1, [], Inl e)
           | (s1, Inr notifs) \<Rightarrow> (wakeAll s1, notifs, Inr ())))"

definition ack_tx :: "time \<Rightarrow> id \<Rightarrow> string \<Rightarrow> bytes \<Rightarrow> sdb \<Rightarrow> tg_error + sdb \<times> task list" where
  "ack_tx clk i token result d =
     (case getRec d i of Inl e \<Rightarrow> Inl e
      | Inr r \<Rightarrow> (case checkLeaseRec r token of Some e \<Rightarrow> Inl e
      | None \<Rightarrow>
          if \<not> canTransition (Status (sr_task r)) StatusCompleted
          then Inl (ErrIllegalTransition (Status (sr_task r)) StatusCompleted i)
          else
            let now = trunc_ms clk;
                d1 = update_row i (\<lambda>x. x\<lparr>c_status := StatusCompleted, c_result := result,
                       c_finished_at := unixMilli now, c_lease_token := '''', c_lease_until := 0,
                       c_cancel_requested := 0\<rparr>) d;
                t1 = (sr_task r)\<lparr>Status := StatusCompleted\<rparr>;
                t2 = (if result \<noteq> None then t1\<lparr>Result := clone_bytes result\<rparr> else t1);
                t3 = t2\<lparr>FinishedAt := now, LeaseToken := ''''\<rparr>
            in Inr (propagateTx i StatusCompleted now d1 [t3])))"

definition sq_Ack :: "tg_error option \<Rightarrow> time \<Rightarrow> id \<Rightarrow> string \<Rightarrow> bytes \<Rightarrow> sbroker \<Rightarrow> unit sresult" where
  "sq_Ack io clk i token result s = sq_change io (ack_tx clk i token result) s"

definition sq_fail_counts :: "int \<Rightarrow> failKind \<Rightarrow> string \<Rightarrow> task \<Rightarrow> tg_error + task \<times> bool" where
  "sq_fail_counts throttledMax kind errMsg t =
     (let t0 = t\<lparr>LastError := errMsg\<rparr> in
      case kind of
        FailBusiness \<Rightarrow>
          let t1 = t0\<lparr>Attempts := Attempts t0 + 1\<rparr> in Inr (t1, Attempts t1 > MaxRetry t1)
      | FailThrottled \<Rightarrow>
          let t1 = t0\<lparr>Throttled := Throttled t0 + 1\<rparr> in
          if Throttled t1 \<ge> throttledMax
          then Inr (t1\<lparr>LastError := ''throttled '' @ show_int (Throttled t1) @ '' times''\<rparr>, True)
          else Inr (t1, False)
      | FailSkip \<Rightarrow> Inr (t0, True)
      | FailOther k \<Rightarrow> Inl (ErrUnknownFailKind k))"

definition fail_tx ::
  "int \<Rightarrow> time \<Rightarrow> id \<Rightarrow> string \<Rightarrow> string \<Rightarrow> failKind \<Rightarrow> time \<Rightarrow> sdb \<Rightarrow> tg_error + sdb \<times> task list" where
  "fail_tx throttledMax clk i token errMsg kind retryAt d =
     (case getRec d i of Inl e \<Rightarrow> Inl e
      | Inr r \<Rightarrow> (case checkLeaseRec r token of Some e \<Rightarrow> Inl e
      | None \<Rightarrow>
          let now = trunc_ms clk in
          (case sq_fail_counts throttledMax kind errMsg (sr_task r) of
             Inl e \<Rightarrow> Inl e
           | Inr (t, True) \<Rightarrow>
               if \<not> canTransition (Status t) StatusFailed
               then Inl (ErrIllegalTransition (Status t) StatusFailed i)
               else
                 let d1 = update_row i (\<lambda>x. x\<lparr>c_status := StatusFailed, c_last_error := LastError t,
                            c_attempts := Attempts t, c_throttled := Throttled t,
                            c_finished_at := unixMilli now, c_lease_token := '''', c_lease_until := 0,
                            c_cancel_requested := 0\<rparr>) d
                 in Inr (propagateTx i StatusFailed now d1
                           [t\<lparr>Status := StatusFailed, FinishedAt := now, LeaseToken := ''''\<rparr>])
           | Inr (t, False) \<Rightarrow>
               let runAt = trunc_ms (if isZero retryAt then now else retryAt)
               in Inr (update_row i (\<lambda>x. x\<lparr>c_status := StatusRetrying, c_last_error := LastError t,
                         c_attempts := Attempts t, c_throttled := Throttled t, c_run_at := ms runAt,
                         c_lease_token := '''', c_lease_until := 0\<rparr>) d,
                       [t\<lparr>Status := StatusRetrying, RunAt := runAt, LeaseToken := ''''\<rparr>]))))"

definition sq_Fail ::
  "tg_error option \<Rightarrow> time \<Rightarrow> id \<Rightarrow> string \<Rightarrow> string \<Rightarrow> failKind \<Rightarrow> time \<Rightarrow> sbroker \<Rightarrow> unit sresult" where
  "sq_Fail io clk i token errMsg kind retryAt s =
     sq_change io (fail_tx (ThrottledMax (sp_opts s)) clk i token errMsg kind retryAt) s"

definition cancel_tx :: "time \<Rightarrow> id \<Rightarrow> sdb \<Rightarrow> tg_error + sdb \<times> task list" where
  "cancel_tx clk i d =
     (case getRec d i of Inl e \<Rightarrow> Inl e
      | Inr r \<Rightarrow>
          if isFinal (Status (sr_task r)) then Inl (ErrAlreadyFinal i (Status (sr_task r)))
          else if Status (sr_task r) = StatusRunning
            then Inr (update_row i (\<lambda>x. x\<lparr>c_cancel_requested := 1\<rparr>) d, [])
          else if \<not> canTransition (Status (sr_task r)) StatusCanceled
            then Inl (ErrIllegalTransition (Status (sr_task r)) StatusCanceled i)
          else
            let now = trunc_ms clk;
                d1 = update_row i (\<lambda>x. x\<lparr>c_status := StatusCanceled, c_last_error := ''canceled'',
                       c_finished_at := unixMilli now, c_lease_token := '''', c_lease_until := 0\<rparr>) d
            in Inr (propagateTx i StatusCanceled now d1
                      [(sr_task r)\<lparr>Status := StatusCanceled, LastError := ''canceled'', FinishedAt := now,
                         LeaseToken := ''''\<rparr>]))"

definition sq_Cancel :: "tg_error option \<Rightarrow> time \<Rightarrow> id \<Rightarrow> sbroker \<Rightarrow> unit sresult" where
  "sq_Cancel io clk i s = sq_change io (cancel_tx clk i) s"

definition finishCanceled_tx :: "time \<Rightarrow> id \<Rightarrow> string \<Rightarrow> sdb \<Rightarrow> tg_error + sdb \<times> task list" where
  "finishCanceled_tx clk i token d =
     (case getRec d i of Inl e \<Rightarrow> Inl e
      | Inr r \<Rightarrow> (case checkLeaseRec r token of Some e \<Rightarrow> Inl e
      | None \<Rightarrow>
          if \<not> canTransition (Status (sr_task r)) StatusCanceled
          then Inl (ErrIllegalTransition (Status (sr_task r)) StatusCanceled i)
          else
            let now = trunc_ms clk;
                d1 = update_row i (\<lambda>x. x\<lparr>c_status := StatusCanceled, c_last_error := ''canceled'',
                       c_finished_at := unixMilli now, c_lease_token := '''', c_lease_until := 0,
                       c_cancel_requested := 0\<rparr>) d
            in Inr (propagateTx i StatusCanceled now d1
                      [(sr_task r)\<lparr>Status := StatusCanceled, LastError := ''canceled'', FinishedAt := now,
                         LeaseToken := ''''\<rparr>])))"

definition sq_FinishCanceled :: "tg_error option \<Rightarrow> time \<Rightarrow> id \<Rightarrow> string \<Rightarrow> sbroker \<Rightarrow> unit sresult" where
  "sq_FinishCanceled io clk i token s = sq_change io (finishCanceled_tx clk i token) s"

definition requeue_tx :: "id \<Rightarrow> string \<Rightarrow> sdb \<Rightarrow> tg_error + sdb \<times> task list" where
  "requeue_tx i token d =
     (case getRec d i of Inl e \<Rightarrow> Inl e
      | Inr r \<Rightarrow> (case checkLeaseRec r token of Some e \<Rightarrow> Inl e
      | None \<Rightarrow>
          if \<not> canTransition (Status (sr_task r)) StatusPending
          then Inl (ErrIllegalTransition (Status (sr_task r)) StatusPending i)
          else Inr (update_row i (\<lambda>x. x\<lparr>c_status := StatusPending, c_lease_token := '''',
                      c_lease_until := 0, c_cancel_requested := 0\<rparr>) d,
                    [(sr_task r)\<lparr>Status := StatusPending, LeaseToken := ''''\<rparr>])))"

definition sq_Requeue :: "tg_error option \<Rightarrow> id \<Rightarrow> string \<Rightarrow> sbroker \<Rightarrow> unit sresult" where
  "sq_Requeue io i token s = sq_change io (requeue_tx i token) s"

definition heartbeat_tx ::
  "(string \<Rightarrow> duration) \<Rightarrow> time \<Rightarrow> id \<Rightarrow> string \<Rightarrow> sdb \<Rightarrow> tg_error + sdb \<times> bool" where
  "heartbeat_tx ttlFor clk i token d =
     (case getRec d i of Inl e \<Rightarrow> Inl e
      | Inr r \<Rightarrow> (case checkLeaseRec r token of Some e \<Rightarrow> Inl e
      | None \<Rightarrow>
          let till = unixMilli (clk + ttlFor (Queue (sr_task r)))
          in Inr (update_row i (\<lambda>x. x\<lparr>c_lease_until := till\<rparr>) d, sr_cancelRequested r)))"

definition sq_Heartbeat :: "tg_error option \<Rightarrow> time \<Rightarrow> id \<Rightarrow> string \<Rightarrow> sbroker \<Rightarrow> unit sresult" where
  "sq_Heartbeat io clk i token s =
     (case sq_requireInit s of
        Some e \<Rightarrow> (s, [], Inl e)
      | None \<Rightarrow>
          (case withTx io (heartbeat_tx (sq_ttlFor s) clk i token) s of
             (s1, Inl e) \<Rightarrow> (s1, [], Inl e)
           | (s1, Inr canceled) \<Rightarrow> (s1, [], if canceled then Inl (ErrTaskCanceled i) else Inr ())))"

section \<open>Replay\<close>

text \<open>\<open>strings.Contains\<close>.\<close>

definition contains_text :: "string \<Rightarrow> string \<Rightarrow> bool" where
  "contains_text s sub \<longleftrightarrow> list_ex (\<lambda>n. take (length sub) (drop n s) = sub) [0..<Suc (length s)]"

text \<open>
  The target of a replay: a row by its identifier, or a row of the business key that no other row
  replays.  Without an \<open>ORDER BY\<close>, \<open>LIMIT 1\<close> returns the first such row in the order \<open>xs\<close>.
\<close>

definition sq_replay_target :: "id list \<Rightarrow> replayRequest \<Rightarrow> sdb \<Rightarrow> tg_error + srec" where
  "sq_replay_target xs req d =
     (if rq_ExecutionID req \<noteq> '''' then getRec d (rq_ExecutionID req)
      else
        (case filter (\<lambda>i. i \<in> set (select (\<lambda>j r. c_business_key r = rq_BusinessKey req \<and>
                   select (\<lambda>_ c. c_replay_of c = j) d = []) d)) xs of
           [] \<Rightarrow> Inl (ErrTaskNotFound (rq_BusinessKey req))
         | i # _ \<Rightarrow> getRec d i))"

definition sq_replay_task :: "id \<Rightarrow> time \<Rightarrow> bytes \<Rightarrow> task \<Rightarrow> task" where
  "sq_replay_task i now payload tgt =
     \<lparr>ID = i, BusinessKey = BusinessKey tgt, ReplayOf = ID tgt, Type = Type tgt, Queue = Queue tgt,
      Payload = payload, Status = StatusPending, Result = None, LastError = '''',
      Attempts = 0, MaxRetry = MaxRetry tgt, LeaseLost = 0, Throttled = 0, RunAt = now,
      DependsOn = [], OnParentFailure = OnParentFailure tgt, LeaseToken = '''', CreatedAt = now,
      StartedAt = zero_time, FinishedAt = zero_time\<rparr>"

definition replay_tx ::
  "(constraint \<Rightarrow> string) \<Rightarrow> id list \<Rightarrow> id \<Rightarrow> time \<Rightarrow> replayRequest \<Rightarrow> sdb \<Rightarrow> tg_error + sdb \<times> task" where
  "replay_tx drv xs fresh clk req d =
     (case sq_replay_target xs req d of Inl e \<Rightarrow> Inl e
      | Inr target \<Rightarrow>
          let tt = sr_task target in
          if \<not> isFinal (Status tt) then Inl (ErrReplayNotFinal (ID tt) (Status tt))
          else if select (\<lambda>_ c. c_replay_of c = ID tt) d \<noteq> [] then Inl (ErrAlreadyReplayed (ID tt))
          else if Status tt = StatusCompleted \<and> \<not> rq_AllowCompleted req then Inl (ErrCompletedNotAllowed (ID tt))
          else
            let payload = (if rq_Payload req = None then Payload tt else rq_Payload req);
                now = trunc_ms clk;
                stored = sq_replay_task fresh now payload tt
            in (case insert_row fresh (new_row stored 0) d of
                  Inl c \<Rightarrow> if contains_text (drv c) ''uq_replay_of'' then Inl (ErrAlreadyReplayed (ID tt))
                           else Inl (ErrStorage (drv c))
                | Inr d1 \<Rightarrow> Inr (d1, stored)))"

definition sq_Replay ::
  "(constraint \<Rightarrow> string) \<Rightarrow> tg_error option \<Rightarrow> id list \<Rightarrow> id \<Rightarrow> time \<Rightarrow> replayRequest \<Rightarrow> sbroker \<Rightarrow> task sresult" where
  "sq_Replay drv io xs fresh clk req s =
     (case sq_requireInit s of
        Some e \<Rightarrow> (s, [], Inl e)
      | None \<Rightarrow>
      if (rq_ExecutionID req = '''') = (rq_BusinessKey req = '''') then (s, [], Inl ErrReplayTarget)
      else (case withTx io (replay_tx drv xs fresh clk req) s of
              (s1, Inl e) \<Rightarrow> (s1, [], Inl e)
            | (s1, Inr stored) \<Rightarrow> (wakeAll s1, [stored], Inr stored)))"

section \<open>Queries\<close>

definition sq_Get :: "tg_error option \<Rightarrow> id \<Rightarrow> sbroker \<Rightarrow> tg_error + task" where
  "sq_Get io i s =
     (case io of Some e \<Rightarrow> Inl e
      | None \<Rightarrow> (case getRec (sp_db s) i of Inl e \<Rightarrow> Inl e | Inr r \<Rightarrow> Inr (sr_task r)))"

text \<open>The conditions \<open>List\<close> puts together, and its \<open>LIMIT\<close> and \<open>OFFSET\<close> (a negative limit is none).\<close>

definition list_cond :: "filterSpec \<Rightarrow> row \<Rightarrow> bool" where
  "list_cond f r \<longleftrightarrow>
     (f_Type f = '''' \<or> c_type r = f_Type f) \<and>
     (f_Queue f = '''' \<or> c_queue r = f_Queue f) \<and>
     (case f_Status f of None \<Rightarrow> True | Some st \<Rightarrow> c_status r = st) \<and>
     (f_BusinessKey f = '''' \<or> c_business_key r = f_BusinessKey f)"

definition limit_offset :: "int \<Rightarrow> int \<Rightarrow> 'a list \<Rightarrow> 'a list" where
  "limit_offset limit offset xs =
     (let rest = drop (nat offset) xs in if limit < 0 then rest else take (nat limit) rest)"

definition sq_List :: "tg_error option \<Rightarrow> filterSpec \<Rightarrow> sbroker \<Rightarrow> tg_error + task list" where
  "sq_List io f s =
     (case io of Some e \<Rightarrow> Inl e
      | None \<Rightarrow>
          let d = sp_db s;
              is = sort_key (\<lambda>i. c_created_at (row_of d i)) (select (\<lambda>_ r. list_cond f r) d);
              page = (if f_Limit f > 0 \<or> f_Offset f > 0
                      then limit_offset (if f_Limit f \<le> 0 then -1 else f_Limit f)
                             (if f_Offset f > 0 then f_Offset f else 0) is
                      else is)
          in Inr (map (\<lambda>i. sr_task (scanRec i (row_of d i))) page))"

definition sq_QueueLen :: "tg_error option \<Rightarrow> string \<Rightarrow> sbroker \<Rightarrow> tg_error + int" where
  "sq_QueueLen io q s =
     (case io of Some e \<Rightarrow> Inl e
      | None \<Rightarrow> Inr (int (length (select (\<lambda>_ r. c_queue r = q \<and>
                   (c_status r = StatusPending \<or> c_status r = StatusRetrying)) (sp_db s)))))"

text \<open>\<open>SELECT type, status, COUNT(*) ... GROUP BY type, status\<close>, and the loop that fills the matrix.\<close>

definition count_groups :: "sdb \<Rightarrow> (string \<times> status \<times> int) list" where
  "count_groups d =
     map (\<lambda>(ty, st). (ty, st, int (length (select (\<lambda>_ r. c_type r = ty \<and> c_status r = st) d))))
       (remdups (map (\<lambda>i. (c_type (row_of d i), c_status (row_of d i))) (select (\<lambda>_ _. True) d)))"

definition set_count :: "string \<times> status \<times> int \<Rightarrow> countMatrix \<Rightarrow> countMatrix" where
  "set_count g out =
     (case g of (ty, st, n) \<Rightarrow>
        let byStatus = (case fmlookup out ty of None \<Rightarrow> fmempty | Some m \<Rightarrow> m)
        in fmupd ty (fmupd st n byStatus) out)"

definition sq_Counts :: "tg_error option \<Rightarrow> sbroker \<Rightarrow> tg_error + countMatrix" where
  "sq_Counts io s =
     (case io of Some e \<Rightarrow> Inl e | None \<Rightarrow> Inr (fold set_count (count_groups (sp_db s)) fmempty))"

section \<open>Reaper\<close>

text \<open>
  Step zero and step one of \<open>ReapExpired\<close> are one \<open>UPDATE ... RETURNING\<close> each; the returned rows
  (in the orders \<open>xs\<close> and \<open>ys\<close>) are then propagated one by one.
\<close>

definition expired_row :: "int \<Rightarrow> row \<Rightarrow> bool" where
  "expired_row nowMS r \<longleftrightarrow> c_status r = StatusRunning \<and> c_lease_until r < nowMS"

definition reap_cancel_row :: "int \<Rightarrow> row \<Rightarrow> row" where
  "reap_cancel_row nowMS r =
     r\<lparr>c_status := StatusCanceled, c_last_error := ''canceled'', c_finished_at := nowMS,
       c_lease_token := '''', c_lease_until := 0, c_cancel_requested := 0\<rparr>"

definition reap_lost_row :: "int \<Rightarrow> int \<Rightarrow> row \<Rightarrow> row" where
  "reap_lost_row lostMax nowMS r =
     (let capped = (c_lease_lost r + 1 \<ge> lostMax) in
      r\<lparr>c_lease_lost := c_lease_lost r + 1,
        c_status := (if capped then StatusFailed else StatusPending),
        c_last_error := (if capped then ''lease expired '' @ show_int (c_lease_lost r + 1) @ '' times'' else c_last_error r),
        c_finished_at := (if capped then nowMS else c_finished_at r),
        c_lease_token := '''', c_lease_until := 0, c_cancel_requested := 0\<rparr>)"

definition reap_canceled :: "time \<Rightarrow> (id \<times> task) list \<Rightarrow> sdb \<times> task list \<Rightarrow> sdb \<times> task list" where
  "reap_canceled now rs st = fold (\<lambda>(i, t) (d, ns). propagateTx i StatusCanceled now d (ns @ [t])) rs st"

definition reap_lost :: "time \<Rightarrow> (id \<times> task) list \<Rightarrow> sdb \<times> task list \<Rightarrow> sdb \<times> task list" where
  "reap_lost now rs st =
     fold (\<lambda>(i, t) (d, ns).
        if Status t = StatusFailed then propagateTx i StatusFailed now d (ns @ [t]) else (d, ns @ [t])) rs st"

definition sq_repair :: "time \<Rightarrow> id \<Rightarrow> sdb \<times> task list \<Rightarrow> sdb \<times> task list" where
  "sq_repair now i st =
     (case st of (d, ns) \<Rightarrow>
      (case getRec d i of
         Inl _ \<Rightarrow> st
       | Inr r \<Rightarrow>
           if Status (sr_task r) \<noteq> StatusBlocked then st
           else if \<exists>q \<in> set (DependsOn (sr_task r)). fmlookup (t_tasks d) q = None then st
           else
             let parents = map (\<lambda>q. \<lparr>ps_ID = q, ps_Status = c_status (row_of d q)\<rparr>) (DependsOn (sr_task r));
                 dec = DecideOnSubmit parents (OnParentFailure (sr_task r))
             in (case d_Status dec of
                   StatusPending \<Rightarrow>
                     if \<not> canTransition (Status (sr_task r)) StatusPending then st
                     else (update_row i (\<lambda>x. x\<lparr>c_status := StatusPending, c_pending_parents := 0\<rparr>) d,
                           ns @ [(sr_task r)\<lparr>Status := StatusPending\<rparr>])
                 | StatusCanceled \<Rightarrow>
                     if \<not> canTransition (Status (sr_task r)) StatusCanceled then st
                     else propagateTx i StatusCanceled now
                            (update_row i (\<lambda>x. x\<lparr>c_status := StatusCanceled, c_last_error := d_LastError dec,
                               c_finished_at := unixMilli now, c_lease_token := '''', c_lease_until := 0\<rparr>) d)
                            (ns @ [(sr_task r)\<lparr>Status := StatusCanceled, LastError := d_LastError dec, FinishedAt := now\<rparr>])
                 | _ \<Rightarrow> (update_row i (\<lambda>x. x\<lparr>c_pending_parents := d_PendingParents dec\<rparr>) d, ns))))"

definition reap_tx ::
  "int \<Rightarrow> id list \<Rightarrow> id list \<Rightarrow> time \<Rightarrow> sdb \<Rightarrow> tg_error + sdb \<times> (int \<times> task list)" where
  "reap_tx lostMax xs ys clk d =
     (let now = trunc_ms clk;
          nowMS = unixMilli now;
          flagged = (\<lambda>r. expired_row nowMS r \<and> c_cancel_requested r = 1);
          hit0 = filter (\<lambda>i. i \<in> set (select (\<lambda>_ r. flagged r) d)) xs;
          d0 = update_where flagged (reap_cancel_row nowMS) d;
          snap0 = map (\<lambda>i. (i, sr_task (scanRec i (row_of d0 i)))) hit0;
          (d1, ns1) = reap_canceled now snap0 (d0, []);
          hit1 = filter (\<lambda>i. i \<in> set (select (\<lambda>_ r. expired_row nowMS r) d1)) ys;
          d2 = update_where (expired_row nowMS) (reap_lost_row lostMax nowMS) d1;
          snap1 = map (\<lambda>i. (i, sr_task (scanRec i (row_of d2 i)))) hit1;
          (d3, ns3) = reap_lost now snap1 (d2, ns1);
          (d4, ns4) = fold (sq_repair now) (select (\<lambda>_ r. c_status r = StatusBlocked) d3) (d3, ns3)
      in Inr (d4, int (length hit0) + int (length hit1), ns4))"

definition sq_ReapExpired ::
  "tg_error option \<Rightarrow> id list \<Rightarrow> id list \<Rightarrow> time \<Rightarrow> sbroker \<Rightarrow> sbroker \<times> task list \<times> int \<times> tg_error option" where
  "sq_ReapExpired io xs ys clk s =
     (case sq_requireInit s of
        Some e \<Rightarrow> (s, [], 0, Some e)
      | None \<Rightarrow>
          (case withTx io (reap_tx (LeaseLostMax (sp_opts s)) xs ys clk) s of
             (s1, Inl e) \<Rightarrow> (s1, [], 0, Some e)
           | (s1, Inr (cnt, notifs)) \<Rightarrow> (if notifs \<noteq> [] then wakeAll s1 else s1, notifs, cnt, None)))"

section \<open>Quota\<close>

text \<open>
  A gate holds the address of its atomic \<open>lastWin\<close>, which lives in the memory of the process
  (zero before the first reservation).
\<close>

record sqliteQuotaGate =
  sg_key :: string
  sg_limit :: int
  sg_periodSec :: int
  sg_ref :: nat

definition sq_QueueQuota :: "nat \<Rightarrow> string \<Rightarrow> queueConfig \<Rightarrow> tg_error + sqliteQuotaGate" where
  "sq_QueueQuota ref queue qc =
     (let key = (if QuotaKey qc = '''' then queue else QuotaKey qc);
          periodSec = QuotaPeriod qc sdiv second
      in if QuotaLimit qc \<le> 0 \<or> periodSec < 1 then Inl (ErrConfig ''invalid quota config'')
         else Inr \<lparr>sg_key = key, sg_limit = QuotaLimit qc, sg_periodSec = periodSec, sg_ref = ref\<rparr>)"

text \<open>
  \<open>quotaReserveSQL\<close> at the instant \<open>now\<close> of the clock of sqlite (\<open>strftime('%s')\<close> counts seconds,
  integer division truncates): the window it returns, or nothing when the condition of the
  \<open>DO UPDATE\<close> does not hold.
\<close>

definition sq_window :: "sqliteQuotaGate \<Rightarrow> time \<Rightarrow> int" where
  "sq_window g now = unixSec now sdiv sg_periodSec g * sg_periodSec g"

definition quotaReserveSQL :: "sqliteQuotaGate \<Rightarrow> time \<Rightarrow> sdb \<Rightarrow> sdb \<times> int option" where
  "quotaReserveSQL g now d =
     (let win = sq_window g now in
      (case fmlookup (t_quota d) (sg_key g, win) of
         None \<Rightarrow> (d\<lparr>t_quota := fmupd (sg_key g, win) 1 (t_quota d)\<rparr>, Some win)
       | Some used \<Rightarrow>
           if used < sg_limit g then (d\<lparr>t_quota := fmupd (sg_key g, win) (used + 1) (t_quota d)\<rparr>, Some win)
           else (d, None)))"

definition quotaCleanSQL :: "string \<Rightarrow> int \<Rightarrow> sdb \<Rightarrow> sdb" where
  "quotaCleanSQL key bound d = d\<lparr>t_quota := fmfilter (\<lambda>(k, w). \<not> (k = key \<and> w < bound)) (t_quota d)\<rparr>"

definition lastWin_of :: "sbroker \<Rightarrow> nat \<Rightarrow> int" where
  "lastWin_of s ref = (case fmlookup (sp_lastWins s) ref of None \<Rightarrow> 0 | Some w \<Rightarrow> w)"

text \<open>\<open>io2\<close> is the failure of the opportunistic clean-up, which the code ignores.\<close>

definition sq_Reserve ::
  "tg_error option \<Rightarrow> tg_error option \<Rightarrow> time \<Rightarrow> sqliteQuotaGate \<Rightarrow> sbroker \<Rightarrow> sbroker \<times> (tg_error + int option)" where
  "sq_Reserve io io2 now g s =
     (case sq_requireInit s of Some e \<Rightarrow> (s, Inl e)
      | None \<Rightarrow> (case io of Some e \<Rightarrow> (s, Inl e)
      | None \<Rightarrow>
          (case quotaReserveSQL g now (sp_db s) of
             (d, None) \<Rightarrow> (s\<lparr>sp_db := d\<rparr>, Inr None)
           | (d, Some win) \<Rightarrow>
               let prev = lastWin_of s (sg_ref g);
                   d' = (if prev \<noteq> 0 \<and> prev \<noteq> win \<and> io2 = None
                         then quotaCleanSQL (sg_key g) (win - 2 * sg_periodSec g) d else d)
               in (s\<lparr>sp_db := d', sp_lastWins := fmupd (sg_ref g) win (sp_lastWins s)\<rparr>, Inr (Some win)))))"

definition sq_Release :: "tg_error option \<Rightarrow> sqliteQuotaGate \<Rightarrow> int option \<Rightarrow> sbroker \<Rightarrow> sbroker \<times> tg_error option" where
  "sq_Release io g r s =
     (case r of
        None \<Rightarrow> (s, None)
      | Some win \<Rightarrow> (case io of Some e \<Rightarrow> (s, Some e)
      | None \<Rightarrow>
          (case fmlookup (t_quota (sp_db s)) (sg_key g, win) of
             Some used \<Rightarrow>
               if used > 0
               then (s\<lparr>sp_db := (sp_db s)\<lparr>t_quota := fmupd (sg_key g, win) (used - 1) (t_quota (sp_db s))\<rparr>\<rparr>, None)
               else (s, None)
           | None \<Rightarrow> (s, None))))"

section \<open>The back end as an instance of the interface\<close>

text \<open>
  A process whose storage works.  \<open>ref queue\<close> is the address of the \<open>lastWin\<close> of the gate that
  \<open>QueueQuota\<close> allocates for a queue.
\<close>

definition sqlite_broker :: "(constraint \<Rightarrow> string) \<Rightarrow> (string \<Rightarrow> nat) \<Rightarrow> (sbroker, sqliteQuotaGate) Broker" where
  "sqlite_broker drv ref = \<lparr>
     op_Init = (\<lambda>o0 s. (sq_Init o0 s, None)),
     op_Enqueue = (\<lambda>e t s. let (s', _, r) = sq_Enqueue drv None (e_ulid e) (e_now e) t s in (s', r)),
     op_Dequeue = (\<lambda>e qs s. let (s', _, turn) = sq_Dequeue_turn (e_ctx e) None (e_ctx e) (e_ulid e) (e_now e) (e_now e) qs s in (s', turn)),
     op_Ack = (\<lambda>e i tok res s. let (s', _, r) = sq_Ack None (e_now e) i tok res s in (s', err_of r)),
     op_Fail = (\<lambda>e i tok msg kind retryAt s. let (s', _, r) = sq_Fail None (e_now e) i tok msg kind retryAt s in (s', err_of r)),
     op_Cancel = (\<lambda>e i s. let (s', _, r) = sq_Cancel None (e_now e) i s in (s', err_of r)),
     op_FinishCanceled = (\<lambda>e i tok s. let (s', _, r) = sq_FinishCanceled None (e_now e) i tok s in (s', err_of r)),
     op_Requeue = (\<lambda>e i tok s. let (s', _, r) = sq_Requeue None i tok s in (s', err_of r)),
     op_Heartbeat = (\<lambda>e i tok s. let (s', _, r) = sq_Heartbeat None (e_now e) i tok s in (s', err_of r)),
     op_Get = (\<lambda>e i s. sq_Get None i s),
     op_Replay = (\<lambda>e req s. let (s', _, r) = sq_Replay drv None (e_order e) (e_ulid e) (e_now e) req s in (s', r)),
     op_List = (\<lambda>e f s. sq_List None f s),
     op_QueueLen = (\<lambda>e q s. sq_QueueLen None q s),
     op_Counts = (\<lambda>e s. sq_Counts None s),
     op_ReapExpired = (\<lambda>e s. let (s', _, n, er) = sq_ReapExpired None (e_order e) (e_order2 e) (e_now e) s in (s', n, er)),
     op_Close = sq_Close,
     op_QueueQuota = Some (\<lambda>q qc. sq_QueueQuota (ref q) q qc),
     op_Reserve = (\<lambda>e g s. sq_Reserve None None (e_now e) g s),
     op_Release = (\<lambda>g r s. fst (sq_Release None g r s)),
     op_QueueLimiter = None\<rparr>"

end
