(* ===== verification/Sqlite_Refine.thy ===== *)
theory Sqlite_Refine
  imports Sqlite_Broker
begin

text \<open>
  The sqlite back end refines the in-memory broker.  \<open>abs_store\<close> reads the tables as the records of
  the in-memory broker (the children of a task in the order of \<open>childrenOf\<close>, byte slices
  up to the difference between nil and empty).  Every transaction is then a step of the in-memory
  broker on what it reads.  The lemmas go from the columns over the propagation to the operations.
\<close>

section \<open>Abstraction\<close>

definition abs_task :: "id \<Rightarrow> row \<Rightarrow> task" where
  "abs_task i r = cloneTask (sr_task (scanRec i r))"

definition abs_rec :: "sdb \<Rightarrow> id \<Rightarrow> row \<Rightarrow> mrec" where
  "abs_rec d i r =
     \<lparr>task = abs_task i r, pendingParents = c_pending_parents r, leaseUntil = fromMS (c_lease_until r),
      cancelRequested = (c_cancel_requested r \<noteq> 0), children = childrenOf d i\<rparr>"

definition abs_store :: "sdb \<Rightarrow> store" where
  "abs_store d = fmmap_keys (abs_rec d) (t_tasks d)"

definition sview :: "sbroker \<Rightarrow> mbroker \<Rightarrow> bool" where
  "sview s b \<longleftrightarrow> recs b = abs_store (sp_db s) \<and> opts b = sp_opts s \<and> inited b = sp_inited s \<and> closed b = sp_closed s"

text \<open>What the columns hold besides: every stored instant after the epoch, no result before the end.\<close>

definition row_ok :: "row \<Rightarrow> bool" where
  "row_ok r \<longleftrightarrow> 0 < c_run_at r \<and> 0 < c_created_at r \<and> 0 \<le> c_started_at r \<and> c_cancel_requested r \<in> {0, 1} \<and>
     (\<not> isFinal (c_status r) \<longrightarrow> c_result r = None)"

definition db_ok :: "sdb \<Rightarrow> bool" where
  "db_ok d \<longleftrightarrow> (\<forall>i r. fmlookup (t_tasks d) i = Some r \<longrightarrow> row_ok r) \<and>
     (\<forall>e \<in> set (t_deps d). fmlookup (t_tasks d) (parent_id e) \<noteq> None)"

definition after_epoch :: "time \<Rightarrow> bool" where
  "after_epoch t \<longleftrightarrow> 0 < unixMilli t"

section \<open>Times\<close>

lemma unixMilli_trunc [simp]: "unixMilli (trunc_ms t) = unixMilli t"
  by (simp add: unixMilli_def trunc_ms_def minus_mod_eq_mult_div)

lemma unixMilli_mult: "t mod millisecond = 0 \<Longrightarrow> unixMilli t * millisecond = t"
  by (simp add: unixMilli_def mod_eq_0_iff_dvd)

lemma fromMS_unixMilli: "t mod millisecond = 0 \<Longrightarrow> unixMilli t \<noteq> 0 \<Longrightarrow> fromMS (unixMilli t) = t"
  by (simp add: fromMS_def unixMilli_mult)

lemma fromMS_now: "after_epoch clk \<Longrightarrow> fromMS (unixMilli clk) = trunc_ms clk"
  using fromMS_unixMilli [of "trunc_ms clk"] by (simp add: after_epoch_def)

lemma fromMS_0 [simp]: "fromMS 0 = zero_time"
  by (simp add: fromMS_def)

lemma fromMS_pos: "0 < v \<Longrightarrow> fromMS v = v * millisecond"
  by (simp add: fromMS_def)

lemma fromMS_isZero: "0 \<le> v \<Longrightarrow> isZero (fromMS v) \<longleftrightarrow> v = 0"
  by (simp add: fromMS_def isZero_def zero_time_def)

lemma fromMS_less: "0 < v \<Longrightarrow> 0 < w \<Longrightarrow> fromMS v < fromMS w \<longleftrightarrow> v < w"
  by (simp add: fromMS_def)

lemma fromMS_eq: "0 < v \<Longrightarrow> 0 < w \<Longrightarrow> fromMS v = fromMS w \<longleftrightarrow> v = w"
  by (simp add: fromMS_def)

lemma mult_ms_le: "v * millisecond \<le> trunc_ms clk \<longleftrightarrow> v \<le> unixMilli clk"
proof -
  have "trunc_ms clk = unixMilli clk * millisecond" using unixMilli_mult [of "trunc_ms clk"] by simp
  then show ?thesis by simp
qed

lemma fromMS_le_now: "0 < v \<Longrightarrow> fromMS v \<le> trunc_ms clk \<longleftrightarrow> v \<le> unixMilli clk"
  by (simp add: fromMS_pos mult_ms_le)

lemma after_epoch_trunc [simp]: "after_epoch (trunc_ms t) = after_epoch t"
  by (simp add: after_epoch_def)

lemma after_epoch_nonzero: "after_epoch t \<Longrightarrow> \<not> isZero t \<and> \<not> isZero (trunc_ms t)"
  by (auto simp: after_epoch_def isZero_def unixMilli_def zero_time_def trunc_ms_def)

lemma ms_now: "after_epoch t \<Longrightarrow> ms t = unixMilli t"
  by (simp add: ms_def after_epoch_nonzero)

section \<open>Columns\<close>

lemma abs_lookup [simp]: "fmlookup (abs_store d) i = map_option (abs_rec d i) (fmlookup (t_tasks d) i)"
  by (simp add: abs_store_def)

lemma abs_fields [simp]:
  "ID (task (abs_rec d i r)) = i" "Status (task (abs_rec d i r)) = c_status r"
  "OnParentFailure (task (abs_rec d i r)) = c_on_parent_fail r" "Queue (task (abs_rec d i r)) = c_queue r"
  "DependsOn (task (abs_rec d i r)) = c_depends_on r" "LeaseToken (task (abs_rec d i r)) = c_lease_token r"
  "BusinessKey (task (abs_rec d i r)) = c_business_key r" "ReplayOf (task (abs_rec d i r)) = c_replay_of r"
  "LeaseLost (task (abs_rec d i r)) = c_lease_lost r" "RunAt (task (abs_rec d i r)) = fromMS (c_run_at r)"
  "CreatedAt (task (abs_rec d i r)) = fromMS (c_created_at r)" "Type (task (abs_rec d i r)) = c_type r"
  "StartedAt (task (abs_rec d i r)) = fromMS (c_started_at r)"
  "pendingParents (abs_rec d i r) = c_pending_parents r" "children (abs_rec d i r) = childrenOf d i"
  "cancelRequested (abs_rec d i r) = (c_cancel_requested r \<noteq> 0)" "leaseUntil (abs_rec d i r) = fromMS (c_lease_until r)"
  "Result (task (abs_rec d i r)) = clone_bytes (c_result r)" "Payload (task (abs_rec d i r)) = clone_bytes (c_payload r)"
  by (simp_all add: abs_rec_def abs_task_def scanRec_def cloneTask_def)

lemma task_abs: "task (abs_rec d i r) = abs_task i r"
  by (simp add: abs_rec_def)

lemma scan_fields [simp]:
  "ID (sr_task (scanRec i r)) = i" "Status (sr_task (scanRec i r)) = c_status r"
  "OnParentFailure (sr_task (scanRec i r)) = c_on_parent_fail r" "Queue (sr_task (scanRec i r)) = c_queue r"
  "DependsOn (sr_task (scanRec i r)) = c_depends_on r" "LeaseToken (sr_task (scanRec i r)) = c_lease_token r"
  "Payload (sr_task (scanRec i r)) = c_payload r" "BusinessKey (sr_task (scanRec i r)) = c_business_key r"
  "sr_pendingParents (scanRec i r) = c_pending_parents r" "sr_leaseUntilMS (scanRec i r) = c_lease_until r"
  "sr_cancelRequested (scanRec i r) = (c_cancel_requested r \<noteq> 0)"
  by (simp_all add: scanRec_def)

lemma childrenOf_tasks [simp]: "childrenOf (d\<lparr>t_tasks := m\<rparr>) = childrenOf d"
  by (rule ext) (simp add: childrenOf_def)

lemma abs_rec_tasks [simp]: "abs_rec (d\<lparr>t_tasks := m\<rparr>) = abs_rec d"
  by (intro ext) (simp add: abs_rec_def)

lemma abs_upd: "abs_store (d\<lparr>t_tasks := fmupd i r (t_tasks d)\<rparr>) = fmupd i (abs_rec d i r) (abs_store d)"
  by (rule fmap_ext) (simp add: abs_store_def)

lemma childrenOf_mark [simp]: "childrenOf (mark_done p d) = childrenOf d"
proof
  fix q
  have "map child_id (filter (\<lambda>e. parent_id e = q) (map (\<lambda>e. if parent_id e = p then e\<lparr>dep_done := 1\<rparr> else e) es)) =
      map child_id (filter (\<lambda>e. parent_id e = q) es)" for es
    by (induction es) auto
  from this [of "t_deps d"] show "childrenOf (mark_done p d) q = childrenOf d q"
    by (simp add: childrenOf_def mark_done_def del: map_map filter_map)
qed

lemma mark_tasks [simp]: "t_tasks (mark_done p d) = t_tasks d"
  by (simp add: mark_done_def)

lemma abs_mark [simp]: "abs_store (mark_done p d) = abs_store d"
proof -
  have "abs_rec (mark_done p d) = abs_rec d" by (intro ext) (simp add: abs_rec_def)
  then show ?thesis by (simp add: abs_store_def)
qed

lemma mark_ok: "db_ok d \<Longrightarrow> db_ok (mark_done p d)"
  by (auto simp: db_ok_def mark_done_def)

lemma db_ok_upd: "db_ok d \<Longrightarrow> fmlookup (t_tasks d) i = Some r \<Longrightarrow> row_ok r' \<Longrightarrow> db_ok (d\<lparr>t_tasks := fmupd i r' (t_tasks d)\<rparr>)"
  by (auto simp: db_ok_def)

lemma db_okD: "db_ok d \<Longrightarrow> fmlookup (t_tasks d) i = Some r \<Longrightarrow> row_ok r"
  by (simp add: db_ok_def)

text \<open>A record of the in-memory broker by its fields, for the proofs about one row.\<close>

lemma abs_recI:
  assumes "task r = abs_task i x" "pendingParents r = c_pending_parents x" "leaseUntil r = fromMS (c_lease_until x)"
    and "cancelRequested r = (c_cancel_requested x \<noteq> 0)" "children r = childrenOf d i"
  shows "r = abs_rec d i x"
  using assms by (simp add: abs_rec_def)

lemmas abs_task_defs = abs_task_def scanRec_def cloneTask_def

section \<open>Propagation\<close>

definition work_ok :: "sdb \<Rightarrow> (id \<times> status) list \<Rightarrow> bool" where
  "work_ok d work \<longleftrightarrow> (\<forall>(p, pst) \<in> set work. isFinal pst \<and> (\<exists>r. fmlookup (t_tasks d) p = Some r \<and> c_status r = pst))"

lemma work_ok_upd:
  assumes "work_ok d work" and "fmlookup (t_tasks d) i = Some r" and "\<not> isFinal (c_status r)"
  shows "work_ok (d\<lparr>t_tasks := fmupd i r' (t_tasks d)\<rparr>) work"
  using assms unfolding work_ok_def by fastforce

lemma propagate_row_sim:
  assumes ok: "db_ok d" "work_ok d ((p, pst) # work)" and now: "after_epoch now" "trunc_ms now = now"
    and step: "propagate_row now p pst cid (d, ns, work) = (d', ns', work')"
  shows "propagate_child now p cid (abs_store d, map cloneTask ns, map fst work) =
      (abs_store d', map cloneTask ns', map fst work') \<and>
    db_ok d' \<and> work_ok d' ((p, pst) # work') \<and> childrenOf d' = childrenOf d"
proof -
  obtain pr where pr: "fmlookup (t_tasks d) p = Some pr" "c_status pr = pst" and fin: "isFinal pst"
    using ok(2) by (auto simp: work_ok_def)
  note nowMS = fromMS_now [OF now(1), unfolded now(2)]
  show ?thesis
  proof (cases "fmlookup (t_tasks d) cid")
    case None
    then have "d' = d" "ns' = ns" "work' = work" using step by (simp_all add: propagate_row_def getRec_def)
    then show ?thesis using ok None by (simp add: propagate_child_missing)
  next
    case (Some r)
    note simps = propagate_row_def propagate_child_def getRec_def Some pr update_row_def Let_def mem_setStatus_def
    have row: "row_ok r" using ok(1) Some by (rule db_okD)
    obtain n a where dec: "DecideOnParentFinal pst (c_status r) (c_on_parent_fail r) (c_pending_parents r) = (n, a)"
      by (cases "DecideOnParentFinal pst (c_status r) (c_on_parent_fail r) (c_pending_parents r)")
    show ?thesis
    proof (cases "isFinal (c_status r)")
      case True
      then have "n = c_pending_parents r" "a = ChildNone" using dec by (auto simp: DecideOnParentFinal_def)
      moreover from this have "d' = d" "ns' = ns" "work' = work"
        using step dec fmupd_same [OF Some] by (simp_all add: simps)
      moreover have "fmupd cid (abs_rec d cid r) (abs_store d) = abs_store d" by (rule fmupd_same) (simp add: Some)
      moreover have same: "(abs_rec d cid r)\<lparr>pendingParents := c_pending_parents r\<rparr> = abs_rec d cid r"
        by (simp add: abs_rec_def)
      ultimately show ?thesis using dec ok by (simp add: simps same)
    next
      case False
      show ?thesis
      proof (cases a)
        case ChildNone
        let ?r = "r\<lparr>c_pending_parents := n\<rparr>"
        have "d' = d\<lparr>t_tasks := fmupd cid ?r (t_tasks d)\<rparr>" "ns' = ns" "work' = work"
          using step dec ChildNone by (simp_all add: simps)
        moreover have "(abs_rec d cid r)\<lparr>pendingParents := n\<rparr> = abs_rec d cid ?r"
          by (rule abs_recI) (simp_all add: task_abs abs_task_defs)
        ultimately show ?thesis using dec ChildNone db_ok_upd [OF ok(1) Some, of ?r] row work_ok_upd [OF ok(2) Some False]
          by (simp add: simps abs_upd row_ok_def)
      next
        case ChildWake
        let ?r = "r\<lparr>c_status := StatusPending, c_pending_parents := n\<rparr>"
        have bl: "c_status r = StatusBlocked" using dec ChildWake False
          by (auto simp: DecideOnParentFinal_def Let_def split: if_splits)
        then have "d' = d\<lparr>t_tasks := fmupd cid ?r (t_tasks d)\<rparr>"
          "ns' = ns @ [(sr_task (scanRec cid r))\<lparr>Status := StatusPending\<rparr>]" "work' = work"
          using step dec ChildWake by (simp_all add: simps)
        moreover have "(abs_rec d cid r)\<lparr>pendingParents := n, task := (task (abs_rec d cid r))\<lparr>Status := StatusPending\<rparr>\<rparr> =
            abs_rec d cid ?r"
          by (rule abs_recI) (simp_all add: task_abs abs_task_defs)
        moreover have "cloneTask (task (abs_rec d cid ?r)) = cloneTask ((sr_task (scanRec cid r))\<lparr>Status := StatusPending\<rparr>)"
          by (simp add: task_abs abs_task_defs)
        ultimately show ?thesis
          using bl dec ChildWake db_ok_upd [OF ok(1) Some, of ?r] row work_ok_upd [OF ok(2) Some False]
          by (simp add: simps abs_upd row_ok_def)
      next
        case ChildCancel
        then have n: "n = c_pending_parents r" using dec False fin
          by (auto simp: DecideOnParentFinal_def Let_def split: if_splits)
        show ?thesis
        proof (cases "c_status r = StatusRunning")
          case True
          let ?r = "r\<lparr>c_cancel_requested := 1\<rparr>"
          have "d' = d\<lparr>t_tasks := fmupd cid ?r (t_tasks d)\<rparr>" "ns' = ns" "work' = work"
            using step dec ChildCancel True by (simp_all add: simps)
          moreover have "(abs_rec d cid r)\<lparr>pendingParents := n, cancelRequested := True\<rparr> = abs_rec d cid ?r"
            by (rule abs_recI) (simp_all add: task_abs abs_task_defs n)
          ultimately show ?thesis
            using True dec ChildCancel db_ok_upd [OF ok(1) Some, of ?r] row work_ok_upd [OF ok(2) Some False]
            by (simp add: simps abs_upd row_ok_def)
        next
          case run: False
          let ?w = "ParentFailureReason p pst"
          let ?r = "r\<lparr>c_status := StatusCanceled, c_last_error := ?w, c_finished_at := unixMilli now,
            c_lease_token := '''', c_lease_until := 0, c_pending_parents := n\<rparr>"
          have can: "canTransition (c_status r) StatusCanceled" using False by (rule nonfinal_can_cancel)
          have d': "d' = d\<lparr>t_tasks := fmupd cid ?r (t_tasks d)\<rparr>" "work' = work @ [(cid, StatusCanceled)]"
            "ns' = ns @ [(sr_task (scanRec cid r))\<lparr>Status := StatusCanceled, LastError := ?w, FinishedAt := now, LeaseToken := ''''\<rparr>]"
            using step dec ChildCancel run can by (simp_all add: simps)
          moreover have "mem_clearLease ((abs_rec d cid r)\<lparr>pendingParents := n, task := (task (abs_rec d cid r))\<lparr>
              Status := StatusCanceled, LastError := ?w, FinishedAt := now\<rparr>\<rparr>) = abs_rec d cid ?r"
            by (rule abs_recI) (simp_all add: task_abs abs_task_defs mem_clearLease_def nowMS)
          moreover have "cloneTask (task (abs_rec d cid ?r)) = cloneTask ((sr_task (scanRec cid r))\<lparr>Status := StatusCanceled,
              LastError := ?w, FinishedAt := now, LeaseToken := ''''\<rparr>)"
            by (simp add: task_abs abs_task_defs nowMS)
          moreover have "work_ok d' ((p, pst) # work')"
            using work_ok_upd [OF ok(2) Some False, of ?r] unfolding d' by (auto simp: work_ok_def)
          ultimately show ?thesis using can run dec ChildCancel db_ok_upd [OF ok(1) Some, of ?r] row
            by (simp add: simps abs_upd row_ok_def)
        qed
      qed
    qed
  qed
qed

lemma propagate_fold_sim:
  assumes "db_ok d" "work_ok d ((p, pst) # work)" "after_epoch now" "trunc_ms now = now"
    and "fold (propagate_row now p pst) cs (d, ns, work) = (d', ns', work')"
  shows "fold (propagate_child now p) cs (abs_store d, map cloneTask ns, map fst work) =
      (abs_store d', map cloneTask ns', map fst work') \<and>
    db_ok d' \<and> work_ok d' ((p, pst) # work') \<and> childrenOf d' = childrenOf d"
  using assms(1,2,5)
proof (induction cs arbitrary: d ns work)
  case (Cons c cs)
  obtain d1 ns1 work1 where one: "propagate_row now p pst c (d, ns, work) = (d1, ns1, work1)"
    by (cases "propagate_row now p pst c (d, ns, work)")
  note sim = propagate_row_sim [OF Cons.prems(1,2) assms(3,4) one]
  then show ?case using Cons.IH [of d1 work1 ns1] Cons.prems(3) one by simp
qed simp

lemma propagateTx_loop_sim:
  assumes "db_ok d" "work_ok d work" "after_epoch now" "trunc_ms now = now"
    and "propagateTx_loop now work d ns = (d', ns')"
  shows "propagateFinal_loop now (map fst work) (abs_store d) (map cloneTask ns) = (abs_store d', map cloneTask ns') \<and>
    db_ok d' \<and> childrenOf d' = childrenOf d"
  using assms
proof (induction now work d ns rule: propagateTx_loop.induct)
  case (2 now p pst work d ns)
  obtain d1 ns1 work1 where one: "propagate_rows now p pst (d, ns, work) = (d1, ns1, work1)"
    by (cases "propagate_rows now p pst (d, ns, work)")
  obtain r where r: "fmlookup (t_tasks d) p = Some r" using "2.prems"(2) by (auto simp: work_ok_def)
  have "work_ok (mark_done p d) ((p, pst) # work)" using "2.prems"(2) by (simp add: work_ok_def)
  from propagate_fold_sim [OF mark_ok [OF "2.prems"(1)] this "2.prems"(3,4)] one r
  have sim: "propagate_children now p (abs_store d, map cloneTask ns, map fst work) =
      (abs_store d1, map cloneTask ns1, map fst work1)" "db_ok d1" "work_ok d1 work1" "childrenOf d1 = childrenOf d"
    by (simp_all add: propagate_rows_def propagate_children_def Let_def work_ok_def)
  then show ?case
    using "2.IH" [OF one [symmetric] refl sim(2,3) "2.prems"(3,4)] "2.prems"(5) one by simp
qed simp

lemma propagateTx_sim:
  assumes "db_ok d" "fmlookup (t_tasks d) i = Some r" "c_status r = st" "isFinal st" "after_epoch clk"
    and "propagateTx i st (trunc_ms clk) d ns = (d', ns')"
  shows "mem_propagateFinal i (trunc_ms clk) (abs_store d) (map cloneTask ns) = (abs_store d', map cloneTask ns') \<and>
    db_ok d' \<and> childrenOf d' = childrenOf d"
  using propagateTx_loop_sim [of d "[(i, st)]" "trunc_ms clk" ns d' ns'] assms
  by (simp add: propagateTx_def mem_propagateFinal_def work_ok_def)

section \<open>Receipts\<close>

lemma requireInit_sim: "sview s b \<Longrightarrow> mem_requireInit b = sq_requireInit s"
  by (simp add: sview_def mem_requireInit_def sq_requireInit_def)

lemma ttlFor_sim: "sview s b \<Longrightarrow> mem_ttlFor b = sq_ttlFor s"
  by (rule ext) (simp add: sview_def mem_ttlFor_def sq_ttlFor_def split: option.split)

lemma checkLease_sim:
  assumes "sview s b"
  shows "(getRec (sp_db s) i = Inl e \<longrightarrow> mem_checkLease b i token = Inl e) \<and>
    (\<forall>r. getRec (sp_db s) i = Inr r \<longrightarrow> checkLeaseRec r token = Some e \<longrightarrow> mem_checkLease b i token = Inl e) \<and>
    (\<forall>r. getRec (sp_db s) i = Inr r \<longrightarrow> checkLeaseRec r token = None \<longrightarrow>
       (\<exists>x. fmlookup (t_tasks (sp_db s)) i = Some x \<and> r = scanRec i x \<and> c_status x = StatusRunning \<and>
          c_lease_token x = token \<and> token \<noteq> '''' \<and> mem_checkLease b i token = Inr (abs_rec (sp_db s) i x)))"
  using assms
  by (auto simp: getRec_def checkLeaseRec_def mem_checkLease_def sview_def split: option.splits if_splits)

text \<open>
  The frame of the operations on one task: refusals agree, and an accepted transaction is a step of the
  in-memory broker.
\<close>

definition sim :: "sbroker \<Rightarrow> task list \<Rightarrow> mbroker \<Rightarrow> task list \<Rightarrow> bool" where
  "sim s ns b ns' \<longleftrightarrow> sview s b \<and> db_ok (sp_db s) \<and> ns' = map cloneTask ns"

lemma sim_same: "sview s b \<Longrightarrow> db_ok (sp_db s) \<Longrightarrow> sim s [] b []"
  by (simp add: sim_def)

lemma change_sim:
  assumes "sview s b" "db_ok (sp_db s)" and step: "sq_change None fn s = (s', ns, u)"
    and err: "\<And>e. sq_requireInit s = Some e \<Longrightarrow> f b = (b, [], Inl e)"
    and inl: "\<And>e. sq_requireInit s = None \<Longrightarrow> fn (sp_db s) = Inl e \<Longrightarrow> f b = (b, [], Inl e)"
    and inr: "\<And>d. sq_requireInit s = None \<Longrightarrow> fn (sp_db s) = Inr (d, ns) \<Longrightarrow>
      \<exists>b'. f b = (b', map cloneTask ns, Inr ()) \<and> recs b' = abs_store d \<and> opts b' = opts b \<and>
        inited b' = inited b \<and> closed b' = closed b \<and> db_ok d"
  shows "\<exists>b' ns'. f b = (b', ns', u) \<and> sim s' ns b' ns'"
proof (cases "sq_requireInit s")
  case None
  show ?thesis
  proof (cases "fn (sp_db s)")
    case (Inl e)
    then show ?thesis using step None inl assms(1,2) by (auto simp: sq_change_def withTx_def sim_def)
  next
    case (Inr dn)
    then obtain d where d: "fn (sp_db s) = Inr (d, ns)" "s' = wakeAll (s\<lparr>sp_db := d\<rparr>)" "u = Inr ()"
      using step None by (cases dn) (auto simp: sq_change_def withTx_def)
    then show ?thesis using inr [OF None d(1)] assms(1) by (auto simp: sim_def sview_def wakeAll_def)
  qed
qed (use step err assms(1,2) in \<open>auto simp: sq_change_def sim_def\<close>)

lemma finish_sim:
  assumes v: "sview s b" "db_ok (sp_db s)" and x: "fmlookup (t_tasks (sp_db s)) i = Some x"
    and f: "row_ok (f x)" "c_status (f x) = st" "isFinal st" and clk: "after_epoch clk"
    and t: "cloneTask t = task (abs_rec (sp_db s) i (f x))"
    and step: "propagateTx i st (trunc_ms clk) (update_row i f (sp_db s)) [t] = (d, ns)"
  shows "\<exists>b'. finish_rec i (trunc_ms clk) (abs_rec (sp_db s) i (f x)) b = (b', map cloneTask ns) \<and>
    recs b' = abs_store d \<and> opts b' = opts b \<and> inited b' = inited b \<and> closed b' = closed b \<and> db_ok d"
proof -
  let ?d = "(sp_db s)\<lparr>t_tasks := fmupd i (f x) (t_tasks (sp_db s))\<rparr>"
  have up: "update_row i f (sp_db s) = ?d" by (simp add: update_row_def x)
  have "fmlookup (t_tasks ?d) i = Some (f x)" by simp
  from propagateTx_sim [OF db_ok_upd [OF v(2) x f(1)] this f(2,3) clk step [unfolded up]]
  have "mem_propagateFinal i (trunc_ms clk) (abs_store ?d) [cloneTask t] = (abs_store d, map cloneTask ns)" "db_ok d"
    by simp_all
  moreover have "abs_store ?d = fmupd i (abs_rec (sp_db s) i (f x)) (recs b)" using v(1) by (simp add: abs_upd sview_def)
  moreover have "cloneTask (task (abs_rec (sp_db s) i (f x))) = cloneTask t" unfolding t [symmetric]
    by (simp add: cloneTask_def)
  ultimately show ?thesis by (simp add: finish_rec_def mem_broadcast_def)
qed

lemma row_ok_running: "row_ok x \<Longrightarrow> c_status x = StatusRunning \<Longrightarrow> c_result x = None"
  by (simp add: row_ok_def)

text \<open>What an accepted transaction has to establish, and the guards of the operations under a lease.\<close>

definition tx_sim :: "mbroker \<Rightarrow> unit mresult \<Rightarrow> tg_error + sdb \<times> task list \<Rightarrow> bool" where
  "tx_sim b m tx \<longleftrightarrow>
     (case tx of
        Inl e \<Rightarrow> m = (b, [], Inl e)
      | Inr (d, ns) \<Rightarrow> \<exists>b'. m = (b', map cloneTask ns, Inr ()) \<and> recs b' = abs_store d \<and> opts b' = opts b \<and>
          inited b' = inited b \<and> closed b' = closed b \<and> db_ok d)"

lemma change_tx_sim:
  assumes v: "sview s b" "db_ok (sp_db s)" and step: "sq_change None fn s = (s', ns, u)"
    and err: "\<And>e. mem_requireInit b = Some e \<Longrightarrow> f b = (b, [], Inl e)"
    and ok: "mem_requireInit b = None \<Longrightarrow> tx_sim b (f b) (fn (sp_db s))"
  shows "\<exists>b' ns'. f b = (b', ns', u) \<and> sim s' ns b' ns'"
  using assms requireInit_sim [OF v(1)] by (intro change_sim [OF v step]) (auto simp: tx_sim_def)

lemma leased_sim:
  assumes v: "sview s b" "db_ok (sp_db s)" and step: "sq_change None fn s = (s', ns, u)"
    and fn: "\<And>d. fn d = (case getRec d i of Inl e \<Rightarrow> Inl e
        | Inr r \<Rightarrow> (case checkLeaseRec r token of Some e \<Rightarrow> Inl e | None \<Rightarrow> g d r))"
    and err: "\<And>e. mem_requireInit b = Some e \<Longrightarrow> f b = (b, [], Inl e)"
    and lost: "\<And>e. mem_requireInit b = None \<Longrightarrow> mem_checkLease b i token = Inl e \<Longrightarrow> f b = (b, [], Inl e)"
    and ok: "\<And>x. mem_requireInit b = None \<Longrightarrow> mem_checkLease b i token = Inr (abs_rec (sp_db s) i x) \<Longrightarrow>
      getRec (sp_db s) i = Inr (scanRec i x) \<Longrightarrow> checkLeaseRec (scanRec i x) token = None \<Longrightarrow>
      fmlookup (t_tasks (sp_db s)) i = Some x \<Longrightarrow> c_status x = StatusRunning \<Longrightarrow> row_ok x \<Longrightarrow>
      tx_sim b (f b) (fn (sp_db s))"
  shows "\<exists>b' ns'. f b = (b', ns', u) \<and> sim s' ns b' ns'"
proof (rule change_tx_sim [of s b fn s' ns u f, OF v step])
  show "f b = (b, [], Inl e)" if "mem_requireInit b = Some e" for e using that by (rule err)
  assume i: "mem_requireInit b = None"
  show "tx_sim b (f b) (fn (sp_db s))"
  proof (cases "getRec (sp_db s) i")
    case (Inl e)
    then show ?thesis using checkLease_sim [OF v(1), of i e token] lost [OF i] by (simp add: fn tx_sim_def)
  next
    case (Inr r)
    show ?thesis
    proof (cases "checkLeaseRec r token")
      case None
      then obtain x where "fmlookup (t_tasks (sp_db s)) i = Some x" "r = scanRec i x" "c_status x = StatusRunning"
        "mem_checkLease b i token = Inr (abs_rec (sp_db s) i x)"
        using checkLease_sim [OF v(1), of i undefined token] Inr by blast
      then show ?thesis using ok [OF i] db_okD [OF v(2)] Inr None by simp
    next
      case (Some e)
      then show ?thesis using checkLease_sim [OF v(1), of i e token] Inr lost [OF i] by (simp add: fn tx_sim_def)
    qed
  qed
qed

text \<open>A transaction that ends the task, and one that only rewrites its row.\<close>

lemma tx_sim_finish:
  assumes v: "sview s b" "db_ok (sp_db s)" and x: "fmlookup (t_tasks (sp_db s)) i = Some x"
    and f: "row_ok (f x)" "c_status (f x) = st" "isFinal st" and clk: "after_epoch clk"
    and t: "cloneTask t = task (abs_rec (sp_db s) i (f x))"
    and m: "m = (case finish_rec i (trunc_ms clk) (abs_rec (sp_db s) i (f x)) b of (b', ns) \<Rightarrow> (b', ns, Inr ()))"
  shows "tx_sim b m (Inr (propagateTx i st (trunc_ms clk) (update_row i f (sp_db s)) [t]))"
proof -
  obtain d ns where p: "propagateTx i st (trunc_ms clk) (update_row i f (sp_db s)) [t] = (d, ns)"
    by (cases "propagateTx i st (trunc_ms clk) (update_row i f (sp_db s)) [t]")
  show ?thesis using finish_sim [OF v x f clk t p] m by (auto simp: tx_sim_def p)
qed

lemma tx_sim_update:
  assumes v: "sview s b" "db_ok (sp_db s)" and x: "fmlookup (t_tasks (sp_db s)) i = Some x" and f: "row_ok (f x)"
    and m: "m = (b', map cloneTask ns, Inr ())" "recs b' = fmupd i (abs_rec (sp_db s) i (f x)) (recs b)"
      "opts b' = opts b" "inited b' = inited b" "closed b' = closed b"
  shows "tx_sim b m (Inr (update_row i f (sp_db s), ns))"
  using assms by (simp add: tx_sim_def update_row_def abs_upd sview_def db_ok_upd)

lemma Ack_sim:
  assumes v: "sview s b" "db_ok (sp_db s)" and clk: "after_epoch clk"
    and step: "sq_Ack None clk i token result s = (s', ns, u)"
  shows "\<exists>b' ns'. mem_Ack clk i token result b = (b', ns', u) \<and> sim s' ns b' ns'"
proof (rule leased_sim [of s b _ s' ns u _ _ _ "mem_Ack clk i token result", OF v step [unfolded sq_Ack_def] ack_tx_def])
  fix x assume i: "mem_requireInit b = None" and c: "mem_checkLease b i token = Inr (abs_rec (sp_db s) i x)"
    and g: "getRec (sp_db s) i = Inr (scanRec i x)" "checkLeaseRec (scanRec i x) token = None"
    and x: "fmlookup (t_tasks (sp_db s)) i = Some x" "c_status x = StatusRunning" "row_ok x"
  let ?f = "\<lambda>x. x\<lparr>c_status := StatusCompleted, c_result := result, c_finished_at := unixMilli clk,
      c_lease_token := '''', c_lease_until := 0, c_cancel_requested := 0\<rparr>"
  let ?t = "(if result \<noteq> None then (sr_task (scanRec i x))\<lparr>Status := StatusCompleted, Result := clone_bytes result\<rparr>
      else (sr_task (scanRec i x))\<lparr>Status := StatusCompleted\<rparr>)\<lparr>FinishedAt := trunc_ms clk, LeaseToken := ''''\<rparr>"
  have none: "c_result x = None" using x(3,2) by (rule row_ok_running)
  have "acked_rec (trunc_ms clk) result (abs_rec (sp_db s) i x) = abs_rec (sp_db s) i (?f x)"
    using none fromMS_now [OF clk] by (intro abs_recI) (simp_all add: acked_rec_def task_abs abs_task_defs)
  then have "tx_sim b (mem_Ack clk i token result b)
      (Inr (propagateTx i StatusCompleted (trunc_ms clk) (update_row i ?f (sp_db s)) [?t]))"
    using x(3) none fromMS_now [OF clk] Ack_ok [OF i c, of clk result]
    by (intro tx_sim_finish [OF v x(1) _ _ _ clk]) (simp_all add: row_ok_def task_abs abs_task_defs)
  then show "tx_sim b (mem_Ack clk i token result b) (ack_tx clk i token result (sp_db s))"
    using x(2) g by (cases "result = None") (simp_all add: ack_tx_def Let_def)
qed (simp_all add: mem_Ack_def)

lemma FinishCanceled_sim:
  assumes v: "sview s b" "db_ok (sp_db s)" and clk: "after_epoch clk"
    and step: "sq_FinishCanceled None clk i token s = (s', ns, u)"
  shows "\<exists>b' ns'. mem_FinishCanceled clk i token b = (b', ns', u) \<and> sim s' ns b' ns'"
proof (rule leased_sim [of s b _ s' ns u _ _ _ "mem_FinishCanceled clk i token",
      OF v step [unfolded sq_FinishCanceled_def] finishCanceled_tx_def])
  fix x assume i: "mem_requireInit b = None" and c: "mem_checkLease b i token = Inr (abs_rec (sp_db s) i x)"
    and g: "getRec (sp_db s) i = Inr (scanRec i x)" "checkLeaseRec (scanRec i x) token = None"
    and x: "fmlookup (t_tasks (sp_db s)) i = Some x" "c_status x = StatusRunning" "row_ok x"
  let ?f = "\<lambda>x. x\<lparr>c_status := StatusCanceled, c_last_error := ''canceled'', c_finished_at := unixMilli clk,
      c_lease_token := '''', c_lease_until := 0, c_cancel_requested := 0\<rparr>"
  let ?t = "(sr_task (scanRec i x))\<lparr>Status := StatusCanceled, LastError := ''canceled'', FinishedAt := trunc_ms clk,
      LeaseToken := ''''\<rparr>"
  have "(cancel_rec (trunc_ms clk) (abs_rec (sp_db s) i x))\<lparr>cancelRequested := False\<rparr> = abs_rec (sp_db s) i (?f x)"
    using fromMS_now [OF clk] by (intro abs_recI) (simp_all add: cancel_rec_def task_abs abs_task_defs)
  then have "tx_sim b (mem_FinishCanceled clk i token b)
      (Inr (propagateTx i StatusCanceled (trunc_ms clk) (update_row i ?f (sp_db s)) [?t]))"
    using x(3) fromMS_now [OF clk] FinishCanceled_ok [OF i c, of clk]
    by (intro tx_sim_finish [OF v x(1) _ _ _ clk]) (simp_all add: row_ok_def task_abs abs_task_defs)
  then show "tx_sim b (mem_FinishCanceled clk i token b) (finishCanceled_tx clk i token (sp_db s))"
    using x(2) g by (simp add: finishCanceled_tx_def Let_def)
qed (simp_all add: mem_FinishCanceled_def)

lemma Requeue_sim:
  assumes v: "sview s b" "db_ok (sp_db s)" and step: "sq_Requeue None i token s = (s', ns, u)"
  shows "\<exists>b' ns'. mem_Requeue i token b = (b', ns', u) \<and> sim s' ns b' ns'"
proof (rule leased_sim [of s b _ s' ns u _ _ _ "mem_Requeue i token", OF v step [unfolded sq_Requeue_def] requeue_tx_def])
  fix x assume i: "mem_requireInit b = None" and c: "mem_checkLease b i token = Inr (abs_rec (sp_db s) i x)"
    and g: "getRec (sp_db s) i = Inr (scanRec i x)" "checkLeaseRec (scanRec i x) token = None"
    and x: "fmlookup (t_tasks (sp_db s)) i = Some x" "c_status x = StatusRunning" "row_ok x"
  let ?f = "\<lambda>x. x\<lparr>c_status := StatusPending, c_lease_token := '''', c_lease_until := 0, c_cancel_requested := 0\<rparr>"
  let ?t = "(sr_task (scanRec i x))\<lparr>Status := StatusPending, LeaseToken := ''''\<rparr>"
  have "requeued_rec (abs_rec (sp_db s) i x) = abs_rec (sp_db s) i (?f x)"
    by (intro abs_recI) (simp_all add: requeued_rec_def task_abs abs_task_defs)
  then have "tx_sim b (mem_Requeue i token b) (Inr (update_row i ?f (sp_db s), [?t]))"
    using x(2,3) Requeue_ok [OF i c]
    by (intro tx_sim_update [OF v x(1), where b' = "mem_broadcast (put_rec i (abs_rec (sp_db s) i (?f x)) b)"])
      (simp_all add: row_ok_def mem_broadcast_def put_rec_def task_abs abs_task_defs)
  then show "tx_sim b (mem_Requeue i token b) (requeue_tx i token (sp_db s))"
    using x(2) g by (simp add: requeue_tx_def)
qed (simp_all add: mem_Requeue_def)

lemma Cancel_sim:
  assumes v: "sview s b" "db_ok (sp_db s)" and clk: "after_epoch clk"
    and step: "sq_Cancel None clk i s = (s', ns, u)"
  shows "\<exists>b' ns'. mem_Cancel clk i b = (b', ns', u) \<and> sim s' ns b' ns'"
proof (rule change_tx_sim [of s b _ s' ns u "mem_Cancel clk i", OF v step [unfolded sq_Cancel_def]])
  assume i: "mem_requireInit b = None"
  have recs: "recs b = abs_store (sp_db s)" using v(1) by (simp add: sview_def)
  show "tx_sim b (mem_Cancel clk i b) (cancel_tx clk i (sp_db s))"
  proof (cases "fmlookup (t_tasks (sp_db s)) i")
    case None
    then show ?thesis by (simp add: tx_sim_def cancel_tx_def getRec_def mem_Cancel_def i recs)
  next
    case (Some x)
    note x = Some db_okD [OF v(2) Some]
    have g: "getRec (sp_db s) i = Inr (scanRec i x)" by (simp add: getRec_def Some)
    consider (fin) "isFinal (c_status x)" | (run) "c_status x = StatusRunning"
      | (queued) "\<not> isFinal (c_status x)" "c_status x \<noteq> StatusRunning" by blast
    then show ?thesis
    proof cases
      case fin
      then show ?thesis by (simp add: tx_sim_def cancel_tx_def g mem_Cancel_def i recs Some)
    next
      case run
      let ?f = "\<lambda>x. x\<lparr>c_cancel_requested := 1\<rparr>"
      have "(abs_rec (sp_db s) i x)\<lparr>cancelRequested := True\<rparr> = abs_rec (sp_db s) i (?f x)"
        by (intro abs_recI) (simp_all add: task_abs abs_task_defs)
      then have "tx_sim b (mem_Cancel clk i b) (Inr (update_row i ?f (sp_db s), []))"
        using run x(2)
        by (intro tx_sim_update [OF v x(1), where b' = "put_rec i (abs_rec (sp_db s) i (?f x)) b"])
          (simp_all add: row_ok_def put_rec_def mem_Cancel_def i recs Some)
      then show ?thesis using run by (simp add: cancel_tx_def g)
    next
      case queued
      let ?f = "\<lambda>x. x\<lparr>c_status := StatusCanceled, c_last_error := ''canceled'', c_finished_at := unixMilli clk,
          c_lease_token := '''', c_lease_until := 0\<rparr>"
      let ?t = "(sr_task (scanRec i x))\<lparr>Status := StatusCanceled, LastError := ''canceled'', FinishedAt := trunc_ms clk,
          LeaseToken := ''''\<rparr>"
      have can: "canTransition (c_status x) StatusCanceled" using queued(1) by (rule nonfinal_can_cancel)
      have "cancel_rec (trunc_ms clk) (abs_rec (sp_db s) i x) = abs_rec (sp_db s) i (?f x)"
        using fromMS_now [OF clk] by (intro abs_recI) (simp_all add: cancel_rec_def task_abs abs_task_defs)
      then have "tx_sim b (mem_Cancel clk i b)
          (Inr (propagateTx i StatusCanceled (trunc_ms clk) (update_row i ?f (sp_db s)) [?t]))"
        using x(2) fromMS_now [OF clk] Cancel_ok [OF i, of i "abs_rec (sp_db s) i x" clk] queued recs Some
        by (intro tx_sim_finish [OF v x(1) _ _ _ clk]) (simp_all add: row_ok_def task_abs abs_task_defs)
      then show ?thesis using queued can by (simp add: cancel_tx_def g Let_def)
    qed
  qed
qed (simp add: mem_Cancel_def)

lemma fail_counts_sim:
  assumes "sq_fail_counts tm kind msg t = Inr (t', toFailed)"
  shows "fail_counts tm kind msg (cloneTask t) = (cloneTask t', Inr toFailed)"
    and "t' = t\<lparr>LastError := LastError t', Attempts := Attempts t', Throttled := Throttled t'\<rparr>"
  using assms
  by (auto simp: sq_fail_counts_def fail_counts_def cloneTask_def Let_def split: failKind.splits if_splits)

lemma Fail_sim:
  assumes v: "sview s b" "db_ok (sp_db s)" and clk: "after_epoch clk" and kind: "\<forall>n. kind \<noteq> FailOther n"
    and at: "isZero retryAt \<or> after_epoch retryAt"
    and step: "sq_Fail None clk i token msg kind retryAt s = (s', ns, u)"
  shows "\<exists>b' ns'. mem_Fail clk i token msg kind retryAt b = (b', ns', u) \<and> sim s' ns b' ns'"
proof (rule leased_sim [of s b _ s' ns u _ _ _ "mem_Fail clk i token msg kind retryAt",
      OF v step [unfolded sq_Fail_def] fail_tx_def])
  fix x assume i: "mem_requireInit b = None" and c: "mem_checkLease b i token = Inr (abs_rec (sp_db s) i x)"
    and g: "getRec (sp_db s) i = Inr (scanRec i x)" "checkLeaseRec (scanRec i x) token = None"
    and x: "fmlookup (t_tasks (sp_db s)) i = Some x" "c_status x = StatusRunning" "row_ok x"
  have op: "opts b = sp_opts s" using v(1) by (simp add: sview_def)
  have "\<exists>t' f. sq_fail_counts (ThrottledMax (sp_opts s)) kind msg (sr_task (scanRec i x)) = Inr (t', f)"
    using kind by (cases kind) (auto simp: sq_fail_counts_def Let_def)
  then obtain t toFailed where fc: "sq_fail_counts (ThrottledMax (sp_opts s)) kind msg (sr_task (scanRec i x)) = Inr (t, toFailed)"
    by blast
  let ?x = "x\<lparr>c_last_error := LastError t, c_attempts := Attempts t, c_throttled := Throttled t\<rparr>"
  have t: "t = sr_task (scanRec i ?x)" using fail_counts_sim(2) [OF fc] by (simp add: scanRec_def)
  have clone: "cloneTask t = task (abs_rec (sp_db s) i ?x)" using arg_cong [OF t, of cloneTask] by (simp add: task_abs abs_task_def)
  have st: "Status t = StatusRunning" using x(2) t by (metis scan_fields(2) row.select_convs(4) row.surjective row.update_convs(6,7,10))
  have mem: "fail_counts (ThrottledMax (opts b)) kind msg (task (abs_rec (sp_db s) i x)) = (cloneTask t, Inr toFailed)"
    using fail_counts_sim(1) [OF fc] by (simp add: op task_abs abs_task_def)
  note memFail = Fail_ok [OF i c mem, of clk retryAt]
  show "tx_sim b (mem_Fail clk i token msg kind retryAt b)
      (fail_tx (ThrottledMax (sp_opts s)) clk i token msg kind retryAt (sp_db s))"
  proof (cases toFailed)
    case True
    let ?f = "\<lambda>x. x\<lparr>c_status := StatusFailed, c_last_error := LastError t, c_attempts := Attempts t,
      c_throttled := Throttled t, c_finished_at := unixMilli clk, c_lease_token := '''', c_lease_until := 0,
      c_cancel_requested := 0\<rparr>"
    have "failed_rec (trunc_ms clk) (cloneTask t) (abs_rec (sp_db s) i x) = abs_rec (sp_db s) i (?f x)"
      using fromMS_now [OF clk] unfolding clone by (intro abs_recI) (simp_all add: failed_rec_def task_abs abs_task_defs)
    moreover have "cloneTask (t\<lparr>Status := StatusFailed, FinishedAt := trunc_ms clk, LeaseToken := ''''\<rparr>) =
        task (abs_rec (sp_db s) i (?f x))"
      using arg_cong [OF t, of "\<lambda>t. cloneTask (t\<lparr>Status := StatusFailed, FinishedAt := trunc_ms clk, LeaseToken := ''''\<rparr>)"]
        fromMS_now [OF clk] by (simp add: task_abs abs_task_defs)
    ultimately have "tx_sim b (mem_Fail clk i token msg kind retryAt b)
        (Inr (propagateTx i StatusFailed (trunc_ms clk) (update_row i ?f (sp_db s))
           [t\<lparr>Status := StatusFailed, FinishedAt := trunc_ms clk, LeaseToken := ''''\<rparr>]))"
      using x(3) memFail True by (intro tx_sim_finish [OF v x(1) _ _ _ clk]) (simp_all add: row_ok_def)
    then show ?thesis using g fc st True by (simp add: fail_tx_def Let_def)
  next
    case False
    let ?at = "trunc_ms (if isZero retryAt then trunc_ms clk else retryAt)"
    let ?f = "\<lambda>x. x\<lparr>c_status := StatusRetrying, c_last_error := LastError t, c_attempts := Attempts t,
      c_throttled := Throttled t, c_run_at := ms ?at, c_lease_token := '''', c_lease_until := 0\<rparr>"
    have at': "after_epoch ?at" using at clk by auto
    have ms: "0 < ms ?at" "fromMS (ms ?at) = ?at"
      using ms_now [OF at'] at' fromMS_now [OF at'] by (simp_all add: after_epoch_def)
    have "retry_rec (if isZero retryAt then trunc_ms clk else retryAt) (cloneTask t) (abs_rec (sp_db s) i x) =
        abs_rec (sp_db s) i (?f x)"
      using ms unfolding clone by (intro abs_recI) (simp_all add: retry_rec_def task_abs abs_task_defs)
    moreover have "cloneTask (t\<lparr>Status := StatusRetrying, RunAt := ?at, LeaseToken := ''''\<rparr>) =
        cloneTask (task (abs_rec (sp_db s) i (?f x)))"
      using arg_cong [OF t, of "\<lambda>t. cloneTask (t\<lparr>Status := StatusRetrying, RunAt := ?at, LeaseToken := ''''\<rparr>)"]
        ms by (simp add: task_abs abs_task_defs)
    ultimately have "tx_sim b (mem_Fail clk i token msg kind retryAt b)
        (Inr (update_row i ?f (sp_db s), [t\<lparr>Status := StatusRetrying, RunAt := ?at, LeaseToken := ''''\<rparr>]))"
      using x memFail False ms
      by (intro tx_sim_update [OF v x(1), where b' = "mem_broadcast (put_rec i (abs_rec (sp_db s) i (?f x)) b)"])
        (simp_all add: row_ok_def mem_broadcast_def put_rec_def Let_def)
    then show ?thesis using g fc st False by (simp add: fail_tx_def Let_def)
  qed
qed (simp_all add: mem_Fail_def)

definition ttl_ok :: "sbroker \<Rightarrow> bool" where
  "ttl_ok s \<longleftrightarrow> (\<forall>q. sq_ttlFor s q mod millisecond = 0 \<and> 0 \<le> sq_ttlFor s q)"

lemma lease_until_sim:
  assumes "ttl_ok s" "after_epoch clk"
  shows "fromMS (unixMilli (clk + sq_ttlFor s q)) = trunc_ms clk + sq_ttlFor s q"
proof -
  have ttl: "sq_ttlFor s q mod millisecond = 0" "0 \<le> sq_ttlFor s q" using assms(1) by (simp_all add: ttl_ok_def)
  have tr: "trunc_ms (clk + sq_ttlFor s q) = trunc_ms clk + sq_ttlFor s q"
    using ttl(1) by (simp add: trunc_ms_def) (metis add.right_neutral mod_add_right_eq)
  have "clk div millisecond \<le> (clk + sq_ttlFor s q) div millisecond" using ttl(2) by (intro zdiv_mono1) simp_all
  then have "after_epoch (clk + sq_ttlFor s q)" using assms(2) by (simp add: after_epoch_def unixMilli_def)
  then show ?thesis using fromMS_now tr by simp
qed

lemma Heartbeat_sim:
  assumes v: "sview s b" "db_ok (sp_db s)" and clk: "after_epoch clk" "ttl_ok s"
    and step: "sq_Heartbeat None clk i token s = (s', ns, u)"
  shows "\<exists>b' ns'. mem_Heartbeat clk i token b = (b', ns', u) \<and> sim s' ns b' ns'"
proof (cases "mem_requireInit b")
  case (Some e)
  then show ?thesis using step requireInit_sim [OF v(1)] v by (auto simp: mem_Heartbeat_def sq_Heartbeat_def sim_def)
next
  case None
  note init = this requireInit_sim [OF v(1)]
  show ?thesis
  proof (cases "\<exists>x. fmlookup (t_tasks (sp_db s)) i = Some x \<and> c_status x = StatusRunning \<and> token \<noteq> '''' \<and> c_lease_token x = token")
    case True
    then obtain x where x: "fmlookup (t_tasks (sp_db s)) i = Some x" "c_status x = StatusRunning" "token \<noteq> ''''" "c_lease_token x = token"
      by blast
    let ?f = "\<lambda>y. y\<lparr>c_lease_until := unixMilli (clk + sq_ttlFor s (c_queue x))\<rparr>"
    have c: "mem_checkLease b i token = Inr (abs_rec (sp_db s) i x)"
      using x v(1) by (simp add: mem_checkLease_def sview_def)
    have s': "s' = s\<lparr>sp_db := (sp_db s)\<lparr>t_tasks := fmupd i (?f x) (t_tasks (sp_db s))\<rparr>\<rparr>" "ns = []"
      "u = (if c_cancel_requested x \<noteq> 0 then Inl (ErrTaskCanceled i) else Inr ())"
      using step x init by (auto simp: sq_Heartbeat_def heartbeat_tx_def getRec_def checkLeaseRec_def withTx_def update_row_def Let_def)
    have "(abs_rec (sp_db s) i x)\<lparr>leaseUntil := trunc_ms clk + mem_ttlFor b (c_queue x)\<rparr> = abs_rec (sp_db s) i (?f x)"
      using lease_until_sim [OF clk(2,1)] ttlFor_sim [OF v(1)] by (intro abs_recI) (simp_all add: task_abs abs_task_defs)
    moreover have "row_ok (?f x)" using db_okD [OF v(2) x(1)] by (simp add: row_ok_def)
    ultimately show ?thesis using c None v db_ok_upd [OF v(2) x(1)] unfolding s'
      by (simp add: mem_Heartbeat_def Let_def sim_def sview_def put_rec_def abs_upd)
  next
    case False
    have "\<exists>e. mem_checkLease b i token = Inl e \<and> s' = s \<and> ns = [] \<and> u = Inl e"
      using False step init v(1)
      by (cases "fmlookup (t_tasks (sp_db s)) i")
        (auto simp: mem_checkLease_def sview_def sq_Heartbeat_def heartbeat_tx_def getRec_def checkLeaseRec_def withTx_def
          split: if_splits)
    then show ?thesis using v None by (auto simp: mem_Heartbeat_def sim_def)
  qed
qed

section \<open>Dequeue\<close>

lemma select_iff [simp]:
  "i \<in> set (select P d) \<longleftrightarrow> (\<exists>r. fmlookup (t_tasks d) i = Some r \<and> P i r)"
  by (auto simp: select_def fmlookup_dom_iff split: option.splits)

lemma select_sorted: "sorted (select P d)" "distinct (select P d)"
proof -
  have f: "sorted (filter Q xs)" if "sorted xs" for Q and xs :: "id list"
    using that by (induction xs) auto
  show "sorted (select P d)" unfolding select_def by (rule f) (simp add: sorted_list_of_fset.rep_eq)
qed (simp add: select_def sorted_list_of_fset.rep_eq)

lemma select_Nil: "select P d = [] \<longleftrightarrow> (\<forall>i r. fmlookup (t_tasks d) i = Some r \<longrightarrow> \<not> P i r)"
  using select_iff [of _ P d] by (metis empty_iff list.set(1) list.set_intros(1) neq_Nil_conv)

lemma row_of_lookup: "fmlookup (t_tasks d) i = Some r \<Longrightarrow> row_of d i = r"
  by (simp add: row_of_def)

lemma sort_key_hd:
  assumes "sorted xs" and "sort_key f xs = i # is"
  shows "i \<in> set xs \<and> (\<forall>j \<in> set xs. f i < f j \<or> f i = f j \<and> i \<le> j)"
proof -
  have i: "i \<in> set xs" using assms(2) by (metis list.set_intros(1) set_sort)
  have "sorted (map f (i # is))" unfolding assms(2) [symmetric] by simp
  then have le: "f i \<le> f j" if "j \<in> set xs" for j
    using that assms(2) by (metis eq_refl in_set_conv_nth list.set_map image_eqI list.simps(9) set_ConsD set_sort sorted_simps(2))
  have "filter (\<lambda>x. f x = f i) xs = filter (\<lambda>x. f x = f i) (i # is)"
    using sort_key_stable [of f "f i" xs] assms(2) by simp
  then obtain ys where ys: "filter (\<lambda>x. f x = f i) xs = i # ys" by simp
  have "sorted (filter (\<lambda>x. f x = f i) xs)" using assms(1) by (rule sorted_filter [of id, simplified])
  then have "i \<le> j" if "j \<in> set xs" "f j = f i" for j
  proof -
    have "j \<in> set (i # ys)" using that unfolding ys [symmetric] by simp
    then show ?thesis using \<open>sorted (filter (\<lambda>x. f x = f i) xs)\<close> unfolding ys by auto
  qed
  then show ?thesis using i le by (metis order_le_less)
qed

lemma due_sim: "0 < c_run_at x \<Longrightarrow> due queues (trunc_ms clk) (abs_rec d i x) \<longleftrightarrow>
    waiting_row queues x \<and> c_run_at x \<le> unixMilli clk"
  by (auto simp: due_def claimable_def waiting_row_def fromMS_le_now not_less)

lemma row_ok_run: "db_ok d \<Longrightarrow> fmlookup (t_tasks d) i = Some x \<Longrightarrow> 0 < c_run_at x"
  using db_okD by (auto simp: row_ok_def)

lemma first_due_None:
  "first_due queues n d = None \<longleftrightarrow> (\<forall>i x. fmlookup (t_tasks d) i = Some x \<longrightarrow> \<not> (waiting_row queues x \<and> c_run_at x \<le> n))"
proof -
  have "first_due queues n d = None \<longleftrightarrow> select (\<lambda>_ r. waiting_row queues r \<and> c_run_at r \<le> n) d = []"
    unfolding first_due_def by (metis (no_types, lifting) list.case_eq_if list.set(1) option.distinct(1) set_empty set_sort)
  then show ?thesis by (simp add: select_Nil)
qed

lemma first_due_Some:
  assumes "first_due queues n d = Some i"
  shows "\<exists>x. fmlookup (t_tasks d) i = Some x \<and> waiting_row queues x \<and> c_run_at x \<le> n \<and>
    (\<forall>j y. fmlookup (t_tasks d) j = Some y \<longrightarrow> waiting_row queues y \<longrightarrow> c_run_at y \<le> n \<longrightarrow>
       c_run_at x < c_run_at y \<or> c_run_at x = c_run_at y \<and> i \<le> j)"
proof -
  let ?is = "select (\<lambda>_ r. waiting_row queues r \<and> c_run_at r \<le> n) d"
  obtain js where "sort_key (\<lambda>i. c_run_at (row_of d i)) ?is = i # js"
    using assms unfolding first_due_def by (auto split: list.splits)
  note hd = sort_key_hd [OF select_sorted(1) this]
  then obtain x where x: "fmlookup (t_tasks d) i = Some x" "waiting_row queues x" "c_run_at x \<le> n" by auto
  have "c_run_at x < c_run_at y \<or> c_run_at x = c_run_at y \<and> i \<le> j"
    if "fmlookup (t_tasks d) j = Some y" "waiting_row queues y" "c_run_at y \<le> n" for j y
  proof -
    have "j \<in> set ?is" using that by simp
    with hd have "c_run_at (row_of d i) < c_run_at (row_of d j) \<or> c_run_at (row_of d i) = c_run_at (row_of d j) \<and> i \<le> j"
      by blast
    then show ?thesis using row_of_lookup that(1) x(1) by simp
  qed
  then show ?thesis using x by blast
qed

lemma pick_sim:
  assumes v: "sview s b" "db_ok (sp_db s)" and xs: "range_order xs (recs b)"
  shows "first_due queues (unixMilli clk) (sp_db s) = None \<Longrightarrow> mem_pickReady xs queues (trunc_ms clk) (recs b) = None"
    and "first_due queues (unixMilli clk) (sp_db s) = Some i \<Longrightarrow>
      mem_pickReady xs queues (trunc_ms clk) (recs b) = Some (i, abs_rec (sp_db s) i (row_of (sp_db s) i))"
proof -
  let ?d = "sp_db s"
  have recs: "recs b = abs_store ?d" using v(1) by (simp add: sview_def)
  have due: "(\<exists>r. fmlookup (recs b) j = Some r \<and> due queues (trunc_ms clk) r) \<longleftrightarrow>
      (\<exists>x. fmlookup (t_tasks ?d) j = Some x \<and> waiting_row queues x \<and> c_run_at x \<le> unixMilli clk)" for j
    using due_sim row_ok_run [OF v(2)] by (auto simp: recs)
  {
    assume "first_due queues (unixMilli clk) ?d = None"
    then have "\<not> due queues (trunc_ms clk) r" if "fmlookup (recs b) j = Some r" for j r
      using due [of j] that unfolding first_due_None by auto
    then show "mem_pickReady xs queues (trunc_ms clk) (recs b) = None"
      by (auto simp: mem_pickReady_def pickReady_loop_None)
  }
  assume f: "first_due queues (unixMilli clk) ?d = Some i"
  obtain x where x: "fmlookup (t_tasks ?d) i = Some x" "waiting_row queues x" "c_run_at x \<le> unixMilli clk"
    and least: "\<And>j y. fmlookup (t_tasks ?d) j = Some y \<Longrightarrow> waiting_row queues y \<Longrightarrow> c_run_at y \<le> unixMilli clk \<Longrightarrow>
      c_run_at x < c_run_at y \<or> c_run_at x = c_run_at y \<and> i \<le> j"
    using first_due_Some [OF f] by blast
  have di: "due queues (trunc_ms clk) (abs_rec ?d i x)" using x due_sim row_ok_run [OF v(2) x(1)] by blast
  have "i \<in> set xs" using range_order_in [OF xs] x(1) by (auto simp: recs)
  then have "mem_pickReady xs queues (trunc_ms clk) (recs b) \<noteq> None"
    using di x(1) by (auto simp: mem_pickReady_def pickReady_loop_None recs)
  then obtain k r where p: "mem_pickReady xs queues (trunc_ms clk) (recs b) = Some (k, r)" by auto
  then obtain y where y: "fmlookup (t_tasks ?d) k = Some y" "r = abs_rec ?d k y" "due queues (trunc_ms clk) r"
    using pickReady_sound [OF p] by (auto simp: recs)
  have "claim_before r (abs_rec ?d i x)"
    using pickReady_loop_Some [OF p [unfolded mem_pickReady_def]] di x(1) \<open>i \<in> set xs\<close> by (auto simp: recs)
  moreover have "c_run_at x < c_run_at y \<or> c_run_at x = c_run_at y \<and> i \<le> k"
    using y(3) due_sim [OF row_ok_run [OF v(2) y(1)], of queues clk ?d k] by (intro least [OF y(1)]) (simp_all add: y(2))
  ultimately have "c_run_at y < c_run_at x \<or> c_run_at y = c_run_at x \<and> k \<le> i"
    "c_run_at x < c_run_at y \<or> c_run_at x = c_run_at y \<and> i \<le> k"
    using fromMS_less fromMS_eq row_ok_run [OF v(2) x(1)] row_ok_run [OF v(2) y(1)] by (simp_all add: claim_before_def y(2))
  then have "k \<le> i" "i \<le> k" by linarith+
  then have "k = i" by (rule order.antisym)
  then show "mem_pickReady xs queues (trunc_ms clk) (recs b) = Some (i, abs_rec ?d i (row_of ?d i))"
    using p y x by (simp add: row_of_def)
qed

text \<open>A waiting turn sleeps at most the poll interval and never past the next task due.\<close>

fun turn_sim :: "time \<Rightarrow> dequeueTurn \<Rightarrow> dequeueTurn \<Rightarrow> bool" where
  "turn_sim clk (Claimed t) (Claimed t') \<longleftrightarrow> t' = cloneTask t"
| "turn_sim clk (DequeueErr e) (DequeueErr e') \<longleftrightarrow> e = e'"
| "turn_sim clk (WaitFor w) (WaitFor w') \<longleftrightarrow> w \<le> clk + pollInterval \<and> (\<not> isZero w' \<longrightarrow> w \<le> w')"
| "turn_sim clk _ _ \<longleftrightarrow> False"

lemma next_run_spec:
  assumes "fmlookup (t_tasks d) i = Some x" "waiting_row queues x" "n < c_run_at x"
  shows "\<exists>v j y. next_run queues n d = Some v \<and> v \<le> c_run_at x \<and>
    fmlookup (t_tasks d) j = Some y \<and> n < c_run_at y \<and> v = c_run_at y"
proof -
  let ?vs = "map (\<lambda>i. c_run_at (row_of d i)) (select (\<lambda>_ r. waiting_row queues r \<and> c_run_at r > n) d)"
  have mem: "c_run_at x \<in> set ?vs" using assms by (force simp: row_of_def)
  then obtain v vs where v: "sort ?vs = v # vs" by (metis list.exhaust list.set(1) empty_iff set_sort)
  have "sorted (v # vs)" unfolding v [symmetric] by simp
  moreover have "c_run_at x \<in> set (v # vs)" using mem unfolding v [symmetric] by simp
  ultimately have "v \<le> c_run_at x" by auto
  moreover have "v \<in> set ?vs" using v by (metis list.set_intros(1) set_sort)
  then obtain j where "j \<in> set (select (\<lambda>_ r. waiting_row queues r \<and> c_run_at r > n) d)" "v = c_run_at (row_of d j)" by auto
  then obtain y where "fmlookup (t_tasks d) j = Some y" "n < c_run_at y" "v = c_run_at y"
    using row_of_lookup by auto
  ultimately show ?thesis using v by (auto simp: next_run_def)
qed

lemma wait_sim:
  assumes v: "sview s b" "db_ok (sp_db s)" and xs: "range_order xs (recs b)" and clk: "after_epoch clk"
    and w': "\<not> isZero (mem_nextRunAt xs queues (trunc_ms clk) (recs b))" (is "\<not> isZero ?w")
  shows "\<exists>n. next_run queues (unixMilli clk) (sp_db s) = Some n \<and> \<not> isZero (fromMS n) \<and> fromMS n \<le> ?w"
proof -
  have recs: "recs b = abs_store (sp_db s)" using v(1) by (simp add: sview_def)
  have "0 \<le> trunc_ms clk" using clk by (simp add: after_epoch_def unixMilli_def trunc_ms_def minus_mod_eq_mult_div)
  then have "next_ok queues (trunc_ms clk) (recs b) xs zero_time ?w"
    unfolding mem_nextRunAt_def by (intro nextRunAt_loop_spec) (simp add: zero_time_def)
  then obtain k r where r: "fmlookup (recs b) k = Some r" "claimable queues r" "trunc_ms clk < RunAt (task r)" "?w = RunAt (task r)"
    using w' unfolding next_ok_def isZero_def by blast
  then obtain x where x: "fmlookup (t_tasks (sp_db s)) k = Some x" "r = abs_rec (sp_db s) k x" by (auto simp: recs)
  have pos: "0 < c_run_at x" by (rule row_ok_run [OF v(2) x(1)])
  have "waiting_row queues x" "unixMilli clk < c_run_at x" "?w = fromMS (c_run_at x)"
    using r x(2) fromMS_le_now [OF pos, of clk] by (auto simp: claimable_def waiting_row_def)
  then obtain n j y where n: "next_run queues (unixMilli clk) (sp_db s) = Some n" "n \<le> c_run_at x"
    "fmlookup (t_tasks (sp_db s)) j = Some y" "n = c_run_at y" using next_run_spec [OF x(1)] by blast
  have "0 < n" using row_ok_run [OF v(2) n(3)] n(4) by simp
  then show ?thesis using n(1,2) pos \<open>?w = fromMS (c_run_at x)\<close> fromMS_isZero [of n] by (simp add: fromMS_pos)
qed

lemma Dequeue_sim:
  assumes v: "sview s b" "db_ok (sp_db s)" and xs: "range_order xs (recs b)" and clk: "after_epoch clk" "ttl_ok s"
    and step: "sq_Dequeue_turn ctx None ctx2 token clk clk2 queues s = (s', ns, turn)"
  shows "\<exists>b' ns' turn'. mem_Dequeue_turn xs ctx token clk queues b = (b', ns', turn') \<and> sim s' ns b' ns' \<and>
    turn_sim clk2 turn turn'"
proof (cases "queues = [] \<or> ctx \<noteq> None \<or> mem_requireInit b \<noteq> None")
  case True
  then show ?thesis using step requireInit_sim [OF v(1)] v
    by (auto simp: sq_Dequeue_turn_def mem_Dequeue_turn_def sim_def split: option.splits)
next
  case False
  then have g: "queues \<noteq> []" "ctx = None" "mem_requireInit b = None" "sq_requireInit s = None"
    using requireInit_sim [OF v(1)] by auto
  show ?thesis
  proof (cases "first_due queues (unixMilli clk) (sp_db s)")
    case None
    have p: "mem_pickReady xs queues (trunc_ms clk) (recs b) = None" by (rule pick_sim(1) [OF v xs None])
    let ?nx = "case next_run queues (unixMilli clk) (sp_db s) of None \<Rightarrow> zero_time | Some v \<Rightarrow> fromMS v"
    let ?w = "mem_nextRunAt xs queues (trunc_ms clk) (recs b)"
    have s': "s' = s" "ns = []" "turn = WaitFor (clk2 + (if \<not> isZero ?nx \<and> ?nx - clk2 < pollInterval then ?nx - clk2 else pollInterval))"
      using step g None by (auto simp: sq_Dequeue_turn_def tryClaim_def withTx_def claim_tx_def Let_def)
    have "turn_sim clk2 turn (WaitFor ?w)" using wait_sim [OF v xs clk(1), of queues] by (auto simp: s')
    then show ?thesis using g p s' v by (simp add: mem_Dequeue_turn_def Let_def sim_def)
  next
    case (Some i)
    obtain x where x: "fmlookup (t_tasks (sp_db s)) i = Some x" using first_due_Some [OF Some] by blast
    note p = pick_sim(2) [OF v xs Some, unfolded row_of_lookup [OF x]]
    let ?x = "(claim_row token (unixMilli clk) x)\<lparr>c_lease_until := unixMilli (clk + sq_ttlFor s (c_queue x))\<rparr>"
    let ?t = "sr_task (scanRec i (claim_row token (unixMilli clk) x))"
    have s': "s' = s\<lparr>sp_db := (sp_db s)\<lparr>t_tasks := fmupd i ?x (t_tasks (sp_db s))\<rparr>\<rparr>" "ns = [?t]" "turn = Claimed ?t"
      using step g Some x
      by (simp_all add: sq_Dequeue_turn_def tryClaim_def withTx_def claim_tx_def update_row_def row_of_def Let_def claim_row_def)
    have row: "row_ok x" using v(2) x by (rule db_okD)
    have rec: "claimed_rec token (trunc_ms clk) (mem_ttlFor b (c_queue x)) (abs_rec (sp_db s) i x) = abs_rec (sp_db s) i ?x"
      using lease_until_sim [OF clk(2,1)] ttlFor_sim [OF v(1)] fromMS_now [OF clk(1)] fromMS_isZero [of "c_started_at x"] row
      by (intro abs_recI) (simp_all add: claimed_rec_def claim_row_def task_abs abs_task_defs row_ok_def)
    have "row_ok ?x" using row clk(1) first_due_Some [OF Some] x
      by (auto simp: row_ok_def claim_row_def after_epoch_def waiting_row_def)
    then have "sim s' ns (put_rec i (abs_rec (sp_db s) i ?x) b) [cloneTask ?t]"
      using v db_ok_upd [OF v(2) x] by (simp add: s' sim_def sview_def put_rec_def abs_upd)
    moreover have "cloneTask (task (abs_rec (sp_db s) i ?x)) = cloneTask ?t"
      by (simp add: task_abs abs_task_defs)
    ultimately show ?thesis using Dequeue_claim [OF g(1,3) p, of token] g(2) rec s' by (simp add: Let_def)
  qed
qed

end
