(* ===== verification/Sqlite_Insert.thy ===== *)
theory Sqlite_Insert
  imports Sqlite_Refine
begin

text \<open>
  \<open>Enqueue\<close> and \<open>Replay\<close> of the sqlite back end refine those of the in-memory broker.  The
  in-memory broker lists the children of a task in the order of their submission, the tables give
  them in the order of their identifiers, so the two agree up to sorting those lists.
\<close>

section \<open>Sorting the children\<close>

definition sorted_rec :: "mrec \<Rightarrow> mrec" where
  "sorted_rec r = r\<lparr>children := sort (children r)\<rparr>"

definition sort_children :: "mbroker \<Rightarrow> mbroker" where
  "sort_children b = b\<lparr>recs := fmmap sorted_rec (recs b)\<rparr>"

lemma sorted_rec_fields [simp]:
  "task (sorted_rec r) = task r" "pendingParents (sorted_rec r) = pendingParents r"
  "leaseUntil (sorted_rec r) = leaseUntil r" "cancelRequested (sorted_rec r) = cancelRequested r"
  "children (sorted_rec r) = sort (children r)"
  by (simp_all add: sorted_rec_def)

lemma sorted_graph [simp]:
  "dep (fmmap sorted_rec m) = dep m" "final_in (fmmap sorted_rec m) = final_in m"
  "completed_in (fmmap sorted_rec m) = completed_in m"
  by (auto simp: dep_def final_in_def completed_in_def fun_eq_iff)

lemma sorted_chain_links: "chain_links (fmmap sorted_rec m) prev is = chain_links m prev is"
  by (induction "is" arbitrary: prev) (auto split: option.splits)

lemma sorted_edges [simp]:
  "blocked_ok E (fmmap sorted_rec m) c (sorted_rec r) = blocked_ok E m c r"
  "released_ok E (fmmap sorted_rec m) c (sorted_rec r) = released_ok E m c r"
  by (simp_all add: blocked_ok_def released_ok_def open_parents_def)

lemma sorted_edge_inv:
  assumes "edge_inv E m"
  shows "edge_inv E (fmmap sorted_rec m)"
  unfolding edge_inv_def
proof (intro allI impI)
  fix c r' assume "fmlookup (fmmap sorted_rec m) c = Some r'"
  then obtain r where r: "fmlookup m c = Some r" "r' = sorted_rec r" by auto
  then show "case Status (task r') of StatusBlocked \<Rightarrow> blocked_ok E (fmmap sorted_rec m) c r' | StatusCanceled \<Rightarrow> True
      | _ \<Rightarrow> released_ok E (fmmap sorted_rec m) c r'"
    using edge_inv_lookup [OF assms r(1)] by (cases "Status (task r)") simp_all
qed

lemma sorted_lookup_ex: "(\<exists>r. fmlookup (fmmap sorted_rec m) i = Some r \<and> P (task r)) \<longleftrightarrow> (\<exists>r. fmlookup m i = Some r \<and> P (task r))"
  by auto

lemma sorted_one_chain: "one_chain (fmmap sorted_rec m) rp key is = one_chain m rp key is"
  unfolding one_chain_def sorted_chain_links sorted_lookup_ex [where P = "\<lambda>t. BusinessKey t = key"] ..

lemma sort_children_minv:
  assumes "minv b"
  shows "minv (sort_children b)"
proof -
  have "graph_ok (fmmap sorted_rec (recs b))" using minvD(1) [OF assms] by (auto simp: graph_ok_def)
  moreover have "ranked (fmmap sorted_rec (recs b))" using minvD(3) [OF assms] by (simp add: ranked_def)
  moreover have "lease_ok (fmmap sorted_rec (recs b))" using minvD(4) [OF assms] by (auto simp: lease_ok_def lease_rec_def)
  moreover have "chains_ok (b\<lparr>recs := fmmap sorted_rec (recs b)\<rparr>)"
    using minvD(5) [OF assms] by (auto simp: chains_ok_def sorted_one_chain chain_of_def)
  ultimately show ?thesis using sorted_edge_inv [OF minvD(2) [OF assms]] by (simp add: minv_def sort_children_def)
qed

lemma childrenOf_sorted [simp]: "sort (childrenOf d i) = childrenOf d i"
  by (rule sorted_sort_id) (simp add: childrenOf_def)

lemma sort_children_id: "sview s b \<Longrightarrow> sort_children b = b"
proof -
  assume "sview s b"
  then have "fmmap sorted_rec (recs b) = recs b"
    by (intro fmap_ext) (simp add: sview_def sorted_rec_def abs_rec_def option.map_comp o_def cong: map_option_cong)
  then show ?thesis by (simp add: sort_children_def)
qed

section \<open>Replayed tasks\<close>

text \<open>The index of replayed tasks of the in-memory broker and the column \<open>replay_of\<close> agree.\<close>

definition replay_ok :: "mbroker \<Rightarrow> bool" where
  "replay_ok b \<longleftrightarrow> (\<forall>k. k \<noteq> '''' \<longrightarrow>
     is_replayed (replayed b) k = (\<exists>i r. fmlookup (recs b) i = Some r \<and> ReplayOf (task r) = k))"

lemma replay_ok_step: "store_step token b b' \<Longrightarrow> replay_ok b \<Longrightarrow> replay_ok b'"
proof -
  assume st: "store_step token b b'" and ok: "replay_ok b"
  have ev: "evolves (recs b) (recs b')" and rp: "replayed b' = replayed b" using st by (simp_all add: store_step_def)
  have same: "ReplayOf (task r') = ReplayOf (task r)" if "rec_evolves r r'" for r r'
    using that by (simp add: rec_evolves_def shape_def)
  have "(\<exists>i r. fmlookup (recs b') i = Some r \<and> ReplayOf (task r) = k) \<longleftrightarrow>
      (\<exists>i r. fmlookup (recs b) i = Some r \<and> ReplayOf (task r) = k)" (is "?l \<longleftrightarrow> ?r") for k
  proof
    show "?l \<Longrightarrow> ?r" using evolves_lookup_back [OF ev] same by fastforce
    show "?r \<Longrightarrow> ?l" using evolves_lookup [OF ev] same by fastforce
  qed
  then show ?thesis using ok rp by (simp add: replay_ok_def)
qed

lemma replay_ok_sorted: "replay_ok b \<Longrightarrow> replay_ok (sort_children b)"
  unfolding replay_ok_def sort_children_def by (simp add: sorted_lookup_ex [where P = "\<lambda>t. ReplayOf t = k" for k] del: fmlookup_map)

lemma replay_ok_same: "recs b' = recs b \<Longrightarrow> replayed b' = replayed b \<Longrightarrow> replay_ok b \<Longrightarrow> replay_ok b'"
  by (simp add: replay_ok_def)

section \<open>Parents and edges\<close>

lemma status_of_abs: "fmlookup (t_tasks d) q = Some r \<Longrightarrow> status_of (abs_store d) q = c_status r"
  by (simp add: status_of_def)

lemma sq_parents_eq:
  "sq_parents d seen ds =
     (case List.find (\<lambda>q. fmlookup (t_tasks d) q = None) (dedup_seen seen ds) of
        Some q \<Rightarrow> Inl (ErrTaskNotFound q) | None \<Rightarrow> Inr (parent_states (abs_store d) (dedup_seen seen ds)))"
  by (induction d seen ds rule: sq_parents.induct)
    (auto simp: parent_states_def status_of_abs split: option.splits sum.splits)

lemma find_dedup: "(\<forall>q \<in> set seen. \<not> P q) \<Longrightarrow> List.find P (dedup_seen seen ds) = List.find P ds"
  by (induction seen ds rule: dedup_seen.induct) auto

lemma decide_dedup:
  "decideOnSubmit_loop pol seen n (parent_states m (dedup_seen seen ds)) = decideOnSubmit_loop pol seen n (parent_states m ds)"
  by (induction ds arbitrary: seen n) (auto simp: parent_states_def)

lemma parents_sim:
  "case sq_parents d [] ds of
     Inl e \<Rightarrow> mem_parents (abs_store d) ds = Inl e
   | Inr ps \<Rightarrow> mem_parents (abs_store d) ds = Inr (parent_states (abs_store d) ds) \<and>
       ps = parent_states (abs_store d) (dedup_seen [] ds) \<and> (\<forall>q \<in> set ds. fmlookup (t_tasks d) q \<noteq> None) \<and>
       DecideOnSubmit ps pol = DecideOnSubmit (parent_states (abs_store d) ds) pol"
proof -
  have f: "List.find (\<lambda>q. fmlookup (t_tasks d) q = None) (dedup_seen [] ds) = List.find (\<lambda>q. fmlookup (t_tasks d) q = None) ds"
    by (rule find_dedup) simp
  have dec: "DecideOnSubmit (parent_states (abs_store d) (dedup_seen [] ds)) pol = DecideOnSubmit (parent_states (abs_store d) ds) pol"
    unfolding DecideOnSubmit_def by (rule decide_dedup)
  show ?thesis
  proof (cases "List.find (\<lambda>q. fmlookup (t_tasks d) q = None) ds")
    case None
    then show ?thesis using f dec by (auto simp: sq_parents_eq mem_parents_eq find_None_iff split: option.splits)
  next
    case (Some q)
    then show ?thesis using f by (simp add: sq_parents_eq mem_parents_eq)
  qed
qed

lemma insert_deps_ok:
  assumes "distinct (map ps_ID ps)" and "\<forall>e \<in> set (t_deps d). child_id e \<noteq> i \<or> parent_id e \<notin> ps_ID ` set ps"
  shows "insert_deps i ps d = Inr (d\<lparr>t_deps := t_deps d @
    map (\<lambda>p. \<lparr>child_id = i, parent_id = ps_ID p, dep_done = (if isFinal (ps_Status p) then 1 else 0)\<rparr>) ps\<rparr>)"
  using assms
proof (induction ps arbitrary: d)
  case (Cons p ps)
  let ?e = "\<lparr>child_id = i, parent_id = ps_ID p, dep_done = (if isFinal (ps_Status p) then 1 else 0)\<rparr>"
  let ?d = "d\<lparr>t_deps := t_deps d @ [?e]\<rparr>"
  have "insert_edge ?e d = Inr ?d" using Cons.prems(2) by (auto simp: insert_edge_def)
  moreover have "insert_deps i ps ?d = Inr (?d\<lparr>t_deps := t_deps ?d @
      map (\<lambda>p. \<lparr>child_id = i, parent_id = ps_ID p, dep_done = (if isFinal (ps_Status p) then 1 else 0)\<rparr>) ps\<rparr>)"
    using Cons.prems by (intro Cons.IH) auto
  ultimately show ?case by simp
qed simp

text \<open>The edges of the tables are the children lists of an exact dependency graph.\<close>

lemma edge_exists:
  assumes "db_ok d" and "graph_ok (abs_store d)" and "e \<in> set (t_deps d)"
  shows "fmlookup (t_tasks d) (child_id e) \<noteq> None" "fmlookup (t_tasks d) (parent_id e) \<noteq> None"
proof -
  show p: "fmlookup (t_tasks d) (parent_id e) \<noteq> None" using assms(1,3) by (simp add: db_ok_def)
  then obtain r where "fmlookup (t_tasks d) (parent_id e) = Some r" by auto
  then have "set (childrenOf d (parent_id e)) = {c. dep (abs_store d) (parent_id e) c}"
    using assms(2) unfolding graph_ok_def by (metis abs_fields(15) abs_lookup option.simps(9))
  moreover have "child_id e \<in> set (childrenOf d (parent_id e))" using assms(3) by (auto simp: childrenOf_def)
  ultimately show "fmlookup (t_tasks d) (child_id e) \<noteq> None" by (auto simp: dep_def)
qed

lemma childrenOf_new:
  assumes "db_ok d" and "fmlookup (t_tasks d) i = None"
  shows "childrenOf d i = []"
proof -
  have "filter (\<lambda>e. parent_id e = i) (t_deps d) = []" using assms by (auto simp: db_ok_def filter_empty_conv)
  then show ?thesis by (simp add: childrenOf_def)
qed

lemma childrenOf_append:
  assumes "distinct ps"
  shows "childrenOf (d\<lparr>t_deps := t_deps d @ map (\<lambda>p. \<lparr>child_id = i, parent_id = p, dep_done = f p\<rparr>) ps\<rparr>) q =
    sort (childrenOf d q @ (if q \<in> set ps then [i] else []))"
proof -
  have "map child_id (filter (\<lambda>e. parent_id e = q) (map (\<lambda>p. \<lparr>child_id = i, parent_id = p, dep_done = f p\<rparr>) ps)) =
      (if q \<in> set ps then [i] else [])"
    using assms by (induction ps) auto
  moreover have "sort (xs @ ys) = sort (sort xs @ ys)" for xs ys :: "id list"
    by (rule properties_for_sort [symmetric]) simp_all
  ultimately show ?thesis by (simp add: childrenOf_def del: filter_map)
qed

section \<open>Enqueue\<close>

text \<open>
  Answers agree up to the copy of the byte slices.  A refused duplicate of a business key names an
  execution of that key, which need not be the same one: the tables are ordered by creation time,
  the in-memory broker by the chain of replays.
\<close>

definition err_sim :: "tg_error \<Rightarrow> tg_error \<Rightarrow> bool" where
  "err_sim e e' \<longleftrightarrow> e = e' \<or> (\<exists>key i j st st'. e = TaskExistsError key i st \<and> e' = TaskExistsError key j st')"

definition res_sim :: "tg_error + task \<Rightarrow> tg_error + task \<Rightarrow> bool" where
  "res_sim r r' \<longleftrightarrow>
     (case r of
        Inl e \<Rightarrow> (\<exists>e'. r' = Inl e' \<and> err_sim e e')
      | Inr t \<Rightarrow> r' = Inr (cloneTask t))"

definition stamp_ok :: "time \<Rightarrow> bool" where
  "stamp_ok t \<longleftrightarrow> isZero t \<or> after_epoch t"

definition new_task_ok :: "task \<Rightarrow> bool" where
  "new_task_ok t \<longleftrightarrow> Result t = None \<and> stamp_ok (RunAt t) \<and> stamp_ok (StartedAt t) \<and> stamp_ok (FinishedAt t)"

lemma stamp_ms: "stamp_ok t \<Longrightarrow> fromMS (ms (trunc_ms t)) = trunc_ms t" "stamp_ok t \<Longrightarrow> 0 \<le> ms (trunc_ms t)"
proof -
  assume "stamp_ok t"
  then consider "isZero t" | "after_epoch t" by (auto simp: stamp_ok_def)
  then have "fromMS (ms (trunc_ms t)) = trunc_ms t \<and> 0 \<le> ms (trunc_ms t)"
  proof cases
    case 1
    then show ?thesis by (simp add: isZero_def ms_def)
  next
    case 2
    then have "ms (trunc_ms t) = unixMilli t" using ms_now [of "trunc_ms t"] by simp
    then show ?thesis using fromMS_now [OF 2] 2 by (simp add: after_epoch_def)
  qed
  then show "fromMS (ms (trunc_ms t)) = trunc_ms t" "0 \<le> ms (trunc_ms t)" by blast+
qed

lemma key_tail_None: "key_tail d key = None \<longleftrightarrow> (\<forall>i r. fmlookup (t_tasks d) i = Some r \<longrightarrow> c_business_key r \<noteq> key)"
proof -
  have "key_tail d key = None \<longleftrightarrow> select (\<lambda>_ r. c_business_key r = key) d = []"
    unfolding key_tail_def by (metis (no_types, lifting) list.case_eq_if list.set(1) option.distinct(1) set_empty set_sort)
  then show ?thesis by (simp add: select_Nil)
qed

lemma chain_empty_iff:
  assumes "chains_ok b" and "key \<noteq> ''''"
  shows "chain_of b key = [] \<longleftrightarrow> (\<forall>i r. fmlookup (recs b) i = Some r \<longrightarrow> BusinessKey (task r) \<noteq> key)"
proof
  assume "chain_of b key = []"
  then show "\<forall>i r. fmlookup (recs b) i = Some r \<longrightarrow> BusinessKey (task r) \<noteq> key"
    using chains_okD(2) [OF assms(1)] assms(2) by fastforce
next
  assume none: "\<forall>i r. fmlookup (recs b) i = Some r \<longrightarrow> BusinessKey (task r) \<noteq> key"
  show "chain_of b key = []"
  proof (cases "fmlookup (chains b) key")
    case (Some c)
    from chains_okD(1) [OF assms(1) this] obtain i r where "fmlookup (recs b) i = Some r" "BusinessKey (task r) = key"
      unfolding one_chain_def by (metis last_in_set)
    then show ?thesis using none by blast
  qed (simp add: chain_of_def)
qed

lemma new_row_fields [simp]:
  "c_business_key (new_row t n) = BusinessKey t" "c_replay_of (new_row t n) = ReplayOf t"
  "c_run_at (new_row t n) = ms (RunAt t)" "c_created_at (new_row t n) = ms (CreatedAt t)"
  "c_started_at (new_row t n) = ms (StartedAt t)" "c_cancel_requested (new_row t n) = 0"
  "c_result (new_row t n) = Result t" "c_status (new_row t n) = Status t"
  by (simp_all add: new_row_def)

text \<open>The new row is the new record of the in-memory broker.\<close>

lemma new_row_sim:
  assumes t: "new_task_ok t" and clk: "after_epoch clk" and kids: "childrenOf d i = []"
  shows "abs_rec d i (new_row (enqueue_task i (trunc_ms clk) t pol dec) (d_PendingParents dec)) =
      enqueue_rec i (trunc_ms clk) t pol dec"
    and "row_ok (new_row (enqueue_task i (trunc_ms clk) t pol dec) (d_PendingParents dec))"
    and "cloneTask (enqueue_task i (trunc_ms clk) t pol dec) = cloneTask (task (enqueue_rec i (trunc_ms clk) t pol dec))"
proof -
  have now: "fromMS (ms (trunc_ms clk)) = trunc_ms clk" "0 < ms (trunc_ms clk)"
    using stamp_ms [of clk] clk ms_now [of "trunc_ms clk"] by (simp_all add: stamp_ok_def after_epoch_def)
  have run: "fromMS (ms (trunc_ms (RunAt t))) = trunc_ms (RunAt t)"
    "\<not> isZero (trunc_ms (RunAt t)) \<Longrightarrow> 0 < ms (trunc_ms (RunAt t))"
    using t stamp_ms [of "RunAt t"] ms_now [of "trunc_ms (RunAt t)"]
    by (auto simp: new_task_ok_def stamp_ok_def isZero_def after_epoch_def)
  have st: "fromMS (ms (trunc_ms (StartedAt t))) = trunc_ms (StartedAt t)" "0 \<le> ms (trunc_ms (StartedAt t))"
    "fromMS (ms (trunc_ms (FinishedAt t))) = trunc_ms (FinishedAt t)"
    using t stamp_ms by (simp_all add: new_task_ok_def)
  show "abs_rec d i (new_row (enqueue_task i (trunc_ms clk) t pol dec) (d_PendingParents dec)) =
      enqueue_rec i (trunc_ms clk) t pol dec"
    using now run st kids
    by (cases "isZero (trunc_ms (RunAt t))"; cases "d_Status dec = StatusCanceled")
      (simp_all add: abs_rec_def abs_task_defs new_row_def enqueue_task_def enqueue_rec_def Let_def)
  show "row_ok (new_row (enqueue_task i (trunc_ms clk) t pol dec) (d_PendingParents dec))"
    using now run(2) st(2) t
    by (auto simp: row_ok_def new_row_def enqueue_task_def Let_def new_task_ok_def)
  show "cloneTask (enqueue_task i (trunc_ms clk) t pol dec) = cloneTask (task (enqueue_rec i (trunc_ms clk) t pol dec))"
    by (cases "isZero (trunc_ms (RunAt t))"; cases "d_Status dec = StatusCanceled")
      (simp_all add: cloneTask_def enqueue_task_def enqueue_rec_def Let_def)
qed

definition edges_of :: "id \<Rightarrow> parentState list \<Rightarrow> taskDep list" where
  "edges_of i ps = map (\<lambda>p. \<lparr>child_id = i, parent_id = ps_ID p, dep_done = (if isFinal (ps_Status p) then 1 else 0)\<rparr>) ps"

definition inserted :: "id \<Rightarrow> row \<Rightarrow> parentState list \<Rightarrow> sdb \<Rightarrow> sdb" where
  "inserted i x ps d = d\<lparr>t_tasks := fmupd i x (t_tasks d), t_deps := t_deps d @ edges_of i ps\<rparr>"

lemma edges_of_states:
  "edges_of i (parent_states m ds) =
     map (\<lambda>p. \<lparr>child_id = i, parent_id = p, dep_done = (if isFinal (status_of m p) then 1 else 0)\<rparr>) ds"
  by (simp add: edges_of_def parent_states_def)

lemma inserted_children:
  "childrenOf (inserted i x (parent_states m (dedup_seen [] ds)) d) q = sort (childrenOf d q @ (if q \<in> set ds then [i] else []))"
proof -
  have "childrenOf (inserted i x (parent_states m (dedup_seen [] ds)) d) q =
      childrenOf (d\<lparr>t_deps := t_deps d @ edges_of i (parent_states m (dedup_seen [] ds))\<rparr>) q"
    by (simp add: childrenOf_def inserted_def)
  then show ?thesis using childrenOf_append [OF dedup_seen_distinct, of d i _ "[]" ds q] by (simp add: edges_of_states)
qed

text \<open>Adding a row with its edges is adding a record, up to the order of the children.\<close>

lemma inserted_abs:
  assumes ok: "db_ok d" "fmlookup (t_tasks d) i = None" "\<forall>q \<in> set ds. fmlookup (t_tasks d) q \<noteq> None"
    and r: "fits i r (abs_store d)" "DependsOn (task r) = ds" "abs_rec d i x = r" and x: "row_ok x"
  shows "abs_store (inserted i x (parent_states m (dedup_seen [] ds)) d) = fmmap sorted_rec (insert_store i r (abs_store d))"
    and "db_ok (inserted i x (parent_states m (dedup_seen [] ds)) d)"
proof -
  let ?d = "inserted i x (parent_states m (dedup_seen [] ds)) d"
  have kids: "childrenOf ?d q = sort (childrenOf d q @ (if q \<in> set ds then [i] else []))" for q by (rule inserted_children)
  have old: "abs_rec ?d q y = sorted_rec (if q \<in> set ds then (abs_rec d q y)\<lparr>children := childrenOf d q @ [i]\<rparr> else abs_rec d q y)" for q y
    by (simp add: abs_rec_def kids sorted_rec_def)
  have "i \<notin> set ds" using ok(2,3) by auto
  then have new: "abs_rec ?d i x = sorted_rec r" using r(3) by (simp add: old)
  show "abs_store ?d = fmmap sorted_rec (insert_store i r (abs_store d))"
  proof (rule fmap_ext)
    fix k
    have "fmlookup (abs_store ?d) k = map_option (abs_rec ?d k) (if k = i then Some x else fmlookup (t_tasks d) k)"
      by (simp add: inserted_def)
    also have "\<dots> = fmlookup (fmmap sorted_rec (insert_store i r (abs_store d))) k"
      using new by (auto simp: insert_lookup [OF r(1)] r(2) old option.map_comp o_def intro!: option.map_cong)
    finally show "fmlookup (abs_store ?d) k = fmlookup (fmmap sorted_rec (insert_store i r (abs_store d))) k" .
  qed
  show "db_ok ?d" using ok x by (auto simp: db_ok_def inserted_def edges_of_states)
qed

lemma enqueue_tx_ok:
  assumes ok: "db_ok d" "graph_ok (abs_store d)"
    and key: "BusinessKey t = '''' \<or> key_tail d (BusinessKey t) = None" and replay: "ReplayOf t = ''''"
    and i: "fmlookup (t_tasks d) (enq_id fresh t) = None"
    and ps: "sq_parents d [] (DependsOn t) = Inr ps" "ps = parent_states (abs_store d) (dedup_seen [] (DependsOn t))"
  shows "enqueue_tx drv fresh clk t d =
    (let dec = DecideOnSubmit ps (enq_policy t); st = enqueue_task (enq_id fresh t) (trunc_ms clk) t (enq_policy t) dec
     in Inr (inserted (enq_id fresh t) (new_row st (d_PendingParents dec)) ps d, st))"
proof -
  let ?i = "enq_id fresh t" and ?dec = "DecideOnSubmit ps (enq_policy t)"
  let ?st = "enqueue_task ?i (trunc_ms clk) t (enq_policy t) ?dec"
  let ?x = "new_row ?st (d_PendingParents ?dec)"
  have st: "BusinessKey ?st = BusinessKey t" "ReplayOf ?st = ''''" by (simp_all add: enqueue_task_def Let_def replay)
  have none: "(if BusinessKey t = '''' then None else key_tail d (BusinessKey t)) = None" using key by auto
  have "select (\<lambda>j x. c_business_key x = BusinessKey t \<and> c_replay_of x = '''') d = [] \<or> BusinessKey t = ''''"
    using key by (auto simp: select_Nil key_tail_None)
  then have ins: "insert_row ?i ?x d = Inr (d\<lparr>t_tasks := fmupd ?i ?x (t_tasks d)\<rparr>)"
    using i st by (auto simp: insert_row_def)
  have "child_id e \<noteq> ?i" if "e \<in> set (t_deps d)" for e using edge_exists(1) [OF ok that] i by auto
  moreover have "distinct (map ps_ID ps)" by (simp add: ps(2) dedup_seen_distinct)
  ultimately have "insert_deps ?i ps (d\<lparr>t_tasks := fmupd ?i ?x (t_tasks d)\<rparr>) = Inr (inserted ?i ?x ps d)"
    using insert_deps_ok [of ps "d\<lparr>t_tasks := fmupd ?i ?x (t_tasks d)\<rparr>" ?i]
    by (simp add: inserted_def edges_of_def)
  moreover have "ID t = '''' \<or> fmlookup (t_tasks d) (ID t) = None" using i by (auto simp: enq_id_def split: if_splits)
  ultimately show ?thesis using none ins ps(1)
    by (simp add: enqueue_tx_def Let_def enq_id_def enq_policy_def)
qed

lemma parents_found:
  assumes "\<forall>q \<in> set ds. fmlookup (t_tasks d) q \<noteq> None"
  shows "sq_parents d [] ds = Inr (parent_states (abs_store d) (dedup_seen [] ds))"
    and "DecideOnSubmit (parent_states (abs_store d) (dedup_seen [] ds)) pol = DecideOnSubmit (parent_states (abs_store d) ds) pol"
proof -
  have "List.find (\<lambda>q. fmlookup (t_tasks d) q = None) (dedup_seen [] ds) = None"
    using assms unfolding find_None_iff by simp
  then show eq: "sq_parents d [] ds = Inr (parent_states (abs_store d) (dedup_seen [] ds))" by (simp add: sq_parents_eq)
  show "DecideOnSubmit (parent_states (abs_store d) (dedup_seen [] ds)) pol = DecideOnSubmit (parent_states (abs_store d) ds) pol"
    using parents_sim [of d ds pol] by (simp add: eq)
qed

lemma key_chain:
  assumes "recs b = abs_store d" "chains_ok b" "key \<noteq> ''''"
  shows "chain_of b key = [] \<longleftrightarrow> key_tail d key = None"
proof -
  have "(\<exists>r. fmlookup (recs b) i = Some r \<and> BusinessKey (task r) = key) \<longleftrightarrow>
      (\<exists>x. fmlookup (t_tasks d) i = Some x \<and> c_business_key x = key)" for i
    by (auto simp: assms(1))
  then show ?thesis unfolding chain_empty_iff [OF assms(2,3)] key_tail_None by blast
qed

lemma enqueue_tx_error:
  assumes v: "recs b = abs_store d" "chains_ok b"
    and bad: "\<not> ((BusinessKey t = '''' \<or> key_tail d (BusinessKey t) = None) \<and>
      (ID t = '''' \<or> fmlookup (t_tasks d) (ID t) = None) \<and> (\<forall>q \<in> set (DependsOn t). fmlookup (t_tasks d) q \<noteq> None))"
    and g: "mem_requireInit b = None" "ReplayOf t = ''''"
  shows "\<exists>e e'. enqueue_tx drv fresh clk t d = Inl e \<and> mem_Enqueue fresh clk t b = (b, [], Inl e') \<and> err_sim e e'"
proof (cases "BusinessKey t = '''' \<or> key_tail d (BusinessKey t) = None")
  case False
  then obtain tail where tail: "key_tail d (BusinessKey t) = Some tail" by auto
  have ne: "chain_of b (BusinessKey t) \<noteq> []" using False key_chain [OF v, of "BusinessKey t"] by simp
  then obtain c where c: "fmlookup (chains b) (BusinessKey t) = Some c" "chain_of b (BusinessKey t) = c"
    by (auto simp: chain_of_def split: option.splits)
  then obtain r where "fmlookup (recs b) (last c) = Some r"
    using chains_okD(1) [OF v(2) c(1)] ne unfolding one_chain_def by (metis last_in_set)
  then show ?thesis using False tail g ne c(2) by (auto simp: enqueue_tx_def mem_Enqueue_def err_sim_def)
next
  case True
  then have key: "BusinessKey t = '''' \<or> chain_of b (BusinessKey t) = []"
    using key_chain [OF v, of "BusinessKey t"] by auto
  have none: "(if BusinessKey t = '''' then None else key_tail d (BusinessKey t)) = None" using True by auto
  show ?thesis
  proof (cases "ID t = '''' \<or> fmlookup (t_tasks d) (ID t) = None")
    case False
    then show ?thesis using none key g by (auto simp: enqueue_tx_def mem_Enqueue_def err_sim_def v(1))
  next
    case id: True
    then have "\<not> (\<forall>q \<in> set (DependsOn t). fmlookup (t_tasks d) q \<noteq> None)" using bad True by blast
    then obtain e where e: "sq_parents d [] (DependsOn t) = Inl e"
      using parents_sim [of d "DependsOn t" FailFast] by (cases "sq_parents d [] (DependsOn t)") auto
    then have "mem_parents (recs b) (DependsOn t) = Inl e" using parents_sim [of d "DependsOn t" FailFast] by (simp add: v(1))
    then show ?thesis using none key g id e by (auto simp: enqueue_tx_def mem_Enqueue_def err_sim_def v(1) Let_def)
  qed
qed

lemma Enqueue_sim:
  assumes v: "sview s b" "db_ok (sp_db s)" and inv: "minv b" and fr: "fresh_id fresh b" and clk: "after_epoch clk"
    and t: "new_task_ok t" and step: "sq_Enqueue drv None fresh clk t s = (s', ns, res)"
  shows "\<exists>b' ns' res'. mem_Enqueue fresh clk t b = (b', ns', res') \<and> sim s' ns (sort_children b') ns' \<and> res_sim res res'"
proof (cases "mem_requireInit b = None \<and> ReplayOf t = ''''")
  case False
  then show ?thesis using step requireInit_sim [OF v(1)] v sort_children_id [OF v(1)]
    by (auto simp: sq_Enqueue_def mem_Enqueue_def sim_def res_sim_def err_sim_def split: option.splits)
next
  case True
  then have g: "mem_requireInit b = None" "sq_requireInit s = None" "ReplayOf t = ''''" using requireInit_sim [OF v(1)] by auto
  let ?d = "sp_db s" and ?i = "enq_id fresh t"
  have recs: "recs b = abs_store ?d" using v(1) by (simp add: sview_def)
  show ?thesis
  proof (cases "(BusinessKey t = '''' \<or> key_tail ?d (BusinessKey t) = None) \<and>
      (ID t = '''' \<or> fmlookup (t_tasks ?d) (ID t) = None) \<and> (\<forall>q \<in> set (DependsOn t). fmlookup (t_tasks ?d) q \<noteq> None)")
    case False
    from enqueue_tx_error [OF recs minvD(5) [OF inv] False g(1,3), of drv fresh clk] step g v sort_children_id [OF v(1)]
    show ?thesis by (auto simp: sq_Enqueue_def withTx_def sim_def res_sim_def)
  next
    case ok: True
    have i: "fmlookup (t_tasks ?d) ?i = None" "?i \<noteq> ''''"
      using ok fr by (auto simp: enq_id_def fresh_id_def recs)
    let ?ps = "parent_states (abs_store ?d) (dedup_seen [] (DependsOn t))"
    let ?dec = "DecideOnSubmit ?ps (enq_policy t)"
    let ?st = "enqueue_task ?i (trunc_ms clk) t (enq_policy t) ?dec"
    let ?x = "new_row ?st (d_PendingParents ?dec)"
    have ps: "sq_parents ?d [] (DependsOn t) = Inr ?ps" "?dec = DecideOnSubmit (parent_states (abs_store ?d) (DependsOn t)) (enq_policy t)"
      using parents_found [of "DependsOn t" ?d] ok by simp_all
    have tx: "enqueue_tx drv fresh clk t ?d = Inr (inserted ?i ?x ?ps ?d, ?st)"
      using enqueue_tx_ok [OF v(2) _ _ g(3) i(1) ps(1) refl, of drv clk] ok minvD(1) [OF inv] by (simp add: recs Let_def)
    have rec: "enq_rec ?i (trunc_ms clk) t (recs b) = enqueue_rec ?i (trunc_ms clk) t (enq_policy t) ?dec"
      by (simp add: enq_rec_def recs ps(2))
    note new = new_row_sim [OF t clk childrenOf_new [OF v(2) i(1)], of "enq_policy t" ?dec]
    have fits: "fits ?i (enqueue_rec ?i (trunc_ms clk) t (enq_policy t) ?dec) (abs_store ?d)"
      using i ok by (simp add: fits_def)
    have key: "BusinessKey t = '''' \<or> chain_of b (BusinessKey t) = []"
      using ok key_chain [OF recs minvD(5) [OF inv], of "BusinessKey t"] by auto
    have mem: "mem_Enqueue fresh clk t b =
        (enqueued ?i (trunc_ms clk) t b, [cloneTask ?st], Inr (cloneTask ?st))"
      using Enqueue_ok [OF g(1,3) key, of fresh clk] ok new(3) by (simp add: recs rec [unfolded recs] Let_def)
    have "abs_store (inserted ?i ?x ?ps ?d) = fmmap sorted_rec (insert_store ?i (enqueue_rec ?i (trunc_ms clk) t (enq_policy t) ?dec) (recs b))"
      "db_ok (inserted ?i ?x ?ps ?d)"
      using inserted_abs [OF v(2) i(1) _ fits _ new(1,2)] ok by (simp_all add: recs)
    moreover have "s' = wakeAll (s\<lparr>sp_db := inserted ?i ?x ?ps ?d\<rparr>)" "ns = [?st]" "res = Inr ?st"
      using step g tx by (simp_all add: sq_Enqueue_def withTx_def)
    ultimately show ?thesis using mem v
      by (simp add: sim_def sview_def wakeAll_def sort_children_def enqueued_def mem_broadcast_def push_chain_def rec Let_def res_sim_def)
  qed
qed

section \<open>Replay\<close>

lemma graph_key: "graph_ok m \<Longrightarrow> fmlookup m k = Some r \<Longrightarrow> k \<noteq> ''''"
  unfolding graph_ok_def by blast

lemma replayed_rows:
  assumes "recs b = abs_store d" "replay_ok b" "k \<noteq> ''''"
  shows "is_replayed (replayed b) k \<longleftrightarrow> select (\<lambda>_ c. c_replay_of c = k) d \<noteq> []"
proof -
  have "(\<exists>r. fmlookup (recs b) i = Some r \<and> ReplayOf (task r) = k) \<longleftrightarrow>
      (\<exists>x. fmlookup (t_tasks d) i = Some x \<and> c_replay_of x = k)" for i
    by (auto simp: assms(1))
  moreover have "is_replayed (replayed b) k = (\<exists>i r. fmlookup (recs b) i = Some r \<and> ReplayOf (task r) = k)"
    using assms(2,3) by (simp add: replay_ok_def)
  ultimately show ?thesis unfolding select_Nil by blast
qed

text \<open>The row of a key that nothing replays is the end of its chain.\<close>

lemma chain_tail_row:
  assumes v: "recs b = abs_store d" and inv: "minv b" "replay_ok b" and key: "key \<noteq> ''''"
    and i: "i \<in> set (select (\<lambda>j r. c_business_key r = key \<and> select (\<lambda>_ c. c_replay_of c = j) d = []) d)"
  shows "chain_of b key \<noteq> [] \<and> i = last (chain_of b key)"
proof -
  obtain x where x: "fmlookup (t_tasks d) i = Some x" "c_business_key x = key" "select (\<lambda>_ c. c_replay_of c = i) d = []"
    using i by auto
  have rec: "fmlookup (recs b) i = Some (abs_rec d i x)" using x(1) by (simp add: v)
  then have ne: "i \<noteq> ''''" by (rule graph_key [OF minvD(1) [OF inv(1)]])
  have mem: "i \<in> set (chain_of b key)" using chains_okD(2) [OF minvD(5) [OF inv(1)] rec] x(2) key by simp
  then obtain c where c: "fmlookup (chains b) key = Some c" "chain_of b key = c"
    by (cases "fmlookup (chains b) key") (auto simp: chain_of_def)
  have "\<not> is_replayed (replayed b) i" using replayed_rows [OF v inv(2) ne] x(3) by simp
  then have "i \<notin> set (butlast c)" using chains_okD(1) [OF minvD(5) [OF inv(1)] c(1)] by (auto simp: one_chain_def)
  then show ?thesis using mem c(2) by (metis set_butlast_last empty_iff insertE list.set(1))
qed

lemma chain_tail_selected:
  assumes v: "recs b = abs_store d" and inv: "minv b" "replay_ok b" and ne: "chain_of b key \<noteq> []"
  shows "last (chain_of b key) \<in> set (select (\<lambda>j r. c_business_key r = key \<and> select (\<lambda>_ c. c_replay_of c = j) d = []) d)"
proof -
  obtain c where c: "fmlookup (chains b) key = Some c" "chain_of b key = c"
    using ne by (auto simp: chain_of_def split: option.splits)
  note ok = chains_okD(1) [OF minvD(5) [OF inv(1)] c(1)]
  then obtain r where r: "fmlookup (recs b) (last c) = Some r" "BusinessKey (task r) = key"
    unfolding one_chain_def by (metis last_in_set)
  then obtain x where x: "fmlookup (t_tasks d) (last c) = Some x" "r = abs_rec d (last c) x" by (auto simp: v)
  have "last c \<noteq> ''''" using r(1) by (rule graph_key [OF minvD(1) [OF inv(1)]])
  then have "select (\<lambda>_ z. c_replay_of z = last c) d = []"
    using ok replayed_rows [OF v inv(2)] by (auto simp: one_chain_def)
  then show ?thesis using x r(2) c(2) by simp
qed

lemma replay_target_sim:
  assumes v: "recs b = abs_store d" and inv: "minv b" "replay_ok b" and xs: "range_order xs (recs b)"
    and one: "(rq_ExecutionID req = '''') \<noteq> (rq_BusinessKey req = '''')"
  shows "case sq_replay_target xs req d of
      Inl e \<Rightarrow> replay_target req b = Inl e
    | Inr r \<Rightarrow> \<exists>i x. fmlookup (t_tasks d) i = Some x \<and> r = scanRec i x \<and> replay_target req b = Inr (abs_rec d i x)"
proof (cases "rq_ExecutionID req = ''''")
  case False
  then show ?thesis by (cases "fmlookup (t_tasks d) (rq_ExecutionID req)")
      (auto simp: sq_replay_target_def replay_target_def getRec_def v)
next
  case True
  let ?key = "rq_BusinessKey req"
  let ?sel = "select (\<lambda>j r. c_business_key r = ?key \<and> select (\<lambda>_ c. c_replay_of c = j) d = []) d"
  have key: "?key \<noteq> ''''" using True one by simp
  show ?thesis
  proof (cases "chain_of b ?key = []")
    case empty: True
    then have "filter (\<lambda>i. i \<in> set ?sel) xs = []"
      using chain_tail_row [OF v inv key] by (auto simp: filter_empty_conv)
    then show ?thesis using True empty by (simp add: sq_replay_target_def replay_target_def)
  next
    case False
    let ?l = "last (chain_of b ?key)"
    have sel: "?l \<in> set ?sel" by (rule chain_tail_selected [OF v inv False])
    then obtain x where x: "fmlookup (t_tasks d) ?l = Some x" by auto
    have "?l \<in> set xs" using range_order_in [OF xs] x by (auto simp: v)
    then have "?l \<in> set (filter (\<lambda>i. i \<in> set ?sel) xs)" using sel by (simp del: select_iff)
    then obtain j js where f: "filter (\<lambda>i. i \<in> set ?sel) xs = j # js" by (metis list.exhaust list.set(1) empty_iff)
    then have "j \<in> set ?sel" by (metis (no_types, lifting) filter_eq_ConsD)
    then have "j = ?l" using chain_tail_row [OF v inv key] by blast
    then have "sq_replay_target xs req d = Inr (scanRec ?l x)" "replay_target req b = Inr (abs_rec d ?l x)"
      using f True False x by (simp_all add: sq_replay_target_def replay_target_def getRec_def v del: select_iff)
    then show ?thesis using x by auto
  qed
qed

lemma replay_row_sim:
  assumes clk: "after_epoch clk" and kids: "childrenOf d i = []"
    and p: "payload = (if rq_Payload req = None then c_payload x else rq_Payload req)"
  shows "abs_rec d i (new_row (sq_replay_task i (trunc_ms clk) payload (sr_task (scanRec k x))) 0) =
      replay_rec i (trunc_ms clk) req (abs_task k x)"
    and "row_ok (new_row (sq_replay_task i (trunc_ms clk) payload (sr_task (scanRec k x))) 0)"
    and "cloneTask (sq_replay_task i (trunc_ms clk) payload (sr_task (scanRec k x))) =
      cloneTask (task (replay_rec i (trunc_ms clk) req (abs_task k x)))"
proof -
  have now: "fromMS (ms (trunc_ms clk)) = trunc_ms clk" "0 < ms (trunc_ms clk)"
    using stamp_ms [of clk] clk ms_now [of "trunc_ms clk"] by (simp_all add: stamp_ok_def after_epoch_def)
  have z: "ms zero_time = 0" by (simp add: ms_def isZero_def)
  show "abs_rec d i (new_row (sq_replay_task i (trunc_ms clk) payload (sr_task (scanRec k x))) 0) =
      replay_rec i (trunc_ms clk) req (abs_task k x)"
    using now kids by (simp add: abs_rec_def abs_task_defs new_row_def sq_replay_task_def replay_rec_def replay_task_def p z)
  show "row_ok (new_row (sq_replay_task i (trunc_ms clk) payload (sr_task (scanRec k x))) 0)"
    using now by (simp add: row_ok_def new_row_def sq_replay_task_def z)
  show "cloneTask (sq_replay_task i (trunc_ms clk) payload (sr_task (scanRec k x))) =
      cloneTask (task (replay_rec i (trunc_ms clk) req (abs_task k x)))"
    by (simp add: cloneTask_def sq_replay_task_def replay_rec_def replay_task_def abs_task_def scanRec_def p)
qed

lemma Replay_sim:
  assumes v: "sview s b" "db_ok (sp_db s)" and inv: "minv b" "replay_ok b" and fr: "fresh_id fresh b" and clk: "after_epoch clk"
    and xs: "range_order xs (recs b)" and step: "sq_Replay drv None xs fresh clk req s = (s', ns, res)"
  shows "\<exists>b' ns' res'. mem_Replay fresh clk req b = (b', ns', res') \<and> sim s' ns (sort_children b') ns' \<and> res_sim res res'"
proof (cases "mem_requireInit b = None \<and> (rq_ExecutionID req = '''') \<noteq> (rq_BusinessKey req = '''')")
  case False
  then show ?thesis using step requireInit_sim [OF v(1)] v sort_children_id [OF v(1)]
    by (auto simp: sq_Replay_def mem_Replay_def sim_def res_sim_def err_sim_def split: option.splits)
next
  case True
  then have g: "mem_requireInit b = None" "sq_requireInit s = None" "(rq_ExecutionID req = '''') \<noteq> (rq_BusinessKey req = '''')"
    using requireInit_sim [OF v(1)] by auto
  let ?d = "sp_db s"
  have recs: "recs b = abs_store ?d" using v(1) by (simp add: sview_def)
  note tgt = replay_target_sim [OF recs inv xs g(3)]
  have refuse: ?thesis if "replay_tx drv xs fresh clk req ?d = Inl e" "mem_Replay fresh clk req b = (b, [], Inl e)" for e
    using that step g v sort_children_id [OF v(1)] by (auto simp: sq_Replay_def withTx_def sim_def res_sim_def err_sim_def)
  show ?thesis
  proof (cases "sq_replay_target xs req ?d")
    case (Inl e)
    then have "replay_target req b = Inl e" using tgt by simp
    then show ?thesis using Inl g by (intro refuse [of e]) (simp_all add: replay_tx_def mem_Replay_def)
  next
    case (Inr r)
    then obtain k x where x: "fmlookup (t_tasks ?d) k = Some x" "r = scanRec k x" "replay_target req b = Inr (abs_rec ?d k x)"
      using tgt by auto
    have "fmlookup (recs b) k = Some (abs_rec ?d k x)" using x(1) by (simp add: recs)
    then have k: "k \<noteq> ''''" by (rule graph_key [OF minvD(1) [OF inv(1)]])
    have rp: "fmlookup (replayed b) k = Some True \<longleftrightarrow> select (\<lambda>_ c. c_replay_of c = k) ?d \<noteq> []"
      using replayed_rows [OF recs inv(2) k] by (simp add: is_replayed_def)
    show ?thesis
    proof (cases "replayable req b (task (abs_rec ?d k x))")
      case False
      then consider "\<not> isFinal (c_status x)" | "isFinal (c_status x)" "fmlookup (replayed b) k = Some True"
        | "isFinal (c_status x)" "fmlookup (replayed b) k \<noteq> Some True" "c_status x = StatusCompleted" "\<not> rq_AllowCompleted req"
        by (auto simp: replayable_def is_replayed_def)
      then show ?thesis
      proof cases
        case 1
        then show ?thesis using Inr x g by (intro refuse) (simp_all add: replay_tx_def mem_Replay_def Let_def)
      next
        case 2
        then show ?thesis using Inr x g rp by (intro refuse) (simp_all add: replay_tx_def mem_Replay_def Let_def)
      next
        case 3
        then show ?thesis using Inr x g rp by (intro refuse) (simp_all add: replay_tx_def mem_Replay_def Let_def)
      qed
    next
      case ok: True
      let ?p = "if rq_Payload req = None then c_payload x else rq_Payload req"
      let ?st = "sq_replay_task fresh (trunc_ms clk) ?p (sr_task (scanRec k x))"
      let ?r = "replay_rec fresh (trunc_ms clk) req (abs_task k x)"
      have i: "fmlookup (t_tasks ?d) fresh = None" "fresh \<noteq> ''''" using fr by (auto simp: fresh_id_def recs)
      note new = replay_row_sim [OF clk childrenOf_new [OF v(2) i(1)] refl, of req x k]
      have "select (\<lambda>_ c. c_replay_of c = k) ?d = []" using ok rp by (auto simp: replayable_def is_replayed_def)
      then have tx: "replay_tx drv xs fresh clk req ?d = Inr (?d\<lparr>t_tasks := fmupd fresh (new_row ?st 0) (t_tasks ?d)\<rparr>, ?st)"
        using ok Inr x(2) i k
        by (auto simp: replay_tx_def Let_def replayable_def insert_row_def sq_replay_task_def)
      have ins: "inserted fresh (new_row ?st 0) (parent_states (abs_store ?d) (dedup_seen [] [])) ?d =
          ?d\<lparr>t_tasks := fmupd fresh (new_row ?st 0) (t_tasks ?d)\<rparr>"
        by (simp add: inserted_def edges_of_def parent_states_def)
      have fits: "fits fresh ?r (abs_store ?d)" using i by (simp add: fits_def) (simp add: replay_rec_def)
      have ab: "abs_store (?d\<lparr>t_tasks := fmupd fresh (new_row ?st 0) (t_tasks ?d)\<rparr>) = fmmap sorted_rec (insert_store fresh ?r (abs_store ?d))"
        "db_ok (?d\<lparr>t_tasks := fmupd fresh (new_row ?st 0) (t_tasks ?d)\<rparr>)"
        using inserted_abs [OF v(2) i(1) _ fits _ new(1,2), of "[]" "abs_store ?d"] by (simp_all only: ins) simp_all
      have mem: "mem_Replay fresh clk req b = (replayed_broker fresh (trunc_ms clk) req (abs_task k x) b, [cloneTask ?st], Inr (cloneTask ?st))"
        using Replay_ok [OF g(1,3) x(3) ok, of fresh clk] new(3) by (simp add: Let_def task_abs)
      have "s' = wakeAll (s\<lparr>sp_db := ?d\<lparr>t_tasks := fmupd fresh (new_row ?st 0) (t_tasks ?d)\<rparr>\<rparr>)" "ns = [?st]" "res = Inr ?st"
        using step g tx by (simp_all add: sq_Replay_def withTx_def)
      then show ?thesis using mem ab v
        by (simp add: sim_def sview_def wakeAll_def sort_children_def replayed_broker_def mem_broadcast_def push_chain_def recs res_sim_def)
    qed
  qed
qed

text \<open>Both insertions keep the index of replayed tasks exact.\<close>

lemma insert_replay_ex:
  assumes f: "fits i r m"
  shows "(\<exists>j s. fmlookup (insert_store i r m) j = Some s \<and> ReplayOf (task s) = k) \<longleftrightarrow>
    ReplayOf (task r) = k \<or> (\<exists>j s. fmlookup m j = Some s \<and> ReplayOf (task s) = k)" (is "?l \<longleftrightarrow> ?r")
proof
  assume ?l
  then obtain j s where s: "fmlookup (insert_store i r m) j = Some s" "ReplayOf (task s) = k" by blast
  show ?r
  proof (cases "j = i")
    case True
    then show ?thesis using s insert_lookup [OF f, of i] by simp
  next
    case False
    then show ?thesis using insert_lookup_back [OF f s(1)] s(2) by fastforce
  qed
next
  assume ?r
  then show ?l
  proof
    assume "ReplayOf (task r) = k"
    then show ?l using insert_lookup [OF f, of i] by (metis (full_types))
  next
    assume "\<exists>j s. fmlookup m j = Some s \<and> ReplayOf (task s) = k"
    then obtain j s where s: "fmlookup m j = Some s" "ReplayOf (task s) = k" by blast
    then show ?l using insert_lookup_old [OF f s(1)] by fastforce
  qed
qed

lemma replay_ok_Enqueue:
  assumes "replay_ok b" and fr: "fresh_id fresh b" and step: "mem_Enqueue fresh clk t b = (b', ns, res)"
  shows "replay_ok b'"
proof (cases "mem_requireInit b = None \<and> ReplayOf t = '''' \<and>
      (BusinessKey t = '''' \<or> chain_of b (BusinessKey t) = []) \<and>
      (ID t = '''' \<or> fmlookup (recs b) (ID t) = None) \<and>
      (\<forall>q \<in> set (DependsOn t). fmlookup (recs b) q \<noteq> None)")
  case False
  then show ?thesis using Enqueue_error [OF False, of fresh clk] step assms(1) by auto
next
  case True
  let ?i = "enq_id fresh t" and ?r = "enq_rec (enq_id fresh t) (trunc_ms clk) t (recs b)"
  have b': "recs b' = insert_store ?i ?r (recs b)" "replayed b' = replayed b"
    using True step Enqueue_ok [of b t fresh clk]
    by (auto simp: Let_def enqueued_def mem_broadcast_def push_chain_def)
  have f: "fits ?i ?r (recs b)" using True fr by (auto simp: fits_def enq_rec_def enq_id_def fresh_id_def)
  have "ReplayOf (task ?r) = ''''" using True by (simp add: enq_rec_def)
  then show ?thesis using assms(1) unfolding replay_ok_def b' insert_replay_ex [OF f] by simp
qed

lemma replay_ok_Replay:
  assumes "replay_ok b" and fr: "fresh_id fresh b" and step: "mem_Replay fresh clk req b = (b', ns, res)"
  shows "replay_ok b'"
proof (cases "mem_requireInit b = None \<and> (rq_ExecutionID req = '''') \<noteq> (rq_BusinessKey req = '''') \<and>
    (\<exists>r. replay_target req b = Inr r \<and> replayable req b (task r))")
  case False
  then show ?thesis using Replay_error [OF False, of fresh clk] step assms(1) by auto
next
  case True
  then obtain r where r: "replay_target req b = Inr r" "replayable req b (task r)" by blast
  let ?r = "replay_rec fresh (trunc_ms clk) req (task r)"
  have b': "recs b' = insert_store fresh ?r (recs b)" "replayed b' = fmupd (ID (task r)) True (replayed b)"
    using True r step Replay_ok [of b req r fresh clk]
    by (auto simp: Let_def replayed_broker_def mem_broadcast_def push_chain_def)
  have f: "fits fresh ?r (recs b)" using fr by (simp add: fits_def fresh_id_def) (simp add: replay_rec_def)
  show ?thesis using assms(1) unfolding replay_ok_def b' insert_replay_ex [OF f] by (simp add: is_replayed_def)
qed

end
