(* ===== verification/Sqlite_Reap.thy ===== *)
theory Sqlite_Reap
  imports Sqlite_Insert
begin

text \<open>
  The reaper of the sqlite back end refines the one of the in-memory broker.  The in-memory broker
  visits the expired tasks one by one: it ends the lease and tells the children before it goes on.
  The statements of sqlite end all the leases first and tell the children afterwards.  The two
  orders agree because telling the children of one expired task never touches another
  running task: a running task has no unfinished parent.
\<close>

section \<open>Propagation leaves running tasks alone\<close>

definition agree :: "id set \<Rightarrow> store \<Rightarrow> store \<Rightarrow> bool" where
  "agree S m m2 \<longleftrightarrow> (\<forall>k. k \<notin> S \<longrightarrow> fmlookup m2 k = fmlookup m k)"

text \<open>Nothing the propagation can still visit is in \<open>S\<close>.\<close>

definition avoid :: "id set \<Rightarrow> store \<Rightarrow> id list \<Rightarrow> bool" where
  "avoid S m work \<longleftrightarrow> set work \<inter> S = {} \<and>
     (\<forall>k r. fmlookup m k = Some r \<longrightarrow> k \<in> set work \<or> \<not> isFinal (Status (task r)) \<longrightarrow> set (children r) \<inter> S = {})"

lemma propagate_child_local:
  assumes "fmlookup m2 p = fmlookup m p" "fmlookup m2 c = fmlookup m c"
    and "propagate_child now p c (m, ns, work) = (m', ns', work')"
  shows "\<exists>m2'. propagate_child now p c (m2, ns, work) = (m2', ns', work') \<and>
    fmlookup m2' c = fmlookup m' c \<and> (\<forall>k. k \<noteq> c \<longrightarrow> fmlookup m2' k = fmlookup m2 k \<and> fmlookup m' k = fmlookup m k)"
  using assms
  by (cases "fmlookup m p"; cases "fmlookup m c")
    (auto simp: propagate_child_def Let_def split: prod.splits childAction.splits sum.splits if_splits)

lemma propagate_child_avoid:
  assumes av: "avoid S m (p # work)" and c: "c \<notin> S" and step: "propagate_child now p c (m, ns, work) = (m', ns', work')"
  shows "avoid S m' (p # work')"
proof (cases "fmlookup m p = None \<or> fmlookup m c = None")
  case True
  then show ?thesis using step av propagate_child_missing [of m p c now ns work] by auto
next
  case False
  then obtain pr cr where pr: "fmlookup m p = Some pr" and cr: "fmlookup m c = Some cr" by auto
  have kids: "set (children cr) \<inter> S = {}" if "\<not> isFinal (Status (task cr))" using av cr that unfolding avoid_def by blast
  have upd: "avoid S (fmupd c x m) (p # work)" "avoid S (fmupd c x m) (p # work @ [c])"
    if "children x = children cr" "\<not> isFinal (Status (task cr))" for x
    using av c cr kids that unfolding avoid_def by (auto split: if_splits)
  from pr cr show ?thesis
  proof (cases rule: propagate_child_cases [where now = now and ns = ns and work = work])
    case skip
    then show ?thesis using step av by simp
  next
    case (wake c')
    then show ?thesis using step upd(1) [of c'] by auto
  next
    case (count n)
    then show ?thesis using step upd(1) [of "cr\<lparr>pendingParents := n\<rparr>"] by auto
  next
    case flag
    then show ?thesis using step upd(1) [of "cr\<lparr>cancelRequested := True\<rparr>"] by auto
  next
    case (cancel c')
    then have "children c' = children cr" by (simp add: canceled_child_def)
    then show ?thesis using step cancel(3,6) upd(2) [of c'] by auto
  qed
qed

lemma propagate_fold_frame:
  assumes "avoid S m (p # work)" "agree S m m2" "set cs \<inter> S = {}"
    and "fold (propagate_child now p) cs (m, ns, work) = (m', ns', work')"
  shows "\<exists>m2'. fold (propagate_child now p) cs (m2, ns, work) = (m2', ns', work') \<and> agree S m' m2' \<and>
    avoid S m' (p # work') \<and> (\<forall>k \<in> S. fmlookup m2' k = fmlookup m2 k)"
  using assms
proof (induction cs arbitrary: m m2 ns work)
  case (Cons c cs)
  obtain m1 ns1 work1 where one: "propagate_child now p c (m, ns, work) = (m1, ns1, work1)"
    by (cases "propagate_child now p c (m, ns, work)")
  have c: "c \<notin> S" "p \<notin> S" using Cons.prems(1,3) by (auto simp: avoid_def)
  then have eq: "fmlookup m2 p = fmlookup m p" "fmlookup m2 c = fmlookup m c" using Cons.prems(2) by (simp_all add: agree_def)
  obtain m21 where m21: "propagate_child now p c (m2, ns, work) = (m21, ns1, work1)" "fmlookup m21 c = fmlookup m1 c"
    "\<And>k. k \<noteq> c \<Longrightarrow> fmlookup m21 k = fmlookup m2 k \<and> fmlookup m1 k = fmlookup m k"
    using propagate_child_local [OF eq one] by blast
  have "agree S m1 m21"
    unfolding agree_def
  proof (intro allI impI)
    fix k assume "k \<notin> S"
    then show "fmlookup m21 k = fmlookup m1 k"
      using m21(2) m21(3) [of k] Cons.prems(2) by (cases "k = c") (auto simp: agree_def)
  qed
  then obtain m2' where m2': "fold (propagate_child now p) cs (m21, ns1, work1) = (m2', ns', work')"
    "agree S m' m2'" "avoid S m' (p # work')" "\<forall>k \<in> S. fmlookup m2' k = fmlookup m21 k"
    using Cons.IH [OF propagate_child_avoid [OF Cons.prems(1) c(1) one], of m21 ns1] Cons.prems(3,4) one by auto
  have "fmlookup m2' k = fmlookup m2 k" if "k \<in> S" for k
  proof -
    have "k \<noteq> c" using that c(1) by auto
    then show ?thesis using m2'(4) m21(3) [of k] that by simp
  qed
  then show ?case using m2'(1-3) m21(1) by auto
qed auto

lemma propagate_loop_frame:
  assumes "avoid S m work" "agree S m m2" "propagateFinal_loop now work m ns = (m', ns')"
  shows "\<exists>m2'. propagateFinal_loop now work m2 ns = (m2', ns') \<and> agree S m' m2' \<and> (\<forall>k \<in> S. fmlookup m2' k = fmlookup m2 k)"
  using assms
proof (induction now work m ns arbitrary: m2 rule: propagateFinal_loop.induct)
  case (2 now p work m ns)
  obtain m1 ns1 work1 where one: "propagate_children now p (m, ns, work) = (m1, ns1, work1)"
    by (cases "propagate_children now p (m, ns, work)")
  have p: "fmlookup m2 p = fmlookup m p" using "2.prems"(1,2) by (auto simp: avoid_def agree_def)
  have "\<exists>m21. propagate_children now p (m2, ns, work) = (m21, ns1, work1) \<and> agree S m1 m21 \<and> avoid S m1 work1 \<and>
      (\<forall>k \<in> S. fmlookup m21 k = fmlookup m2 k)"
  proof (cases "fmlookup m p")
    case None
    then show ?thesis using one p "2.prems"(1,2) by (auto simp: propagate_children_def avoid_def)
  next
    case (Some pr)
    have "set (children pr) \<inter> S = {}" using "2.prems"(1) Some unfolding avoid_def by auto
    then show ?thesis using propagate_fold_frame [OF "2.prems"(1,2), of "children pr" now ns m1 ns1 work1] one p Some
      by (auto simp: propagate_children_def avoid_def)
  qed
  then obtain m21 where m21: "propagate_children now p (m2, ns, work) = (m21, ns1, work1)" "agree S m1 m21" "avoid S m1 work1"
    "\<forall>k \<in> S. fmlookup m21 k = fmlookup m2 k" by blast
  then show ?case using "2.IH" [OF one [symmetric] refl m21(3,2)] "2.prems"(3) one by auto
qed auto

text \<open>In a store that satisfies the invariant, a task that has just been ended only reaches blocked tasks.\<close>

lemma avoid_running:
  assumes ok: "store_ok m" and k: "fmlookup m k = Some r" "\<not> isFinal (Status (task r))" "k \<notin> S" and r': "children r' = children r"
    and S: "\<And>q. q \<in> S \<Longrightarrow> \<exists>x. fmlookup m q = Some x \<and> Status (task x) = StatusRunning"
  shows "avoid S (fmupd k r' m) [k]"
proof -
  have kids: "set (children s) \<inter> S = {}" if s: "fmlookup m j = Some s" "\<not> isFinal (Status (task s))" for j s
  proof -
    have "final_in m j" if c: "c \<in> set (children s)" "c \<in> S" for c
    proof -
      obtain x where x: "fmlookup m c = Some x" "Status (task x) = StatusRunning" using S [OF c(2)] by blast
      have "dep m j c" using ok s(1) c(1) by (auto simp: store_ok_def graph_ok_def)
      then have "j \<in> set (DependsOn (task x))" using x(1) by (simp add: dep_def)
      moreover have "released_ok {} m c x"
        using edge_inv_lookup(2) [of "{}" m c x] ok x by (simp add: store_ok_def)
      ultimately show ?thesis by (auto simp: released_ok_def open_parents_def)
    qed
    then show ?thesis using s by (auto simp: final_in_def)
  qed
  show ?thesis using kids k r' unfolding avoid_def by (auto split: if_splits)
qed

section \<open>Ending all leases first\<close>

text \<open>One returned row: a task that is final now is propagated, and its watchers hear of it.\<close>

definition tell_row :: "time \<Rightarrow> id \<times> task \<Rightarrow> sdb \<times> task list \<Rightarrow> sdb \<times> task list" where
  "tell_row now it st =
     (case (it, st) of ((i, t), (d, ns)) \<Rightarrow>
        if isFinal (Status t) then propagateTx i (Status t) now d (ns @ [t]) else (d, ns @ [t]))"

lemma reap_step_told:
  assumes "expired_in now m k" "fmlookup m k = Some r"
  shows "reap_step now lostMax k (m, cnt, ns) =
    (let r' = reaped_rec now lostMax r; m1 = fmupd k r' m; ns1 = ns @ [cloneTask (task r')] in
     case (if isFinal (Status (task r')) then mem_propagateFinal k now m1 ns1 else (m1, ns1)) of
       (m', ns') \<Rightarrow> ((m', cnt + 1, ns'), None))"
proof -
  have "Status (task r) = StatusRunning" "leaseUntil r < now" using assms by (auto simp: expired_in_def)
  then show ?thesis
    by (simp add: reap_step_eq [OF assms(2)] reaped_rec_def cancel_rec_def lost_rec_def expired_rec_def Let_def)
qed

text \<open>The rows of \<open>snap\<close> have been rewritten in the tables and not yet in the records.\<close>

definition ahead :: "time \<Rightarrow> int \<Rightarrow> store \<Rightarrow> (id \<times> task) list \<Rightarrow> sdb \<Rightarrow> bool" where
  "ahead now lostMax m snap d \<longleftrightarrow> agree (fst ` set snap) m (abs_store d) \<and>
     (\<forall>(k, t) \<in> set snap. expired_in now m k \<and> (\<exists>r. fmlookup m k = Some r \<and>
        fmlookup (abs_store d) k = Some (reaped_rec now lostMax r) \<and> cloneTask t = task (reaped_rec now lostMax r)))"

lemma tell_row_sim:
  assumes clk: "after_epoch clk" and ok: "store_ok m" "db_ok d" and ah: "ahead (trunc_ms clk) L m ((k, t) # snap) d"
    and fresh: "k \<notin> fst ` set snap"
    and mem: "reap_step (trunc_ms clk) L k (m, cnt, map cloneTask ns) = ((m', cnt', ns'), e)"
    and sql: "tell_row (trunc_ms clk) (k, t) (d, ns) = (d', ns2)"
  shows "ahead (trunc_ms clk) L m' snap d' \<and> db_ok d' \<and> ns' = map cloneTask ns2"
proof -
  let ?now = "trunc_ms clk" and ?S = "fst ` set snap"
  obtain r where ex: "expired_in ?now m k" and r: "fmlookup m k = Some r"
    and look: "fmlookup (abs_store d) k = Some (reaped_rec ?now L r)" and t: "cloneTask t = task (reaped_rec ?now L r)"
    using ah by (auto simp: ahead_def)
  let ?r = "reaped_rec ?now L r"
  obtain x where x: "fmlookup (t_tasks d) k = Some x" "abs_rec d k x = ?r" using look by auto
  have run: "Status (task r) = StatusRunning" using ex r by (auto simp: expired_in_def)
  have st: "Status t = Status (task ?r)" "c_status x = Status (task ?r)"
    using arg_cong [OF t, of Status] arg_cong [OF x(2), of "\<lambda>y. Status (task y)"] by (simp_all add: cloneTask_def)
  have ag: "agree ?S (fmupd k ?r m) (abs_store d)"
    using ah look unfolding ahead_def agree_def by auto
  have other: "fmlookup m' j = fmlookup m j \<and> expired_in ?now m' j" if "(j, u) \<in> set snap" for j u
  proof -
    have "expired_in ?now m j" using ah that by (auto simp: ahead_def)
    moreover from this obtain s where "fmlookup m j = Some s" "Status (task s) \<noteq> StatusBlocked"
      by (auto simp: expired_in_def)
    moreover have "j \<noteq> k" using fresh that by force
    ultimately show ?thesis using reap_step_frame(2,3) [OF ok(1) mem] by auto
  qed
  have main: "agree ?S m' (abs_store d') \<and> (\<forall>j \<in> ?S. fmlookup (abs_store d') j = fmlookup (abs_store d) j) \<and> db_ok d' \<and>
      ns' = map cloneTask ns2"
  proof (cases "isFinal (Status (task ?r))")
    case False
    then have "m' = fmupd k ?r m" "ns' = map cloneTask ns @ [cloneTask (task ?r)]" "d' = d" "ns2 = ns @ [t]"
      using mem sql st by (simp_all add: reap_step_told [OF ex r] tell_row_def Let_def)
    moreover have "cloneTask (task ?r) = cloneTask t" unfolding t [symmetric] by (simp add: cloneTask_def)
    ultimately show ?thesis using ag ok(2) by simp
  next
    case True
    have "cloneTask (task ?r) = cloneTask t" unfolding t [symmetric] by (simp add: cloneTask_def)
    then have m': "propagateFinal_loop ?now [k] (fmupd k ?r m) (map cloneTask (ns @ [t])) = (m', ns')"
      using mem True by (simp add: reap_step_told [OF ex r] mem_propagateFinal_def Let_def split: prod.splits)
    have "propagateTx k (Status t) ?now d (ns @ [t]) = (d', ns2)" using sql True st by (simp add: tell_row_def)
    from propagateTx_sim [OF ok(2) x(1) _ _ clk this]
    have d': "propagateFinal_loop ?now [k] (abs_store d) (map cloneTask (ns @ [t])) = (abs_store d', map cloneTask ns2)" "db_ok d'"
      using True st by (simp_all add: mem_propagateFinal_def)
    have "children ?r = children r" by (simp add: reaped_rec_def cancel_rec_def lost_rec_def expired_rec_def)
    moreover have "\<exists>y. fmlookup m q = Some y \<and> Status (task y) = StatusRunning" if "q \<in> ?S" for q
      using ah that by (auto simp: ahead_def expired_in_def)
    ultimately have "avoid ?S (fmupd k ?r m) [k]" using avoid_running [OF ok(1) r _ fresh] run by simp
    from propagate_loop_frame [OF this ag m'] d' show ?thesis by auto
  qed
  then have "fmlookup (abs_store d') j = fmlookup (abs_store d) j" if "(j, u) \<in> set snap" for j u using that by force
  then have "\<forall>(j, u) \<in> set snap. expired_in ?now m' j \<and> (\<exists>s. fmlookup m' j = Some s \<and>
      fmlookup (abs_store d') j = Some (reaped_rec ?now L s) \<and> cloneTask u = task (reaped_rec ?now L s))"
    using ah other unfolding ahead_def by fastforce
  then show ?thesis using main by (simp add: ahead_def)
qed

lemma tell_rows_sim:
  assumes "after_epoch clk" "store_ok m" "db_ok d" "ahead (trunc_ms clk) L m snap d" "distinct (map fst snap)"
    and "reap_loop (trunc_ms clk) L (map fst snap) (m, cnt, map cloneTask ns) = ((m', cnt', ns'), e)"
    and "fold (tell_row (trunc_ms clk)) snap (d, ns) = (d', ns2)"
  shows "m' = abs_store d' \<and> db_ok d' \<and> ns' = map cloneTask ns2"
  using assms(2-7)
proof (induction snap arbitrary: m cnt ns d)
  case Nil
  then have "fmlookup (abs_store d) k = fmlookup m k" for k by (simp add: ahead_def agree_def)
  then have "m = abs_store d" by (intro fmap_ext) simp
  then show ?case using Nil by simp
next
  case (Cons kt snap)
  obtain k t where kt: "kt = (k, t)" by (cases kt)
  obtain m1 cnt1 ns1 e1 where one: "reap_step (trunc_ms clk) L k (m, cnt, map cloneTask ns) = ((m1, cnt1, ns1), e1)"
    by (metis prod.exhaust)
  obtain d1 ns21 where two: "tell_row (trunc_ms clk) (k, t) (d, ns) = (d1, ns21)" by fastforce
  have fr: "store_ok m1" "e1 = None" using reap_step_frame(1) [OF Cons.prems(1) one] by simp_all
  have step: "ahead (trunc_ms clk) L m1 snap d1" "db_ok d1" "ns1 = map cloneTask ns21"
    using tell_row_sim [OF assms(1) Cons.prems(1,2) _ _ one two] Cons.prems(3,4) kt by auto
  show ?case
    using Cons.IH [OF fr(1) step(2,1), of cnt1 ns21] Cons.prems(4-6) one two fr(2) step(3) kt by simp
qed

section \<open>The statements of the reaper\<close>

lemma update_where_lookup: "fmlookup (t_tasks (update_where P f d)) i = map_option (\<lambda>r. if P r then f r else r) (fmlookup (t_tasks d) i)"
  by (simp add: update_where_def)

lemma abs_update_where:
  "fmlookup (abs_store (update_where P f d)) i = map_option (\<lambda>r. abs_rec d i (if P r then f r else r)) (fmlookup (t_tasks d) i)"
proof -
  have "abs_rec (update_where P f d) = abs_rec d" by (simp add: update_where_def)
  then show ?thesis by (simp add: update_where_lookup option.map_comp comp_def)
qed

lemma expired_iff:
  assumes "after_epoch clk"
  shows "expired_in (trunc_ms clk) (abs_store d) i \<longleftrightarrow> (\<exists>r. fmlookup (t_tasks d) i = Some r \<and> expired_row (unixMilli clk) r)"
proof -
  have "fromMS v < trunc_ms clk \<longleftrightarrow> v < unixMilli clk" for v
  proof (cases "v = 0")
    case True
    have "trunc_ms clk = unixMilli clk * millisecond" using unixMilli_mult [of "trunc_ms clk"] by simp
    then have "0 < trunc_ms clk" using assms by (simp add: after_epoch_def)
    then show ?thesis using True assms by (simp add: after_epoch_def zero_time_def)
  next
    case False
    have "trunc_ms clk = unixMilli clk * millisecond" using unixMilli_mult [of "trunc_ms clk"] by simp
    then show ?thesis using False by (simp add: fromMS_def)
  qed
  then show ?thesis by (auto simp: expired_in_def expired_row_def)
qed

lemma reap_row_abs:
  assumes "after_epoch clk" "row_ok r" "expired_row (unixMilli clk) r"
  shows "c_cancel_requested r = 1 \<Longrightarrow> abs_rec d i (reap_cancel_row (unixMilli clk) r) = reaped_rec (trunc_ms clk) L (abs_rec d i r)"
    and "c_cancel_requested r \<noteq> 1 \<Longrightarrow> abs_rec d i (reap_lost_row L (unixMilli clk) r) = reaped_rec (trunc_ms clk) L (abs_rec d i r)"
    and "row_ok (reap_cancel_row (unixMilli clk) r)" "row_ok (reap_lost_row L (unixMilli clk) r)"
proof -
  show "abs_rec d i (reap_cancel_row (unixMilli clk) r) = reaped_rec (trunc_ms clk) L (abs_rec d i r)" if "c_cancel_requested r = 1"
    using that fromMS_now [OF assms(1)]
    by (intro abs_recI [symmetric]) (simp_all add: reaped_rec_def reap_cancel_row_def cancel_rec_def task_abs abs_task_defs)
  show "abs_rec d i (reap_lost_row L (unixMilli clk) r) = reaped_rec (trunc_ms clk) L (abs_rec d i r)" if "c_cancel_requested r \<noteq> 1"
    using that fromMS_now [OF assms(1)] assms(2)
    by (intro abs_recI [symmetric])
      (auto simp: reaped_rec_def reap_lost_row_def lost_rec_def expired_rec_def Let_def row_ok_def task_abs abs_task_defs)
qed (use assms in \<open>auto simp: row_ok_def reap_cancel_row_def reap_lost_row_def Let_def expired_row_def\<close>)

text \<open>One statement, with the rows it returns in some order: the tables are ahead of the records by these rows.\<close>

lemma update_ahead:
  assumes clk: "after_epoch clk" and d: "db_ok d" and xs: "distinct xs" "fset (fmdom (t_tasks d)) \<subseteq> set xs"
    and P: "\<forall>i r. fmlookup (t_tasks d) i = Some r \<longrightarrow> P r \<longrightarrow> expired_row (unixMilli clk) r \<and> row_ok (f r) \<and>
        abs_rec d i (f r) = reaped_rec (trunc_ms clk) L (abs_rec d i r)"
    and ks: "ks = filter (\<lambda>i. i \<in> set (select (\<lambda>_ r. P r) d)) xs"
    and snap: "snap = map (\<lambda>i. (i, sr_task (scanRec i (row_of (update_where P f d) i)))) ks"
  shows "ahead (trunc_ms clk) L (abs_store d) snap (update_where P f d)" and "map fst snap = ks" "distinct (map fst snap)"
    "\<forall>(i, t) \<in> set snap. \<exists>r. fmlookup (t_tasks d) i = Some r \<and> P r \<and> Status t = c_status (f r)"
    "db_ok (update_where P f d)"
proof -
  let ?d = "update_where P f d"
  show fs: "map fst snap = ks" "distinct (map fst snap)" using xs(1) by (simp_all add: snap ks comp_def)
  have mem: "i \<in> set ks \<longleftrightarrow> (\<exists>r. fmlookup (t_tasks d) i = Some r \<and> P r)" for i
    using xs(2) by (auto simp: ks intro: fmdomI)
  have at: "fmlookup (t_tasks ?d) i = Some (f r)" "row_of ?d i = f r" if "fmlookup (t_tasks d) i = Some r" "P r" for i r
    using that row_of_lookup [of ?d i "f r"] by (simp_all add: update_where_lookup)
  have keys: "fst ` set snap = set ks" using fs(1) by (metis list.set_map)
  have "agree (fst ` set snap) (abs_store d) (abs_store ?d)"
    unfolding agree_def keys
  proof (intro allI impI)
    fix k assume k: "k \<notin> set ks"
    show "fmlookup (abs_store ?d) k = fmlookup (abs_store d) k"
    proof (cases "fmlookup (t_tasks d) k")
      case (Some r)
      then have "\<not> P r" using k mem by blast
      then show ?thesis using Some by (simp only: abs_update_where) simp
    qed (simp add: abs_update_where update_where_lookup)
  qed
  moreover have "expired_in (trunc_ms clk) (abs_store d) k \<and> (\<exists>r. fmlookup (abs_store d) k = Some r \<and>
      fmlookup (abs_store ?d) k = Some (reaped_rec (trunc_ms clk) L r) \<and> cloneTask t = task (reaped_rec (trunc_ms clk) L r))"
    if "(k, t) \<in> set snap" for k t
  proof -
    have "k \<in> set ks" "t = sr_task (scanRec k (row_of ?d k))" using that by (auto simp: snap)
    then obtain r where r: "fmlookup (t_tasks d) k = Some r" "P r" using mem by blast
    note eq = P [rule_format, OF r]
    have "cloneTask t = task (abs_rec d k (f r))"
      using \<open>t = _\<close> at(2) [OF r] by (simp add: task_abs abs_task_def)
    moreover have "fmlookup (abs_store ?d) k = Some (abs_rec d k (f r))" using r by (simp only: abs_update_where) simp
    moreover have "expired_in (trunc_ms clk) (abs_store d) k" using expired_iff [OF clk] r(1) eq by blast
    ultimately show ?thesis using r(1) eq by simp
  qed
  ultimately show "ahead (trunc_ms clk) L (abs_store d) snap ?d" by (auto simp: ahead_def)
  show "\<forall>(i, t) \<in> set snap. \<exists>r. fmlookup (t_tasks d) i = Some r \<and> P r \<and> Status t = c_status (f r)"
    using at(2) mem by (auto simp: snap)
  show "db_ok ?d" using d P by (auto simp: db_ok_def update_where_def)
qed

lemma reap_canceled_tell:
  assumes "\<forall>(i, t) \<in> set snap. Status t = StatusCanceled"
  shows "reap_canceled now snap st = fold (tell_row now) snap st"
  using assms by (induction snap arbitrary: st) (auto simp: reap_canceled_def tell_row_def)

lemma reap_lost_tell:
  assumes "\<forall>(i, t) \<in> set snap. Status t = StatusFailed \<or> Status t = StatusPending"
  shows "reap_lost now snap st = fold (tell_row now) snap st"
  using assms by (induction snap arbitrary: st) (auto simp: reap_lost_def tell_row_def)

text \<open>The repair pass finds nothing to do.\<close>

lemma sq_repair_noop:
  assumes ok: "store_ok (abs_store d)"
  shows "sq_repair now i (d, ns) = (d, ns)"
proof (cases "\<exists>r. fmlookup (t_tasks d) i = Some r \<and> c_status r = StatusBlocked")
  case False
  then show ?thesis by (auto simp: sq_repair_def getRec_def split: option.splits)
next
  case True
  then obtain r where r: "fmlookup (t_tasks d) i = Some r" "c_status r = StatusBlocked" by blast
  have "fmlookup (abs_store d) i = Some (abs_rec d i r)" using r(1) by simp
  from blocked_decision [OF ok this] r(2)
  have dec: "\<forall>q \<in> set (c_depends_on r). fmlookup (t_tasks d) q \<noteq> None"
    "d_Status (DecideOnSubmit (parent_states (abs_store d) (c_depends_on r)) (c_on_parent_fail r)) = StatusBlocked"
    "d_PendingParents (DecideOnSubmit (parent_states (abs_store d) (c_depends_on r)) (c_on_parent_fail r)) = c_pending_parents r"
    by simp_all
  have "map (\<lambda>q. \<lparr>ps_ID = q, ps_Status = c_status (row_of d q)\<rparr>) (c_depends_on r) = parent_states (abs_store d) (c_depends_on r)"
    unfolding parent_states_def using dec(1) by (auto simp: status_of_abs row_of_def)
  then show ?thesis
    using r dec fmupd_same [OF r(1)] by (simp add: sq_repair_def getRec_def Let_def update_row_def)
qed

lemma sq_repair_pass_noop: "store_ok (abs_store d) \<Longrightarrow> fold (sq_repair now) ys (d, ns) = (d, ns)"
  by (induction ys) (simp_all add: sq_repair_noop)

lemma reap_loop_append:
  assumes "reap_loop now L xs s = (s1, None)"
  shows "reap_loop now L (xs @ ys) s = reap_loop now L ys s1"
  using assms by (induction xs arbitrary: s) (auto split: prod.splits option.splits)

lemma reap_loop_skip:
  assumes "\<forall>k \<in> set xs. \<not> expired_in now m k"
  shows "reap_loop now L xs (m, cnt, ns) = ((m, cnt, ns), None)"
  using assms by (induction xs) (simp_all add: reap_skip)

text \<open>A statement with the propagation of the rows it returned is a run of the reaper's loop over these rows.\<close>

lemma stage_sim:
  assumes clk: "after_epoch clk" and d: "db_ok d" "store_ok (abs_store d)" and xs: "range_order xs (t_tasks d)"
    and P: "\<forall>i r. fmlookup (t_tasks d) i = Some r \<longrightarrow> P r \<longrightarrow> expired_row (unixMilli clk) r \<and> row_ok (f r) \<and>
        abs_rec d i (f r) = reaped_rec (trunc_ms clk) L (abs_rec d i r)"
    and ks: "ks = filter (\<lambda>i. i \<in> set (select (\<lambda>_ r. P r) d)) xs"
    and snap: "snap = map (\<lambda>i. (i, sr_task (scanRec i (row_of (update_where P f d) i)))) ks"
    and told: "fold (tell_row (trunc_ms clk)) snap (update_where P f d, ns) = (d', ns')"
  shows "reap_loop (trunc_ms clk) L ks (abs_store d, cnt, map cloneTask ns) =
      ((abs_store d', cnt + int (length ks), map cloneTask ns'), None)"
    and "db_ok d'" "store_ok (abs_store d')" "fmdom (t_tasks d') = fmdom (t_tasks d)" "distinct ks"
    and "\<And>j s. fmlookup (abs_store d) j = Some s \<Longrightarrow> Status (task s) \<noteq> StatusBlocked \<Longrightarrow> j \<notin> set ks \<Longrightarrow>
      fmlookup (abs_store d') j = Some s"
    and "\<And>j. expired_in (trunc_ms clk) (abs_store d') j \<Longrightarrow> j \<notin> set ks \<and> expired_in (trunc_ms clk) (abs_store d) j"
proof -
  have xs': "distinct xs" "fset (fmdom (t_tasks d)) \<subseteq> set xs" using xs by (simp_all add: range_order_def)
  note ah = update_ahead [OF clk d(1) xs' P ks snap]
  obtain m cnt' nm e where loop: "reap_loop (trunc_ms clk) L ks (abs_store d, cnt, map cloneTask ns) = ((m, cnt', nm), e)"
    by (metis prod.exhaust)
  have sim: "m = abs_store d' \<and> db_ok d' \<and> nm = map cloneTask ns'"
    using tell_rows_sim [OF clk d(2) ah(5,1,3) _ told] loop ah(2) by simp
  show dk: "distinct ks" using ah(2,3) by simp
  note fr = reap_loop_frame [OF d(2) dk loop]
  have "filter (expired_in (trunc_ms clk) (abs_store d)) ks = ks"
    using P expired_iff [OF clk] by (intro filter_True) (auto simp: ks)
  then show "reap_loop (trunc_ms clk) L ks (abs_store d, cnt, map cloneTask ns) =
      ((abs_store d', cnt + int (length ks), map cloneTask ns'), None)"
    using loop fr sim by simp
  show "db_ok d'" using sim by simp
  show "store_ok (abs_store d')" using fr sim by simp
  have "evolves (abs_store d) (abs_store d')" using reap_loop_ok [OF d(2) loop] sim by (simp add: good_move_def)
  from evolves_dom [OF this] show "fmdom (t_tasks d') = fmdom (t_tasks d)" by (simp add: abs_store_def)
  show "fmlookup (abs_store d') j = Some s"
    if "fmlookup (abs_store d) j = Some s" "Status (task s) \<noteq> StatusBlocked" "j \<notin> set ks" for j s
  proof -
    have "fmlookup m j = Some (if j \<in> set ks \<and> expired_in (trunc_ms clk) (abs_store d) j then reaped_rec (trunc_ms clk) L s else s)"
      using fr that(1,2) by blast
    then show ?thesis using sim that(3) by (simp only: if_False simp_thms)
  qed
  show "j \<notin> set ks \<and> expired_in (trunc_ms clk) (abs_store d) j" if "expired_in (trunc_ms clk) (abs_store d') j" for j
    using fr sim that by blast
qed

text \<open>The whole transaction is one pass of the in-memory reaper, the flagged tasks first.\<close>

lemma reap_tx_sim:
  assumes clk: "after_epoch clk" and d: "db_ok d" "store_ok (abs_store d)"
    and xs: "range_order xs (t_tasks d)" "range_order ys (t_tasks d)"
    and step: "reap_tx L xs ys clk d = Inr (d', n, ns)"
  shows "\<exists>zs. range_order zs (abs_store d) \<and> db_ok d' \<and> store_ok (abs_store d') \<and>
    reap_loop (trunc_ms clk) L zs (abs_store d, 0, []) = ((abs_store d', n, map cloneTask ns), None)"
proof -
  let ?now = "trunc_ms clk" and ?ms = "unixMilli clk"
  let ?flag = "\<lambda>r. expired_row ?ms r \<and> c_cancel_requested r = 1"
  define hit0 where "hit0 = filter (\<lambda>i. i \<in> set (select (\<lambda>_ r. ?flag r) d)) xs"
  define snap0 where "snap0 = map (\<lambda>i. (i, sr_task (scanRec i (row_of (update_where ?flag (reap_cancel_row ?ms) d) i)))) hit0"
  obtain d1 ns1 where one: "reap_canceled ?now snap0 (update_where ?flag (reap_cancel_row ?ms) d, []) = (d1, ns1)" by fastforce
  define hit1 where "hit1 = filter (\<lambda>i. i \<in> set (select (\<lambda>_ r. expired_row ?ms r) d1)) ys"
  define snap1 where "snap1 = map (\<lambda>i. (i, sr_task (scanRec i (row_of (update_where (expired_row ?ms) (reap_lost_row L ?ms) d1) i)))) hit1"
  obtain d3 ns3 where two: "reap_lost ?now snap1 (update_where (expired_row ?ms) (reap_lost_row L ?ms) d1, ns1) = (d3, ns3)" by fastforce
  have P0: "\<forall>i r. fmlookup (t_tasks d) i = Some r \<longrightarrow> ?flag r \<longrightarrow> expired_row ?ms r \<and> row_ok (reap_cancel_row ?ms r) \<and>
      abs_rec d i (reap_cancel_row ?ms r) = reaped_rec ?now L (abs_rec d i r)"
    using reap_row_abs(1,3) [OF clk db_okD [OF d(1)]] by blast
  have r0: "distinct xs" "fset (fmdom (t_tasks d)) \<subseteq> set xs" using xs(1) by (simp_all add: range_order_def)
  have "\<forall>(i, t) \<in> set snap0. Status t = StatusCanceled"
    using update_ahead(4) [OF clk d(1) r0 P0 hit0_def snap0_def] by (force simp: reap_cancel_row_def)
  note st0 = stage_sim [OF clk d xs(1) P0 hit0_def snap0_def one [unfolded reap_canceled_tell [OF this]]]
  have live: "c_cancel_requested r \<noteq> 1" if "fmlookup (t_tasks d1) i = Some r" "expired_row ?ms r" for i r
  proof
    assume flag: "c_cancel_requested r = 1"
    have "i \<notin> set hit0" "expired_in ?now (abs_store d) i" using st0(7) [of i] expired_iff [OF clk] that by blast+
    moreover from this obtain q where q: "fmlookup (t_tasks d) i = Some q" "expired_row ?ms q" using expired_iff [OF clk] by blast
    ultimately have "fmlookup (abs_store d1) i = Some (abs_rec d i q)" using st0(6) [of i "abs_rec d i q"] by (simp add: expired_row_def)
    then have "abs_rec d1 i r = abs_rec d i q" using that(1) by simp
    from arg_cong [OF this, of cancelRequested] have "c_cancel_requested q = 1"
      using flag db_okD [OF d(1) q(1)] by (auto simp: row_ok_def)
    then have "i \<in> set hit0" using q r0(2) by (auto simp: hit0_def intro: fmdomI)
    then show False using \<open>i \<notin> set hit0\<close> by simp
  qed
  have P1: "\<forall>i r. fmlookup (t_tasks d1) i = Some r \<longrightarrow> expired_row ?ms r \<longrightarrow> expired_row ?ms r \<and> row_ok (reap_lost_row L ?ms r) \<and>
      abs_rec d1 i (reap_lost_row L ?ms r) = reaped_rec ?now L (abs_rec d1 i r)"
    using live reap_row_abs(2,4) [OF clk db_okD [OF st0(2)]] by blast
  have ys: "range_order ys (t_tasks d1)" using xs(2) st0(4) by (simp add: range_order_def)
  then have r1: "distinct ys" "fset (fmdom (t_tasks d1)) \<subseteq> set ys" by (simp_all add: range_order_def)
  have "\<forall>(i, t) \<in> set snap1. Status t = StatusFailed \<or> Status t = StatusPending"
    using update_ahead(4) [OF clk st0(2) r1 P1 hit1_def snap1_def] by (fastforce simp: reap_lost_row_def Let_def split: if_splits)
  note st1 = stage_sim [OF clk st0(2,3) ys P1 hit1_def snap1_def two [unfolded reap_lost_tell [OF this]]]
  have res: "d' = d3" "n = int (length hit0) + int (length hit1)" "ns = ns3"
    using step by (simp_all only: reap_tx_def Let_def unixMilli_trunc hit0_def [symmetric] snap0_def [symmetric] one prod.case
        hit1_def [symmetric] snap1_def [symmetric] two sq_repair_pass_noop [OF st1(3)] sum.inject prod.inject)
  define rest where "rest = filter (\<lambda>i. i \<notin> set hit0 \<and> i \<notin> set hit1) xs"
  have hit1: "i \<in> set hit1 \<longleftrightarrow> expired_in ?now (abs_store d1) i" for i
    using expired_iff [OF clk] r1(2) by (auto simp: hit1_def intro: fmdomI)
  have "range_order (hit0 @ hit1 @ rest) (abs_store d)"
  proof -
    have "set hit0 \<inter> set hit1 = {}" using hit1 st0(7) by blast
    moreover have "set hit0 \<subseteq> set xs" "set hit1 \<subseteq> set xs"
      using xs by (auto simp: hit0_def hit1_def range_order_def)
    ultimately have "distinct (hit0 @ hit1 @ rest)" "set (hit0 @ hit1 @ rest) = set xs"
      using st0(5) st1(5) r0(1) by (auto simp: rest_def)
    then show ?thesis using xs(1) by (simp add: range_order_def abs_store_def)
  qed
  moreover have "\<not> expired_in ?now (abs_store d3) i" for i using st1(7) [of i] hit1 by blast
  ultimately show ?thesis
    using st0(1) [of 0] st1(1) [of "int (length hit0)"] st1(2,3) res
    by (auto simp: reap_loop_append reap_loop_skip)
qed

lemma ReapExpired_sim:
  assumes v: "sview s b" "db_ok (sp_db s)" and inv: "minv b" and clk: "after_epoch clk"
    and xs: "range_order xs (t_tasks (sp_db s))" "range_order ys (t_tasks (sp_db s))"
    and step: "sq_ReapExpired None xs ys clk s = (s', ns, n, e)"
  shows "\<exists>zs b' ns'. range_order zs (recs b) \<and> mem_ReapExpired zs zs clk b = (b', ns', n, e) \<and> sim s' ns b' ns'"
proof (cases "sq_requireInit s")
  case (Some err)
  obtain zs where "range_order zs (recs b)" using range_order_exists by blast
  moreover have "mem_ReapExpired zs zs clk b = (b, [], n, e)" "s' = s" "ns = []"
    using step requireInit_sim [OF v(1), unfolded Some] by (auto simp: sq_ReapExpired_def mem_ReapExpired_def Some split: option.split)
  ultimately show ?thesis using v by (auto simp: sim_def)
next
  case None
  let ?L = "LeaseLostMax (sp_opts s)"
  have b: "recs b = abs_store (sp_db s)" "opts b = sp_opts s" "store_ok (abs_store (sp_db s))"
    using v(1) minv_store_ok [OF inv] by (simp_all add: sview_def)
  obtain d where tx: "reap_tx ?L xs ys clk (sp_db s) = Inr (d, n, ns)"
    and s': "s' = (if ns \<noteq> [] then wakeAll (s\<lparr>sp_db := d\<rparr>) else s\<lparr>sp_db := d\<rparr>)" "e = None"
    using step None by (auto simp: sq_ReapExpired_def withTx_def reap_tx_def Let_def split: prod.splits)
  from reap_tx_sim [OF clk v(2) b(3) xs tx] obtain zs where zs: "range_order zs (recs b)" "db_ok d" "store_ok (abs_store d)"
    "reap_loop (trunc_ms clk) ?L zs (recs b, 0, []) = ((abs_store d, n, map cloneTask ns), None)"
    using b(1) by auto
  have m: "mem_ReapExpired zs zs clk b =
      (if ns \<noteq> [] then mem_broadcast (b\<lparr>recs := abs_store d\<rparr>) else b\<lparr>recs := abs_store d\<rparr>, map cloneTask ns, n, e)"
    using None zs(3,4) s'(2) b(2) requireInit_sim [OF v(1)]
    by (simp add: mem_ReapExpired_def Let_def repair_pass_noop)
  have "sim s' ns (if ns \<noteq> [] then mem_broadcast (b\<lparr>recs := abs_store d\<rparr>) else b\<lparr>recs := abs_store d\<rparr>) (map cloneTask ns)"
    using v(1) zs(2) s' by (auto simp: sim_def sview_def wakeAll_def mem_broadcast_def)
  then show ?thesis using zs(1) m by blast
qed

end
