(* ===== verification/Broker_Calls.thy ===== *)
theory Broker_Calls
  imports Broker_Interface
begin

text \<open>
  Calls of the broker interface as data, for statements about two back ends: \<open>perform\<close> makes one call
  on any instance of the interface and returns its answer.
\<close>

datatype brokerCall =
    CallEnqueue task
  | CallDequeue "string list"
  | CallAck id string bytes
  | CallFail id string string failKind time
  | CallCancel id
  | CallFinishCanceled id string
  | CallRequeue id string
  | CallHeartbeat id string
  | CallGet id
  | CallReplay replayRequest
  | CallList filterSpec
  | CallQueueLen string
  | CallCounts
  | CallReapExpired

datatype brokerAnswer =
    AErr "tg_error option"
  | ATask "tg_error + task"
  | ATurn dequeueTurn
  | ATasks "tg_error + task list"
  | ANumber "tg_error + int"
  | ACounts "tg_error + countMatrix"
  | AReaped int "tg_error option"

fun perform :: "('b, 'q) Broker \<Rightarrow> env \<Rightarrow> brokerCall \<Rightarrow> 'b \<Rightarrow> 'b \<times> brokerAnswer" where
  "perform B e (CallEnqueue t) b = (case op_Enqueue B e t b of (b', r) \<Rightarrow> (b', ATask r))"
| "perform B e (CallDequeue qs) b = (case op_Dequeue B e qs b of (b', r) \<Rightarrow> (b', ATurn r))"
| "perform B e (CallAck i tok res) b = (case op_Ack B e i tok res b of (b', r) \<Rightarrow> (b', AErr r))"
| "perform B e (CallFail i tok msg kind retryAt) b =
     (case op_Fail B e i tok msg kind retryAt b of (b', r) \<Rightarrow> (b', AErr r))"
| "perform B e (CallCancel i) b = (case op_Cancel B e i b of (b', r) \<Rightarrow> (b', AErr r))"
| "perform B e (CallFinishCanceled i tok) b = (case op_FinishCanceled B e i tok b of (b', r) \<Rightarrow> (b', AErr r))"
| "perform B e (CallRequeue i tok) b = (case op_Requeue B e i tok b of (b', r) \<Rightarrow> (b', AErr r))"
| "perform B e (CallHeartbeat i tok) b = (case op_Heartbeat B e i tok b of (b', r) \<Rightarrow> (b', AErr r))"
| "perform B e (CallGet i) b = (b, ATask (op_Get B e i b))"
| "perform B e (CallReplay req) b = (case op_Replay B e req b of (b', r) \<Rightarrow> (b', ATask r))"
| "perform B e (CallList f) b = (b, ATasks (op_List B e f b))"
| "perform B e (CallQueueLen q) b = (b, ANumber (op_QueueLen B e q b))"
| "perform B e CallCounts b = (b, ACounts (op_Counts B e b))"
| "perform B e CallReapExpired b = (case op_ReapExpired B e b of (b', n, r) \<Rightarrow> (b', AReaped n r))"

end
