(* ===== verification/Sqlite_Query.thy ===== *)
theory Sqlite_Query
  imports Sqlite_Reap Broker_Calls
begin

text \<open>
  The queries of the sqlite back end return what the loops of the in-memory broker compute: \<open>ORDER BY\<close>
  with \<open>LIMIT\<close> and \<open>OFFSET\<close> is the sorted page, \<open>COUNT(*)\<close> is the counting loop, and \<open>GROUP BY\<close> gives
  the same matrix of counts, as a map, with no entry for an empty group.
\<close>

section \<open>Ordered pages\<close>

definition key_before :: "('a \<Rightarrow> int) \<Rightarrow> 'a::linorder \<Rightarrow> 'a \<Rightarrow> bool" where
  "key_before f a b \<longleftrightarrow> f a < f b \<or> f a = f b \<and> a \<le> b"

lemma insort_key_before:
  assumes "sorted_wrt (key_before f) ys" and "\<forall>y \<in> set ys. x \<le> y"
  shows "sorted_wrt (key_before f) (insort_key f x ys)"
  using assms
proof (induction ys)
  case (Cons y ys)
  show ?case
  proof (cases "f x \<le> f y")
    case True
    then show ?thesis using Cons.prems by (fastforce simp: key_before_def)
  next
    case False
    then show ?thesis using Cons by (auto simp: key_before_def set_insort_key)
  qed
qed simp

lemma sort_key_before: "sorted xs \<Longrightarrow> sorted_wrt (key_before f) (sort_key f xs)"
  by (induction xs) (auto intro: insort_key_before)

text \<open>The rows of a query in the order of \<open>List\<close>, read as tasks.\<close>

definition row_tasks :: "sdb \<Rightarrow> id list \<Rightarrow> task list" where
  "row_tasks d is = map (\<lambda>i. sr_task (scanRec i (row_of d i))) is"

lemma clone_abs: "cloneTask (abs_task i r) = abs_task i r"
  by (simp add: abs_task_defs)

lemma matches_row: "matches f (abs_task i r) \<longleftrightarrow> list_cond f r"
  by (auto simp: matches_def list_cond_def abs_task_defs split: option.splits)

lemma listed_rows:
  fixes b :: mbroker
  assumes d: "db_ok d" and b: "recs b = abs_store d" "graph_ok (recs b)" and xs: "range_order xs (recs b)"
  shows "sort_tasks (collect_tasks f (recs b) xs) =
    map cloneTask (row_tasks d (sort_key (\<lambda>i. c_created_at (row_of d i)) (select (\<lambda>_ r. list_cond f r) d)))"
    (is "?L = ?R")
proof (rule listed_unique)
  let ?c = "\<lambda>i. c_created_at (row_of d i)"
  let ?is = "sort_key ?c (select (\<lambda>_ r. list_cond f r) d)"
  have rows: "\<exists>r. fmlookup (t_tasks d) i = Some r \<and> list_cond f r \<and> row_of d i = r" if "i \<in> set ?is" for i
    using that by (auto simp: row_of_def)
  have ids: "map ID ?R = ?is" by (simp add: row_tasks_def comp_def cloneTask_def)
  have dist: "distinct ?is" using select_sorted(2) by simp
  have cre: "CreatedAt (cloneTask (sr_task (scanRec i (row_of d i)))) = fromMS (?c i)" "0 < ?c i" if "i \<in> set ?is" for i
    using rows [OF that] d by (auto simp: abs_task_defs db_ok_def row_ok_def)
  show "sorted_wrt listed_before ?L" by (rule sort_tasks_sorted)
  have "sorted_wrt (key_before ?c) ?is" by (intro sort_key_before select_sorted)
  then have "sorted_wrt (\<lambda>i j. listed_before (cloneTask (sr_task (scanRec i (row_of d i)))) (cloneTask (sr_task (scanRec j (row_of d j))))) ?is"
    by (rule sorted_wrt_mono_rel [rotated])
      (use cre in \<open>auto simp: listed_before_def key_before_def fromMS_less fromMS_eq simp del: set_sort\<close>)
  then show "sorted_wrt listed_before ?R" by (simp add: row_tasks_def sorted_wrt_map)
  note coll = collect_tasks_order [OF b(2) xs, of f]
  have "set ?R = {abs_task i r |i r. fmlookup (t_tasks d) i = Some r \<and> list_cond f r}"
    by (auto simp: row_tasks_def row_of_def abs_task_def intro!: rev_image_eqI) blast+
  moreover have "matching f b = {abs_task i r |i r. fmlookup (t_tasks d) i = Some r \<and> list_cond f r}"
  proof (intro set_eqI iffI)
    fix t assume "t \<in> matching f b"
    then show "t \<in> {abs_task i r |i r. fmlookup (t_tasks d) i = Some r \<and> list_cond f r}"
      using b(1) by (auto simp: matching_def task_abs matches_row clone_abs) blast
  next
    fix t assume "t \<in> {abs_task i r |i r. fmlookup (t_tasks d) i = Some r \<and> list_cond f r}"
    then obtain i r where r: "t = abs_task i r" "fmlookup (t_tasks d) i = Some r" "list_cond f r" by blast
    then have "fmlookup (recs b) i = Some (abs_rec d i r)" "matches f (task (abs_rec d i r))" "t = cloneTask (task (abs_rec d i r))"
      using b(1) by (simp_all add: task_abs matches_row clone_abs)
    then show "t \<in> matching f b" unfolding matching_def by blast
  qed
  moreover have ids': "mset (map ID ?L) = mset (map ID (collect_tasks f (recs b) xs))" by simp
  then show dL: "distinct (map ID ?L)" using coll(2) mset_eq_imp_distinct_iff [OF ids'] by simp
  ultimately have "set ?L = set ?R" using coll(1) mset_eq_setD [OF sort_tasks_mset, of "collect_tasks f (recs b) xs"] by simp
  moreover have "distinct (map ID ?R)" using dist by (simp only: ids)
  then have "distinct ?R" by (rule distinct_map [THEN iffD1, THEN conjunct1])
  moreover have "distinct ?L" using dL by (rule distinct_map [THEN iffD1, THEN conjunct1])
  ultimately show "mset ?L = mset ?R" by (simp only: set_eq_iff_mset_eq_distinct [symmetric])
qed

lemma List_sim:
  fixes b :: mbroker
  assumes "sview s b" "db_ok (sp_db s)" "minv b" and xs: "range_order xs (recs b)"
  shows "\<exists>ts. sq_List None f s = Inr ts \<and> mem_List xs f b = map cloneTask ts"
proof -
  let ?d = "sp_db s"
  let ?is = "sort_key (\<lambda>i. c_created_at (row_of ?d i)) (select (\<lambda>_ r. list_cond f r) ?d)"
  let ?ts = "row_tasks ?d (let rest = drop (nat (f_Offset f)) ?is in if f_Limit f > 0 then take (nat (f_Limit f)) rest else rest)"
  have "recs b = abs_store ?d" using assms(1) by (simp add: sview_def)
  note rows = listed_rows [OF assms(2) this minvD(1) [OF assms(3)] xs, of f]
  have "pageSlice zs f = (let rest = drop (nat (f_Offset f)) zs in if f_Limit f > 0 then take (nat (f_Limit f)) rest else rest)"
    for zs :: "task list" by (auto simp: pageSlice_def Let_def)
  then have "mem_List xs f b = map cloneTask ?ts"
    unfolding mem_List_def rows by (simp add: row_tasks_def Let_def take_map drop_map)
  moreover have "sq_List None f s = Inr ?ts"
    by (auto simp: sq_List_def limit_offset_def row_tasks_def Let_def)
  ultimately show ?thesis by blast
qed

section \<open>Numbers\<close>

lemma select_length:
  assumes "recs b = abs_store d" and "range_order xs (recs b)" and "\<And>i r. P i r \<longleftrightarrow> Q (abs_task i r)"
  shows "length (select P d) = length (filter (stored_with (recs b) Q) xs)"
proof -
  have "set (select P d) = {k. stored_with (recs b) Q k}" using assms(1,3) by (auto simp: stored_with_def task_abs)
  then have "length (select P d) = card {k. stored_with (recs b) Q k}" using select_sorted(2) distinct_card by metis
  then show ?thesis using filter_card [OF assms(2)] by simp
qed

lemma QueueLen_sim:
  assumes "sview s b" and xs: "range_order xs (recs b)"
  shows "sq_QueueLen None q s = Inr (mem_QueueLen xs q b)"
proof -
  have "recs b = abs_store (sp_db s)" using assms(1) by (simp add: sview_def)
  from select_length [OF this xs, where P = "\<lambda>_ r. c_queue r = q \<and> (c_status r = StatusPending \<or> c_status r = StatusRetrying)"
      and Q = "\<lambda>t. Queue t = q \<and> (Status t = StatusPending \<or> Status t = StatusRetrying)"]
  show ?thesis by (simp add: sq_QueueLen_def mem_QueueLen_def QueueLen_loop_count abs_task_defs)
qed

text \<open>A matrix without entries for empty groups is determined by its numbers.\<close>

definition shows_counts :: "(string \<Rightarrow> status \<Rightarrow> int) \<Rightarrow> countMatrix \<Rightarrow> bool" where
  "shows_counts c out \<longleftrightarrow>
     (\<forall>ty. case fmlookup out ty of
             None \<Rightarrow> \<forall>st. c ty st = 0
           | Some m \<Rightarrow> (\<exists>st. c ty st \<noteq> 0) \<and> (\<forall>st. fmlookup m st = (if c ty st = 0 then None else Some (c ty st))))"

lemma shows_counts_unique:
  assumes "shows_counts c out" "shows_counts c out'"
  shows "out = out'"
proof (rule fmap_ext)
  fix ty
  show "fmlookup out ty = fmlookup out' ty"
    using assms [unfolded shows_counts_def, rule_format, of ty] by (auto split: option.splits intro!: fmap_ext)
qed

lemma shows_counts_entry:
  assumes "shows_counts c out" and "v \<noteq> 0"
  shows "shows_counts (c(ty := (c ty)(st := v)))
    (fmupd ty (fmupd st v (case fmlookup out ty of None \<Rightarrow> fmempty | Some m \<Rightarrow> m)) out)"
  unfolding shows_counts_def
proof (rule allI)
  fix a
  let ?c = "c(ty := (c ty)(st := v))" and ?m = "case fmlookup out ty of None \<Rightarrow> fmempty | Some m \<Rightarrow> m"
  show "case fmlookup (fmupd ty (fmupd st v ?m) out) a of None \<Rightarrow> \<forall>st. ?c a st = 0
      | Some m \<Rightarrow> (\<exists>st. ?c a st \<noteq> 0) \<and> (\<forall>st. fmlookup m st = (if ?c a st = 0 then None else Some (?c a st)))"
    using assms(1) [unfolded shows_counts_def, rule_format, of a] assms(2)
    by (cases "a = ty"; cases "fmlookup out a") auto
qed

lemma shows_counts_bump:
  assumes "shows_counts c out" and "c (Type t) (Status t) \<ge> 0"
  shows "shows_counts (c(Type t := (c (Type t))(Status t := c (Type t) (Status t) + 1))) (bump_count t out)"
proof -
  have "(case fmlookup (case fmlookup out (Type t) of None \<Rightarrow> fmempty | Some m \<Rightarrow> m) (Status t) of None \<Rightarrow> 0 | Some k \<Rightarrow> k) =
      c (Type t) (Status t)"
    using assms(1) [unfolded shows_counts_def, rule_format, of "Type t"] by (auto split: option.splits)
  then show ?thesis using shows_counts_entry [OF assms(1), of "c (Type t) (Status t) + 1"] assms(2)
    by (simp add: bump_count_def Let_def)
qed

definition count_rows :: "sdb \<Rightarrow> string \<Rightarrow> status \<Rightarrow> int" where
  "count_rows d ty st = int (length (select (\<lambda>_ r. c_type r = ty \<and> c_status r = st) d))"

lemma mem_Counts_shows:
  assumes "shows_counts c out" and "\<forall>ty st. c ty st \<ge> 0"
  shows "shows_counts (\<lambda>ty st. c ty st + int (length (filter (stored_with m (\<lambda>t. Type t = ty \<and> Status t = st)) ks)))
    (mem_Counts_loop m ks out)"
  using assms
proof (induction ks arbitrary: c out)
  case (Cons k ks)
  show ?case
  proof (cases "fmlookup m k")
    case None
    then show ?thesis using Cons by (simp add: stored_with_def)
  next
    case (Some r)
    let ?t = "task r"
    let ?c = "c(Type ?t := (c (Type ?t))(Status ?t := c (Type ?t) (Status ?t) + 1))"
    have "shows_counts ?c (bump_count ?t out)" using Cons.prems by (intro shows_counts_bump) simp_all
    moreover have "\<forall>ty st. ?c ty st \<ge> 0" using Cons.prems(2) by (simp add: add_nonneg_nonneg)
    ultimately have ih: "shows_counts (\<lambda>ty st. ?c ty st + int (length (filter (stored_with m (\<lambda>t. Type t = ty \<and> Status t = st)) ks)))
        (mem_Counts_loop m ks (bump_count ?t out))" by (rule Cons.IH)
    have "(\<lambda>ty st. ?c ty st + int (length (filter (stored_with m (\<lambda>t. Type t = ty \<and> Status t = st)) ks))) =
        (\<lambda>ty st. c ty st + int (length (filter (stored_with m (\<lambda>t. Type t = ty \<and> Status t = st)) (k # ks))))"
      using Some by (intro ext) (auto simp: stored_with_def)
    then show ?thesis using ih Some by simp
  qed
qed simp

lemma groups_shows:
  assumes "shows_counts (\<lambda>ty st. if (ty, st) \<in> D then count_rows d ty st else 0) out" and "distinct gs"
    and "\<forall>g \<in> set gs. count_rows d (fst g) (snd g) \<noteq> 0"
  shows "shows_counts (\<lambda>ty st. if (ty, st) \<in> D \<union> set gs then count_rows d ty st else 0)
    (fold set_count (map (\<lambda>(ty, st). (ty, st, count_rows d ty st)) gs) out)"
  using assms
proof (induction gs arbitrary: D out)
  case (Cons g gs)
  obtain ty st where g: "g = (ty, st)" by (cases g)
  let ?c = "\<lambda>a b. if (a, b) \<in> D then count_rows d a b else 0"
  let ?c' = "\<lambda>a b. if (a, b) \<in> insert g D then count_rows d a b else 0"
  have "?c' = ?c(ty := (?c ty)(st := count_rows d ty st))" using g by (intro ext) auto
  moreover have "shows_counts (?c(ty := (?c ty)(st := count_rows d ty st))) (set_count (ty, st, count_rows d ty st) out)"
    using Cons.prems(1,3) g shows_counts_entry [of ?c out "count_rows d ty st" ty st] by (simp add: set_count_def Let_def)
  ultimately have "shows_counts ?c' (set_count (ty, st, count_rows d ty st) out)" by simp
  from Cons.IH [OF this] Cons.prems(2,3) g show ?case by simp
qed simp

lemma Counts_sim:
  assumes "sview s b" and xs: "range_order xs (recs b)"
  shows "sq_Counts None s = Inr (mem_Counts xs b)"
proof -
  let ?d = "sp_db s"
  let ?gs = "remdups (map (\<lambda>i. (c_type (row_of ?d i), c_status (row_of ?d i))) (select (\<lambda>_ _. True) ?d))"
  have b: "recs b = abs_store ?d" using assms(1) by (simp add: sview_def)
  have len: "count_rows ?d ty st = int (length (filter (stored_with (recs b) (\<lambda>t. Type t = ty \<and> Status t = st)) xs))" for ty st
    unfolding count_rows_def by (subst select_length [OF b xs]) (auto simp: abs_task_defs)
  have empty: "shows_counts (\<lambda>_ _. 0) fmempty" by (simp add: shows_counts_def)
  from mem_Counts_shows [OF this, of "recs b" xs] have m: "shows_counts (count_rows ?d) (mem_Counts xs b)"
    by (simp add: len [symmetric] mem_Counts_def)
  have in_gs: "(ty, st) \<in> set ?gs \<longleftrightarrow> count_rows ?d ty st \<noteq> 0" for ty st
    by (force simp: count_rows_def select_Nil row_of_def)
  then have "shows_counts (\<lambda>ty st. if (ty, st) \<in> {} \<union> set ?gs then count_rows ?d ty st else 0)
      (fold set_count (map (\<lambda>(ty, st). (ty, st, count_rows ?d ty st)) ?gs) fmempty)"
    using empty by (intro groups_shows) auto
  moreover have "(\<lambda>ty st. if (ty, st) \<in> {} \<union> set ?gs then count_rows ?d ty st else 0) = count_rows ?d"
    using in_gs by (intro ext) auto
  ultimately have "shows_counts (count_rows ?d) (fold set_count (count_groups ?d) fmempty)"
    by (simp add: count_groups_def count_rows_def)
  then show ?thesis using shows_counts_unique [OF m] by (simp add: sq_Counts_def)
qed

lemma Get_sim:
  assumes "sview s b"
  shows "mem_Get i b = (case sq_Get None i s of Inl e \<Rightarrow> Inl e | Inr t \<Rightarrow> Inr (cloneTask t))"
  using assms by (auto simp: sview_def mem_Get_def sq_Get_def getRec_def task_abs abs_task_defs split: option.splits)

end
