(* ===== verification/Sqlite_System.thy ===== *)
theory Sqlite_System
  imports Sqlite_Query
begin

text \<open>
  The sqlite back end as a whole.  Call by call it answers what the in-memory broker answers, and its
  tables stay the image of a state of that broker.  Any number of processes may work on one
  database file; what is proved of the reachable databases holds of every interleaving of
  their calls, with storage that fails at any point.
\<close>

section \<open>Refinement\<close>

definition refined :: "sbroker \<Rightarrow> mbroker \<Rightarrow> bool" where
  "refined s b \<longleftrightarrow> sview s b \<and> db_ok (sp_db s) \<and> minv b \<and> replay_ok b"

text \<open>
  What the statement needs of the surroundings: a clock after 1970, an unused identifier from
  \<open>ulid.Make\<close>, complete result sets in any order, lease times of whole milliseconds, and
  instants in the arguments that are either unset or after 1970.
\<close>

definition env_ok :: "env \<Rightarrow> sbroker \<Rightarrow> bool" where
  "env_ok e s \<longleftrightarrow> after_epoch (e_now e) \<and> e_ulid e \<noteq> '''' \<and> fmlookup (t_tasks (sp_db s)) (e_ulid e) = None \<and>
     range_order (e_order e) (t_tasks (sp_db s)) \<and> range_order (e_order2 e) (t_tasks (sp_db s)) \<and> ttl_ok s"

fun call_ok :: "brokerCall \<Rightarrow> bool" where
  "call_ok (CallEnqueue t) \<longleftrightarrow> new_task_ok t"
| "call_ok (CallFail i tok msg kind retryAt) \<longleftrightarrow> stamp_ok retryAt"
| "call_ok _ \<longleftrightarrow> True"

text \<open>A failure kind outside the enumeration is the one call on which the two back ends differ.\<close>

fun known_kind :: "brokerCall \<Rightarrow> bool" where
  "known_kind (CallFail i tok msg kind retryAt) \<longleftrightarrow> (\<forall>n. kind \<noteq> FailOther n)"
| "known_kind _ \<longleftrightarrow> True"

inductive answer_sim :: "time \<Rightarrow> brokerAnswer \<Rightarrow> brokerAnswer \<Rightarrow> bool" for now where
  "answer_sim now (AErr r) (AErr r)"
| "res_sim r r' \<Longrightarrow> answer_sim now (ATask r) (ATask r')"
| "turn_sim now t t' \<Longrightarrow> answer_sim now (ATurn t) (ATurn t')"
| "answer_sim now (ATasks r) (ATasks (map_sum (\<lambda>e. e) (map cloneTask) r))"
| "answer_sim now (ANumber r) (ANumber r)"
| "answer_sim now (ACounts r) (ACounts r)"
| "answer_sim now (AReaped n r) (AReaped n r)"

inductive_simps answer_sim_simps [simp]:
  "answer_sim now (AErr r) a" "answer_sim now (ATask r) a" "answer_sim now (ATurn t) a" "answer_sim now (ATasks ts) a"
  "answer_sim now (ANumber m) a" "answer_sim now (ACounts c) a" "answer_sim now (AReaped n r) a"

lemma refined_same: "refined s b \<Longrightarrow> refined s (sort_children b)"
  using sort_children_id by (auto simp: refined_def)

lemma refined_insert:
  assumes "minv b'" "replay_ok b'" "sim s' ns (sort_children b') ns'"
  shows "refined s' (sort_children b')"
  using assms sort_children_minv replay_ok_sorted by (simp add: refined_def sim_def)

lemma refined_fresh: "refined s b \<Longrightarrow> env_ok e s \<Longrightarrow> fresh_id (e_ulid e) b"
  by (simp add: refined_def sview_def env_ok_def fresh_id_def)

lemma range_order_view: "sview s b \<Longrightarrow> range_order xs (recs b) \<longleftrightarrow> range_order xs (t_tasks (sp_db s))"
  by (simp add: sview_def range_order_def abs_store_def)

text \<open>A call that moves the records along keeps the relation.\<close>

lemma refined_change:
  assumes "refined s b" "store_step token b b'" "sim s' ns b' ns'"
  shows "refined s' (sort_children b')"
proof -
  have v: "sview s' b'" using assms(3) by (simp add: sim_def)
  then show ?thesis
    using assms minv_step replay_ok_step unfolding sort_children_id [OF v] by (auto simp: refined_def sim_def)
qed

lemma refined_by:
  assumes r: "refined s b" and sim: "\<exists>b' ns'. m = (b', ns', u) \<and> sim s' ns b' ns'"
    and st: "\<And>b' ns' u. m = (b', ns', u) \<Longrightarrow> store_step token b b'"
  shows "\<exists>b' ns'. m = (b', ns', u) \<and> refined s' (sort_children b')"
proof -
  obtain b' ns' where m: "m = (b', ns', u)" "sim s' ns b' ns'" using sim by blast
  show ?thesis using m(1) refined_change [OF r st [OF m(1)] m(2)] by blast
qed

lemma receipts_refined:
  assumes r: "refined s b" and e: "env_ok e s"
  shows "sq_Ack None (e_now e) i tok res s = (s', ns, u) \<Longrightarrow>
      \<exists>b' ns'. mem_Ack (e_now e) i tok res b = (b', ns', u) \<and> refined s' (sort_children b')"
    and "sq_FinishCanceled None (e_now e) i tok s = (s', ns, u) \<Longrightarrow>
      \<exists>b' ns'. mem_FinishCanceled (e_now e) i tok b = (b', ns', u) \<and> refined s' (sort_children b')"
    and "sq_Requeue None i tok s = (s', ns, u) \<Longrightarrow>
      \<exists>b' ns'. mem_Requeue i tok b = (b', ns', u) \<and> refined s' (sort_children b')"
    and "sq_Heartbeat None (e_now e) i tok s = (s', ns, u) \<Longrightarrow>
      \<exists>b' ns'. mem_Heartbeat (e_now e) i tok b = (b', ns', u) \<and> refined s' (sort_children b')"
    and "sq_Cancel None (e_now e) i s = (s', ns, u) \<Longrightarrow>
      \<exists>b' ns'. mem_Cancel (e_now e) i b = (b', ns', u) \<and> refined s' (sort_children b')"
    and "\<forall>n. kind \<noteq> FailOther n \<Longrightarrow> stamp_ok retryAt \<Longrightarrow> sq_Fail None (e_now e) i tok msg kind retryAt s = (s', ns, u) \<Longrightarrow>
      \<exists>b' ns'. mem_Fail (e_now e) i tok msg kind retryAt b = (b', ns', u) \<and> refined s' (sort_children b')"
proof -
  have v: "sview s b" "db_ok (sp_db s)" and inv: "minv b" using r by (simp_all add: refined_def)
  have clk: "after_epoch (e_now e)" "ttl_ok s" using e by (simp_all add: env_ok_def)
  note one = refined_by [OF r, where token = "''''"]
  show "\<exists>b' ns'. mem_Ack (e_now e) i tok res b = (b', ns', u) \<and> refined s' (sort_children b')"
    if "sq_Ack None (e_now e) i tok res s = (s', ns, u)"
    by (rule one [OF Ack_sim [OF v clk(1) that]]) (rule Ack_step [OF inv, THEN conjunct1])
  show "\<exists>b' ns'. mem_FinishCanceled (e_now e) i tok b = (b', ns', u) \<and> refined s' (sort_children b')"
    if "sq_FinishCanceled None (e_now e) i tok s = (s', ns, u)"
    by (rule one [OF FinishCanceled_sim [OF v clk(1) that]]) (rule FinishCanceled_step [OF inv, THEN conjunct1])
  show "\<exists>b' ns'. mem_Requeue i tok b = (b', ns', u) \<and> refined s' (sort_children b')"
    if "sq_Requeue None i tok s = (s', ns, u)"
    by (rule one [OF Requeue_sim [OF v that]]) (rule Requeue_step [OF inv, THEN conjunct1])
  show "\<exists>b' ns'. mem_Heartbeat (e_now e) i tok b = (b', ns', u) \<and> refined s' (sort_children b')"
    if "sq_Heartbeat None (e_now e) i tok s = (s', ns, u)"
    by (rule one [OF Heartbeat_sim [OF v clk that]]) (rule Heartbeat_step [OF inv, THEN conjunct1])
  show "\<exists>b' ns'. mem_Cancel (e_now e) i b = (b', ns', u) \<and> refined s' (sort_children b')"
    if "sq_Cancel None (e_now e) i s = (s', ns, u)"
    by (rule one [OF Cancel_sim [OF v clk(1) that]]) (rule Cancel_step [OF inv, THEN conjunct1])
  show "\<exists>b' ns'. mem_Fail (e_now e) i tok msg kind retryAt b = (b', ns', u) \<and> refined s' (sort_children b')"
    if "\<forall>n. kind \<noteq> FailOther n" "stamp_ok retryAt" "sq_Fail None (e_now e) i tok msg kind retryAt s = (s', ns, u)"
    by (rule one [OF Fail_sim [OF v clk(1) that(1) that(2) [unfolded stamp_ok_def] that(3)]])
      (rule Fail_step [OF inv, THEN conjunct1])
qed

lemma Dequeue_refined:
  assumes r: "refined s b" and e: "env_ok e s"
    and step: "sq_Dequeue_turn (e_ctx e) None (e_ctx e) (e_ulid e) (e_now e) (e_now e) qs s = (s', ns, turn)"
  shows "\<exists>b' ns' turn'. mem_Dequeue_turn (e_order e) (e_ctx e) (e_ulid e) (e_now e) qs b = (b', ns', turn') \<and>
    refined s' (sort_children b') \<and> turn_sim (e_now e) turn turn'"
proof -
  have v: "sview s b" "db_ok (sp_db s)" and inv: "minv b" using r by (simp_all add: refined_def)
  have ok: "range_order (e_order e) (recs b)" "after_epoch (e_now e)" "ttl_ok s" "e_ulid e \<noteq> ''''"
    using e range_order_view [OF v(1)] by (simp_all add: env_ok_def)
  from Dequeue_sim [OF v ok(1-3) step] obtain b' ns' turn'
    where m: "mem_Dequeue_turn (e_order e) (e_ctx e) (e_ulid e) (e_now e) qs b = (b', ns', turn')" "sim s' ns b' ns'"
      "turn_sim (e_now e) turn turn'" by blast
  then show ?thesis using refined_change [OF r _ m(2)] Dequeue_step [OF inv ok(4) m(1)] by blast
qed

lemma inserts_refined:
  assumes r: "refined s b" and e: "env_ok e s"
  shows "new_task_ok t \<Longrightarrow> sq_Enqueue drv None (e_ulid e) (e_now e) t s = (s', ns, res) \<Longrightarrow>
      \<exists>b' ns' res'. mem_Enqueue (e_ulid e) (e_now e) t b = (b', ns', res') \<and> refined s' (sort_children b') \<and> res_sim res res'"
    and "sq_Replay drv None (e_order e) (e_ulid e) (e_now e) req s = (s', ns, res) \<Longrightarrow>
      \<exists>b' ns' res'. mem_Replay (e_ulid e) (e_now e) req b = (b', ns', res') \<and> refined s' (sort_children b') \<and> res_sim res res'"
proof -
  have v: "sview s b" "db_ok (sp_db s)" and inv: "minv b" "replay_ok b" using r by (simp_all add: refined_def)
  have ok: "range_order (e_order e) (recs b)" "after_epoch (e_now e)"
    using e range_order_view [OF v(1)] by (simp_all add: env_ok_def)
  note fr = refined_fresh [OF r e]
  show "\<exists>b' ns' res'. mem_Enqueue (e_ulid e) (e_now e) t b = (b', ns', res') \<and> refined s' (sort_children b') \<and> res_sim res res'"
    if t: "new_task_ok t" "sq_Enqueue drv None (e_ulid e) (e_now e) t s = (s', ns, res)"
  proof -
    from Enqueue_sim [OF v inv(1) fr ok(2) t] obtain b' ns' res' where m: "mem_Enqueue (e_ulid e) (e_now e) t b = (b', ns', res')"
      "sim s' ns (sort_children b') ns'" "res_sim res res'" by blast
    then show ?thesis
      using refined_insert [OF Enqueue_minv [OF inv(1) fr m(1)] replay_ok_Enqueue [OF inv(2) fr m(1)] m(2)] by blast
  qed
  show "\<exists>b' ns' res'. mem_Replay (e_ulid e) (e_now e) req b = (b', ns', res') \<and> refined s' (sort_children b') \<and> res_sim res res'"
    if t: "sq_Replay drv None (e_order e) (e_ulid e) (e_now e) req s = (s', ns, res)"
  proof -
    from Replay_sim [OF v inv fr ok(2,1) t] obtain b' ns' res' where m: "mem_Replay (e_ulid e) (e_now e) req b = (b', ns', res')"
      "sim s' ns (sort_children b') ns'" "res_sim res res'" by blast
    then show ?thesis
      using refined_insert [OF Replay_minv [OF inv(1) fr m(1)] replay_ok_Replay [OF inv(2) fr m(1)] m(2)] by blast
  qed
qed

lemma Reap_refined:
  assumes r: "refined s b" and e: "env_ok e s"
    and step: "sq_ReapExpired None (e_order e) (e_order2 e) (e_now e) s = (s', ns, n, er)"
  shows "\<exists>zs b' ns'. mem_ReapExpired zs zs (e_now e) b = (b', ns', n, er) \<and> refined s' (sort_children b')"
proof -
  have v: "sview s b" "db_ok (sp_db s)" and inv: "minv b" using r by (simp_all add: refined_def)
  have ok: "after_epoch (e_now e)" "range_order (e_order e) (t_tasks (sp_db s))" "range_order (e_order2 e) (t_tasks (sp_db s))"
    using e by (simp_all add: env_ok_def)
  from ReapExpired_sim [OF v inv ok step] obtain zs b' ns'
    where m: "mem_ReapExpired zs zs (e_now e) b = (b', ns', n, er)" "sim s' ns b' ns'" by blast
  then show ?thesis using refined_change [OF r _ m(2)] ReapExpired_step [OF inv m(1)] by blast
qed

lemma perform_refined:
  assumes r: "refined s b" and e: "env_ok e s" and c: "call_ok c" "known_kind c"
    and step: "perform (sqlite_broker drv ref) e c s = (s', a)"
  shows "\<exists>e' b' a'. e_now e' = e_now e \<and> e_ulid e' = e_ulid e \<and> perform memory_broker e' c b = (b', a') \<and>
    refined s' (sort_children b') \<and> answer_sim (e_now e) a a'"
proof -
  have v: "sview s b" "db_ok (sp_db s)" and inv: "minv b" using r by (simp_all add: refined_def)
  have xs: "range_order (e_order e) (recs b)" using e range_order_view [OF v(1)] by (simp add: env_ok_def)
  have same: ?thesis if "\<exists>b' a'. perform memory_broker e c b = (b', a') \<and> refined s' (sort_children b') \<and> answer_sim (e_now e) a a'"
    using that by blast
  note defs = sqlite_broker_def memory_broker_def Let_def
  note rec = receipts_refined [OF r e] and ins = inserts_refined [OF r e]
  show ?thesis
  proof (cases c)
    case (CallEnqueue t)
    then show ?thesis using c(1) step
      by (intro same) (force simp: defs split: prod.splits dest!: ins(1))
  next
    case (CallDequeue qs)
    then show ?thesis using step by (intro same) (force simp: defs split: prod.splits dest!: Dequeue_refined [OF r e])
  next
    case (CallAck i tok res)
    then show ?thesis using step by (intro same) (force simp: defs split: prod.splits dest!: rec(1))
  next
    case (CallFail i tok msg kind retryAt)
    then show ?thesis using step c by (intro same) (force simp: defs split: prod.splits dest!: rec(6) [rotated 2])
  next
    case (CallCancel i)
    then show ?thesis using step by (intro same) (force simp: defs split: prod.splits dest!: rec(5))
  next
    case (CallFinishCanceled i tok)
    then show ?thesis using step by (intro same) (force simp: defs split: prod.splits dest!: rec(2))
  next
    case (CallRequeue i tok)
    then show ?thesis using step by (intro same) (force simp: defs split: prod.splits dest!: rec(3))
  next
    case (CallHeartbeat i tok)
    then show ?thesis using step by (intro same) (force simp: defs split: prod.splits dest!: rec(4))
  next
    case (CallGet i)
    then show ?thesis using step refined_same [OF r] Get_sim [OF v(1), of i]
      by (intro same) (auto simp: defs res_sim_def err_sim_def split: sum.splits)
  next
    case (CallReplay req)
    then show ?thesis using step by (intro same) (force simp: defs split: prod.splits dest!: ins(2))
  next
    case (CallList f)
    then show ?thesis using step refined_same [OF r] List_sim [OF v inv xs, of f] by (intro same) (auto simp: defs)
  next
    case (CallQueueLen q)
    then show ?thesis using step refined_same [OF r] QueueLen_sim [OF v(1) xs, of q] by (intro same) (auto simp: defs)
  next
    case CallCounts
    then show ?thesis using step refined_same [OF r] Counts_sim [OF v(1) xs] by (intro same) (auto simp: defs)
  next
    case CallReapExpired
    obtain s1 ns n er where one: "sq_ReapExpired None (e_order e) (e_order2 e) (e_now e) s = (s1, ns, n, er)" by (metis prod.exhaust)
    from Reap_refined [OF r e one] obtain zs b' ns' where m: "mem_ReapExpired zs zs (e_now e) b = (b', ns', n, er)"
      "refined s1 (sort_children b')" by blast
    show ?thesis using step CallReapExpired one m
      by (intro exI [of _ "e\<lparr>e_order := zs, e_order2 := zs\<rparr>"]) (auto simp: defs)
  qed
qed

text \<open>
  C6: the sqlite back end refines the in-memory broker.  Whatever call is made on a database that is the
  image of a state of the in-memory broker, the same call on that state (with the same clock and
  the same identifiers, in some order of its map) gives the same answer, and the tables
  are again the image of the state reached.  The answers agree up to copies of byte slices, the
  execution a duplicate business key is refused for, and the time an idle \<open>Dequeue\<close> sleeps, which is
  at most that of the in-memory broker.
\<close>

theorem sqlite_refines_memory:
  assumes r: "refined s b" and e: "env_ok e s" and c: "call_ok c" "known_kind c"
    and step: "perform (sqlite_broker drv ref) e c s = (s', a)"
  shows "\<exists>e' b' a'. e_now e' = e_now e \<and> e_ulid e' = e_ulid e \<and> perform memory_broker e' c b = (b', a') \<and>
    refined s' (sort_children b') \<and> answer_sim (e_now e) a a'"
  using perform_refined [OF r e c step] .

section \<open>Processes on one database\<close>

text \<open>
  A step is one call of one process.  \<open>process\<close> stands for everything that leaves the file alone: \<open>Init\<close>,
  \<open>Close\<close>, a call that failed or was rolled back, a crash, and the turn of another process (with its own
  options and its own memory) that has the same file open.
\<close>

inductive sstep :: "sbroker \<Rightarrow> sbroker \<Rightarrow> bool" where
  call: "env_ok e s \<Longrightarrow> call_ok c \<Longrightarrow> perform (sqlite_broker drv ref) e c s = (s', a) \<Longrightarrow> sstep s s'"
| reserve: "sq_Reserve io io2 now g s = (s', q) \<Longrightarrow> sstep s s'"
| release: "sq_Release io g q s = (s', u) \<Longrightarrow> sstep s s'"
| process: "sp_db s' = sp_db s \<Longrightarrow> sstep s s'"

abbreviation sreach :: "sbroker \<Rightarrow> bool" where
  "sreach \<equiv> sstep\<^sup>*\<^sup>* (sq_Open sq_empty)"

lemma open_refined: "refined (sq_Open sq_empty) mem_New"
  using mem_New_minv
  by (auto simp: refined_def sview_def sq_Open_def sq_empty_def mem_New_def db_ok_def replay_ok_def is_replayed_def
      abs_store_def intro!: fmap_ext)

lemma refined_process:
  assumes r: "refined s b" and d: "t_tasks (sp_db s') = t_tasks (sp_db s)" "t_deps (sp_db s') = t_deps (sp_db s)"
  shows "\<exists>b'. refined s' b'"
proof -
  let ?b = "b\<lparr>opts := sp_opts s', inited := sp_inited s', closed := sp_closed s'\<rparr>"
  have "childrenOf (sp_db s') = childrenOf (sp_db s)" using d(2) by (intro ext) (simp add: childrenOf_def)
  then have "abs_rec (sp_db s') = abs_rec (sp_db s)" by (intro ext) (simp add: abs_rec_def)
  then have "abs_store (sp_db s') = abs_store (sp_db s)" using d(1) by (simp add: abs_store_def)
  then have "sview s' ?b" using r by (simp add: refined_def sview_def)
  moreover have "minv ?b" using r minv_fields [of ?b b] by (simp add: refined_def)
  moreover have "replay_ok ?b" using r by (intro replay_ok_same [of ?b b]) (simp_all add: refined_def)
  moreover have "db_ok (sp_db s')" using r d by (simp add: refined_def db_ok_def)
  ultimately have "refined s' ?b" by (simp add: refined_def)
  then show ?thesis by blast
qed

lemma quota_tables:
  "sq_Reserve io io2 now g s = (s', q) \<Longrightarrow> t_tasks (sp_db s') = t_tasks (sp_db s) \<and> t_deps (sp_db s') = t_deps (sp_db s)"
  "sq_Release io g r s = (s', u) \<Longrightarrow> t_tasks (sp_db s') = t_tasks (sp_db s) \<and> t_deps (sp_db s') = t_deps (sp_db s)"
  by (auto simp: sq_Reserve_def sq_Release_def quotaReserveSQL_def quotaCleanSQL_def Let_def
      split: option.splits if_splits prod.splits)

lemma unknown_kind_rolled_back:
  "sq_Fail io clk i tok msg (FailOther n) retryAt s = (s', ns, u) \<Longrightarrow> s' = s"
  by (auto simp: sq_Fail_def sq_change_def withTx_def fail_tx_def sq_fail_counts_def Let_def
      split: option.splits sum.splits prod.splits)

lemma sstep_refined:
  assumes "sstep s s'" and r: "refined s b"
  shows "\<exists>b'. refined s' b'"
  using assms(1)
proof cases
  case (call e c drv ref a)
  show ?thesis
  proof (cases "known_kind c")
    case False
    then obtain i tok msg n retryAt where "c = CallFail i tok msg (FailOther n) retryAt" by (cases c) auto
    then have "s' = s" using call(3) unknown_kind_rolled_back by (auto simp: sqlite_broker_def Let_def split: prod.splits)
    then show ?thesis using r by blast
  next
    case True
    then show ?thesis using perform_refined [OF r call(1,2) _ call(3)] by blast
  qed
next
  case reserve
  then show ?thesis using refined_process [OF r] quota_tables(1) by blast
next
  case release
  then show ?thesis using refined_process [OF r] quota_tables(2) by blast
next
  case process
  then show ?thesis using refined_process [OF r] by simp
qed

lemma sreach_refined: "sreach s \<Longrightarrow> \<exists>b. refined s b"
  by (induction rule: rtranclp_induct) (use open_refined sstep_refined in blast)+

text \<open>What the invariant of the in-memory broker says about the rows of a database that refines it.\<close>

lemma refined_rows:
  assumes "refined s b" and i: "fmlookup (t_tasks (sp_db s)) i = Some r"
  shows "(c_status r \<noteq> StatusBlocked \<longrightarrow> c_status r \<noteq> StatusCanceled \<longrightarrow> (\<forall>q \<in> set (c_depends_on r).
      \<exists>p. fmlookup (t_tasks (sp_db s)) q = Some p \<and> isFinal (c_status p) \<and>
        (c_on_parent_fail r \<noteq> IgnoreParentFail \<longrightarrow> c_status p = StatusCompleted))) \<and>
    (c_status r = StatusBlocked \<longrightarrow> 0 < c_pending_parents r \<and>
      c_pending_parents r = int (card {q \<in> set (c_depends_on r). \<not> isFinal (c_status (row_of (sp_db s) q))})) \<and>
    (c_lease_token r \<noteq> '''') = (c_status r = StatusRunning) \<and>
    (c_business_key r \<noteq> '''' \<longrightarrow> \<not> isFinal (c_status r) \<longrightarrow> (\<forall>j r'. fmlookup (t_tasks (sp_db s)) j = Some r' \<longrightarrow>
      c_business_key r' = c_business_key r \<longrightarrow> \<not> isFinal (c_status r') \<longrightarrow> j = i))"
proof -
  have b: "minv b" "recs b = abs_store (sp_db s)" using assms(1) by (simp_all add: refined_def sview_def)
  let ?r = "abs_rec (sp_db s) i r"
  have k: "fmlookup (recs b) i = Some ?r" using i b(2) by simp
  have deps: "\<exists>p. fmlookup (t_tasks (sp_db s)) q = Some p \<and> isFinal (c_status p) \<and>
      (c_on_parent_fail r \<noteq> IgnoreParentFail \<longrightarrow> c_status p = StatusCompleted)"
    if "c_status r \<noteq> StatusBlocked" "c_status r \<noteq> StatusCanceled" "q \<in> set (c_depends_on r)" for q
    using minv_dependency [OF b(1) k, of q] that b(2) by auto
  have "\<forall>q \<in> set (DependsOn (task ?r)). fmlookup (recs b) q \<noteq> None"
    using minvD(1) [OF b(1)] k by (simp add: graph_ok_def)
  then have "\<forall>q \<in> set (c_depends_on r). fmlookup (t_tasks (sp_db s)) q \<noteq> None" using b(2) by simp
  then have "{q \<in> set (c_depends_on r). \<not> isFinal (c_status (row_of (sp_db s) q))} =
      {q \<in> set (DependsOn (task ?r)). \<not> isFinal (status_of (recs b) q)}"
    using b(2) status_of_abs by (auto simp: row_of_def)
  then have blocked: "0 < c_pending_parents r \<and>
      c_pending_parents r = int (card {q \<in> set (c_depends_on r). \<not> isFinal (c_status (row_of (sp_db s) q))})"
    if "c_status r = StatusBlocked"
    using minv_blocked_counter [OF b(1) k] that by simp
  have lease: "(c_lease_token r \<noteq> '''') = (c_status r = StatusRunning)"
    using lease_okD [OF minvD(4) [OF b(1)] k] by (simp add: lease_rec_def)
  have "\<forall>j r'. fmlookup (t_tasks (sp_db s)) j = Some r' \<longrightarrow> c_business_key r' = c_business_key r \<longrightarrow>
      \<not> isFinal (c_status r') \<longrightarrow> j = i" if "c_business_key r \<noteq> ''''" "\<not> isFinal (c_status r)"
  proof (intro allI impI)
    fix j r' assume j: "fmlookup (t_tasks (sp_db s)) j = Some r'" "c_business_key r' = c_business_key r" "\<not> isFinal (c_status r')"
    then have "fmlookup (recs b) j = Some (abs_rec (sp_db s) j r')" using b(2) by simp
    then show "j = i" using minv_one_in_flight [OF b(1) k] that j by simp
  qed
  then show ?thesis using deps blocked lease by blast
qed

text \<open>
  C7: the tables of every reachable database.  Whatever the processes on the file do, in every row: a task that has
  left the blocked state without being cancelled has only finished parents, completed ones unless it ignores
  failures; the counter of a blocked task is the number of its unfinished parents and positive; a
  task carries a lease token exactly while it is running; and of two unfinished executions of one
  business key one is the other.
\<close>

theorem sqlite_tables_consistent:
  assumes "sreach s" and i: "fmlookup (t_tasks (sp_db s)) i = Some r"
  shows "(c_status r \<noteq> StatusBlocked \<longrightarrow> c_status r \<noteq> StatusCanceled \<longrightarrow> (\<forall>q \<in> set (c_depends_on r).
      \<exists>p. fmlookup (t_tasks (sp_db s)) q = Some p \<and> isFinal (c_status p) \<and>
        (c_on_parent_fail r \<noteq> IgnoreParentFail \<longrightarrow> c_status p = StatusCompleted))) \<and>
    (c_status r = StatusBlocked \<longrightarrow> 0 < c_pending_parents r \<and>
      c_pending_parents r = int (card {q \<in> set (c_depends_on r). \<not> isFinal (c_status (row_of (sp_db s) q))})) \<and>
    (c_lease_token r \<noteq> '''') = (c_status r = StatusRunning) \<and>
    (c_business_key r \<noteq> '''' \<longrightarrow> \<not> isFinal (c_status r) \<longrightarrow> (\<forall>j r'. fmlookup (t_tasks (sp_db s)) j = Some r' \<longrightarrow>
      c_business_key r' = c_business_key r \<longrightarrow> \<not> isFinal (c_status r') \<longrightarrow> j = i))"
  using sreach_refined [OF assms(1)] refined_rows [OF _ i] by blast

end
