(* ===== verification/Sqlite_Lease.thy ===== *)
theory Sqlite_Lease
  imports Sqlite_System Runtime_Props
begin

text \<open>
  The contracts of the broker interface, for the sqlite back end: the lease laws the scheduler relies on and
  the quota contract.  Both are proved of the statements alone, so they hold of any database
  file, in whatever state; the results about the scheduler and the quota follow from the locales.
\<close>

section \<open>Finished rows stay\<close>

lemma propagate_row_keeps:
  assumes "propagate_row now p pst cid (d, ns, work) = (d', ns', work')"
    and k: "fmlookup (t_tasks d) k = Some r" "isFinal (c_status r)"
  shows "fmlookup (t_tasks d') k = Some r"
proof (cases "fmlookup (t_tasks d) cid")
  case None
  then show ?thesis using assms by (simp add: propagate_row_def getRec_def)
next
  case (Some x)
  then show ?thesis
    by (cases rule: propagate_row_cases [where now = now and p = p and pst = pst and ns = ns and work = work])
      (use assms Some in \<open>auto split: if_splits\<close>)
qed

lemma propagate_fold_keeps:
  assumes "fold (propagate_row now p pst) cs (d, ns, work) = (d', ns', work')"
    and "fmlookup (t_tasks d) k = Some r" "isFinal (c_status r)"
  shows "fmlookup (t_tasks d') k = Some r"
  using assms
proof (induction cs arbitrary: d ns work)
  case (Cons c cs)
  obtain d1 ns1 work1 where one: "propagate_row now p pst c (d, ns, work) = (d1, ns1, work1)" by (metis prod.exhaust)
  then show ?case using Cons.IH [of d1 ns1 work1] Cons.prems propagate_row_keeps [OF one] by simp
qed simp

lemma propagateTx_loop_keeps:
  assumes "propagateTx_loop now work d ns = (d', ns')" and "fmlookup (t_tasks d) k = Some r" "isFinal (c_status r)"
  shows "fmlookup (t_tasks d') k = Some r"
  using assms
proof (induction now work d ns rule: propagateTx_loop.induct)
  case (2 now p pst work d ns)
  obtain d1 ns1 work1 where one: "propagate_rows now p pst (d, ns, work) = (d1, ns1, work1)" by (metis prod.exhaust)
  have "fmlookup (t_tasks d1) k = Some r"
    using propagate_fold_keeps [of now p pst _ "mark_done p d"] one "2.prems"(2,3) by (fastforce simp: propagate_rows_def Let_def)
  then show ?case using "2.IH" [OF one [symmetric] refl] "2.prems" one by simp
qed simp

section \<open>Leases\<close>

definition sq_held :: "sbroker \<Rightarrow> id \<Rightarrow> string \<Rightarrow> bool" where
  "sq_held s i token \<longleftrightarrow> (case getRec (sp_db s) i of Inl _ \<Rightarrow> False | Inr r \<Rightarrow> checkLeaseRec r token = None)"

definition sq_usable :: "sbroker \<Rightarrow> bool" where
  "sq_usable s \<longleftrightarrow> sq_requireInit s = None"

lemma sq_held_iff: "sq_held s i token \<longleftrightarrow> (\<exists>x. fmlookup (t_tasks (sp_db s)) i = Some x \<and> c_status x = StatusRunning \<and>
    c_lease_token x = token \<and> token \<noteq> '''')"
  by (auto simp: sq_held_def getRec_def checkLeaseRec_def split: option.splits if_splits)

lemma sq_unheld:
  assumes "\<not> sq_held s i token"
  obtains e where "e = ErrTaskNotFound i \<or> e = ErrLeaseLost i"
    "getRec (sp_db s) i = Inl e \<or> (\<exists>r. getRec (sp_db s) i = Inr r \<and> checkLeaseRec r token = Some e)"
  using assms by (cases "fmlookup (t_tasks (sp_db s)) i") (auto simp: sq_held_def getRec_def checkLeaseRec_def split: if_splits)

text \<open>A receipt whose transaction has the guards of a lease, and then writes a row that is not running.\<close>

lemma receipt_ends:
  assumes u: "sq_usable s" and step: "sq_change None fn s = (s', ns, res)"
    and fn: "\<And>d. fn d = (case getRec d i of Inl e \<Rightarrow> Inl e
        | Inr r \<Rightarrow> (case checkLeaseRec r token of Some e \<Rightarrow> Inl e | None \<Rightarrow> g d r))"
    and ok: "\<And>x. fmlookup (t_tasks (sp_db s)) i = Some x \<Longrightarrow> c_status x = StatusRunning \<Longrightarrow> accepted \<Longrightarrow>
      \<exists>d' ns x'. g (sp_db s) (scanRec i x) = Inr (d', ns) \<and> fmlookup (t_tasks d') i = Some x' \<and> c_status x' \<noteq> StatusRunning"
  shows "if sq_held s i token then accepted \<longrightarrow> err_of res = None \<and> \<not> sq_held s' i token else s' = s \<and> err_of res \<noteq> None"
proof (cases "sq_held s i token")
  case True
  then obtain x where x: "fmlookup (t_tasks (sp_db s)) i = Some x" "c_status x = StatusRunning" by (auto simp: sq_held_iff)
  have g: "fn (sp_db s) = g (sp_db s) (scanRec i x)"
    using True x(1) by (auto simp: fn sq_held_def getRec_def)
  have "err_of res = None \<and> \<not> sq_held s' i token" if acc: accepted
  proof -
    obtain d' ns' x' where d': "g (sp_db s) (scanRec i x) = Inr (d', ns')" "fmlookup (t_tasks d') i = Some x'"
      "c_status x' \<noteq> StatusRunning" using ok [OF x acc] by blast
    then have "s' = wakeAll (s\<lparr>sp_db := d'\<rparr>)" "res = Inr ()"
      using step u g by (simp_all add: sq_change_def withTx_def sq_usable_def)
    then show ?thesis using d' by (auto simp: err_of_def sq_held_iff wakeAll_def)
  qed
  then show ?thesis using True by simp
next
  case False
  then obtain e where "fn (sp_db s) = Inl e" by (rule sq_unheld) (auto simp: fn)
  then have "s' = s \<and> err_of res \<noteq> None" using step u by (auto simp: sq_change_def withTx_def sq_usable_def err_of_def)
  then show ?thesis using False by simp
qed

lemma written_row:
  assumes "fmlookup (t_tasks d) i = Some x" "propagateTx i st now (update_row i f d) ns = (d', ns')" "isFinal (c_status (f x))"
  shows "fmlookup (t_tasks d') i = Some (f x)"
  using assms propagateTx_loop_keeps [of now "[(i, st)]" "update_row i f d" ns d' ns' i "f x"]
  by (simp add: propagateTx_def update_row_def)

lemma finish_row:
  assumes "fmlookup (t_tasks d) i = Some x" "isFinal (c_status (f x))"
  shows "\<exists>d'. (\<exists>ns'. propagateTx i st now (update_row i f d) ns = (d', ns')) \<and>
    (\<exists>x'. fmlookup (t_tasks d') i = Some x' \<and> c_status x' \<noteq> StatusRunning)"
proof -
  obtain d' ns' where p: "propagateTx i st now (update_row i f d) ns = (d', ns')" by fastforce
  have "c_status (f x) \<noteq> StatusRunning" using assms(2) by (auto simp: isFinal_def)
  then show ?thesis using p written_row [OF assms(1) p assms(2)] by blast
qed

lemma sq_receipts:
  assumes u: "sq_usable s"
  shows "sq_Ack None clk i token res s = (s', ns, r) \<Longrightarrow>
      if sq_held s i token then err_of r = None \<and> \<not> sq_held s' i token else s' = s \<and> err_of r \<noteq> None"
    and "sq_FinishCanceled None clk i token s = (s', ns, r) \<Longrightarrow>
      if sq_held s i token then err_of r = None \<and> \<not> sq_held s' i token else s' = s \<and> err_of r \<noteq> None"
    and "sq_Requeue None i token s = (s', ns, r) \<Longrightarrow>
      if sq_held s i token then err_of r = None \<and> \<not> sq_held s' i token else s' = s \<and> err_of r \<noteq> None"
    and "sq_Fail None clk i token msg kind retryAt s = (s', ns, r) \<Longrightarrow>
      if sq_held s i token then (\<forall>n. kind \<noteq> FailOther n) \<longrightarrow> err_of r = None \<and> \<not> sq_held s' i token
      else s' = s \<and> err_of r \<noteq> None"
proof -
  show "if sq_held s i token then err_of r = None \<and> \<not> sq_held s' i token else s' = s \<and> err_of r \<noteq> None"
    if "sq_Ack None clk i token res s = (s', ns, r)"
    by (rule receipt_ends [OF u that [unfolded sq_Ack_def] ack_tx_def, of True, unfolded simp_thms])
      (simp add: Let_def finish_row)
  show "if sq_held s i token then err_of r = None \<and> \<not> sq_held s' i token else s' = s \<and> err_of r \<noteq> None"
    if "sq_FinishCanceled None clk i token s = (s', ns, r)"
    by (rule receipt_ends [OF u that [unfolded sq_FinishCanceled_def] finishCanceled_tx_def, of True, unfolded simp_thms])
      (simp add: Let_def finish_row)
  show "if sq_held s i token then err_of r = None \<and> \<not> sq_held s' i token else s' = s \<and> err_of r \<noteq> None"
    if "sq_Requeue None i token s = (s', ns, r)"
    by (rule receipt_ends [OF u that [unfolded sq_Requeue_def] requeue_tx_def, of True, unfolded simp_thms])
      (simp add: Let_def update_row_def)
  show "if sq_held s i token then (\<forall>n. kind \<noteq> FailOther n) \<longrightarrow> err_of r = None \<and> \<not> sq_held s' i token
      else s' = s \<and> err_of r \<noteq> None"
    if "sq_Fail None clk i token msg kind retryAt s = (s', ns, r)"
  proof (rule receipt_ends [OF u that [unfolded sq_Fail_def] fail_tx_def])
    fix x assume x: "fmlookup (t_tasks (sp_db s)) i = Some x" "c_status x = StatusRunning" and k: "\<forall>n. kind \<noteq> FailOther n"
    have "\<exists>t b. sq_fail_counts (ThrottledMax (sp_opts s)) kind msg (sr_task (scanRec i x)) = Inr (t, b) \<and> Status t = StatusRunning"
      using k x(2) by (cases kind) (auto simp: sq_fail_counts_def Let_def)
    then obtain t b where fc: "sq_fail_counts (ThrottledMax (sp_opts s)) kind msg (sr_task (scanRec i x)) = Inr (t, b)"
      "Status t = StatusRunning" by blast
    show "\<exists>d' ns x'. (let now = trunc_ms clk in
        case sq_fail_counts (ThrottledMax (sp_opts s)) kind msg (sr_task (scanRec i x)) of Inl e \<Rightarrow> Inl e
        | Inr (t, True) \<Rightarrow> if \<not> canTransition (Status t) StatusFailed then Inl (ErrIllegalTransition (Status t) StatusFailed i)
            else let d1 = update_row i (\<lambda>x. x\<lparr>c_status := StatusFailed, c_last_error := LastError t, c_attempts := Attempts t,
                    c_throttled := Throttled t, c_finished_at := unixMilli now, c_lease_token := '''', c_lease_until := 0,
                    c_cancel_requested := 0\<rparr>) (sp_db s)
              in Inr (propagateTx i StatusFailed now d1 [t\<lparr>Status := StatusFailed, FinishedAt := now, LeaseToken := ''''\<rparr>])
        | Inr (t, False) \<Rightarrow> let runAt = trunc_ms (if isZero retryAt then now else retryAt)
            in Inr (update_row i (\<lambda>x. x\<lparr>c_status := StatusRetrying, c_last_error := LastError t, c_attempts := Attempts t,
                    c_throttled := Throttled t, c_run_at := ms runAt, c_lease_token := '''', c_lease_until := 0\<rparr>) (sp_db s),
                 [t\<lparr>Status := StatusRetrying, RunAt := runAt, LeaseToken := ''''\<rparr>])) = Inr (d', ns) \<and>
        fmlookup (t_tasks d') i = Some x' \<and> c_status x' \<noteq> StatusRunning"
    proof (cases b)
      case True
      then show ?thesis using fc finish_row [OF x(1)] by (simp add: Let_def)
    next
      case False
      then show ?thesis using fc x by (simp add: Let_def update_row_def)
    qed
  qed
qed

lemma sq_heartbeat:
  assumes "sq_usable s" and step: "sq_Heartbeat None clk i token s = (s', ns, r)"
  shows "if sq_held s i token then sq_held s' i token \<and> (err_of r = None \<or> err_of r = Some (ErrTaskCanceled i))
    else s' = s \<and> (err_of r = Some (ErrLeaseLost i) \<or> err_of r = Some (ErrTaskNotFound i))"
proof (cases "sq_held s i token")
  case True
  then obtain x where x: "fmlookup (t_tasks (sp_db s)) i = Some x" "c_status x = StatusRunning" "c_lease_token x = token" "token \<noteq> ''''"
    by (auto simp: sq_held_iff)
  then show ?thesis using True step assms(1)
    by (auto simp: sq_Heartbeat_def sq_usable_def withTx_def heartbeat_tx_def getRec_def checkLeaseRec_def Let_def
        update_row_def sq_held_iff err_of_def split: if_splits)
next
  case False
  obtain e where e: "e = ErrTaskNotFound i \<or> e = ErrLeaseLost i"
    "getRec (sp_db s) i = Inl e \<or> (\<exists>r. getRec (sp_db s) i = Inr r \<and> checkLeaseRec r token = Some e)"
    using sq_unheld [OF False] by blast
  then have "heartbeat_tx (sq_ttlFor s) clk i token (sp_db s) = Inl e" by (auto simp: heartbeat_tx_def)
  then show ?thesis using False e(1) step assms(1) by (auto simp: sq_Heartbeat_def sq_usable_def withTx_def err_of_def)
qed

lemma sq_claim:
  assumes step: "sq_Dequeue_turn ctx None ctx2 token clk clk2 qs s = (s', ns, Claimed t)" and tok: "token \<noteq> ''''"
  shows "sq_held s' (ID t) (LeaseToken t) \<and> LeaseToken t = token \<and> Queue t \<in> set qs"
proof -
  have c: "tryClaim None token clk qs s = (s', Inr (Some t, zero_time)) \<or> (\<exists>z. tryClaim None token clk qs s = (s', Inr (Some t, z)))"
    using step by (auto simp: sq_Dequeue_turn_def Let_def split: if_splits option.splits prod.splits sum.splits)
  then obtain i where i: "first_due qs (unixMilli clk) (sp_db s) = Some i"
    by (auto simp: tryClaim_def withTx_def claim_tx_def Let_def split: option.splits)
  then have "i \<in> set (select (\<lambda>_ r. waiting_row qs r \<and> c_run_at r \<le> unixMilli clk) (sp_db s))"
    by (auto simp: first_due_def split: list.splits dest!: arg_cong [of _ _ set] simp del: select_iff)
  then obtain x where x: "fmlookup (t_tasks (sp_db s)) i = Some x" "c_queue x \<in> set qs" by (auto simp: waiting_row_def)
  then show ?thesis using c i tok
    by (auto simp: tryClaim_def withTx_def claim_tx_def Let_def update_row_def row_of_def sq_held_iff claim_row_def scanRec_def)
qed

interpretation sq: lease_broker "sqlite_broker drv ref" sq_usable sq_held for drv ref
proof unfold_locales
  fix s e i token res s' er
  assume u: "sq_usable s"
  note defs = sqlite_broker_def Let_def
  show "if sq_held s i token then er = None \<and> \<not> sq_held s' i token else s' = s \<and> er \<noteq> None"
    if "op_Ack (sqlite_broker drv ref) e i token res s = (s', er)"
    using that sq_receipts(1) [OF u] by (fastforce simp: defs split: prod.splits)
  show "if sq_held s i token then (\<forall>n. kind \<noteq> FailOther n) \<longrightarrow> er = None \<and> \<not> sq_held s' i token else s' = s \<and> er \<noteq> None"
    if "op_Fail (sqlite_broker drv ref) e i token msg kind retryAt s = (s', er)" for msg kind retryAt
    using that sq_receipts(4) [OF u] by (fastforce simp: defs split: prod.splits)
  show "if sq_held s i token then er = None \<and> \<not> sq_held s' i token else s' = s \<and> er \<noteq> None"
    if "op_FinishCanceled (sqlite_broker drv ref) e i token s = (s', er)"
    using that sq_receipts(2) [OF u] by (fastforce simp: defs split: prod.splits)
  show "if sq_held s i token then er = None \<and> \<not> sq_held s' i token else s' = s \<and> er \<noteq> None"
    if "op_Requeue (sqlite_broker drv ref) e i token s = (s', er)"
    using that sq_receipts(3) [OF u] by (fastforce simp: defs split: prod.splits)
  show "if sq_held s i token then sq_held s' i token \<and> (er = None \<or> er = Some (ErrTaskCanceled i))
       else s' = s \<and> (er = Some (ErrLeaseLost i) \<or> er = Some (ErrTaskNotFound i))"
    if "op_Heartbeat (sqlite_broker drv ref) e i token s = (s', er)"
    using that sq_heartbeat [OF u] by (fastforce simp: defs split: prod.splits)
  show "sq_held s' (ID t) (LeaseToken t) \<and> LeaseToken t = e_ulid e \<and> Queue t \<in> set qs"
    if "op_Dequeue (sqlite_broker drv ref) e qs s = (s', Claimed t)" "e_ulid e \<noteq> ''''" for qs t
    using that by (auto simp: defs split: prod.splits dest!: sq_claim)
qed

text \<open>
  C17: the scheduler over the sqlite back end.  An execution that reaches its receipt while it holds the lease ends
  the lease with it, so no second receipt under the same lease can succeed; one whose lease is gone changes
  nothing in the database.  A heartbeat keeps the lease of its holder alive; on a lost lease it changes
  nothing, stops, cancels the context of the handler and marks the result as void.
\<close>

theorem sqlite_lease_to_receipt:
  assumes "reached (sqlite_broker drv ref) ext g" and "sq_usable (broker g)"
    and "fmlookup (s_workers (sched g)) p = Some w"
  shows "(w_phase w = PSend r \<longrightarrow> work_step (sqlite_broker drv ref) (WNext e j) p g = Some g' \<longrightarrow>
      (if sq_held (broker g) (ID (w_task w)) (LeaseToken (w_task w))
       then \<not> sq_held (broker g') (ID (w_task w)) (LeaseToken (w_task w)) else broker g' = broker g)) \<and>
    (work_step (sqlite_broker drv ref) (WHeartbeat e) p g = Some g' \<longrightarrow>
      (if sq_held (broker g) (ID (w_task w)) (LeaseToken (w_task w))
       then sq_held (broker g') (ID (w_task w)) (LeaseToken (w_task w))
       else broker g' = broker g \<and> (\<exists>w'. fmlookup (s_workers (sched g')) p = Some w' \<and>
         rt_leaseLost (w_rt w') \<and> rt_ctxDone (w_rt w') \<and> w_phase w' = set_heartbeat False (w_phase w))))"
  using sq.worker_lease [OF assms] .

section \<open>Quotas\<close>

definition sq_used :: "sqliteQuotaGate \<Rightarrow> sbroker \<Rightarrow> int \<Rightarrow> int" where
  "sq_used g s w = (case fmlookup (t_quota (sp_db s)) (sg_key g, w) of None \<Rightarrow> 0 | Some n \<Rightarrow> n)"

definition sq_gate_of :: "string \<Rightarrow> nat \<Rightarrow> nat \<Rightarrow> nat \<Rightarrow> sqliteQuotaGate" where
  "sq_gate_of key n p ref = \<lparr>sg_key = key, sg_limit = int n + 1, sg_periodSec = int p + 1, sg_ref = ref\<rparr>"

lemma sq_gate_pos [simp]: "0 < sg_limit (sq_gate_of key n p ref)" "0 < sg_periodSec (sq_gate_of key n p ref)"
  by (simp_all add: sq_gate_of_def)

lemma sq_QueueQuota_gate:
  assumes "sq_QueueQuota ref queue qc = Inr g"
  shows "\<exists>key n p. g = sq_gate_of key n p ref \<and> sg_limit g = QuotaLimit qc"
proof -
  have "g = sq_gate_of (if QuotaKey qc = '''' then queue else QuotaKey qc) (nat (QuotaLimit qc - 1))
      (nat (QuotaPeriod qc sdiv second - 1)) ref \<and> sg_limit g = QuotaLimit qc"
    using assms by (auto simp: sq_QueueQuota_def sq_gate_of_def Let_def split: if_splits)
  then show ?thesis by blast
qed

lemma sq_window_mono: "t \<le> t' \<Longrightarrow> 0 < sg_periodSec g \<Longrightarrow> sq_window g t \<le> sq_window g t'"
  unfolding sq_window_def unixSec_def by (intro mult_right_mono sdiv_mono zdiv_mono1) auto

lemma sq_Reserve_granted:
  assumes "sq_Reserve io io2 t g s = (s', Inr (Some w))" and "0 < sg_periodSec g" "0 < sg_limit g"
  shows "w = sq_window g t \<and> sq_used g s w < sg_limit g \<and>
    (\<forall>v. live_window (sq_window g) (sg_periodSec g) t v \<longrightarrow> sq_used g s' v = sq_used g s v + (if v = w then 1 else 0))"
  using assms
  by (auto simp: sq_Reserve_def quotaReserveSQL_def quotaCleanSQL_def sq_used_def live_window_def Let_def
      split: option.splits if_splits)

lemma sq_Reserve_refused:
  assumes "sq_Reserve io io2 t g s = (s', Inr None)"
  shows "sg_limit g \<le> sq_used g s (sq_window g t) \<and> s' = s"
  using assms
  by (auto simp: sq_Reserve_def quotaReserveSQL_def sq_used_def Let_def split: option.splits if_splits)

lemma sq_Release_used:
  "sq_used g (fst (sq_Release None g (Some w) s)) v = (if v = w \<and> sq_used g s v > 0 then sq_used g s v - 1 else sq_used g s v)"
  by (auto simp: sq_Release_def sq_used_def split: option.splits)

text \<open>
  The failures of the storage may depend on the instant of the reservation.
\<close>

lemma sq_Reserve_error: "sq_Reserve io io2 clk g s = (s', Inl e) \<Longrightarrow> s' = s"
  by (auto simp: sq_Reserve_def Let_def split: option.splits prod.splits if_splits)

interpretation sqq: quota_gate "\<lambda>t. sq_Reserve (io t) (io2 t) t (sq_gate_of key n p ref)"
  "\<lambda>w s. fst (sq_Release None (sq_gate_of key n p ref) (Some w) s)" "sq_used (sq_gate_of key n p ref)"
  "sq_window (sq_gate_of key n p ref)" "sg_limit (sq_gate_of key n p ref)" "sg_periodSec (sq_gate_of key n p ref)"
  for key n p ref io io2
proof unfold_locales
  show "\<forall>v. live_window (sq_window (sq_gate_of key n p ref)) (sg_periodSec (sq_gate_of key n p ref)) t v \<longrightarrow>
      sq_used (sq_gate_of key n p ref) s' v = sq_used (sq_gate_of key n p ref) s v"
    if "sq_Reserve (io t) (io2 t) t (sq_gate_of key n p ref) s = (s', Inl e)" for t s s' e
    using sq_Reserve_error [OF that] by simp
qed (auto simp: less_imp_le sq_window_mono sq_Release_used dest: sq_Reserve_granted sq_Reserve_refused)

text \<open>
  C38: quotas in the database.  A gate of the sqlite back end never over-issues: over any history of
  reservations at non-decreasing instants (with storage failures), releases and other work, that of
  other processes on the file included, no window has more outstanding reservations than the limit,
  the counter of every window that is still kept is the number of its outstanding reservations, and a
  reservation is refused only when the window has handed out its whole limit.
\<close>

theorem sqlite_quota_never_exceeded:
  assumes "sq_QueueQuota ref queue qc = Inr g"
    and "quota_history (\<lambda>t. sq_Reserve (io t) (ioClean t) t g) (\<lambda>w s. fst (sq_Release None g (Some w) s)) (sq_used g) s t out"
  shows "int (count out w) \<le> QuotaLimit qc \<and>
    (live_window (sq_window g) (sg_periodSec g) t w \<longrightarrow> sq_used g s w = int (count out w)) \<and>
    (t \<le> t' \<longrightarrow> sq_Reserve (io t') (ioClean t') t' g s = (s', Inr None) \<longrightarrow> int (count out (sq_window g t')) = QuotaLimit qc)"
proof -
  obtain key n p where g: "g = sq_gate_of key n p ref" "sg_limit g = QuotaLimit qc"
    using sq_QueueQuota_gate [OF assms(1)] by blast
  show ?thesis
    using sqq.exact [of io ioClean key n p ref s t out] sqq.refusal_exact [of io ioClean key n p ref s t out t' s'] assms(2)
    unfolding g(1) g(2) [symmetric] by blast
qed

end
