(* ===== verification/Sqlite_Witness.thy ===== *)
theory Sqlite_Witness
  imports Sqlite_Lease
begin

text \<open>
  Concrete states of the sqlite back end that instantiate its theorems: a database with a finished
  task and a dependent one, a call on a fresh database, a failing storage, a quota with one reservation per
  minute, and a process that executes a task whose record lives in the database.
\<close>

section \<open>A database\<close>

definition demo_drv :: "constraint \<Rightarrow> string" where
  "demo_drv c = ''constraint failed''"

definition demo_ref :: "string \<Rightarrow> nat" where
  "demo_ref q = 0"

definition demo_env :: "time \<Rightarrow> id \<Rightarrow> id list \<Rightarrow> env" where
  "demo_env clk u xs = \<lparr>e_now = clk, e_ulid = u, e_order = xs, e_order2 = xs, e_ctx = None\<rparr>"

definition demo_task :: "id list \<Rightarrow> task" where
  "demo_task ds = \<lparr>ID = '''', BusinessKey = ''k'' @ concat ds, ReplayOf = '''', Type = ''job'', Queue = ''job'',
     Payload = Some [7], Status = StatusPending, Result = None, LastError = '''', Attempts = 0, MaxRetry = 2,
     LeaseLost = 0, Throttled = 0, RunAt = zero_time, DependsOn = ds, OnParentFailure = FailFast, LeaseToken = '''',
     CreatedAt = zero_time, StartedAt = zero_time, FinishedAt = zero_time\<rparr>"

definition db0 :: sbroker where
  "db0 = sq_Init \<lparr>LeaseTTL = fmempty, DefaultLeaseTTL = 0, LeaseLostMax = 0, ThrottledMax = 0\<rparr> (sq_Open sq_empty)"

definition demo_call :: "env \<Rightarrow> brokerCall \<Rightarrow> sbroker \<Rightarrow> sbroker" where
  "demo_call e c s = fst (perform (sqlite_broker demo_drv demo_ref) e c s)"

definition db1 :: sbroker where
  "db1 = demo_call (demo_env (2 * second) ''a'' []) (CallEnqueue (demo_task [])) db0"

definition db2 :: sbroker where
  "db2 = demo_call (demo_env (3 * second) ''b'' [''a'']) (CallEnqueue (demo_task [''a''])) db1"

lemma db0_opts: "sp_opts db0 = \<lparr>LeaseTTL = fmempty, DefaultLeaseTTL = 60 * second, LeaseLostMax = 3, ThrottledMax = 100\<rparr>"
  by code_simp

lemma demo_ttl: "sp_opts s = sp_opts db0 \<Longrightarrow> ttl_ok s"
  by (simp add: ttl_ok_def sq_ttlFor_def db0_opts)

lemma demo_step:
  assumes "sreach s" "env_ok e s" "call_ok c"
  shows "sreach (demo_call e c s)"
proof -
  have "sstep s (demo_call e c s)" unfolding demo_call_def
    by (rule sstep.call [OF assms(2,3), of demo_drv demo_ref _ "snd (perform (sqlite_broker demo_drv demo_ref) e c s)"]) simp
  then show ?thesis using assms(1) by (rule rtranclp.rtrancl_into_rtrancl [rotated])
qed

lemma demo_new: "call_ok (CallEnqueue (demo_task ds))"
  by (simp add: demo_task_def new_task_ok_def stamp_ok_def isZero_def)

lemma env0: "env_ok (demo_env (2 * second) ''a'' []) db0"
proof -
  have "after_epoch (e_now (demo_env (2 * second) ''a'' []))" "range_order [] (t_tasks (sp_db db0))"
    "fmlookup (t_tasks (sp_db db0)) ''a'' = None" by code_simp+
  then show ?thesis using demo_ttl [of db0] by (simp add: env_ok_def demo_env_def)
qed

lemma env1: "env_ok (demo_env (3 * second) ''b'' [''a'']) db1"
proof -
  have "after_epoch (e_now (demo_env (3 * second) ''b'' [''a'']))" "range_order [''a''] (t_tasks (sp_db db1))"
    "fmlookup (t_tasks (sp_db db1)) ''b'' = None" "sp_opts db1 = sp_opts db0" by code_simp+
  then show ?thesis using demo_ttl [of db1] by (simp add: env_ok_def demo_env_def)
qed

lemma sreach0: "sreach db0"
proof -
  have "sp_db db0 = sp_db (sq_Open sq_empty)" by code_simp
  then show ?thesis using sstep.process [of db0 "sq_Open sq_empty"] by blast
qed

lemma sreach1: "sreach db1"
  unfolding db1_def by (rule demo_step [OF sreach0 env0 demo_new])

lemma sreach2: "sreach db2"
  unfolding db2_def by (rule demo_step [OF sreach1 env1 demo_new])

section \<open>Witnesses\<close>

theorem sqlite_refines_memory_witness:
  "\<exists>b e' b' a'. refined db0 b \<and> perform memory_broker e' (CallEnqueue (demo_task [])) b = (b', a') \<and>
     refined db1 (sort_children b')"
proof -
  have "sp_db db0 = sp_db (sq_Open sq_empty)" by code_simp
  then obtain b where b: "refined db0 b" using refined_process [OF open_refined, of db0] by auto
  have step: "perform (sqlite_broker demo_drv demo_ref) (demo_env (2 * second) ''a'' []) (CallEnqueue (demo_task [])) db0 =
      (db1, snd (perform (sqlite_broker demo_drv demo_ref) (demo_env (2 * second) ''a'' []) (CallEnqueue (demo_task [])) db0))"
    by (simp add: db1_def demo_call_def)
  show ?thesis using sqlite_refines_memory [OF b env0 demo_new _ step] b by auto
qed

theorem sqlite_tables_consistent_witness:
  "\<exists>r. fmlookup (t_tasks (sp_db db2)) ''b'' = Some r \<and> c_status r = StatusBlocked \<and>
     c_pending_parents r = int (card {q \<in> {''a''}. \<not> isFinal (c_status (row_of (sp_db db2) q))})"
proof -
  have "fmlookup (t_tasks (sp_db db2)) ''b'' \<noteq> None" by code_simp
  then obtain r where r: "fmlookup (t_tasks (sp_db db2)) ''b'' = Some r" by blast
  have "c_status (row_of (sp_db db2) ''b'') = StatusBlocked" "c_depends_on (row_of (sp_db db2) ''b'') = [''a'']" by code_simp+
  then have "c_status r = StatusBlocked" "c_depends_on r = [''a'']" using r by (simp_all add: row_of_def)
  then show ?thesis using sqlite_tables_consistent [OF sreach2 r] r by simp
qed

definition demo_quota :: queueConfig where
  "demo_quota = zeroQueue\<lparr>QuotaLimit := 1, QuotaPeriod := 60 * second\<rparr>"

definition demo_gate :: sqliteQuotaGate where
  "demo_gate = \<lparr>sg_key = ''job'', sg_limit = 1, sg_periodSec = 60, sg_ref = 0\<rparr>"

theorem sqlite_quota_never_exceeded_witness:
  "\<exists>s w. sq_Reserve None None second demo_gate db0 = (s, Inr (Some w)) \<and> sq_used demo_gate s w = 1 \<and>
     snd (sq_Reserve None None (2 * second) demo_gate s) = Inr None"
proof -
  define s where "s = fst (sq_Reserve None None second demo_gate db0)"
  have g: "sq_QueueQuota 0 ''job'' demo_quota = Inr demo_gate" by code_simp
  have "snd (sq_Reserve None None second demo_gate db0) = Inr (Some 0)" by code_simp
  then have r: "sq_Reserve None None second demo_gate db0 = (s, Inr (Some 0))" by (simp add: s_def prod_eq_iff)
  have refused: "snd (sq_Reserve None None (2 * second) demo_gate s) = Inr None" unfolding s_def by code_simp
  have "sq_used demo_gate db0 w = 0" for w by (simp add: sq_used_def db0_def sq_Init_def sq_Open_def sq_empty_def Let_def)
  then have "quota_history (\<lambda>t. sq_Reserve None None t demo_gate) (\<lambda>w s. fst (sq_Release None demo_gate (Some w) s))
      (sq_used demo_gate) db0 0 {#}" by (rule quota_history.start)
  from quota_history.granted [OF this, of second s 0] r
  have h: "quota_history (\<lambda>t. sq_Reserve None None t demo_gate) (\<lambda>w s. fst (sq_Release None demo_gate (Some w) s))
      (sq_used demo_gate) s second (add_mset 0 {#})" by simp
  have "live_window (sq_window demo_gate) (sg_periodSec demo_gate) second 0" by code_simp
  then have "sq_used demo_gate s 0 = 1"
    using sqlite_quota_never_exceeded [OF g, where io = "\<lambda>_. None" and ioClean = "\<lambda>_. None", OF h, of 0] by simp
  then show ?thesis using r refused by blast
qed

section \<open>A process\<close>

definition demo_config :: config where
  "demo_config = \<lparr>HasBroker = True,
     Queues = fmupd ''job'' (zeroQueue\<lparr>Workers := 1, QLeaseTTL := second, ManualHeartbeat := True\<rparr>) fmempty,
     Routes = fmempty, DefaultQueue = zeroQueue, CLeaseLostMax = 0, CThrottledMax = 0\<rparr>"

definition demo_ev :: claimEv where
  "demo_ev = \<lparr>ce_env = demo_env (3 * second) ''t'' [''a''], ce_pick = True, ce_wait = (\<lambda>_. None), ce_timeout = False,
     ce_sleepErr = False, ce_ptr = 1\<rparr>"

type_synonym sgate = "(sbroker, sqliteQuotaGate) gate"

abbreviation demo_broker :: "(sbroker, sqliteQuotaGate) Broker" where
  "demo_broker \<equiv> sqlite_broker demo_drv demo_ref"

definition demo_claim :: "sgate \<Rightarrow> sgate option" where
  "demo_claim g = claim_step demo_broker demo_ev ''job'' g"

definition demo_work :: "sgate \<Rightarrow> sgate option" where
  "demo_work g = work_step demo_broker (WNext (demo_env (4 * second) ''x'' [''a'']) (Jitter False 0)) 1 g"

definition proc0 :: sgate where
  "proc0 = (case newGate demo_broker [''job''] [] [''job''] [''job''] demo_config (sq_Open sq_empty) of Inr g \<Rightarrow> g)"

definition proc1 :: sgate where
  "proc1 = fst (Submit demo_broker (demo_env (2 * second) ''a'' []) ''job'' None [] (Handle ''job'' proc0))"

definition proc2 :: sgate where
  "proc2 = fst (run_start demo_broker [''job''] [''job''] None proc1)"

definition proc3 :: sgate where
  "proc3 = the (Option.bind (Option.bind (demo_claim proc2) demo_claim) demo_claim)"

definition proc4 :: sgate where
  "proc4 = the (Option.bind (demo_work proc3) demo_work)"

definition proc5 :: sgate where
  "proc5 = the (work_step demo_broker (WReturn (HReturned (Some [1]) None)) 1 proc4)"

definition proc6 :: sgate where
  "proc6 = the (Option.bind (Option.bind (demo_work proc5) demo_work) demo_work)"

lemma opt_reached:
  assumes "reached demo_broker ext g" and "\<And>h. x = Some h \<Longrightarrow> gstep demo_broker ext g h" and "x \<noteq> None"
  shows "reached demo_broker ext (the x)"
  using assms reached_step by auto

lemma bind_reached:
  assumes "\<And>a. x = Some a \<Longrightarrow> reached demo_broker ext a" and "\<And>a h. f a = Some h \<Longrightarrow> gstep demo_broker ext a h"
    and "Option.bind x f = Some h"
  shows "reached demo_broker ext h"
proof -
  obtain a where a: "x = Some a" "f a = Some h" using assms(3) by (cases x) auto
  show ?thesis by (rule reached_step [OF assms(1) [OF a(1)] assms(2) [OF a(2)]])
qed

lemma demo_claim_step: "demo_claim g = Some h \<Longrightarrow> gstep demo_broker ext g h"
  unfolding demo_claim_def by (rule gstep.claim)

lemma demo_work_step: "demo_work g = Some h \<Longrightarrow> gstep demo_broker ext g h"
  unfolding demo_work_def by (rule gstep.work)

lemma proc0_reached: "reached demo_broker ext proc0"
proof -
  have "case newGate demo_broker [''job''] [] [''job''] [''job''] demo_config (sq_Open sq_empty) of Inr _ \<Rightarrow> True | Inl _ \<Rightarrow> False"
    by code_simp
  then have new: "newGate demo_broker [''job''] [] [''job''] [''job''] demo_config (sq_Open sq_empty) = Inr proc0"
    by (auto simp: proc0_def split: sum.splits)
  have "range_order [''job''] (Queues demo_config)" by code_simp
  with new show ?thesis by (rule reached_newGate [rotated]) (simp add: sqlite_broker_def)
qed

lemma proc1_reached: "reached demo_broker ext proc1"
proof -
  have "\<not> s_started (sched proc0)" by code_simp
  then have "reached demo_broker ext (Handle ''job'' proc0)" by (rule reached_step [OF proc0_reached gstep.handle])
  then show ?thesis unfolding proc1_def by (rule reached_step [OF _ gstep.submit])
qed

lemma proc2_reached: "reached demo_broker ext proc2"
proof -
  have q: "consumeQueues (g_cfg proc1) [''job''] = Inr (Queues (g_cfg proc1))" by code_simp
  have "range_order [''job''] (Queues (g_cfg proc1))" "set [''job''] = fset (g_handlers proc1)" by code_simp+
  from gstep.start [OF this(1) q this(2)] show ?thesis unfolding proc2_def by (rule reached_step [OF proc1_reached])
qed

lemma proc3_reached: "reached demo_broker ext proc3"
proof -
  have one: "reached demo_broker ext a" if "demo_claim proc2 = Some a" for a
    using reached_step [OF proc2_reached demo_claim_step [OF that]] .
  have two: "reached demo_broker ext a" if "Option.bind (demo_claim proc2) demo_claim = Some a" for a
    by (rule bind_reached [OF one demo_claim_step that])
  have three: "reached demo_broker ext a" if "Option.bind (Option.bind (demo_claim proc2) demo_claim) demo_claim = Some a" for a
    by (rule bind_reached [OF two demo_claim_step that])
  have "Option.bind (Option.bind (demo_claim proc2) demo_claim) demo_claim \<noteq> None" by code_simp
  then show ?thesis using three unfolding proc3_def by auto
qed

lemma proc4_reached: "reached demo_broker ext proc4"
proof -
  have one: "reached demo_broker ext a" if "demo_work proc3 = Some a" for a
    using reached_step [OF proc3_reached demo_work_step [OF that]] .
  have two: "reached demo_broker ext a" if "Option.bind (demo_work proc3) demo_work = Some a" for a
    by (rule bind_reached [OF one demo_work_step that])
  have "Option.bind (demo_work proc3) demo_work \<noteq> None" by code_simp
  then show ?thesis using two unfolding proc4_def by auto
qed

lemma proc5_reached: "reached demo_broker ext proc5"
  unfolding proc5_def by (rule opt_reached [OF proc4_reached], erule gstep.work) code_simp

lemma proc6_reached: "reached demo_broker ext proc6"
proof -
  have one: "reached demo_broker ext a" if "demo_work proc5 = Some a" for a
    using reached_step [OF proc5_reached demo_work_step [OF that]] .
  have two: "reached demo_broker ext a" if "Option.bind (demo_work proc5) demo_work = Some a" for a
    by (rule bind_reached [OF one demo_work_step that])
  have three: "reached demo_broker ext a" if "Option.bind (Option.bind (demo_work proc5) demo_work) demo_work = Some a" for a
    by (rule bind_reached [OF two demo_work_step that])
  have "Option.bind (Option.bind (demo_work proc5) demo_work) demo_work \<noteq> None" by code_simp
  then show ?thesis using three unfolding proc6_def by auto
qed

definition demo_worker :: worker where
  "demo_worker = the (fmlookup (s_workers (sched proc6)) 1)"

theorem sqlite_lease_to_receipt_witness:
  "sq_held (broker proc6) ''a'' ''t'' \<and> \<not> sq_held (broker (the (demo_work proc6))) ''a'' ''t''"
proof -
  have "fmlookup (s_workers (sched proc6)) 1 \<noteq> None" by code_simp
  then have w: "fmlookup (s_workers (sched proc6)) 1 = Some demo_worker" by (auto simp: demo_worker_def)
  have u: "sq_usable (broker proc6)" and ph: "w_phase demo_worker = PSend (RAck (Some [1]))"
    and it: "ID (w_task demo_worker) = ''a''" "LeaseToken (w_task demo_worker) = ''t''"
    and held: "sq_held (broker proc6) ''a'' ''t''" by code_simp+
  have "demo_work proc6 \<noteq> None" by code_simp
  then have step: "work_step demo_broker (WNext (demo_env (4 * second) ''x'' [''a'']) (Jitter False 0)) 1 proc6 = Some (the (demo_work proc6))"
    by (auto simp: demo_work_def)
  show ?thesis using sqlite_lease_to_receipt [OF proc6_reached u w] ph step held unfolding it by simp
qed

end
