(* ===== verification/Sql_Dialect.thy ===== *)
theory Sql_Dialect
  imports Task_Model
begin

text \<open>
  The two dialects of the server back ends: \<open>pgbroker/\<close> and \<open>mysqlbroker/\<close>, as instances of the
  interface \<open>Dialect\<close> of \<open>internal/sqlbroker/dialect.go\<close>, with the options of the two packages.  The
  statements of \<open>SchemaSQL\<close> and \<open>QuotaSQL\<close> are modelled by what they do to the tables
  (theory \<open>Sql_Broker\<close>), the errors of the two drivers by the fields the code looks at.
\<close>

section \<open>Errors of the drivers\<close>

text \<open>
  \<open>*pgconn.PgError\<close> with its code, its constraint name and its text, \<open>*mysql.MySQLError\<close> with its number,
  its message and its text, and every other error with its text.
\<close>

datatype driverErr =
    PgError string string string
  | MySQLError int string string
  | PlainErr string

fun driverText :: "driverErr \<Rightarrow> string" where
  "driverText (PgError code con txt) = txt"
| "driverText (MySQLError n msg txt) = txt"
| "driverText (PlainErr txt) = txt"

datatype retryClass = NotRetryable | RetryImmediate | RetryLimited

text \<open>
  \<open>dl_QuotaReserve\<close> says that the field \<open>Reserve\<close> of \<open>QuotaSQL\<close> is not empty: the quota is reserved by
  one statement.
\<close>

record dialect =
  dl_Name :: string
  dl_Rebind :: "string \<Rightarrow> string"
  dl_IsDuplicateKey :: "driverErr \<Rightarrow> bool"
  dl_DuplicateKeyConstraint :: "driverErr \<Rightarrow> string"
  dl_IsIdempotentDDLErr :: "driverErr \<Rightarrow> bool"
  dl_Retryable :: "driverErr \<Rightarrow> retryClass"
  dl_QuotaReserve :: bool

section \<open>PostgreSQL\<close>

fun pg_rebind_from :: "nat \<Rightarrow> bool \<Rightarrow> string \<Rightarrow> string" where
  "pg_rebind_from n inQuote [] = []"
| "pg_rebind_from n inQuote (c # cs) =
     (if c = CHR 0x27 then c # pg_rebind_from n (\<not> inQuote) cs
      else if c = CHR ''?'' \<and> \<not> inQuote then ''$'' @ show_nat (n + 1) @ pg_rebind_from (n + 1) inQuote cs
      else c # pg_rebind_from n inQuote cs)"

definition pg_Rebind :: "string \<Rightarrow> string" where
  "pg_Rebind query = pg_rebind_from 0 False query"

fun pg_IsDuplicateKey :: "driverErr \<Rightarrow> bool" where
  "pg_IsDuplicateKey (PgError code con txt) \<longleftrightarrow> code = ''23505''"
| "pg_IsDuplicateKey _ \<longleftrightarrow> False"

fun pg_DuplicateKeyConstraint :: "driverErr \<Rightarrow> string" where
  "pg_DuplicateKeyConstraint (PgError code con txt) = (if code = ''23505'' then con else '''')"
| "pg_DuplicateKeyConstraint _ = ''''"

fun pg_Retryable :: "driverErr \<Rightarrow> retryClass" where
  "pg_Retryable (PgError code con txt) =
     (if code = ''40P01'' \<or> code = ''40001'' then RetryImmediate else NotRetryable)"
| "pg_Retryable _ = NotRetryable"

definition pgDialect :: dialect where
  "pgDialect = \<lparr>dl_Name = ''postgres'', dl_Rebind = pg_Rebind, dl_IsDuplicateKey = pg_IsDuplicateKey,
     dl_DuplicateKeyConstraint = pg_DuplicateKeyConstraint, dl_IsIdempotentDDLErr = (\<lambda>_. False),
     dl_Retryable = pg_Retryable, dl_QuotaReserve = True\<rparr>"

text \<open>The advisory lock number: 64-bit FNV-1a of the prefixed key, read as a signed integer.\<close>

definition fnv1a :: "string \<Rightarrow> 64 word" where
  "fnv1a s = foldl (\<lambda>h c. (xor h (of_char c)) * 1099511628211) 14695981039346656037 s"

definition advisoryKey :: "string \<Rightarrow> int" where
  "advisoryKey key = sint (fnv1a (''taskgate:'' @ key))"

section \<open>MySQL\<close>

fun mysql_IsDuplicateKey :: "driverErr \<Rightarrow> bool" where
  "mysql_IsDuplicateKey (MySQLError n msg txt) \<longleftrightarrow> n = 1062"
| "mysql_IsDuplicateKey _ \<longleftrightarrow> False"

fun mysql_DuplicateKeyConstraint :: "driverErr \<Rightarrow> string" where
  "mysql_DuplicateKeyConstraint (MySQLError n msg txt) = (if n = 1062 then msg else '''')"
| "mysql_DuplicateKeyConstraint _ = ''''"

fun mysql_IsIdempotentDDLErr :: "driverErr \<Rightarrow> bool" where
  "mysql_IsIdempotentDDLErr (MySQLError n msg txt) \<longleftrightarrow> n = 1060 \<or> n = 1061"
| "mysql_IsIdempotentDDLErr _ \<longleftrightarrow> False"

fun mysql_Retryable :: "driverErr \<Rightarrow> retryClass" where
  "mysql_Retryable (MySQLError n msg txt) =
     (if n = 1213 then RetryImmediate else if n = 1205 then RetryLimited else NotRetryable)"
| "mysql_Retryable _ = NotRetryable"

definition mysqlDialect :: dialect where
  "mysqlDialect = \<lparr>dl_Name = ''mysql'', dl_Rebind = (\<lambda>query. query), dl_IsDuplicateKey = mysql_IsDuplicateKey,
     dl_DuplicateKeyConstraint = mysql_DuplicateKeyConstraint, dl_IsIdempotentDDLErr = mysql_IsIdempotentDDLErr,
     dl_Retryable = mysql_Retryable, dl_QuotaReserve = False\<rparr>"

definition lockName :: "string \<Rightarrow> string" where
  "lockName key = (let name = ''taskgate:'' @ key in if length name > 64 then take 64 name else name)"

text \<open>What \<open>GET_LOCK\<close> answered: an error, \<open>NULL\<close> or a number.\<close>

definition mysql_Lock :: "driverErr + int option \<Rightarrow> driverErr option" where
  "mysql_Lock answer =
     (case answer of
        Inl e \<Rightarrow> Some e
      | Inr ok \<Rightarrow> if ok = Some 1 then None else Some (PlainErr ''mysql: GET_LOCK for schema did not return 1''))"

section \<open>Lengths in characters\<close>

definition in_range :: "char \<Rightarrow> nat \<Rightarrow> nat \<Rightarrow> bool" where
  "in_range c lo hi \<longleftrightarrow> lo \<le> of_char c \<and> of_char c \<le> hi"

text \<open>
  The number of bytes of the first rune, as \<open>unicode/utf8\<close> decodes it: a byte that does not start a
  well-formed sequence is a rune of its own.  The second byte has a narrower range after \<open>E0\<close>, \<open>ED\<close>, \<open>F0\<close> and \<open>F4\<close>.
\<close>

definition rune_width :: "string \<Rightarrow> nat" where
  "rune_width s =
     (case s of
        [] \<Rightarrow> 1
      | c # rest \<Rightarrow>
          let b = (of_char c :: nat);
              lo = (if b = 0xE0 then 0xA0 else if b = 0xF0 then 0x90 else 0x80);
              hi = (if b = 0xED then 0x9F else if b = 0xF4 then 0x8F else 0xBF);
              size = (if b < 0xC2 then 1 else if b < 0xE0 then 2 else if b < 0xF0 then 3 else if b < 0xF5 then 4 else 1);
              tail = take (size - 1) rest
          in if length tail < size - 1 then 1
             else if size = 1 then 1
             else if in_range (hd tail) lo hi \<and> list_all (\<lambda>x. in_range x 0x80 0xBF) (tl tail) then size else 1)"

lemma rune_width_pos: "0 < rune_width s"
  by (simp add: rune_width_def Let_def split: list.split)

function runeCount :: "string \<Rightarrow> nat" where
  "runeCount s = (if s = [] then 0 else 1 + runeCount (drop (rune_width s) s))"
  by pat_completeness auto
termination
  by (relation "measure length") (use rune_width_pos in auto)

declare runeCount.simps [simp del]

definition maxIDLen :: nat where
  "maxIDLen = 255"

definition validateLen :: "string \<Rightarrow> string \<Rightarrow> tg_error option" where
  "validateLen field val =
     (if runeCount val > maxIDLen
      then Some (ErrConfig (''mysqlbroker: '' @ field @ '' too long: '' @ show_nat (runeCount val) @
             '' characters exceeds max '' @ show_nat maxIDLen))
      else None)"

section \<open>Options\<close>

record sqlConfig =
  TablePrefix :: string
  MaxOpenConns :: int
  PollInterval :: duration
  MaxTxRetry :: int

definition withDefaults :: "sqlConfig \<Rightarrow> sqlConfig" where
  "withDefaults c =
     (let c1 = (if TablePrefix c = '''' then c\<lparr>TablePrefix := ''taskgate_''\<rparr> else c);
          c2 = (if MaxOpenConns c1 \<le> 0 then c1\<lparr>MaxOpenConns := 10\<rparr> else c1);
          c3 = (if PollInterval c2 \<le> 0 then c2\<lparr>PollInterval := 200 * millisecond\<rparr> else c2)
      in if MaxTxRetry c3 \<le> 0 then c3\<lparr>MaxTxRetry := 5\<rparr> else c3)"

datatype sqlOption = WithTablePrefix string | WithMaxOpenConns int | WithPollInterval duration

fun applyOption :: "sqlOption \<Rightarrow> sqlConfig \<Rightarrow> sqlConfig" where
  "applyOption (WithTablePrefix p) c = c\<lparr>TablePrefix := p\<rparr>"
| "applyOption (WithMaxOpenConns n) c = c\<lparr>MaxOpenConns := n\<rparr>"
| "applyOption (WithPollInterval d) c = c\<lparr>PollInterval := d\<rparr>"

text \<open>The configuration \<open>Open\<close> hands to the core; \<open>MaxTxRetry\<close> is not an option of the two packages.\<close>

definition sqlOptions :: "sqlOption list \<Rightarrow> sqlConfig" where
  "sqlOptions opts =
     fold applyOption opts \<lparr>TablePrefix = '''', MaxOpenConns = 0, PollInterval = 0, MaxTxRetry = 0\<rparr>"

lemma withDefaults_pos: "0 < MaxTxRetry (withDefaults c)" "0 < PollInterval (withDefaults c)"
  "0 < MaxOpenConns (withDefaults c)" "TablePrefix (withDefaults c) \<noteq> ''''"
  by (simp_all add: withDefaults_def Let_def)

text \<open>The session parameter \<open>mysqlbroker.Open\<close> adds to the ones of the connection string.\<close>

definition mysql_params :: "(string, string) fmap \<Rightarrow> (string, string) fmap" where
  "mysql_params ps =
     (if fmlookup ps ''innodb_lock_wait_timeout'' = None
      then fmupd ''innodb_lock_wait_timeout'' ''5'' ps else ps)"

section \<open>Rebind\<close>

text \<open>
  A query as a list of characters and placeholders.  \<open>parse_holes\<close> finds the placeholders: the question marks
  outside single quotes.  The result of \<open>Rebind\<close> has the k-th of them replaced by \<open>$k\<close> and is
  otherwise the same text.
\<close>

datatype piece = Ch char | Hole

fun parse_holes :: "bool \<Rightarrow> string \<Rightarrow> piece list" where
  "parse_holes q [] = []"
| "parse_holes q (c # cs) =
     (if c = CHR ''?'' \<and> \<not> q then Hole # parse_holes q cs
      else Ch c # parse_holes (if c = CHR 0x27 then \<not> q else q) cs)"

fun print_pieces :: "(nat \<Rightarrow> string) \<Rightarrow> nat \<Rightarrow> piece list \<Rightarrow> string" where
  "print_pieces f n [] = []"
| "print_pieces f n (Ch c # ps) = c # print_pieces f n ps"
| "print_pieces f n (Hole # ps) = f (n + 1) @ print_pieces f (n + 1) ps"

lemma print_parse: "print_pieces (\<lambda>_. ''?'') n (parse_holes q s) = s"
  by (induction q s arbitrary: n rule: parse_holes.induct) auto

lemma rebind_print: "pg_rebind_from n q s = print_pieces (\<lambda>k. ''$'' @ show_nat k) n (parse_holes q s)"
  by (induction n q s rule: pg_rebind_from.induct) auto

lemma pg_Rebind_pieces:
  "\<exists>ps. query = print_pieces (\<lambda>_. ''?'') 0 ps \<and> pg_Rebind query = print_pieces (\<lambda>k. ''$'' @ show_nat k) 0 ps"
  using print_parse [of 0 False query] rebind_print [of 0 False query] unfolding pg_Rebind_def by metis

section \<open>Lengths\<close>

lemma runeCount_le: "runeCount s \<le> length s"
proof (induction s rule: runeCount.induct)
  case (1 s)
  show ?case
  proof (cases "s = []")
    case False
    moreover have "length (drop (rune_width s) s) < length s" using rune_width_pos [of s] False by simp
    ultimately show ?thesis using 1 by (simp add: runeCount.simps [of s])
  qed (simp add: runeCount.simps)
qed

lemma runeCount_ascii: "list_all (\<lambda>c. of_char c < (0x80 :: nat)) s \<Longrightarrow> runeCount s = length s"
  by (induction s) (simp_all add: runeCount.simps [of "_ # _"] runeCount.simps [of "[]"] rune_width_def)

lemma validateLen_accepts: "length s \<le> maxIDLen \<Longrightarrow> validateLen field s = None"
  using runeCount_le [of s] by (simp add: validateLen_def)

end
