(* ===== verification/Sql_Broker.thy ===== *)
theory Sql_Broker
  imports Sqlite_Broker Sql_Dialect
begin

text \<open>
  The back end for database servers of \<open>internal/sqlbroker/\<close>, shared by \<open>pgbroker/\<close> and \<open>mysqlbroker/\<close>.
  It keeps the tables of the sqlite back end, and the bodies of its transactions are statement for
  statement those of \<open>sqlitebroker/\<close> where the model uses the same function for both.  What differs is
  modelled here: the retry loop of \<open>withTx\<close>, the translation of duplicate keys, the claim and the reaper
  over rows that other transactions may have locked, and the quota statements.

  \<^item> An attempt is one pass through the loop of \<open>withTx\<close>, with everything it meets: \<open>at_others\<close> is
    what other transactions commit before it, \<open>at_begin\<close> the failure of \<open>BeginTx\<close>, \<open>at_stmt\<close> of a statement
    (\<open>at_late\<close>: not of the first one), \<open>at_commit\<close> of \<open>Commit\<close>, with whether the server had committed all the
    same; \<open>at_done\<close> says that the context ends during the back-off.  \<open>at_now\<close> and \<open>at_ulid\<close> are the
    clock and the new identifier it reads, \<open>at_order\<close> the order of a result set without \<open>ORDER BY\<close>.
  \<^item> \<open>at_locked\<close> and \<open>at_locked2\<close> are the rows that \<open>SKIP LOCKED\<close> skips; a row that a statement locks with
    \<open>FOR UPDATE\<close> keeps its value until the end of the transaction, so a transaction is one step.
  \<^item> \<open>at_race\<close> is a unique key that another transaction has taken between the check and the \<open>INSERT\<close>.
  \<^item> \<open>viol\<close> is the error of the driver for a violated constraint.
\<close>

section \<open>State\<close>

record attempt =
  at_others :: "sdb \<Rightarrow> sdb"
  at_begin :: "driverErr option"
  at_stmt :: "driverErr option"
  at_late :: bool
  at_race :: "constraint option"
  at_commit :: "(driverErr \<times> bool) option"
  at_done :: bool
  at_now :: time
  at_ulid :: id
  at_order :: "id list"
  at_locked :: "id list"
  at_locked2 :: "id list"

type_synonym attempts = "nat \<Rightarrow> attempt"

record srvbroker =
  v_dialect :: dialect
  v_cfg :: sqlConfig
  v_opts :: brokerOptions
  v_inited :: bool
  v_closed :: bool
  v_wakes :: nat
  v_lastWins :: "(nat, int) fmap"
  v_retries :: int
  v_db :: sdb

definition srv_New :: "dialect \<Rightarrow> sdb \<Rightarrow> sqlConfig \<Rightarrow> srvbroker" where
  "srv_New dl d cfg =
     \<lparr>v_dialect = dl, v_cfg = withDefaults cfg,
      v_opts = \<lparr>LeaseTTL = fmempty, DefaultLeaseTTL = 0, LeaseLostMax = 0, ThrottledMax = 0\<rparr>,
      v_inited = False, v_closed = False, v_wakes = 0, v_lastWins = fmempty, v_retries = 0, v_db = d\<rparr>"

definition pg_Open :: "sqlOption list \<Rightarrow> sdb \<Rightarrow> srvbroker" where
  "pg_Open os d = srv_New pgDialect d (sqlOptions os)"

definition mysql_Open :: "sqlOption list \<Rightarrow> sdb \<Rightarrow> srvbroker" where
  "mysql_Open os d = srv_New mysqlDialect d (sqlOptions os)"

text \<open>
  \<open>ensureSchema\<close>: what taking the connection, taking the lock and each statement of the schema answer.
\<close>

fun apply_ddl :: "dialect \<Rightarrow> driverErr option list \<Rightarrow> driverErr option" where
  "apply_ddl dl [] = None"
| "apply_ddl dl (None # rs) = apply_ddl dl rs"
| "apply_ddl dl (Some e # rs) = (if dl_IsIdempotentDDLErr dl e then apply_ddl dl rs else Some e)"

definition ensureSchema ::
  "dialect \<Rightarrow> driverErr option \<Rightarrow> driverErr option \<Rightarrow> driverErr option list \<Rightarrow> tg_error option" where
  "ensureSchema dl conn lock ddl =
     (case conn of
        Some e \<Rightarrow> Some (ErrStorage (dl_Name dl @ '': acquire conn for schema: '' @ driverText e))
      | None \<Rightarrow>
          (case lock of
             Some e \<Rightarrow> Some (ErrStorage (dl_Name dl @ '': lock for schema: '' @ driverText e))
           | None \<Rightarrow>
               (case apply_ddl dl ddl of
                  Some e \<Rightarrow> Some (ErrStorage (dl_Name dl @ '': apply schema: '' @ driverText e))
                | None \<Rightarrow> None)))"

definition srv_Init ::
  "driverErr option \<Rightarrow> driverErr option \<Rightarrow> driverErr option list \<Rightarrow> brokerOptions \<Rightarrow> srvbroker \<Rightarrow>
   srvbroker \<times> tg_error option" where
  "srv_Init conn lock ddl o0 s =
     (let o1 = (if DefaultLeaseTTL o0 \<le> 0 then o0\<lparr>DefaultLeaseTTL := 60 * second\<rparr> else o0);
          o2 = (if LeaseLostMax o1 \<le> 0 then o1\<lparr>LeaseLostMax := 3\<rparr> else o1);
          o3 = (if ThrottledMax o2 \<le> 0 then o2\<lparr>ThrottledMax := 100\<rparr> else o2);
          s1 = s\<lparr>v_opts := o3, v_inited := True\<rparr>
      in if v_inited s then (s1, None)
         else (case ensureSchema (v_dialect s) conn lock ddl of
                 Some e \<Rightarrow> (s1\<lparr>v_inited := False\<rparr>, Some e)
               | None \<Rightarrow> (s1, None)))"

definition srv_wakeAll :: "srvbroker \<Rightarrow> srvbroker" where
  "srv_wakeAll s = s\<lparr>v_wakes := Suc (v_wakes s)\<rparr>"

definition srv_Close :: "srvbroker \<Rightarrow> srvbroker" where
  "srv_Close s = (if v_closed s then s else srv_wakeAll (s\<lparr>v_closed := True\<rparr>))"

definition srv_requireInit :: "srvbroker \<Rightarrow> tg_error option" where
  "srv_requireInit s =
     (if \<not> v_inited s then Some ErrNotInit else if v_closed s then Some ErrClosed else None)"

definition srv_ttlFor :: "srvbroker \<Rightarrow> string \<Rightarrow> duration" where
  "srv_ttlFor s q =
     (case fmlookup (LeaseTTL (v_opts s)) q of
        Some d \<Rightarrow> if d > 0 then d else DefaultLeaseTTL (v_opts s)
      | None \<Rightarrow> DefaultLeaseTTL (v_opts s))"

section \<open>Transactions\<close>

text \<open>
  The error of a transaction body: an error of the driver, the sentinel \<open>errChainHeadDup\<close>, or an error of the
  contract.  \<open>NoAttempt\<close> stands for the \<open>nil\<close> error the loop would return without a single attempt.
\<close>

datatype txErr = DriverErr driverErr | ErrChainHeadDup | OpErr tg_error | NoAttempt

fun errOut :: "txErr \<Rightarrow> tg_error" where
  "errOut (DriverErr e) = ErrStorage (driverText e)"
| "errOut ErrChainHeadDup = ErrStorage ''sqlbroker: chain head duplicate''"
| "errOut (OpErr e) = e"
| "errOut NoAttempt = PanicNil"

fun retry_class :: "dialect \<Rightarrow> txErr \<Rightarrow> retryClass" where
  "retry_class dl (DriverErr e) = dl_Retryable dl e"
| "retry_class dl _ = NotRetryable"

definition retryTx :: "dialect \<Rightarrow> int \<Rightarrow> bool \<Rightarrow> txErr \<Rightarrow> nat \<Rightarrow> bool" where
  "retryTx dl maxTxRetry ctxDone err attempt =
     (let class = retry_class dl err;
          limit = (if class = RetryLimited then 2 else maxTxRetry)
      in class \<noteq> NotRetryable \<and> \<not> int attempt + 1 \<ge> limit \<and> \<not> ctxDone)"

text \<open>The pause before the next attempt, five milliseconds doubled each time.\<close>

definition retry_pause :: "nat \<Rightarrow> duration" where
  "retry_pause attempt = 5 * millisecond * 2 ^ attempt"

text \<open>
  The loop of \<open>withTx\<close>.  The body \<open>fn\<close> reads and writes the variables \<open>c\<close> its closure captures; they survive a
  rollback, the tables do not.  \<open>left\<close> is the number of attempts that remain.
\<close>

type_synonym ('c, 'a) txBody = "attempt \<Rightarrow> 'c \<Rightarrow> sdb \<Rightarrow> 'c \<times> (txErr + sdb \<times> 'a)"

fun tx_loop ::
  "attempts \<Rightarrow> ('c, 'a) txBody \<Rightarrow> nat \<Rightarrow> nat \<Rightarrow> 'c \<Rightarrow> txErr option \<Rightarrow> srvbroker \<Rightarrow> srvbroker \<times> (txErr + 'a)" where
  "tx_loop env fn 0 attempt c lastErr s = (s, Inl (case lastErr of None \<Rightarrow> NoAttempt | Some e \<Rightarrow> e))"
| "tx_loop env fn (Suc left) attempt c lastErr s =
     (let a = env attempt;
          s0 = s\<lparr>v_db := at_others a (v_db s)\<rparr>;
          retry = retryTx (v_dialect s) (MaxTxRetry (v_cfg s)) (at_done a);
          again = (\<lambda>e c' s1. tx_loop env fn left (Suc attempt) c' (Some e) (s1\<lparr>v_retries := v_retries s1 + 1\<rparr>))
      in (case at_begin a of
            Some e \<Rightarrow> (s0, Inl (DriverErr e))
          | None \<Rightarrow>
              (case fn a c (v_db s0) of
                 (c', r) \<Rightarrow>
                   (case (case at_stmt a of Some e \<Rightarrow> Inl (DriverErr e) | None \<Rightarrow> r) of
                      Inl ferr \<Rightarrow> if retry ferr attempt then again ferr c' s0 else (s0, Inl ferr)
                    | Inr (d, x) \<Rightarrow>
                        (case at_commit a of
                           Some (e, applied) \<Rightarrow>
                             let s1 = (if applied then s0\<lparr>v_db := d\<rparr> else s0)
                             in if retry (DriverErr e) attempt then again (DriverErr e) c' s1
                                else (s1, Inl (DriverErr e))
                         | None \<Rightarrow> (s0\<lparr>v_db := d\<rparr>, Inr x))))))"

definition srv_withTx :: "attempts \<Rightarrow> ('c, 'a) txBody \<Rightarrow> 'c \<Rightarrow> srvbroker \<Rightarrow> srvbroker \<times> (txErr + 'a)" where
  "srv_withTx env fn c s = tx_loop env fn (nat (MaxTxRetry (v_cfg s))) 0 c None s"

text \<open>A body that captures no variable it writes and fails only with errors of the contract.\<close>

definition plain_body :: "(attempt \<Rightarrow> sdb \<Rightarrow> tg_error + sdb \<times> 'a) \<Rightarrow> (unit, 'a) txBody" where
  "plain_body fn a c d = ((), map_sum OpErr (\<lambda>x. x) (fn a d))"

section \<open>Enqueue\<close>

definition taskExistsErr :: "sdb \<Rightarrow> string \<Rightarrow> tg_error option" where
  "taskExistsErr d key =
     (case key_tail d key of
        None \<Rightarrow> None
      | Some tail \<Rightarrow> Some (TaskExistsError key tail (c_status (row_of d tail))))"

definition enqueue_dup :: "dialect \<Rightarrow> id \<Rightarrow> driverErr \<Rightarrow> txErr" where
  "enqueue_dup dl i e =
     (if dl_IsDuplicateKey dl e
      then if contains_text (dl_DuplicateKeyConstraint dl e) ''uq_chain_head'' then ErrChainHeadDup
           else OpErr (ErrTaskExists i)
      else DriverErr e)"

text \<open>The \<open>INSERT\<close>, with the key another transaction has taken since the check.\<close>

definition insert_racing :: "constraint option \<Rightarrow> id \<Rightarrow> row \<Rightarrow> sdb \<Rightarrow> constraint + sdb" where
  "insert_racing race i r d = (case race of Some c \<Rightarrow> Inl c | None \<Rightarrow> insert_row i r d)"

definition srv_enqueue_tx ::
  "dialect \<Rightarrow> (constraint \<Rightarrow> driverErr) \<Rightarrow> task \<Rightarrow> attempt \<Rightarrow> sdb \<Rightarrow> txErr + sdb \<times> task" where
  "srv_enqueue_tx dl viol t a d =
     (case (if BusinessKey t = '''' then None else taskExistsErr d (BusinessKey t)) of
        Some e \<Rightarrow> Inl (OpErr e)
      | None \<Rightarrow>
      if ID t \<noteq> '''' \<and> fmlookup (t_tasks d) (ID t) \<noteq> None then Inl (OpErr (ErrTaskExists (ID t)))
      else
        let i = (if ID t \<noteq> '''' then ID t else at_ulid a);
            now = trunc_ms (at_now a)
        in (case sq_parents d [] (DependsOn t) of
              Inl e \<Rightarrow> Inl (OpErr e)
            | Inr parents \<Rightarrow>
                let policy = (if OnParentFailure t = PolicyUnset then FailFast else OnParentFailure t);
                    dec = DecideOnSubmit parents policy;
                    stored = enqueue_task i now t policy dec
                in (case insert_racing (at_race a) i (new_row stored (d_PendingParents dec)) d of
                      Inl c \<Rightarrow> Inl (enqueue_dup dl i (viol c))
                    | Inr d1 \<Rightarrow>
                        (case insert_deps i parents d1 of
                           Inl c \<Rightarrow> Inl (DriverErr (viol c))
                         | Inr d2 \<Rightarrow> Inr (d2, stored)))))"

type_synonym 'a vresult = "srvbroker \<times> task list \<times> (tg_error + 'a)"

text \<open>
  \<open>late\<close> is what the query of the chain tail after a lost race meets: the tables at that moment, or its failure.
\<close>

definition srv_Enqueue ::
  "(constraint \<Rightarrow> driverErr) \<Rightarrow> attempts \<Rightarrow> driverErr + sdb \<Rightarrow> task \<Rightarrow> srvbroker \<Rightarrow> task vresult" where
  "srv_Enqueue viol env late t s =
     (case srv_requireInit s of
        Some e \<Rightarrow> (s, [], Inl e)
      | None \<Rightarrow>
      if ReplayOf t \<noteq> '''' then (s, [], Inl ErrReplayOfSet)
      else (case srv_withTx env (\<lambda>a c d. ((), srv_enqueue_tx (v_dialect s) viol t a d)) () s of
              (s1, Inl ErrChainHeadDup) \<Rightarrow>
                (case late of
                   Inl _ \<Rightarrow> (s1, [], Inl (ErrTaskExists (BusinessKey t)))
                 | Inr d \<Rightarrow>
                     (case taskExistsErr d (BusinessKey t) of
                        Some te \<Rightarrow> (s1, [], Inl te)
                      | None \<Rightarrow> (s1, [], Inl (ErrTaskExists (BusinessKey t)))))
            | (s1, Inl e) \<Rightarrow> (s1, [], Inl (errOut e))
            | (s1, Inr stored) \<Rightarrow> (srv_wakeAll s1, [stored], Inr stored)))"

text \<open>\<open>mysqlbroker\<close> checks the lengths of its \<open>VARCHAR\<close> columns first.\<close>

definition mysql_Enqueue ::
  "(constraint \<Rightarrow> driverErr) \<Rightarrow> attempts \<Rightarrow> driverErr + sdb \<Rightarrow> task \<Rightarrow> srvbroker \<Rightarrow> task vresult" where
  "mysql_Enqueue viol env late t s =
     (case validateLen ''id'' (ID t) of Some e \<Rightarrow> (s, [], Inl e)
      | None \<Rightarrow> (case validateLen ''type'' (Type t) of Some e \<Rightarrow> (s, [], Inl e)
      | None \<Rightarrow> (case validateLen ''queue'' (Queue t) of Some e \<Rightarrow> (s, [], Inl e)
      | None \<Rightarrow> (case validateLen ''business_key'' (BusinessKey t) of Some e \<Rightarrow> (s, [], Inl e)
      | None \<Rightarrow> srv_Enqueue viol env late t s))))"

section \<open>Dequeue\<close>

definition first_unlocked :: "id list \<Rightarrow> string list \<Rightarrow> int \<Rightarrow> sdb \<Rightarrow> id option" where
  "first_unlocked locked queues nowMS d =
     (case filter (\<lambda>i. i \<notin> set locked)
             (sort_key (\<lambda>i. c_run_at (row_of d i)) (select (\<lambda>_ r. waiting_row queues r \<and> c_run_at r \<le> nowMS) d)) of
        [] \<Rightarrow> None | i # _ \<Rightarrow> Some i)"

definition srv_claim_tx ::
  "(string \<Rightarrow> duration) \<Rightarrow> string \<Rightarrow> time \<Rightarrow> string list \<Rightarrow> attempt \<Rightarrow> sdb \<Rightarrow> tg_error + sdb \<times> (task option \<times> time)" where
  "srv_claim_tx ttlFor token now queues a d =
     (let nowMS = unixMilli now in
      (case first_unlocked (at_locked a) queues nowMS d of
         None \<Rightarrow> Inr (d, None, (case next_run queues nowMS d of None \<Rightarrow> zero_time | Some v \<Rightarrow> fromMS v))
       | Some i \<Rightarrow>
           let r = scanRec i (row_of d i);
               till = unixMilli (now + ttlFor (Queue (sr_task r)));
               d1 = update_row i (\<lambda>x. x\<lparr>c_status := StatusRunning, c_lease_token := token,
                      c_started_at := (if c_started_at x = 0 then nowMS else c_started_at x), c_lease_until := till\<rparr>) d;
               t1 = (sr_task r)\<lparr>Status := StatusRunning, LeaseToken := token\<rparr>;
               t2 = (if isZero (StartedAt t1) then t1\<lparr>StartedAt := fromMS nowMS\<rparr> else t1)
           in Inr (d1, Some t2, zero_time)))"

definition srv_tryClaim ::
  "attempts \<Rightarrow> string \<Rightarrow> time \<Rightarrow> string list \<Rightarrow> srvbroker \<Rightarrow> srvbroker \<times> (txErr + task option \<times> time)" where
  "srv_tryClaim env token clk queues s =
     srv_withTx env (plain_body (srv_claim_tx (srv_ttlFor s) token clk queues)) () s"

text \<open>One turn of the loop of \<open>Dequeue\<close>; the arguments are those of the sqlite back end.\<close>

definition srv_Dequeue_turn ::
  "tg_error option \<Rightarrow> attempts \<Rightarrow> tg_error option \<Rightarrow> string \<Rightarrow> time \<Rightarrow> time \<Rightarrow> string list \<Rightarrow> srvbroker \<Rightarrow>
   srvbroker \<times> task list \<times> dequeueTurn" where
  "srv_Dequeue_turn ctx env ctx2 token clk clk2 queues s =
     (if queues = [] then (s, [], DequeueErr ErrNoQueues)
      else (case ctx of Some e \<Rightarrow> (s, [], DequeueErr e)
      | None \<Rightarrow> (case srv_requireInit s of Some e \<Rightarrow> (s, [], DequeueErr e)
      | None \<Rightarrow>
          (case srv_tryClaim env token clk queues s of
             (s1, Inl e) \<Rightarrow> (s1, [], DequeueErr (case ctx2 of Some ce \<Rightarrow> ce | None \<Rightarrow> errOut e))
           | (s1, Inr (Some tk, _)) \<Rightarrow> (s1, [tk], Claimed tk)
           | (s1, Inr (None, next)) \<Rightarrow>
               let poll = PollInterval (v_cfg s);
                   wait = (if \<not> isZero next \<and> next - clk2 < poll then next - clk2 else poll)
               in (s1, [], WaitFor (clk2 + wait))))))"

section \<open>Receipts\<close>

definition srv_change :: "attempts \<Rightarrow> ('c, task list) txBody \<Rightarrow> 'c \<Rightarrow> srvbroker \<Rightarrow> unit vresult" where
  "srv_change env fn c s =
     (case srv_requireInit s of
        Some e \<Rightarrow> (s, [], Inl e)
      | None \<Rightarrow>
          (case srv_withTx env fn c s of
             (s1, Inl e) \<Rightarrow> (s1, [], Inl (errOut e))
           | (s1, Inr notifs) \<Rightarrow> (srv_wakeAll s1, notifs, Inr ())))"

definition srv_Ack :: "attempts \<Rightarrow> id \<Rightarrow> string \<Rightarrow> bytes \<Rightarrow> srvbroker \<Rightarrow> unit vresult" where
  "srv_Ack env i token result s = srv_change env (plain_body (\<lambda>a. ack_tx (at_now a) i token result)) () s"

text \<open>
  The body of \<open>Fail\<close> writes the argument \<open>retryAt\<close> it captures: once an attempt has come to the retry branch,
  a zero \<open>retryAt\<close> is the (truncated) time of that attempt, for the following attempts too.
\<close>

definition reaches_retry :: "int \<Rightarrow> failKind \<Rightarrow> id \<Rightarrow> string \<Rightarrow> sdb \<Rightarrow> bool" where
  "reaches_retry throttledMax kind i token d =
     (case getRec d i of Inl _ \<Rightarrow> False
      | Inr r \<Rightarrow> checkLeaseRec r token = None \<and>
          (case sq_fail_counts throttledMax kind '''' (sr_task r) of Inr (_, False) \<Rightarrow> True | _ \<Rightarrow> False))"

definition fail_body ::
  "int \<Rightarrow> id \<Rightarrow> string \<Rightarrow> string \<Rightarrow> failKind \<Rightarrow> (time, task list) txBody" where
  "fail_body throttledMax i token errMsg kind a retryAt d =
     (let now = trunc_ms (at_now a);
          written = trunc_ms (if isZero retryAt then now else retryAt)
      in (if reaches_retry throttledMax kind i token d \<and> (at_stmt a = None \<or> at_late a) then written else retryAt,
          map_sum OpErr (\<lambda>x. x) (fail_tx throttledMax (at_now a) i token errMsg kind retryAt d)))"

definition srv_Fail ::
  "attempts \<Rightarrow> id \<Rightarrow> string \<Rightarrow> string \<Rightarrow> failKind \<Rightarrow> time \<Rightarrow> srvbroker \<Rightarrow> unit vresult" where
  "srv_Fail env i token errMsg kind retryAt s =
     srv_change env (fail_body (ThrottledMax (v_opts s)) i token errMsg kind) retryAt s"

definition srv_Cancel :: "attempts \<Rightarrow> id \<Rightarrow> srvbroker \<Rightarrow> unit vresult" where
  "srv_Cancel env i s = srv_change env (plain_body (\<lambda>a. cancel_tx (at_now a) i)) () s"

definition srv_FinishCanceled :: "attempts \<Rightarrow> id \<Rightarrow> string \<Rightarrow> srvbroker \<Rightarrow> unit vresult" where
  "srv_FinishCanceled env i token s = srv_change env (plain_body (\<lambda>a. finishCanceled_tx (at_now a) i token)) () s"

definition srv_Requeue :: "attempts \<Rightarrow> id \<Rightarrow> string \<Rightarrow> srvbroker \<Rightarrow> unit vresult" where
  "srv_Requeue env i token s = srv_change env (plain_body (\<lambda>a. requeue_tx i token)) () s"

definition srv_Heartbeat :: "attempts \<Rightarrow> id \<Rightarrow> string \<Rightarrow> srvbroker \<Rightarrow> unit vresult" where
  "srv_Heartbeat env i token s =
     (case srv_requireInit s of
        Some e \<Rightarrow> (s, [], Inl e)
      | None \<Rightarrow>
          (case srv_withTx env (plain_body (\<lambda>a. heartbeat_tx (srv_ttlFor s) (at_now a) i token)) () s of
             (s1, Inl e) \<Rightarrow> (s1, [], Inl (errOut e))
           | (s1, Inr canceled) \<Rightarrow> (s1, [], if canceled then Inl (ErrTaskCanceled i) else Inr ())))"

section \<open>Replay\<close>

definition srv_replay_tx ::
  "dialect \<Rightarrow> (constraint \<Rightarrow> driverErr) \<Rightarrow> replayRequest \<Rightarrow> attempt \<Rightarrow> sdb \<Rightarrow> txErr + sdb \<times> task" where
  "srv_replay_tx dl viol req a d =
     (case sq_replay_target (at_order a) req d of Inl e \<Rightarrow> Inl (OpErr e)
      | Inr target \<Rightarrow>
          let tt = sr_task target in
          if \<not> isFinal (Status tt) then Inl (OpErr (ErrReplayNotFinal (ID tt) (Status tt)))
          else if select (\<lambda>_ c. c_replay_of c = ID tt) d \<noteq> [] then Inl (OpErr (ErrAlreadyReplayed (ID tt)))
          else if Status tt = StatusCompleted \<and> \<not> rq_AllowCompleted req
            then Inl (OpErr (ErrCompletedNotAllowed (ID tt)))
          else
            let payload = (if rq_Payload req = None then Payload tt else rq_Payload req);
                now = trunc_ms (at_now a);
                stored = sq_replay_task (at_ulid a) now payload tt
            in (case insert_racing (at_race a) (at_ulid a) (new_row stored 0) d of
                  Inl c \<Rightarrow>
                    if dl_IsDuplicateKey dl (viol c) \<and>
                       contains_text (dl_DuplicateKeyConstraint dl (viol c)) ''uq_replay_of''
                    then Inl (OpErr (ErrAlreadyReplayed (ID tt)))
                    else Inl (DriverErr (viol c))
                | Inr d1 \<Rightarrow> Inr (d1, stored)))"

definition srv_Replay ::
  "(constraint \<Rightarrow> driverErr) \<Rightarrow> attempts \<Rightarrow> replayRequest \<Rightarrow> srvbroker \<Rightarrow> task vresult" where
  "srv_Replay viol env req s =
     (case srv_requireInit s of
        Some e \<Rightarrow> (s, [], Inl e)
      | None \<Rightarrow>
      if (rq_ExecutionID req = '''') = (rq_BusinessKey req = '''') then (s, [], Inl ErrReplayTarget)
      else (case srv_withTx env (\<lambda>a c d. ((), srv_replay_tx (v_dialect s) viol req a d)) () s of
              (s1, Inl e) \<Rightarrow> (s1, [], Inl (errOut e))
            | (s1, Inr stored) \<Rightarrow> (srv_wakeAll s1, [stored], Inr stored)))"

section \<open>Queries\<close>

text \<open>A query reads the tables outside a transaction; \<open>io\<close> is its failure.\<close>

definition srv_Get :: "driverErr option \<Rightarrow> id \<Rightarrow> srvbroker \<Rightarrow> tg_error + task" where
  "srv_Get io i s =
     (case io of Some e \<Rightarrow> Inl (ErrStorage (driverText e))
      | None \<Rightarrow> (case getRec (v_db s) i of Inl e \<Rightarrow> Inl e | Inr r \<Rightarrow> Inr (sr_task r)))"

definition srv_List :: "driverErr option \<Rightarrow> filterSpec \<Rightarrow> srvbroker \<Rightarrow> tg_error + task list" where
  "srv_List io f s =
     (case io of Some e \<Rightarrow> Inl (ErrStorage (driverText e))
      | None \<Rightarrow>
          let d = v_db s;
              is = sort_key (\<lambda>i. c_created_at (row_of d i)) (select (\<lambda>_ r. list_cond f r) d);
              page = (if f_Limit f > 0 \<or> f_Offset f > 0
                      then take (nat (if f_Limit f \<le> 0 then 2 ^ 63 - 1 else f_Limit f))
                             (if f_Offset f > 0 then drop (nat (f_Offset f)) is else is)
                      else is)
          in Inr (map (\<lambda>i. sr_task (scanRec i (row_of d i))) page))"

definition srv_QueueLen :: "driverErr option \<Rightarrow> string \<Rightarrow> srvbroker \<Rightarrow> tg_error + int" where
  "srv_QueueLen io q s =
     (case io of Some e \<Rightarrow> Inl (ErrStorage (driverText e))
      | None \<Rightarrow> Inr (int (length (select (\<lambda>_ r. c_queue r = q \<and>
                   (c_status r = StatusPending \<or> c_status r = StatusRetrying)) (v_db s)))))"

definition srv_Counts :: "driverErr option \<Rightarrow> srvbroker \<Rightarrow> tg_error + countMatrix" where
  "srv_Counts io s =
     (case io of Some e \<Rightarrow> Inl (ErrStorage (driverText e))
      | None \<Rightarrow> Inr (fold set_count (count_groups (v_db s)) fmempty))"

section \<open>Reaper\<close>

text \<open>The expired rows that are not locked, in the order of their identifiers.\<close>

definition lockExpiredIDs :: "id list \<Rightarrow> int \<Rightarrow> bool \<Rightarrow> sdb \<Rightarrow> id list" where
  "lockExpiredIDs locked nowMS wantCancel d =
     filter (\<lambda>i. i \<notin> set locked)
       (select (\<lambda>_ r. expired_row nowMS r \<and> (wantCancel \<longrightarrow> c_cancel_requested r = 1)) d)"

text \<open>The bodies of the two loops; the state is the tables, the count and the snapshots.\<close>

definition reap_flagged :: "time \<Rightarrow> id \<Rightarrow> sdb \<times> int \<times> task list \<Rightarrow> sdb \<times> int \<times> task list" where
  "reap_flagged now i st =
     (case st of (d, cnt, ns) \<Rightarrow>
      (case getRec d i of
         Inl _ \<Rightarrow> st
       | Inr r \<Rightarrow>
           let d1 = update_row i (\<lambda>x. x\<lparr>c_status := StatusCanceled, c_last_error := ''canceled'',
                      c_finished_at := unixMilli now, c_lease_token := '''', c_lease_until := 0,
                      c_cancel_requested := 0\<rparr>) d;
               t = (sr_task r)\<lparr>Status := StatusCanceled, LastError := ''canceled'', FinishedAt := now,
                     LeaseToken := ''''\<rparr>;
               (d2, ns2) = propagateTx i StatusCanceled now d1 (ns @ [t])
           in (d2, cnt + 1, ns2)))"

definition reap_expired :: "int \<Rightarrow> time \<Rightarrow> id \<Rightarrow> sdb \<times> int \<times> task list \<Rightarrow> sdb \<times> int \<times> task list" where
  "reap_expired lostMax now i st =
     (case st of (d, cnt, ns) \<Rightarrow>
      (case getRec d i of
         Inl _ \<Rightarrow> st
       | Inr r \<Rightarrow>
           let newLost = LeaseLost (sr_task r) + 1 in
           if newLost \<ge> lostMax then
             let lastErr = ''lease expired '' @ show_int newLost @ '' times'';
                 d1 = update_row i (\<lambda>x. x\<lparr>c_lease_lost := newLost, c_status := StatusFailed,
                        c_last_error := lastErr, c_finished_at := unixMilli now, c_lease_token := '''',
                        c_lease_until := 0, c_cancel_requested := 0\<rparr>) d;
                 t = (sr_task r)\<lparr>LeaseLost := newLost, Status := StatusFailed, LastError := lastErr,
                       FinishedAt := now, LeaseToken := ''''\<rparr>;
                 (d2, ns2) = propagateTx i StatusFailed now d1 (ns @ [t])
             in (d2, cnt + 1, ns2)
           else
             (update_row i (\<lambda>x. x\<lparr>c_lease_lost := newLost, c_status := StatusPending, c_lease_token := '''',
                c_lease_until := 0, c_cancel_requested := 0\<rparr>) d,
              cnt + 1, ns @ [(sr_task r)\<lparr>LeaseLost := newLost, Status := StatusPending, LeaseToken := ''''\<rparr>])))"

definition srv_reap_tx :: "int \<Rightarrow> attempt \<Rightarrow> sdb \<Rightarrow> tg_error + sdb \<times> (int \<times> task list)" where
  "srv_reap_tx lostMax a d =
     (let now = trunc_ms (at_now a);
          nowMS = unixMilli now;
          cancelIDs = lockExpiredIDs (at_locked a) nowMS True d;
          (d1, cnt1, ns1) = fold (reap_flagged now) cancelIDs (d, 0, []);
          reapIDs = lockExpiredIDs (at_locked2 a) nowMS False d1;
          (d2, cnt2, ns2) = fold (reap_expired lostMax now) reapIDs (d1, cnt1, ns1);
          (d3, ns3) = fold (sq_repair now) (select (\<lambda>_ r. c_status r = StatusBlocked) d2) (d2, ns2)
      in Inr (d3, cnt2, ns3))"

definition srv_ReapExpired :: "attempts \<Rightarrow> srvbroker \<Rightarrow> srvbroker \<times> task list \<times> int \<times> tg_error option" where
  "srv_ReapExpired env s =
     (case srv_requireInit s of
        Some e \<Rightarrow> (s, [], 0, Some e)
      | None \<Rightarrow>
          (case srv_withTx env (plain_body (srv_reap_tx (LeaseLostMax (v_opts s)))) () s of
             (s1, Inl e) \<Rightarrow> (s1, [], 0, Some (errOut e))
           | (s1, Inr (cnt, notifs)) \<Rightarrow> (if notifs \<noteq> [] then srv_wakeAll s1 else s1, notifs, cnt, None)))"

section \<open>Quota\<close>

record sqlQuotaGate =
  vg_key :: string
  vg_limit :: int
  vg_periodSec :: int
  vg_ref :: nat

definition srv_QueueQuota :: "nat \<Rightarrow> string \<Rightarrow> queueConfig \<Rightarrow> tg_error + sqlQuotaGate" where
  "srv_QueueQuota ref queue qc =
     (let key = (if QuotaKey qc = '''' then queue else QuotaKey qc);
          periodSec = QuotaPeriod qc sdiv second
      in if QuotaLimit qc \<le> 0 \<or> periodSec < 1 then Inl (ErrConfig ''invalid quota config'')
         else Inr \<lparr>vg_key = key, vg_limit = QuotaLimit qc, vg_periodSec = periodSec, vg_ref = ref\<rparr>)"

definition srv_window :: "sqlQuotaGate \<Rightarrow> int \<Rightarrow> int" where
  "srv_window g secs = secs sdiv vg_periodSec g * vg_periodSec g"

text \<open>
  The clock of the server in whole seconds, as the quota statements read it: the cast of \<open>EXTRACT(EPOCH FROM now())\<close>
  in \<open>pgDialect\<close> rounds to the nearest second, \<open>UNIX_TIMESTAMP()\<close> of \<open>mysqlDialect\<close> cuts the fraction off.
\<close>

definition srv_now :: "dialect \<Rightarrow> time \<Rightarrow> int" where
  "srv_now dl now = (if dl_QuotaReserve dl then unixSec (now + 500 * millisecond) else unixSec now)"

text \<open>
  The statement \<open>Reserve\<close> of \<open>pgDialect\<close>: the window it returns, or no row when the condition of the
  \<open>DO UPDATE\<close> does not hold.  \<open>secs\<close> is the clock of the server as the statement reads it.
\<close>

definition pg_reserveSQL :: "sqlQuotaGate \<Rightarrow> int \<Rightarrow> sdb \<Rightarrow> sdb \<times> int option" where
  "pg_reserveSQL g secs d =
     (let win = srv_window g secs in
      (case fmlookup (t_quota d) (vg_key g, win) of
         None \<Rightarrow> (d\<lparr>t_quota := fmupd (vg_key g, win) 1 (t_quota d)\<rparr>, Some win)
       | Some used \<Rightarrow>
           if used < vg_limit g then (d\<lparr>t_quota := fmupd (vg_key g, win) (used + 1) (t_quota d)\<rparr>, Some win)
           else (d, None)))"

text \<open>
  The statement \<open>Upsert\<close> of \<open>mysqlDialect\<close> and the number of affected rows: one for an insertion, two for an update that
  changes the row, zero for one that does not.
\<close>

definition mysql_upsertSQL :: "string \<Rightarrow> int \<Rightarrow> int \<Rightarrow> sdb \<Rightarrow> sdb \<times> int" where
  "mysql_upsertSQL key win limit d =
     (case fmlookup (t_quota d) (key, win) of
        None \<Rightarrow> (d\<lparr>t_quota := fmupd (key, win) 1 (t_quota d)\<rparr>, 1)
      | Some used \<Rightarrow>
          let used' = (if used < limit then used + 1 else used)
          in (d\<lparr>t_quota := fmupd (key, win) used' (t_quota d)\<rparr>, if used' = used then 0 else 2))"

definition srv_lastWin :: "srvbroker \<Rightarrow> nat \<Rightarrow> int" where
  "srv_lastWin s ref = (case fmlookup (v_lastWins s) ref of None \<Rightarrow> 0 | Some w \<Rightarrow> w)"

text \<open>
  \<open>io\<close> and \<open>io1\<close> are the failures of the two statements (the single-statement path has only the second), \<open>io2\<close> that
  of the clean-up, which the code ignores.  The first statement of MySQL reads nothing but the clock: a
  reservation is its second statement, with the seconds \<open>secs\<close> that the first one returned some time before.
\<close>

definition srv_Reserve ::
  "driverErr option \<Rightarrow> driverErr option \<Rightarrow> driverErr option \<Rightarrow> int \<Rightarrow> sqlQuotaGate \<Rightarrow> srvbroker \<Rightarrow>
   srvbroker \<times> (tg_error + int option)" where
  "srv_Reserve io io1 io2 secs g s =
     (case srv_requireInit s of
        Some e \<Rightarrow> (s, Inl e)
      | None \<Rightarrow>
          let reserved =
            (if dl_QuotaReserve (v_dialect s) then
               (case io1 of Some e \<Rightarrow> (s, Inl (ErrStorage (driverText e)))
                | None \<Rightarrow> (case pg_reserveSQL g secs (v_db s) of (d, win) \<Rightarrow> (s\<lparr>v_db := d\<rparr>, Inr win)))
             else
               (case io of Some e \<Rightarrow> (s, Inl (ErrStorage (driverText e)))
                | None \<Rightarrow>
                    let win = srv_window g secs
                    in (case io1 of Some e \<Rightarrow> (s, Inl (ErrStorage (driverText e)))
                        | None \<Rightarrow>
                            (case mysql_upsertSQL (vg_key g) win (vg_limit g) (v_db s) of
                               (d, aff) \<Rightarrow> (s\<lparr>v_db := d\<rparr>, Inr (if aff = 0 then None else Some win))))))
          in (case reserved of
                (s1, Inr (Some win)) \<Rightarrow>
                  let prev = srv_lastWin s1 (vg_ref g);
                      d' = (if prev \<noteq> 0 \<and> prev \<noteq> win \<and> io2 = None
                            then quotaCleanSQL (vg_key g) (win - 2 * vg_periodSec g) (v_db s1) else v_db s1)
                  in (s1\<lparr>v_db := d', v_lastWins := fmupd (vg_ref g) win (v_lastWins s1)\<rparr>, Inr (Some win))
              | _ \<Rightarrow> reserved))"

definition srv_Release :: "driverErr option \<Rightarrow> sqlQuotaGate \<Rightarrow> int option \<Rightarrow> srvbroker \<Rightarrow> srvbroker \<times> tg_error option" where
  "srv_Release io g r s =
     (case r of
        None \<Rightarrow> (s, None)
      | Some win \<Rightarrow> (case io of Some e \<Rightarrow> (s, Some (ErrStorage (driverText e)))
      | None \<Rightarrow>
          (case fmlookup (t_quota (v_db s)) (vg_key g, win) of
             Some used \<Rightarrow>
               if used > 0
               then (s\<lparr>v_db := (v_db s)\<lparr>t_quota := fmupd (vg_key g, win) (used - 1) (t_quota (v_db s))\<rparr>\<rparr>, None)
               else (s, None)
           | None \<Rightarrow> (s, None))))"

end
