(* ===== verification/Sql_Retry.thy ===== *)
theory Sql_Retry
  imports Sql_Broker Sqlite_System
begin

text \<open>
  The retry loop of the server back end.  Whatever the attempts meet, a call amounts to one attempt, the last one,
  on the tables as the other transactions have left them; the attempts before it leave no trace
  but the counter of retries.  On a calm database the calls of the back end are those of the sqlite back end.
\<close>

section \<open>One attempt\<close>

definition run_attempt :: "attempt \<Rightarrow> ('c, 'a) txBody \<Rightarrow> 'c \<Rightarrow> srvbroker \<Rightarrow> srvbroker \<times> (txErr + 'a)" where
  "run_attempt a fn c s =
     (let s0 = s\<lparr>v_db := at_others a (v_db s)\<rparr> in
      case at_begin a of
        Some e \<Rightarrow> (s0, Inl (DriverErr e))
      | None \<Rightarrow>
          (case (case at_stmt a of Some e \<Rightarrow> Inl (DriverErr e) | None \<Rightarrow> snd (fn a c (v_db s0))) of
             Inl e \<Rightarrow> (s0, Inl e)
           | Inr (d, x) \<Rightarrow>
               (case at_commit a of
                  Some (e, applied) \<Rightarrow> (if applied then s0\<lparr>v_db := d\<rparr> else s0, Inl (DriverErr e))
                | None \<Rightarrow> (s0\<lparr>v_db := d\<rparr>, Inr x))))"

text \<open>The tables before an attempt, when the ones before it have been rolled back.\<close>

fun db_before :: "attempts \<Rightarrow> nat \<Rightarrow> sdb \<Rightarrow> sdb" where
  "db_before env 0 d = d"
| "db_before env (Suc n) d = at_others (env n) (db_before env n d)"

text \<open>The captured variables before an attempt.\<close>

fun captured :: "attempts \<Rightarrow> ('c, 'a) txBody \<Rightarrow> sdb \<Rightarrow> nat \<Rightarrow> 'c \<Rightarrow> 'c" where
  "captured env fn d 0 c = c"
| "captured env fn d (Suc n) c = fst (fn (env n) (captured env fn d n c) (db_before env (Suc n) d))"

definition behind :: "attempts \<Rightarrow> nat \<Rightarrow> srvbroker \<Rightarrow> srvbroker" where
  "behind env n s = s\<lparr>v_db := db_before env n (v_db s), v_retries := v_retries s + int n\<rparr>"

text \<open>
  A server that answers with a retryable error has rolled the transaction back: a deadlock victim or a
  serialization failure is never committed.
\<close>

definition honest :: "dialect \<Rightarrow> attempts \<Rightarrow> bool" where
  "honest dl env \<longleftrightarrow> (\<forall>k e. at_commit (env k) = Some (e, True) \<longrightarrow> dl_Retryable dl e = NotRetryable)"

lemma behind_fields [simp]:
  "v_dialect (behind env n s) = v_dialect s" "v_cfg (behind env n s) = v_cfg s" "v_opts (behind env n s) = v_opts s"
  "v_inited (behind env n s) = v_inited s" "v_closed (behind env n s) = v_closed s"
  "v_db (behind env n s) = db_before env n (v_db s)" "v_retries (behind env n s) = v_retries s + int n"
  by (simp_all add: behind_def)

lemma behind_0 [simp]: "behind env 0 s = s"
  by (simp add: behind_def)

lemma db_before_Suc: "db_before env (Suc n) d = db_before (\<lambda>j. env (Suc j)) n (at_others (env 0) d)"
  by (induction n) simp_all

lemma captured_Suc:
  "captured env fn d (Suc n) c =
     captured (\<lambda>j. env (Suc j)) fn (at_others (env 0) d) n (fst (fn (env 0) c (at_others (env 0) d)))"
proof (induction n)
  case (Suc n)
  then show ?case using db_before_Suc [of env "Suc n" d] by simp
qed simp

lemma run_attempt_keeps:
  assumes "run_attempt a fn c s = (s', r)"
  shows "v_dialect s' = v_dialect s" "v_cfg s' = v_cfg s" "v_opts s' = v_opts s" "v_inited s' = v_inited s"
    "v_closed s' = v_closed s" "v_wakes s' = v_wakes s" "v_lastWins s' = v_lastWins s" "v_retries s' = v_retries s"
  using assms by (auto simp: run_attempt_def Let_def split: option.splits sum.splits prod.splits if_splits)

lemma retryTx_limits:
  assumes "retryTx dl m done e k"
  shows "retry_class dl e \<noteq> NotRetryable" "int k + 1 < m \<or> retry_class dl e = RetryLimited"
    "retry_class dl e = RetryLimited \<Longrightarrow> k = 0" "\<not> done"
  using assms by (auto simp: retryTx_def Let_def split: if_splits)

text \<open>One turn of the loop: it ends with the outcome of the attempt, or rolls back and goes on.\<close>

lemma tx_loop_step:
  assumes h: "honest (v_dialect s) env" and run: "run_attempt (env k) fn c s = (s1, r)"
  shows "tx_loop env fn (Suc left) k c le s =
    (case r of
       Inr x \<Rightarrow> (s1, r)
     | Inl e \<Rightarrow>
         if at_begin (env k) = None \<and> retryTx (v_dialect s) (MaxTxRetry (v_cfg s)) (at_done (env k)) e k
         then tx_loop env fn left (Suc k) (fst (fn (env k) c (at_others (env k) (v_db s)))) (Some e)
           (s\<lparr>v_db := at_others (env k) (v_db s), v_retries := v_retries s + 1\<rparr>)
         else (s1, r))"
proof -
  let ?a = "env k" and ?d = "at_others (env k) (v_db s)"
  obtain c' r0 where fn: "fn ?a c ?d = (c', r0)" by fastforce
  have nr: "\<not> retryTx (v_dialect s) (MaxTxRetry (v_cfg s)) (at_done ?a) (DriverErr e) k"
    if "at_commit ?a = Some (e, True)" for e
    using h that by (auto simp: honest_def retryTx_def)
  show ?thesis
  proof (cases "at_begin ?a")
    case (Some e)
    then show ?thesis using run by (auto simp: run_attempt_def Let_def)
  next
    case None
    define r2 where "r2 = (case at_stmt ?a of Some e \<Rightarrow> Inl (DriverErr e) | None \<Rightarrow> r0)"
    have run': "run_attempt ?a fn c s = (let s0 = s\<lparr>v_db := ?d\<rparr> in case r2 of Inl e \<Rightarrow> (s0, Inl e)
        | Inr (d, x) \<Rightarrow> (case at_commit ?a of
             Some (e, applied) \<Rightarrow> (if applied then s0\<lparr>v_db := d\<rparr> else s0, Inl (DriverErr e)) | None \<Rightarrow> (s0\<lparr>v_db := d\<rparr>, Inr x)))"
      using None fn by (cases "at_stmt ?a") (simp_all add: run_attempt_def r2_def Let_def)
    have loop: "tx_loop env fn (Suc left) k c le s = (let s0 = s\<lparr>v_db := ?d\<rparr>;
          retry = retryTx (v_dialect s) (MaxTxRetry (v_cfg s)) (at_done ?a);
          again = (\<lambda>e s1. tx_loop env fn left (Suc k) c' (Some e) (s1\<lparr>v_retries := v_retries s1 + 1\<rparr>))
        in case r2 of Inl e \<Rightarrow> if retry e k then again e s0 else (s0, Inl e)
        | Inr (d, x) \<Rightarrow> (case at_commit ?a of
             Some (e, applied) \<Rightarrow> let s1 = (if applied then s0\<lparr>v_db := d\<rparr> else s0)
               in if retry (DriverErr e) k then again (DriverErr e) s1 else (s1, Inl (DriverErr e))
           | None \<Rightarrow> (s0\<lparr>v_db := d\<rparr>, Inr x)))"
      using None fn by (cases "at_stmt ?a") (simp_all add: r2_def Let_def)
    show ?thesis
    proof (cases r2)
      case (Inl e)
      then show ?thesis using run None fn unfolding run' loop by (auto simp: Let_def)
    next
      case (Inr y)
      obtain d x where y: "y = (d, x)" by fastforce
      show ?thesis using run None fn Inr y nr unfolding run' loop
        by (cases "at_commit ?a") (auto simp: Let_def split: if_splits)
    qed
  qed
qed

text \<open>
  The loop ends with the outcome of one attempt; every attempt before it has failed with an error that the
  dialect classes as retryable.
\<close>

definition retried :: "dialect \<Rightarrow> attempts \<Rightarrow> ('c, 'a) txBody \<Rightarrow> 'c \<Rightarrow> srvbroker \<Rightarrow> nat \<Rightarrow> nat \<Rightarrow> bool" where
  "retried dl env fn c s j k \<longleftrightarrow> (\<exists>e. snd (run_attempt (env j) fn (captured env fn (v_db s) j c) (behind env j s)) = Inl e \<and>
     retry_class dl e \<noteq> NotRetryable \<and> (retry_class dl e = RetryLimited \<longrightarrow> k = 0))"

lemma tx_loop_last:
  assumes "honest (v_dialect s) env" and "tx_loop env fn left k c le s = (s', r)"
    and "int k + int left = MaxTxRetry (v_cfg s)" and "0 < left" and "2 \<le> MaxTxRetry (v_cfg s)"
  shows "\<exists>n < left. run_attempt (env (k + n)) fn (captured (\<lambda>j. env (k + j)) fn (v_db s) n c) (behind (\<lambda>j. env (k + j)) n s) = (s', r) \<and>
    (\<forall>j < n. retried (v_dialect s) (\<lambda>j. env (k + j)) fn c s j (k + j))"
  using assms
proof (induction left arbitrary: k c le s)
  case (Suc left)
  let ?env = "\<lambda>j. env (k + j)"
  obtain s1 r1 where run: "run_attempt (env k) fn c s = (s1, r1)" by fastforce
  note st = tx_loop_step [OF Suc.prems(1) run, of left le]
  let ?go = "\<exists>e. r1 = Inl e \<and> at_begin (env k) = None \<and> retryTx (v_dialect s) (MaxTxRetry (v_cfg s)) (at_done (env k)) e k"
  show ?case
  proof (cases ?go)
    case False
    then have "tx_loop env fn (Suc left) k c le s = (s1, r1)" unfolding st by (auto split: sum.split)
    then have eq: "(s', r) = (s1, r1)" using Suc.prems(2) by simp
    show ?thesis by (intro exI [of _ 0]) (use run eq in simp)
  next
    case True
    then obtain e where e: "r1 = Inl e" "at_begin (env k) = None"
      "retryTx (v_dialect s) (MaxTxRetry (v_cfg s)) (at_done (env k)) e k" by blast
    let ?s = "s\<lparr>v_db := at_others (env k) (v_db s), v_retries := v_retries s + 1\<rparr>"
    let ?c = "fst (fn (env k) c (at_others (env k) (v_db s)))"
    have go: "tx_loop env fn left (Suc k) ?c (Some e) ?s = (s', r)" using Suc.prems(2) e unfolding st by simp
    have "int k + 1 < MaxTxRetry (v_cfg s)" using retryTx_limits(2,3) [OF e(3)] Suc.prems(5) by auto
    then have left: "0 < left" using Suc.prems(3) by simp
    have later: "behind ?env (Suc n) s = behind (\<lambda>j. env (Suc k + j)) n ?s"
      "captured ?env fn (v_db s) (Suc n) c = captured (\<lambda>j. env (Suc k + j)) fn (v_db ?s) n ?c" for n
      using db_before_Suc [of ?env n "v_db s"] captured_Suc [of ?env fn "v_db s" n c]
      by (simp_all add: behind_def del: db_before.simps captured.simps)
    have pre: "honest (v_dialect ?s) env" "int (Suc k) + int left = MaxTxRetry (v_cfg ?s)" "2 \<le> MaxTxRetry (v_cfg ?s)"
      using Suc.prems(1,3,5) by simp_all
    from Suc.IH [OF pre(1) go pre(2) left pre(3)] obtain n where n: "n < left"
      "run_attempt (env (k + Suc n)) fn (captured ?env fn (v_db s) (Suc n) c) (behind ?env (Suc n) s) = (s', r)"
      "\<forall>j < n. retried (v_dialect s) ?env fn c s (Suc j) (k + Suc j)"
      unfolding later retried_def by auto
    have "retried (v_dialect s) ?env fn c s j (k + j)" if "j < Suc n" for j
    proof (cases j)
      case 0
      then show ?thesis using retryTx_limits [OF e(3)] run e(1) by (auto simp: retried_def)
    next
      case (Suc i)
      then show ?thesis using n(3) that by auto
    qed
    then show ?thesis using n(1,2) by (intro exI [of _ "Suc n"]) blast
  qed
qed simp

lemma withTx_last:
  assumes "honest (v_dialect s) env" and m: "2 \<le> MaxTxRetry (v_cfg s)" and "srv_withTx env fn c s = (s', r)"
  shows "\<exists>n. int n < MaxTxRetry (v_cfg s) \<and> run_attempt (env n) fn (captured env fn (v_db s) n c) (behind env n s) = (s', r) \<and>
    (\<forall>j < n. retried (v_dialect s) env fn c s j j)"
proof -
  have "int n < MaxTxRetry (v_cfg s) \<longleftrightarrow> n < nat (MaxTxRetry (v_cfg s))" for n using m by linarith
  then show ?thesis
    using tx_loop_last [OF assms(1) assms(3) [unfolded srv_withTx_def], unfolded add_0] m by simp
qed

text \<open>What one attempt leaves behind.\<close>

lemma run_attempt_ok:
  assumes "run_attempt a fn c s = (s', Inr x)"
  shows "at_begin a = None" "at_stmt a = None" "at_commit a = None"
    "snd (fn a c (at_others a (v_db s))) = Inr (v_db s', x)" "s' = s\<lparr>v_db := v_db s'\<rparr>"
  using assms by (auto simp: run_attempt_def Let_def split: option.splits sum.splits prod.splits if_splits)

lemma run_attempt_error:
  assumes "run_attempt a fn c s = (s', Inl e)"
  shows "s' = s\<lparr>v_db := at_others a (v_db s)\<rparr> \<or>
    (\<exists>de x. at_commit a = Some (de, True) \<and> e = DriverErr de \<and> snd (fn a c (at_others a (v_db s))) = Inr (v_db s', x) \<and>
      s' = s\<lparr>v_db := v_db s'\<rparr>)"
  using assms by (auto simp: run_attempt_def Let_def split: option.splits sum.splits prod.splits if_splits)

end
