(* ===== verification/Sql_Refine.thy ===== *)
theory Sql_Refine
  imports Sql_Retry
begin

text \<open>
  The server back end on a calm database, where nothing fails and no other transaction is open: its calls are
  those of the sqlite back end, and so those of the in-memory broker.  The two that differ in their
  statements, the claim and the reaper, are related to the in-memory broker directly.
\<close>

section \<open>The sqlite back end inside\<close>

definition core :: "srvbroker \<Rightarrow> sbroker" where
  "core s = \<lparr>sp_opts = v_opts s, sp_inited = v_inited s, sp_closed = v_closed s, sp_wakes = v_wakes s,
     sp_lastWins = v_lastWins s, sp_db = v_db s\<rparr>"

lemma core_fields [simp]:
  "sp_opts (core s) = v_opts s" "sp_db (core s) = v_db s" "sp_inited (core s) = v_inited s" "sp_closed (core s) = v_closed s"
  "core (s\<lparr>v_db := d\<rparr>) = (core s)\<lparr>sp_db := d\<rparr>" "core (srv_wakeAll s) = wakeAll (core s)"
  "sq_requireInit (core s) = srv_requireInit s" "sq_ttlFor (core s) = srv_ttlFor s"
  by (auto simp: core_def srv_wakeAll_def wakeAll_def sq_requireInit_def srv_requireInit_def sq_ttlFor_def srv_ttlFor_def fun_eq_iff split: option.split)

definition calm :: "attempts \<Rightarrow> bool" where
  "calm env \<longleftrightarrow> at_others (env 0) = (\<lambda>d. d) \<and> at_begin (env 0) = None \<and> at_stmt (env 0) = None \<and> at_race (env 0) = None \<and>
     at_commit (env 0) = None \<and> at_locked (env 0) = [] \<and> at_locked2 (env 0) = []"

text \<open>The transaction body of one attempt on its own, as the sqlite back end runs it.\<close>

lemma withTx_calm:
  assumes "calm env" "0 < MaxTxRetry (v_cfg s)"
    and "\<And>e. snd (fn (env 0) c (v_db s)) = Inl e \<Longrightarrow> retry_class (v_dialect s) e = NotRetryable"
  shows "srv_withTx env fn c s =
    (case snd (fn (env 0) c (v_db s)) of Inl e \<Rightarrow> (s, Inl e) | Inr (d, x) \<Rightarrow> (s\<lparr>v_db := d\<rparr>, Inr x))"
proof -
  obtain n where n: "nat (MaxTxRetry (v_cfg s)) = Suc n" using assms(2) by (metis Suc_pred zero_less_nat_eq)
  obtain c' r where fn: "fn (env 0) c (v_db s) = (c', r)" by fastforce
  have "\<not> retryTx (v_dialect s) m done e k" if "r = Inl e" for m "done" e k
    using assms(3) fn that by (simp add: retryTx_def)
  then show ?thesis using assms(1) fn by (cases r) (auto simp: srv_withTx_def n calm_def)
qed

lemma contract_error_final: "map_sum OpErr f r = Inl e \<Longrightarrow> retry_class dl e = NotRetryable"
  by (cases r) auto

lemma plain_calm:
  assumes "calm env" "0 < MaxTxRetry (v_cfg s)"
  shows "srv_withTx env (plain_body fn) () s =
    (case fn (env 0) (v_db s) of Inl e \<Rightarrow> (s, Inl (OpErr e)) | Inr (d, x) \<Rightarrow> (s\<lparr>v_db := d\<rparr>, Inr x))"
  by (subst withTx_calm [OF assms]) (auto simp: plain_body_def intro: contract_error_final split: sum.splits prod.splits)

abbreviation on_core :: "'a vresult \<Rightarrow> 'a sresult" where
  "on_core x \<equiv> (case x of (s, ns, r) \<Rightarrow> (core s, ns, r))"

lemma change_calm:
  assumes "calm env" "0 < MaxTxRetry (v_cfg s)"
  shows "on_core (srv_change env (plain_body fn) () s) = sq_change None (fn (env 0)) (core s)"
  by (cases "fn (env 0) (v_db s)")
    (auto simp: srv_change_def sq_change_def plain_calm [OF assms] withTx_def split: option.split prod.split)

lemma receipts_calm:
  assumes c: "calm env" "0 < MaxTxRetry (v_cfg s)"
  shows "on_core (srv_Ack env i tok res s) = sq_Ack None (at_now (env 0)) i tok res (core s)"
    and "on_core (srv_Cancel env i s) = sq_Cancel None (at_now (env 0)) i (core s)"
    and "on_core (srv_FinishCanceled env i tok s) = sq_FinishCanceled None (at_now (env 0)) i tok (core s)"
    and "on_core (srv_Requeue env i tok s) = sq_Requeue None i tok (core s)"
    and "on_core (srv_Fail env i tok msg kind retryAt s) = sq_Fail None (at_now (env 0)) i tok msg kind retryAt (core s)"
    and "on_core (srv_Heartbeat env i tok s) = sq_Heartbeat None (at_now (env 0)) i tok (core s)"
proof -
  show "on_core (srv_Ack env i tok res s) = sq_Ack None (at_now (env 0)) i tok res (core s)"
    "on_core (srv_Cancel env i s) = sq_Cancel None (at_now (env 0)) i (core s)"
    "on_core (srv_FinishCanceled env i tok s) = sq_FinishCanceled None (at_now (env 0)) i tok (core s)"
    "on_core (srv_Requeue env i tok s) = sq_Requeue None i tok (core s)"
    unfolding srv_Ack_def sq_Ack_def srv_Cancel_def sq_Cancel_def srv_FinishCanceled_def sq_FinishCanceled_def
      srv_Requeue_def sq_Requeue_def change_calm [OF c] by simp_all
  let ?fn = "fail_body (ThrottledMax (v_opts s)) i tok msg kind"
  have body: "snd (?fn (env 0) retryAt (v_db s)) =
      map_sum OpErr (\<lambda>x. x) (fail_tx (ThrottledMax (v_opts s)) (at_now (env 0)) i tok msg kind retryAt (v_db s))"
    by (simp add: fail_body_def Let_def)
  have "srv_withTx env ?fn retryAt s =
      (case fail_tx (ThrottledMax (v_opts s)) (at_now (env 0)) i tok msg kind retryAt (v_db s) of
         Inl e \<Rightarrow> (s, Inl (OpErr e)) | Inr (d, x) \<Rightarrow> (s\<lparr>v_db := d\<rparr>, Inr x))"
    by (subst withTx_calm [OF c]) (auto simp: body intro: contract_error_final split: sum.splits prod.splits)
  then show "on_core (srv_Fail env i tok msg kind retryAt s) = sq_Fail None (at_now (env 0)) i tok msg kind retryAt (core s)"
    by (auto simp: srv_Fail_def srv_change_def sq_Fail_def sq_change_def withTx_def split: option.split prod.split sum.split)
  show "on_core (srv_Heartbeat env i tok s) = sq_Heartbeat None (at_now (env 0)) i tok (core s)"
    by (auto simp: srv_Heartbeat_def sq_Heartbeat_def plain_calm [OF c] withTx_def split: option.split prod.split sum.split)
qed

lemma queries_core:
  "srv_Get None i s = sq_Get None i (core s)" "srv_QueueLen None q s = sq_QueueLen None q (core s)"
  "srv_Counts None s = sq_Counts None (core s)"
  by (simp_all add: srv_Get_def sq_Get_def srv_QueueLen_def sq_QueueLen_def srv_Counts_def sq_Counts_def)

text \<open>The largest \<open>LIMIT\<close> of the two servers is none as long as the table is smaller.\<close>

lemma List_core:
  assumes "int (fcard (fmdom (t_tasks (v_db s)))) < 2 ^ 63"
  shows "srv_List None f s = sq_List None f (core s)"
proof -
  let ?d = "v_db s"
  let ?is = "sort_key (\<lambda>i. c_created_at (row_of ?d i)) (select (\<lambda>_ r. list_cond f r) ?d)"
  have "length ?is \<le> length (sorted_list_of_fset (fmdom (t_tasks ?d)))"
    unfolding length_sort select_def by (rule length_filter_le)
  also have "\<dots> = fcard (fmdom (t_tasks ?d))" by (simp add: sorted_list_of_fset.rep_eq fcard.rep_eq)
  finally have "length ?is \<le> nat (2 ^ 63 - 1)" using assms by linarith
  then have "take (nat (2 ^ 63 - 1)) (drop n ?is) = drop n ?is" for n by simp
  then show ?thesis by (auto simp: srv_List_def sq_List_def limit_offset_def Let_def)
qed

section \<open>Insertions\<close>

text \<open>
  The sqlite back end passes a violated constraint on as an error of the storage, whatever its text; the server back
  end translates it.  Otherwise the two transactions are the same.
\<close>

lemma enqueue_tx_same:
  assumes "at_race a = None"
  shows "(\<forall>drv. map_sum OpErr (\<lambda>x. x) (enqueue_tx drv (at_ulid a) (at_now a) t d) = srv_enqueue_tx dl viol t a d) \<or>
    (\<exists>c e. srv_enqueue_tx dl viol t a d = Inl e \<and> (\<forall>drv. enqueue_tx drv (at_ulid a) (at_now a) t d = Inl (ErrStorage (drv c))))"
proof (cases "(BusinessKey t = '''' \<or> key_tail d (BusinessKey t) = None) \<and> (ID t = '''' \<or> fmlookup (t_tasks d) (ID t) = None)")
  case False
  then show ?thesis by (auto simp: srv_enqueue_tx_def enqueue_tx_def taskExistsErr_def split: option.split)
next
  case True
  show ?thesis
  proof (cases "sq_parents d [] (DependsOn t)")
    case (Inl e)
    then show ?thesis using True by (auto simp: srv_enqueue_tx_def enqueue_tx_def taskExistsErr_def Let_def)
  next
    case (Inr ps)
    let ?i = "if ID t \<noteq> '''' then ID t else at_ulid a"
    let ?p = "if OnParentFailure t = PolicyUnset then FailFast else OnParentFailure t"
    let ?st = "enqueue_task ?i (trunc_ms (at_now a)) t ?p (DecideOnSubmit ps ?p)"
    let ?ins = "insert_row ?i (new_row ?st (d_PendingParents (DecideOnSubmit ps ?p))) d"
    have none: "(if BusinessKey t = '''' then None else key_tail d (BusinessKey t)) = None"
      "(if BusinessKey t = '''' then None else taskExistsErr d (BusinessKey t)) = None"
      "\<not> (ID t \<noteq> '''' \<and> fmlookup (t_tasks d) (ID t) \<noteq> None)"
      using True by (auto simp: taskExistsErr_def)
    have tx: "enqueue_tx drv (at_ulid a) (at_now a) t d =
        (case ?ins of Inl c \<Rightarrow> Inl (ErrStorage (drv c))
         | Inr d1 \<Rightarrow> (case insert_deps ?i ps d1 of Inl c \<Rightarrow> Inl (ErrStorage (drv c)) | Inr d2 \<Rightarrow> Inr (d2, ?st)))" for drv
      unfolding enqueue_tx_def none(1) option.case Let_def if_not_P [OF none(3)] Inr sum.case ..
    have vtx: "srv_enqueue_tx dl viol t a d =
        (case ?ins of Inl c \<Rightarrow> Inl (enqueue_dup dl ?i (viol c))
         | Inr d1 \<Rightarrow> (case insert_deps ?i ps d1 of Inl c \<Rightarrow> Inl (DriverErr (viol c)) | Inr d2 \<Rightarrow> Inr (d2, ?st)))"
      unfolding srv_enqueue_tx_def none(2) option.case Let_def if_not_P [OF none(3)] Inr sum.case insert_racing_def assms ..
    show ?thesis
    proof (cases ?ins)
      case (Inl c)
      then show ?thesis by (intro disjI2 exI [of _ c]) (simp add: tx vtx)
    next
      case ins: (Inr d1)
      show ?thesis
      proof (cases "insert_deps ?i ps d1")
        case (Inl c)
        then show ?thesis using ins by (intro disjI2 exI [of _ c]) (simp add: tx vtx)
      qed (simp add: tx vtx ins)
    qed
  qed
qed

lemma replay_tx_same:
  assumes "at_race a = None"
  shows "(\<forall>drv. map_sum OpErr (\<lambda>x. x) (replay_tx drv (at_order a) (at_ulid a) (at_now a) req d) = srv_replay_tx dl viol req a d) \<or>
    (\<exists>c k e. srv_replay_tx dl viol req a d = Inl e \<and> (\<forall>drv. replay_tx drv (at_order a) (at_ulid a) (at_now a) req d =
      (if contains_text (drv c) ''uq_replay_of'' then Inl (ErrAlreadyReplayed k) else Inl (ErrStorage (drv c)))))"
proof (cases "sq_replay_target (at_order a) req d")
  case (Inl e)
  then show ?thesis by (simp add: srv_replay_tx_def replay_tx_def)
next
  case (Inr r)
  let ?t = "sr_task r"
  let ?st = "sq_replay_task (at_ulid a) (trunc_ms (at_now a)) (if rq_Payload req = None then Payload ?t else rq_Payload req) ?t"
  show ?thesis
  proof (cases "isFinal (Status ?t) \<and> select (\<lambda>_ c. c_replay_of c = ID ?t) d = [] \<and>
      \<not> (Status ?t = StatusCompleted \<and> \<not> rq_AllowCompleted req)")
    case False
    then show ?thesis using Inr by (auto simp: srv_replay_tx_def replay_tx_def Let_def)
  next
    case True
    then have guards: "\<not> \<not> isFinal (Status ?t)" "\<not> select (\<lambda>_ c. c_replay_of c = ID ?t) d \<noteq> []"
      "\<not> (Status ?t = StatusCompleted \<and> \<not> rq_AllowCompleted req)" by blast+
    have tx: "replay_tx drv (at_order a) (at_ulid a) (at_now a) req d =
        (case insert_row (at_ulid a) (new_row ?st 0) d of
           Inl c \<Rightarrow> if contains_text (drv c) ''uq_replay_of'' then Inl (ErrAlreadyReplayed (ID ?t)) else Inl (ErrStorage (drv c))
         | Inr d1 \<Rightarrow> Inr (d1, ?st))" for drv
      unfolding replay_tx_def Inr sum.case Let_def if_not_P [OF guards(1)] if_not_P [OF guards(2)] if_not_P [OF guards(3)] ..
    have vtx: "srv_replay_tx dl viol req a d =
        (case insert_row (at_ulid a) (new_row ?st 0) d of
           Inl c \<Rightarrow> if dl_IsDuplicateKey dl (viol c) \<and> contains_text (dl_DuplicateKeyConstraint dl (viol c)) ''uq_replay_of''
                    then Inl (OpErr (ErrAlreadyReplayed (ID ?t))) else Inl (DriverErr (viol c))
         | Inr d1 \<Rightarrow> Inr (d1, ?st))"
      unfolding srv_replay_tx_def Inr sum.case Let_def if_not_P [OF guards(1)] if_not_P [OF guards(2)] if_not_P [OF guards(3)]
        insert_racing_def assms option.case ..
    show ?thesis
    proof (cases "insert_row (at_ulid a) (new_row ?st 0) d")
      case (Inl c)
      then show ?thesis by (intro disjI2 exI [of _ c] exI [of _ "ID ?t"]) (simp add: tx vtx)
    qed (simp add: tx vtx)
  qed
qed

section \<open>The back end as an instance of the interface\<close>

text \<open>One undisturbed attempt with the clock and the identifier of a call.\<close>

definition clean :: "env \<Rightarrow> attempts" where
  "clean e k = \<lparr>at_others = (\<lambda>d. d), at_begin = None, at_stmt = None, at_late = False, at_race = None, at_commit = None,
     at_done = False, at_now = e_now e, at_ulid = e_ulid e, at_order = e_order e, at_locked = [], at_locked2 = []\<rparr>"

definition sql_broker :: "(constraint \<Rightarrow> driverErr) \<Rightarrow> (string \<Rightarrow> nat) \<Rightarrow> (srvbroker, sqlQuotaGate) Broker" where
  "sql_broker viol ref = \<lparr>
     op_Init = srv_Init None None [],
     op_Enqueue = (\<lambda>e t s. let (s', _, r) = srv_Enqueue viol (clean e) (Inr (v_db s)) t s in (s', r)),
     op_Dequeue = (\<lambda>e qs s. let (s', _, turn) = srv_Dequeue_turn (e_ctx e) (clean e) (e_ctx e) (e_ulid e) (e_now e) (e_now e) qs s in (s', turn)),
     op_Ack = (\<lambda>e i tok res s. let (s', _, r) = srv_Ack (clean e) i tok res s in (s', err_of r)),
     op_Fail = (\<lambda>e i tok msg kind retryAt s. let (s', _, r) = srv_Fail (clean e) i tok msg kind retryAt s in (s', err_of r)),
     op_Cancel = (\<lambda>e i s. let (s', _, r) = srv_Cancel (clean e) i s in (s', err_of r)),
     op_FinishCanceled = (\<lambda>e i tok s. let (s', _, r) = srv_FinishCanceled (clean e) i tok s in (s', err_of r)),
     op_Requeue = (\<lambda>e i tok s. let (s', _, r) = srv_Requeue (clean e) i tok s in (s', err_of r)),
     op_Heartbeat = (\<lambda>e i tok s. let (s', _, r) = srv_Heartbeat (clean e) i tok s in (s', err_of r)),
     op_Get = (\<lambda>e i s. srv_Get None i s),
     op_Replay = (\<lambda>e req s. let (s', _, r) = srv_Replay viol (clean e) req s in (s', r)),
     op_List = (\<lambda>e f s. srv_List None f s),
     op_QueueLen = (\<lambda>e q s. srv_QueueLen None q s),
     op_Counts = (\<lambda>e s. srv_Counts None s),
     op_ReapExpired = (\<lambda>e s. let (s', _, n, er) = srv_ReapExpired (clean e) s in (s', n, er)),
     op_Close = srv_Close,
     op_QueueQuota = Some (\<lambda>q qc. srv_QueueQuota (ref q) q qc),
     op_Reserve = (\<lambda>e g s. srv_Reserve None None None (srv_now (v_dialect s) (e_now e)) g s),
     op_Release = (\<lambda>g r s. fst (srv_Release None g r s)),
     op_QueueLimiter = None\<rparr>"

lemma clean_calm [simp]: "calm (clean e)"
  by (simp add: calm_def clean_def)

lemma clean_fields [simp]: "at_now (clean e k) = e_now e" "at_ulid (clean e k) = e_ulid e" "at_order (clean e k) = e_order e"
  "at_race (clean e k) = None" "at_locked (clean e k) = []" "at_locked2 (clean e k) = []"
  by (simp_all add: clean_def)

section \<open>Insertions in a consistent database\<close>

lemma Enqueue_calm:
  assumes r: "refined (core s) b" and e: "env_ok e (core s)" and t: "new_task_ok t" and m: "0 < MaxTxRetry (v_cfg s)"
  shows "on_core (srv_Enqueue viol (clean e) late t s) = sq_Enqueue drv None (e_ulid e) (e_now e) t (core s)"
proof (cases "srv_requireInit s = None \<and> ReplayOf t = ''''")
  case False
  then show ?thesis by (auto simp: srv_Enqueue_def sq_Enqueue_def split: option.split)
next
  case True
  let ?d = "v_db s"
  have res: "\<exists>b' ns' res'. mem_Enqueue (e_ulid e) (e_now e) t b = (b', ns', res') \<and>
      (\<forall>er. enqueue_tx drv (e_ulid e) (e_now e) t ?d = Inl er \<longrightarrow> (\<exists>e'. res' = Inl e' \<and> err_sim er e'))" for drv
  proof -
    obtain s' ns res where one: "sq_Enqueue drv None (e_ulid e) (e_now e) t (core s) = (s', ns, res)" by (metis prod.exhaust)
    from inserts_refined(1) [OF r e t one] show ?thesis
      using one True by (fastforce simp: sq_Enqueue_def withTx_def res_sim_def split: sum.splits prod.splits)
  qed
  have "\<not> (\<exists>c. \<forall>drv. enqueue_tx drv (e_ulid e) (e_now e) t ?d = Inl (ErrStorage (drv c)))"
  proof
    assume "\<exists>c. \<forall>drv. enqueue_tx drv (e_ulid e) (e_now e) t ?d = Inl (ErrStorage (drv c))"
    then show False using res [of "\<lambda>_. ''a''"] res [of "\<lambda>_. ''b''"] by (auto simp: err_sim_def)
  qed
  then have same: "\<forall>drv. map_sum OpErr (\<lambda>x. x) (enqueue_tx drv (e_ulid e) (e_now e) t ?d) =
      srv_enqueue_tx (v_dialect s) viol t (clean e 0) ?d"
    using enqueue_tx_same [of "clean e 0" t ?d "v_dialect s" viol, unfolded clean_fields, OF refl] by blast
  have "srv_withTx (clean e) (\<lambda>a c d. ((), srv_enqueue_tx (v_dialect s) viol t a d)) () s =
      (case enqueue_tx drv (e_ulid e) (e_now e) t ?d of Inl e \<Rightarrow> (s, Inl (OpErr e)) | Inr (d, x) \<Rightarrow> (s\<lparr>v_db := d\<rparr>, Inr x))"
    by (subst withTx_calm [OF clean_calm m])
      (auto simp: same [rule_format, of drv, symmetric] intro: contract_error_final split: sum.splits prod.splits)
  then show ?thesis using True
    by (auto simp: srv_Enqueue_def sq_Enqueue_def withTx_def split: sum.splits prod.splits)
qed

lemma Replay_calm:
  assumes r: "refined (core s) b" and e: "env_ok e (core s)" and m: "0 < MaxTxRetry (v_cfg s)"
  shows "on_core (srv_Replay viol (clean e) req s) = sq_Replay drv None (e_order e) (e_ulid e) (e_now e) req (core s)"
proof (cases "srv_requireInit s = None \<and> (rq_ExecutionID req = '''') \<noteq> (rq_BusinessKey req = '''')")
  case False
  then show ?thesis by (auto simp: srv_Replay_def sq_Replay_def split: option.split)
next
  case True
  let ?d = "v_db s"
  have res: "\<exists>b' ns' res'. mem_Replay (e_ulid e) (e_now e) req b = (b', ns', res') \<and>
      (\<forall>er. replay_tx drv (e_order e) (e_ulid e) (e_now e) req ?d = Inl er \<longrightarrow> (\<exists>e'. res' = Inl e' \<and> err_sim er e'))" for drv
  proof -
    obtain s' ns res where one: "sq_Replay drv None (e_order e) (e_ulid e) (e_now e) req (core s) = (s', ns, res)" by (metis prod.exhaust)
    from inserts_refined(2) [OF r e one] show ?thesis
      using one True by (fastforce simp: sq_Replay_def withTx_def res_sim_def split: sum.splits prod.splits)
  qed
  have "\<not> (\<exists>c k. \<forall>drv. replay_tx drv (e_order e) (e_ulid e) (e_now e) req ?d =
      (if contains_text (drv c) ''uq_replay_of'' then Inl (ErrAlreadyReplayed k) else Inl (ErrStorage (drv c))))"
  proof
    have no: "\<not> contains_text ''a'' ''uq_replay_of''" "\<not> contains_text ''b'' ''uq_replay_of''" by code_simp+
    assume "\<exists>c k. \<forall>drv. replay_tx drv (e_order e) (e_ulid e) (e_now e) req ?d =
      (if contains_text (drv c) ''uq_replay_of'' then Inl (ErrAlreadyReplayed k) else Inl (ErrStorage (drv c)))"
    then show False using res [of "\<lambda>_. ''a''"] res [of "\<lambda>_. ''b''"] no by (auto simp: err_sim_def)
  qed
  then have same: "\<forall>drv. map_sum OpErr (\<lambda>x. x) (replay_tx drv (e_order e) (e_ulid e) (e_now e) req ?d) =
      srv_replay_tx (v_dialect s) viol req (clean e 0) ?d"
    using replay_tx_same [of "clean e 0" req ?d "v_dialect s" viol, unfolded clean_fields, OF refl] by blast
  have "srv_withTx (clean e) (\<lambda>a c d. ((), srv_replay_tx (v_dialect s) viol req a d)) () s =
      (case replay_tx drv (e_order e) (e_ulid e) (e_now e) req ?d of Inl e \<Rightarrow> (s, Inl (OpErr e)) | Inr (d, x) \<Rightarrow> (s\<lparr>v_db := d\<rparr>, Inr x))"
    by (subst withTx_calm [OF clean_calm m])
      (auto simp: same [rule_format, of drv, symmetric] intro: contract_error_final split: sum.splits prod.splits)
  then show ?thesis using True
    by (auto simp: srv_Replay_def sq_Replay_def withTx_def split: sum.splits prod.splits)
qed

section \<open>The claim\<close>

lemma first_unlocked_none [simp]: "first_unlocked [] queues n d = first_due queues n d"
  by (simp add: first_unlocked_def first_due_def)

lemma claim_tx_same:
  assumes "db_ok d" "at_locked a = []"
  shows "srv_claim_tx ttlFor token now queues a d = claim_tx ttlFor token now queues d"
proof (cases "first_due queues (unixMilli now) d")
  case None
  then show ?thesis using assms by (simp add: srv_claim_tx_def claim_tx_def Let_def)
next
  case (Some i)
  then obtain x where x: "fmlookup (t_tasks d) i = Some x" using first_due_Some by blast
  then have "0 \<le> c_started_at x" using db_okD [OF assms(1) x] by (simp add: row_ok_def)
  then show ?thesis using Some x assms fromMS_isZero [of "c_started_at x"]
    by (simp add: srv_claim_tx_def claim_tx_def Let_def update_row_def row_of_def claim_row_def scanRec_def)
qed

fun srv_turn_sim :: "duration \<Rightarrow> time \<Rightarrow> dequeueTurn \<Rightarrow> dequeueTurn \<Rightarrow> bool" where
  "srv_turn_sim poll clk (WaitFor w) (WaitFor w') \<longleftrightarrow> w \<le> clk + poll \<and> (\<not> isZero w' \<longrightarrow> w \<le> w')"
| "srv_turn_sim poll clk t t' \<longleftrightarrow> turn_sim clk t t'"

lemma Dequeue_calm:
  assumes r: "refined (core s) b" and e: "env_ok e (core s)" and m: "0 < MaxTxRetry (v_cfg s)"
    and step: "srv_Dequeue_turn (e_ctx e) (clean e) (e_ctx e) (e_ulid e) (e_now e) (e_now e) qs s = (s', ns, turn)"
  shows "\<exists>b' ns' turn'. mem_Dequeue_turn (e_order e) (e_ctx e) (e_ulid e) (e_now e) qs b = (b', ns', turn') \<and>
    refined (core s') (sort_children b') \<and> srv_turn_sim (PollInterval (v_cfg s)) (e_now e) turn turn'"
proof -
  let ?n = "unixMilli (e_now e)"
  have v: "sview (core s) b" "db_ok (v_db s)" using r by (simp_all add: refined_def)
  obtain s1 ns1 turn1 where one: "sq_Dequeue_turn (e_ctx e) None (e_ctx e) (e_ulid e) (e_now e) (e_now e) qs (core s) = (s1, ns1, turn1)"
    by (metis prod.exhaust)
  from Dequeue_refined [OF r e one] obtain b' ns' turn' where mem:
    "mem_Dequeue_turn (e_order e) (e_ctx e) (e_ulid e) (e_now e) qs b = (b', ns', turn')"
    "refined s1 (sort_children b')" "turn_sim (e_now e) turn1 turn'" by blast
  have claim: "srv_tryClaim (clean e) (e_ulid e) (e_now e) qs s =
      (case claim_tx (srv_ttlFor s) (e_ulid e) (e_now e) qs (v_db s) of Inl er \<Rightarrow> (s, Inl (OpErr er)) | Inr (d, x) \<Rightarrow> (s\<lparr>v_db := d\<rparr>, Inr x))"
    by (simp add: srv_tryClaim_def plain_calm [OF clean_calm m] claim_tx_same [OF v(2)])
  show ?thesis
  proof (cases "qs \<noteq> [] \<and> e_ctx e = None \<and> srv_requireInit s = None \<and> first_due qs ?n (v_db s) = None")
    case False
    then consider "qs = []" | er where "qs \<noteq> []" "e_ctx e = Some er" | er where "qs \<noteq> []" "e_ctx e = None" "srv_requireInit s = Some er"
      | i where "qs \<noteq> []" "e_ctx e = None" "srv_requireInit s = None" "first_due qs ?n (v_db s) = Some i" by fastforce
    then have "core s' = s1 \<and> turn = turn1 \<and> (\<forall>w. turn \<noteq> WaitFor w)"
      by cases (use step one in \<open>auto simp: srv_Dequeue_turn_def sq_Dequeue_turn_def claim tryClaim_def withTx_def claim_tx_def Let_def\<close>)
    then show ?thesis using mem by (cases turn; cases turn') auto
  next
    case True
    let ?nx = "case next_run qs ?n (v_db s) of None \<Rightarrow> zero_time | Some v \<Rightarrow> fromMS v"
    let ?poll = "PollInterval (v_cfg s)"
    have s': "s' = s" "turn = WaitFor (e_now e + (if \<not> isZero ?nx \<and> ?nx - e_now e < ?poll then ?nx - e_now e else ?poll))"
      using step True by (auto simp: srv_Dequeue_turn_def claim claim_tx_def Let_def)
    have s1: "s1 = core s" using one True by (auto simp: sq_Dequeue_turn_def tryClaim_def withTx_def claim_tx_def Let_def)
    have xs: "range_order (e_order e) (recs b)" and clk: "after_epoch (e_now e)"
      using e range_order_view [OF v(1)] by (simp_all add: env_ok_def)
    have "mem_pickReady (e_order e) qs (trunc_ms (e_now e)) (recs b) = None"
      using pick_sim(1) [OF v(1) _ xs] v(2) True by simp
    then have "turn' = WaitFor (mem_nextRunAt (e_order e) qs (trunc_ms (e_now e)) (recs b))"
      using mem(1) True requireInit_sim [OF v(1)] by (auto simp: mem_Dequeue_turn_def Let_def)
    then show ?thesis using mem(1,2) s' s1 wait_sim [OF v(1) _ xs clk, of qs] v(2) by fastforce
  qed
qed

end
