(* ===== verification/Sql_Reap.thy ===== *)
theory Sql_Reap
  imports Sql_Refine
begin

text \<open>
  The reaper of the server back end visits the expired rows one by one, like the in-memory broker: each visit is a
  step of that broker's reaper.
\<close>

section \<open>One row\<close>

lemma reap_row_sim:
  assumes clk: "after_epoch clk" and ok: "store_ok (abs_store d)" "db_ok d"
    and x: "fmlookup (t_tasks d) i = Some x" "expired_row (unixMilli clk) x"
    and y: "row_ok y" "abs_rec d i y = reaped_rec (trunc_ms clk) L (abs_rec d i x)"
    and t: "cloneTask t = task (reaped_rec (trunc_ms clk) L (abs_rec d i x))"
    and told: "tell_row (trunc_ms clk) (i, t) (d\<lparr>t_tasks := fmupd i y (t_tasks d)\<rparr>, ns) = (d', ns')"
  shows "reap_step (trunc_ms clk) L i (abs_store d, cnt, map cloneTask ns) = ((abs_store d', cnt + 1, map cloneTask ns'), None) \<and>
    db_ok d'"
proof -
  let ?now = "trunc_ms clk" and ?d = "d\<lparr>t_tasks := fmupd i y (t_tasks d)\<rparr>"
  have ex: "expired_in ?now (abs_store d) i" using expired_iff [OF clk] x by blast
  have ah: "ahead ?now L (abs_store d) [(i, t)] ?d"
    using ex x(1) y(2) t by (auto simp: ahead_def agree_def abs_upd)
  have "db_ok ?d" by (rule db_ok_upd [OF ok(2) x(1) y(1)])
  obtain m' cnt' nm e where mem: "reap_step ?now L i (abs_store d, cnt, map cloneTask ns) = ((m', cnt', nm), e)"
    by (metis prod.exhaust)
  from tell_row_sim [OF clk ok(1) \<open>db_ok ?d\<close> ah _ mem told] have fin: "ahead ?now L m' [] d'" "db_ok d'" "nm = map cloneTask ns'"
    by simp_all
  have "m' = abs_store d'" using fin(1) by (intro fmap_ext) (simp add: ahead_def agree_def)
  then show ?thesis using mem fin(2,3) reap_step_frame(1) [OF ok(1) mem] ex by simp
qed

lemma reap_flagged_sim:
  assumes clk: "after_epoch clk" and ok: "store_ok (abs_store d)" "db_ok d"
    and x: "fmlookup (t_tasks d) i = Some x" "expired_row (unixMilli clk) x" "c_cancel_requested x = 1"
    and step: "reap_flagged (trunc_ms clk) i (d, cnt, ns) = (d', cnt', ns')"
  shows "reap_step (trunc_ms clk) L i (abs_store d, cnt, map cloneTask ns) = ((abs_store d', cnt', map cloneTask ns'), None) \<and>
    db_ok d'"
proof -
  let ?now = "trunc_ms clk" and ?y = "reap_cancel_row (unixMilli clk) x"
  let ?t = "(sr_task (scanRec i x))\<lparr>Status := StatusCanceled, LastError := ''canceled'', FinishedAt := ?now, LeaseToken := ''''\<rparr>"
  have row: "row_ok x" by (rule db_okD [OF ok(2) x(1)])
  note y = reap_row_abs(1) [OF clk row x(2,3), of d i L] reap_row_abs(3) [OF clk row x(2)]
  have t: "cloneTask ?t = task (reaped_rec ?now L (abs_rec d i x))"
    unfolding y(1) [symmetric] using fromMS_now [OF clk] by (simp add: task_abs abs_task_defs reap_cancel_row_def)
  have told: "tell_row ?now (i, ?t) (d\<lparr>t_tasks := fmupd i ?y (t_tasks d)\<rparr>, ns) = (d', ns')" "cnt' = cnt + 1"
    using step x(1) by (auto simp: reap_flagged_def getRec_def update_row_def tell_row_def reap_cancel_row_def Let_def split: prod.splits)
  show ?thesis using reap_row_sim [OF clk ok x(1,2) y(2,1) t told(1)] told(2) by simp
qed

lemma reap_expired_sim:
  assumes clk: "after_epoch clk" and ok: "store_ok (abs_store d)" "db_ok d"
    and x: "fmlookup (t_tasks d) i = Some x" "expired_row (unixMilli clk) x" "c_cancel_requested x \<noteq> 1"
    and step: "reap_expired L (trunc_ms clk) i (d, cnt, ns) = (d', cnt', ns')"
  shows "reap_step (trunc_ms clk) L i (abs_store d, cnt, map cloneTask ns) = ((abs_store d', cnt', map cloneTask ns'), None) \<and>
    db_ok d'"
proof -
  let ?now = "trunc_ms clk" and ?y = "reap_lost_row L (unixMilli clk) x"
  let ?t0 = "(sr_task (scanRec i x))\<lparr>LeaseLost := c_lease_lost x + 1\<rparr>"
  let ?t = "if L \<le> c_lease_lost x + 1
    then ?t0\<lparr>Status := StatusFailed, LastError := ''lease expired '' @ show_int (c_lease_lost x + 1) @ '' times'', FinishedAt := ?now, LeaseToken := ''''\<rparr>
    else ?t0\<lparr>Status := StatusPending, LeaseToken := ''''\<rparr>"
  have row: "row_ok x" and lost: "LeaseLost (sr_task (scanRec i x)) = c_lease_lost x"
    using db_okD [OF ok(2) x(1)] by (simp_all add: scanRec_def)
  note y = reap_row_abs(2) [OF clk row x(2,3), of d i L] reap_row_abs(4) [OF clk row x(2), of L]
  have t: "cloneTask ?t = task (reaped_rec ?now L (abs_rec d i x))"
    unfolding y(1) [symmetric] using fromMS_now [OF clk] by (simp add: task_abs abs_task_defs reap_lost_row_def Let_def)
  have told: "tell_row ?now (i, ?t) (d\<lparr>t_tasks := fmupd i ?y (t_tasks d)\<rparr>, ns) = (d', ns')" "cnt' = cnt + 1"
    using step x(1)
    by (auto simp: lost reap_expired_def getRec_def update_row_def tell_row_def reap_lost_row_def Let_def split: prod.splits if_splits)
  show ?thesis using reap_row_sim [OF clk ok x(1,2) y(2,1) t told(1)] told(2) by simp
qed

section \<open>The loops\<close>

text \<open>A loop over expired rows is a run of the in-memory reaper over their identifiers.\<close>

lemma reap_fold_sim:
  assumes clk: "after_epoch clk"
    and one: "\<And>d cnt ns d' cnt' ns' i x. store_ok (abs_store d) \<Longrightarrow> db_ok d \<Longrightarrow> fmlookup (t_tasks d) i = Some x \<Longrightarrow>
      expired_row (unixMilli clk) x \<Longrightarrow> Q (c_cancel_requested x \<noteq> 0) \<Longrightarrow> F i (d, cnt, ns) = (d', cnt', ns') \<Longrightarrow>
      reap_step (trunc_ms clk) L i (abs_store d, cnt, map cloneTask ns) = ((abs_store d', cnt', map cloneTask ns'), None) \<and> db_ok d'"
    and "store_ok (abs_store d)" "db_ok d" "distinct ks"
    and "\<forall>k \<in> set ks. \<exists>x. fmlookup (t_tasks d) k = Some x \<and> expired_row (unixMilli clk) x \<and> Q (c_cancel_requested x \<noteq> 0)"
    and "fold F ks (d, cnt, ns) = (d', cnt', ns')"
  shows "reap_loop (trunc_ms clk) L ks (abs_store d, cnt, map cloneTask ns) = ((abs_store d', cnt', map cloneTask ns'), None) \<and> db_ok d'"
  using assms(3-7)
proof (induction ks arbitrary: d cnt ns)
  case (Cons k ks)
  obtain d1 cnt1 ns1 where f: "F k (d, cnt, ns) = (d1, cnt1, ns1)" by (metis prod.exhaust)
  obtain x where x: "fmlookup (t_tasks d) k = Some x" "expired_row (unixMilli clk) x" "Q (c_cancel_requested x \<noteq> 0)"
    using Cons.prems(4) by auto
  have st: "reap_step (trunc_ms clk) L k (abs_store d, cnt, map cloneTask ns) = ((abs_store d1, cnt1, map cloneTask ns1), None)" "db_ok d1"
    using one [OF Cons.prems(1,2) x f] by simp_all
  have "\<exists>z. fmlookup (t_tasks d1) j = Some z \<and> expired_row (unixMilli clk) z \<and> Q (c_cancel_requested z \<noteq> 0)" if j: "j \<in> set ks" for j
  proof -
    obtain w where w: "fmlookup (t_tasks d) j = Some w" "expired_row (unixMilli clk) w" "Q (c_cancel_requested w \<noteq> 0)"
      using Cons.prems(4) j by auto
    have ne: "j \<noteq> k" using Cons.prems(3) j by auto
    have "fmlookup (abs_store d1) j = Some (abs_rec d j w)"
      using reap_step_frame(2) [OF Cons.prems(1) st(1), of j "abs_rec d j w"] w ne by (simp add: expired_row_def)
    then obtain z where z: "fmlookup (t_tasks d1) j = Some z" "abs_rec d1 j z = abs_rec d j w" by auto
    have "expired_in (trunc_ms clk) (abs_store d1) j"
      using reap_step_frame(3) [OF Cons.prems(1) st(1) ne] expired_iff [OF clk] w by blast
    then have "expired_row (unixMilli clk) z" using expired_iff [OF clk] z(1) by auto
    moreover have "(c_cancel_requested z \<noteq> 0) = (c_cancel_requested w \<noteq> 0)" using arg_cong [OF z(2), of cancelRequested] by simp
    ultimately show ?thesis using z(1) w(3) by auto
  qed
  moreover have "store_ok (abs_store d1)" using reap_step_frame(1) [OF Cons.prems(1) st(1)] by simp
  ultimately have "reap_loop (trunc_ms clk) L ks (abs_store d1, cnt1, map cloneTask ns1) = ((abs_store d', cnt', map cloneTask ns'), None) \<and> db_ok d'"
    using Cons.IH [of d1 cnt1 ns1] st(2) Cons.prems(3,5) f by auto
  then show ?case using st(1) by simp
qed simp

section \<open>The transaction\<close>

definition moved :: "store \<Rightarrow> store \<Rightarrow> bool" where
  "moved m m' \<longleftrightarrow> evolves m m' \<and> store_ok m' \<and> claims '''' m m'"

lemma moved_trans: "moved m1 m2 \<Longrightarrow> moved m2 m3 \<Longrightarrow> moved m1 m3"
  unfolding moved_def using evolves_trans claims_trans by blast

lemma good_move_moved: "good_move m ns m' ns' \<Longrightarrow> moved m m'"
  by (simp add: good_move_def moved_def)

text \<open>
  A row that is flagged only after step zero, or was locked during it, is treated like any other expired row; its flag
  is dropped.
\<close>

lemma reap_expired_unflag:
  "reap_expired L now i (update_row i (\<lambda>x. x\<lparr>c_cancel_requested := 0\<rparr>) d, cnt, ns) = reap_expired L now i (d, cnt, ns)"
  by (cases "fmlookup (t_tasks d) i")
    (auto simp: reap_expired_def getRec_def update_row_def scanRec_def Let_def split: if_splits prod.splits)

lemma unflag_moved:
  assumes ok: "store_ok (abs_store d)" "db_ok d" and x: "fmlookup (t_tasks d) i = Some x" "c_status x = StatusRunning"
  shows "moved (abs_store d) (abs_store (update_row i (\<lambda>x. x\<lparr>c_cancel_requested := 0\<rparr>) d))"
    and "db_ok (update_row i (\<lambda>x. x\<lparr>c_cancel_requested := 0\<rparr>) d)"
proof -
  let ?r = "abs_rec d i x" and ?r' = "abs_rec d i (x\<lparr>c_cancel_requested := 0\<rparr>)"
  have k: "fmlookup (abs_store d) i = Some ?r" using x(1) by simp
  have task: "task ?r' = task ?r" "shape ?r' = shape ?r" "leaseUntil ?r' = leaseUntil ?r"
    by (simp_all add: task_abs abs_task_defs shape_def)
  have st: "Status (task ?r) = StatusRunning" using x(2) by simp
  have l: "lease_rec ?r'" using lease_okD [OF _ k] ok(1) task by (simp add: store_ok_def lease_rec_def)
  have "rec_evolves ?r ?r'" using task st by (intro rec_evolvesI) auto
  from live_store [OF ok(1) k this _ _ l, of "[]"] st task
  have "moved (abs_store d) (fmupd i ?r' (abs_store d))" by (auto intro: good_move_moved)
  then show "moved (abs_store d) (abs_store (update_row i (\<lambda>x. x\<lparr>c_cancel_requested := 0\<rparr>) d))"
    using x(1) by (simp add: update_row_def abs_upd)
  have "row_ok (x\<lparr>c_cancel_requested := 0\<rparr>)" using db_okD [OF ok(2) x(1)] by (simp add: row_ok_def)
  then show "db_ok (update_row i (\<lambda>x. x\<lparr>c_cancel_requested := 0\<rparr>) d)"
    using db_ok_upd [OF ok(2) x(1)] x(1) by (simp add: update_row_def)
qed

lemma reap_expired_moved:
  assumes clk: "after_epoch clk" and ok: "store_ok (abs_store d)" "db_ok d"
    and x: "fmlookup (t_tasks d) i = Some x" "expired_row (unixMilli clk) x"
    and step: "reap_expired L (trunc_ms clk) i (d, cnt, ns) = (d', cnt', ns')"
  shows "moved (abs_store d) (abs_store d') \<and> db_ok d' \<and>
    (\<forall>j \<noteq> i. expired_in (trunc_ms clk) (abs_store d') j = expired_in (trunc_ms clk) (abs_store d) j)"
proof -
  let ?d = "update_row i (\<lambda>x. x\<lparr>c_cancel_requested := 0\<rparr>) d"
  have run: "c_status x = StatusRunning" using x(2) by (simp add: expired_row_def)
  note un = unflag_moved [OF ok x(1) run]
  have st: "store_ok (abs_store ?d)" using un(1) by (simp add: moved_def)
  have x': "fmlookup (t_tasks ?d) i = Some (x\<lparr>c_cancel_requested := 0\<rparr>)" "expired_row (unixMilli clk) (x\<lparr>c_cancel_requested := 0\<rparr>)"
    using x by (simp_all add: update_row_def expired_row_def)
  from reap_expired_sim [OF clk st un(2) x' _ step [folded reap_expired_unflag [of L _ i d]]]
  have one: "reap_step (trunc_ms clk) L i (abs_store ?d, cnt, map cloneTask ns) = ((abs_store d', cnt', map cloneTask ns'), None)" "db_ok d'"
    by simp_all
  have "moved (abs_store ?d) (abs_store d')" using reap_step_ok [OF st one(1)] by (auto intro: good_move_moved)
  moreover have "expired_in (trunc_ms clk) (abs_store ?d) j = expired_in (trunc_ms clk) (abs_store d) j" if "j \<noteq> i" for j
    using that x(1) by (simp add: expired_in_def update_row_def abs_upd)
  ultimately show ?thesis using moved_trans [OF un(1)] one(2) reap_step_frame(3) [OF st one(1)] by auto
qed

lemma reap_expired_fold_moved:
  assumes clk: "after_epoch clk" and "store_ok (abs_store d)" "db_ok d" "distinct ks"
    and "\<forall>k \<in> set ks. expired_in (trunc_ms clk) (abs_store d) k"
    and "fold (reap_expired L (trunc_ms clk)) ks (d, cnt, ns) = (d', cnt', ns')"
  shows "moved (abs_store d) (abs_store d') \<and> db_ok d'"
  using assms(2-6)
proof (induction ks arbitrary: d cnt ns)
  case Nil
  then show ?case using good_move_moved [OF good_move_refl] by simp
next
  case (Cons k ks)
  obtain d1 cnt1 ns1 where f: "reap_expired L (trunc_ms clk) k (d, cnt, ns) = (d1, cnt1, ns1)" by (metis prod.exhaust)
  obtain x where x: "fmlookup (t_tasks d) k = Some x" "expired_row (unixMilli clk) x"
    using Cons.prems(4) expired_iff [OF clk] by auto
  note one = reap_expired_moved [OF clk Cons.prems(1,2) x f]
  have "\<forall>j \<in> set ks. expired_in (trunc_ms clk) (abs_store d1) j" using one Cons.prems(3,4) by auto
  then have "moved (abs_store d1) (abs_store d') \<and> db_ok d'"
    using Cons.IH [of d1 cnt1 ns1] one Cons.prems(3,5) f by (auto simp: moved_def)
  then show ?case using one moved_trans by blast
qed

lemma lockExpired_spec:
  "k \<in> set (lockExpiredIDs locked n want d) \<longleftrightarrow>
    k \<notin> set locked \<and> (\<exists>x. fmlookup (t_tasks d) k = Some x \<and> expired_row n x \<and> (want \<longrightarrow> c_cancel_requested x = 1))"
  "distinct (lockExpiredIDs locked n want d)"
  by (auto simp: lockExpiredIDs_def select_sorted)

lemma flagged_fold_sim:
  assumes clk: "after_epoch clk" and ok: "store_ok (abs_store d)" "db_ok d"
    and step: "fold (reap_flagged (trunc_ms clk)) (lockExpiredIDs locked (unixMilli clk) True d) (d, cnt, ns) = (d', cnt', ns')"
  shows "reap_loop (trunc_ms clk) L (lockExpiredIDs locked (unixMilli clk) True d) (abs_store d, cnt, map cloneTask ns) =
    ((abs_store d', cnt', map cloneTask ns'), None) \<and> db_ok d'"
proof (rule reap_fold_sim [where Q = "\<lambda>f. f" and F = "reap_flagged (trunc_ms clk)", OF clk _ ok lockExpired_spec(2) _ step])
  fix d cnt ns d' cnt' ns' i x
  assume "store_ok (abs_store d)" "db_ok d" "fmlookup (t_tasks d) i = Some x" "expired_row (unixMilli clk) x" "c_cancel_requested x \<noteq> 0"
    "reap_flagged (trunc_ms clk) i (d, cnt, ns) = (d', cnt', ns')"
  moreover from this have "c_cancel_requested x = 1" using db_okD [of d i x] by (auto simp: row_ok_def)
  ultimately show "reap_step (trunc_ms clk) L i (abs_store d, cnt, map cloneTask ns) = ((abs_store d', cnt', map cloneTask ns'), None) \<and> db_ok d'"
    using reap_flagged_sim [OF clk] by blast
next
  show "\<forall>k \<in> set (lockExpiredIDs locked (unixMilli clk) True d). \<exists>x. fmlookup (t_tasks d) k = Some x \<and> expired_row (unixMilli clk) x \<and>
      c_cancel_requested x \<noteq> 0"
    by (auto simp: lockExpired_spec(1))
qed

text \<open>Whatever rows are locked, the transaction moves the records along.\<close>

lemma srv_reap_moved:
  assumes clk: "after_epoch (at_now a)" and ok: "store_ok (abs_store d)" "db_ok d" and step: "srv_reap_tx L a d = Inr (d', n, ns)"
  shows "moved (abs_store d) (abs_store d') \<and> db_ok d'"
proof -
  let ?now = "trunc_ms (at_now a)" and ?ms = "unixMilli (at_now a)"
  obtain d1 cnt1 ns1 where one: "fold (reap_flagged ?now) (lockExpiredIDs (at_locked a) ?ms True d) (d, 0, []) = (d1, cnt1, ns1)"
    by (metis prod.exhaust)
  obtain d2 cnt2 ns2 where two: "fold (reap_expired L ?now) (lockExpiredIDs (at_locked2 a) ?ms False d1) (d1, cnt1, ns1) = (d2, cnt2, ns2)"
    by (metis prod.exhaust)
  from flagged_fold_sim [OF clk ok one, of L] have l1: "reap_loop ?now L (lockExpiredIDs (at_locked a) ?ms True d) (abs_store d, 0, []) =
      ((abs_store d1, cnt1, map cloneTask ns1), None)" "db_ok d1" by simp_all
  have m1: "moved (abs_store d) (abs_store d1)" using reap_loop_ok [OF ok(1) l1(1)] by (auto intro: good_move_moved)
  then have st1: "store_ok (abs_store d1)" by (simp add: moved_def)
  have ex: "\<forall>k \<in> set (lockExpiredIDs (at_locked2 a) ?ms False d1). expired_in ?now (abs_store d1) k"
    using expired_iff [OF clk] by (auto simp: lockExpired_spec(1))
  have m2: "moved (abs_store d1) (abs_store d2)" "db_ok d2"
    using reap_expired_fold_moved [OF clk st1 l1(2) lockExpired_spec(2) ex two] by simp_all
  then have "store_ok (abs_store d2)" by (simp add: moved_def)
  then have "d' = d2" using step one two by (simp add: srv_reap_tx_def Let_def sq_repair_pass_noop)
  then show ?thesis using moved_trans [OF m1 m2(1)] m2(2) by simp
qed

text \<open>With no row locked, the transaction is one pass of the in-memory reaper, the flagged tasks first.\<close>

lemma srv_reap_sim:
  assumes clk: "after_epoch (at_now a)" and ok: "store_ok (abs_store d)" "db_ok d" and free: "at_locked a = []" "at_locked2 a = []"
    and step: "srv_reap_tx L a d = Inr (d', n, ns)"
  shows "\<exists>zs. reap_loop (trunc_ms (at_now a)) L zs (abs_store d, 0, []) = ((abs_store d', n, map cloneTask ns), None) \<and>
    db_ok d' \<and> store_ok (abs_store d') \<and> range_order zs (abs_store d)"
proof -
  let ?now = "trunc_ms (at_now a)" and ?ms = "unixMilli (at_now a)"
  define k1 where "k1 = lockExpiredIDs [] ?ms True d"
  obtain d1 cnt1 ns1 where one: "fold (reap_flagged ?now) k1 (d, 0, []) = (d1, cnt1, ns1)" by (metis prod.exhaust)
  define k2 where "k2 = lockExpiredIDs [] ?ms False d1"
  obtain d2 cnt2 ns2 where two: "fold (reap_expired L ?now) k2 (d1, cnt1, ns1) = (d2, cnt2, ns2)" by (metis prod.exhaust)
  from flagged_fold_sim [OF clk ok one [unfolded k1_def], of L] have l1: "reap_loop ?now L k1 (abs_store d, 0, []) =
      ((abs_store d1, cnt1, map cloneTask ns1), None)" "db_ok d1" by (simp_all add: k1_def)
  have dk: "distinct k1" "distinct k2" by (simp_all add: k1_def k2_def lockExpired_spec(2))
  have k1: "k \<in> set k1 \<longleftrightarrow> (\<exists>x. fmlookup (t_tasks d) k = Some x \<and> expired_row ?ms x \<and> c_cancel_requested x = 1)" for k
    by (simp add: k1_def lockExpired_spec(1))
  have k2: "k \<in> set k2 \<longleftrightarrow> expired_in ?now (abs_store d1) k" for k
    using expired_iff [OF clk] by (auto simp: k2_def lockExpired_spec(1))
  note fr = reap_loop_frame [OF ok(1) dk(1) l1(1)]
  have st1: "store_ok (abs_store d1)" using fr by simp
  have calm: "\<exists>x. fmlookup (t_tasks d1) k = Some x \<and> expired_row ?ms x \<and> \<not> c_cancel_requested x \<noteq> 0" if k: "k \<in> set k2" for k
  proof -
    have ex: "k \<notin> set k1" "expired_in ?now (abs_store d) k" using fr k2 k by blast+
    then obtain q where q: "fmlookup (t_tasks d) k = Some q" "expired_row ?ms q" using expired_iff [OF clk] by blast
    have "fmlookup (abs_store d) k = Some (abs_rec d k q)" "Status (task (abs_rec d k q)) \<noteq> StatusBlocked"
      using q by (simp_all add: expired_row_def)
    then have same: "fmlookup (abs_store d1) k = Some (if k \<in> set k1 \<and> expired_in ?now (abs_store d) k
        then reaped_rec ?now L (abs_rec d k q) else abs_rec d k q)"
      using fr by blast
    have "c_cancel_requested q = 0" using ex(1) k1 q db_okD [OF ok(2) q(1)] by (auto simp: row_ok_def)
    moreover obtain x where x: "fmlookup (t_tasks d1) k = Some x" "abs_rec d1 k x = abs_rec d k q" using same ex(1) by auto
    moreover have "expired_row ?ms x" using k k2 expired_iff [OF clk] x(1) by auto
    moreover have "(c_cancel_requested x \<noteq> 0) = (c_cancel_requested q \<noteq> 0)" using arg_cong [OF x(2), of cancelRequested] by simp
    ultimately show ?thesis by auto
  qed
  have l2: "reap_loop ?now L k2 (abs_store d1, cnt1, map cloneTask ns1) = ((abs_store d2, cnt2, map cloneTask ns2), None) \<and> db_ok d2"
    by (rule reap_fold_sim [where Q = Not and F = "reap_expired L ?now", OF clk _ st1 l1(2) dk(2) _ two])
      (use reap_expired_sim [OF clk] calm in auto)
  note fr2 = reap_loop_frame [OF st1 dk(2) l2 [THEN conjunct1]]
  have st2: "store_ok (abs_store d2)" using fr2 by simp
  have res: "d' = d2" "n = cnt2" "ns = ns2"
    using step one two sq_repair_pass_noop [OF st2] by (simp_all add: srv_reap_tx_def free k1_def k2_def Let_def)
  obtain xs where xs: "range_order xs (abs_store d)" using range_order_exists by blast
  define rest where "rest = filter (\<lambda>i. i \<notin> set k1 \<and> i \<notin> set k2) xs"
  have "set k1 \<inter> set k2 = {}" using fr k2 by blast
  moreover have "k \<in> set xs" if "expired_in ?now (abs_store d) k" for k
    using range_order_in [OF xs] that by (auto simp: expired_in_def)
  then have "set k1 \<subseteq> set xs" "set k2 \<subseteq> set xs"
    using k1 k2 fr expired_iff [OF clk] by blast+
  ultimately have "range_order (k1 @ k2 @ rest) (abs_store d)"
    using dk xs by (auto simp: rest_def range_order_def)
  moreover have "\<not> expired_in ?now (abs_store d2) i" for i using fr2 k2 by blast
  ultimately show ?thesis using l1(1) l2 st2 res
    by (intro exI [of _ "k1 @ k2 @ rest"]) (simp add: reap_loop_append reap_loop_skip)
qed

end
