(* ===== verification/Sql_System.thy ===== *)
theory Sql_System
  imports Sql_Reap
begin

text \<open>
  The server back end as a whole: undisturbed calls answer what the in-memory broker answers, and the tables that any number
  of processes produce stay consistent, with retries, locked rows, lost races and lost answers.
\<close>

section \<open>Refinement\<close>

lemma Reap_calm:
  assumes r: "refined (core s) b" and e: "env_ok e (core s)" and m: "0 < MaxTxRetry (v_cfg s)"
    and step: "srv_ReapExpired (clean e) s = (s', ns, n, er)"
  shows "\<exists>zs b' ns'. mem_ReapExpired zs zs (e_now e) b = (b', ns', n, er) \<and> refined (core s') (sort_children b')"
proof -
  have v: "sview (core s) b" "db_ok (v_db s)" and inv: "minv b" and clk: "after_epoch (e_now e)"
    using r e by (simp_all add: refined_def env_ok_def)
  have b: "recs b = abs_store (v_db s)" "opts b = v_opts s" "store_ok (abs_store (v_db s))"
    using v(1) minv_store_ok [OF inv] by (simp_all add: sview_def)
  show ?thesis
  proof (cases "srv_requireInit s")
    case (Some err)
    have "mem_requireInit b = Some err" using requireInit_sim [OF v(1)] Some by simp
    then have "mem_ReapExpired zs zs (e_now e) b = (b, [], 0, Some err)" for zs by (simp add: mem_ReapExpired_def)
    moreover have "s' = s" "n = 0" "er = Some err" using step Some by (auto simp: srv_ReapExpired_def)
    ultimately show ?thesis using refined_same [OF r] by blast
  next
    case None
    let ?L = "LeaseLostMax (v_opts s)"
    obtain d where tx: "srv_reap_tx ?L (clean e 0) (v_db s) = Inr (d, n, ns)"
      and s': "s' = (if ns \<noteq> [] then srv_wakeAll (s\<lparr>v_db := d\<rparr>) else s\<lparr>v_db := d\<rparr>)" "er = None"
      using step None by (auto simp: srv_ReapExpired_def plain_calm [OF clean_calm m] srv_reap_tx_def Let_def split: prod.splits)
    from srv_reap_sim [OF _ b(3) v(2) _ _ tx] clk obtain zs where zs: "range_order zs (recs b)" "db_ok d" "store_ok (abs_store d)"
      "reap_loop (trunc_ms (e_now e)) ?L zs (recs b, 0, []) = ((abs_store d, n, map cloneTask ns), None)"
      using b(1) by auto
    have mem: "mem_ReapExpired zs zs (e_now e) b =
        (if ns \<noteq> [] then mem_broadcast (b\<lparr>recs := abs_store d\<rparr>) else b\<lparr>recs := abs_store d\<rparr>, map cloneTask ns, n, er)"
      using None zs(3,4) s'(2) b(2) requireInit_sim [OF v(1)] by (simp add: mem_ReapExpired_def Let_def repair_pass_noop)
    have "sim (core s') ns (if ns \<noteq> [] then mem_broadcast (b\<lparr>recs := abs_store d\<rparr>) else b\<lparr>recs := abs_store d\<rparr>) (map cloneTask ns)"
      using v(1) zs(2) s' by (auto simp: sim_def sview_def srv_wakeAll_def wakeAll_def mem_broadcast_def)
    then show ?thesis using mem refined_change [OF r ReapExpired_step [OF inv mem, THEN conjunct1]] by blast
  qed
qed

definition srv_answer_sim :: "duration \<Rightarrow> time \<Rightarrow> brokerAnswer \<Rightarrow> brokerAnswer \<Rightarrow> bool" where
  "srv_answer_sim poll now a a' =
     (case a of ATurn t \<Rightarrow> (\<exists>t'. a' = ATurn t' \<and> srv_turn_sim poll now t t') | _ \<Rightarrow> answer_sim now a a')"

text \<open>A call whose statements are those of the sqlite back end.\<close>

fun shared_call :: "brokerCall \<Rightarrow> bool" where
  "shared_call (CallDequeue qs) \<longleftrightarrow> False"
| "shared_call CallReapExpired \<longleftrightarrow> False"
| "shared_call _ \<longleftrightarrow> True"

lemma perform_core:
  assumes r: "refined (core s) b" and e: "env_ok e (core s)" and c: "call_ok c" "shared_call c" and m: "0 < MaxTxRetry (v_cfg s)"
    and small: "int (fcard (fmdom (t_tasks (v_db s)))) < 2 ^ 63"
    and step: "perform (sql_broker viol ref) e c s = (s', a)"
  shows "perform (sqlite_broker drv ref) e c (core s) = (core s', a)"
proof -
  note defs = sqlite_broker_def sql_broker_def Let_def
  note rec = receipts_calm [OF clean_calm [of e] m, unfolded clean_fields]
  show ?thesis
  proof (cases c)
    case (CallEnqueue t)
    then show ?thesis using step c(1) Enqueue_calm [OF r e _ m, of t viol "Inr (v_db s)" drv] by (auto simp: defs split: prod.splits)
  next
    case (CallAck i tok res)
    then show ?thesis using step rec(1) [of i tok res] by (auto simp: defs split: prod.splits)
  next
    case (CallFail i tok msg kind retryAt)
    then show ?thesis using step rec(5) [of i tok msg kind retryAt] by (auto simp: defs split: prod.splits)
  next
    case (CallCancel i)
    then show ?thesis using step rec(2) [of i] by (auto simp: defs split: prod.splits)
  next
    case (CallFinishCanceled i tok)
    then show ?thesis using step rec(3) [of i tok] by (auto simp: defs split: prod.splits)
  next
    case (CallRequeue i tok)
    then show ?thesis using step rec(4) [of i tok] by (auto simp: defs split: prod.splits)
  next
    case (CallHeartbeat i tok)
    then show ?thesis using step rec(6) [of i tok] by (auto simp: defs split: prod.splits)
  next
    case (CallReplay req)
    then show ?thesis using step Replay_calm [OF r e m, of viol req drv] by (auto simp: defs split: prod.splits)
  qed (use c step in \<open>auto simp: defs queries_core List_core [OF small]\<close>)
qed

lemma sql_perform_refined:
  assumes r: "refined (core s) b" and e: "env_ok e (core s)" and c: "call_ok c" "known_kind c" and m: "0 < MaxTxRetry (v_cfg s)"
    and small: "int (fcard (fmdom (t_tasks (v_db s)))) < 2 ^ 63"
    and step: "perform (sql_broker viol ref) e c s = (s', a)"
  shows "\<exists>e' b' a'. e_now e' = e_now e \<and> e_ulid e' = e_ulid e \<and> perform memory_broker e' c b = (b', a') \<and>
    refined (core s') (sort_children b') \<and> srv_answer_sim (PollInterval (v_cfg s)) (e_now e) a a'"
proof (cases "shared_call c")
  case True
  have "\<nexists>t. a = ATurn t" using step True by (cases c) (auto split: prod.splits)
  then have "answer_sim (e_now e) a a' \<Longrightarrow> srv_answer_sim (PollInterval (v_cfg s)) (e_now e) a a'" for a'
    by (cases a) (auto simp: srv_answer_sim_def)
  then show ?thesis
    using perform_refined [OF r e c perform_core [OF r e c(1) True m small step, of "\<lambda>_. ''''"]] by blast
next
  case False
  then consider qs where "c = CallDequeue qs" | "c = CallReapExpired" by (cases c) auto
  then show ?thesis
  proof cases
    case 1
    then show ?thesis using step
      by (force simp: sql_broker_def memory_broker_def srv_answer_sim_def Let_def split: prod.splits dest!: Dequeue_calm [OF r e m] intro!: exI [of _ e])
  next
    case 2
    obtain s1 ns n er where one: "srv_ReapExpired (clean e) s = (s1, ns, n, er)" by (metis prod.exhaust)
    from Reap_calm [OF r e m one] obtain zs b' ns' where "mem_ReapExpired zs zs (e_now e) b = (b', ns', n, er)"
      "refined (core s1) (sort_children b')" by blast
    then show ?thesis using step 2 one
      by (intro exI [of _ "e\<lparr>e_order := zs, e_order2 := zs\<rparr>"]) (auto simp: sql_broker_def memory_broker_def srv_answer_sim_def)
  qed
qed

end
