(* ===== verification/Sql_Tables.thy ===== *)
theory Sql_Tables
  imports Sql_System
begin

text \<open>
  The tables of a database server that any number of processes work on: transactions that are retried, rows that are locked
  by others, unique keys lost in a race, commits whose answer is lost.  Every transaction that is committed
  keeps the tables consistent, that is, the image of a state of the in-memory broker.
\<close>

section \<open>Consistent tables\<close>

definition consistent :: "sdb \<Rightarrow> bool" where
  "consistent d \<longleftrightarrow> (\<exists>s b. sp_db s = d \<and> refined s b)"

text \<open>Which process looks at the tables does not matter.\<close>

definition proc :: "brokerOptions \<Rightarrow> sdb \<Rightarrow> sbroker" where
  "proc o0 d = \<lparr>sp_opts = o0, sp_inited = True, sp_closed = False, sp_wakes = 0, sp_lastWins = fmempty, sp_db = d\<rparr>"

lemma proc_fields [simp]: "sp_opts (proc o0 d) = o0" "sp_db (proc o0 d) = d" "sq_requireInit (proc o0 d) = None"
  "(proc o0 d)\<lparr>sp_db := d'\<rparr> = proc o0 d'"
  by (simp_all add: proc_def sq_requireInit_def)

lemma consistentI: "refined s b \<Longrightarrow> consistent (sp_db s)"
  by (auto simp: consistent_def)

lemma consistent_proc: "consistent d \<Longrightarrow> \<exists>b. refined (proc o0 d) b"
  using refined_process [of _ _ "proc o0 d"] by (auto simp: consistent_def)

definition attempt_ok :: "attempt \<Rightarrow> sdb \<Rightarrow> bool" where
  "attempt_ok a d \<longleftrightarrow> after_epoch (at_now a) \<and> at_ulid a \<noteq> '''' \<and> fmlookup (t_tasks d) (at_ulid a) = None \<and>
     range_order (at_order a) (t_tasks d)"

definition ttls_ok :: "brokerOptions \<Rightarrow> bool" where
  "ttls_ok o0 \<longleftrightarrow> ttl_ok (proc o0 sq_empty)"

definition env_of :: "attempt \<Rightarrow> env" where
  "env_of a = \<lparr>e_now = at_now a, e_ulid = at_ulid a, e_order = at_order a, e_order2 = at_order a, e_ctx = None\<rparr>"

lemma env_of_fields [simp]: "e_now (env_of a) = at_now a" "e_ulid (env_of a) = at_ulid a" "e_order (env_of a) = at_order a"
  by (simp_all add: env_of_def)

lemma ttlFor_proc: "sq_ttlFor (proc o0 d) = sq_ttlFor (proc o0 d')"
  by (simp add: sq_ttlFor_def fun_eq_iff split: option.split)

lemma env_of_ok: "attempt_ok a d \<Longrightarrow> ttls_ok o0 \<Longrightarrow> env_ok (env_of a) (proc o0 d)"
  using ttlFor_proc [of o0 d sq_empty] by (simp add: attempt_ok_def ttls_ok_def env_ok_def env_of_def ttl_ok_def)

section \<open>Transactions keep the tables consistent\<close>

lemma change_consistent:
  assumes "consistent d" "attempt_ok a d" "ttls_ok o0" and tx: "fn d = Inr (d', ns)"
    and law: "\<And>b s' ns u. refined (proc o0 d) b \<Longrightarrow> env_ok (env_of a) (proc o0 d) \<Longrightarrow> sq_change None fn (proc o0 d) = (s', ns, u) \<Longrightarrow>
      \<exists>b' ns'. m b = (b', ns', u) \<and> refined s' (sort_children b')"
  shows "consistent d'"
proof -
  obtain b where b: "refined (proc o0 d) b" using consistent_proc [OF assms(1)] by blast
  have "sq_change None fn (proc o0 d) = (wakeAll (proc o0 d'), ns, Inr ())" by (simp add: sq_change_def withTx_def tx)
  from law [OF b env_of_ok [OF assms(2,3)] this] show ?thesis using consistentI [of "wakeAll (proc o0 d')"]
    by (auto simp: wakeAll_def)
qed

lemma receipts_consistent:
  assumes c: "consistent d" "attempt_ok a d" "ttls_ok o0"
  shows "ack_tx (at_now a) i tok res d = Inr (d', ns) \<Longrightarrow> consistent d'"
    and "cancel_tx (at_now a) i d = Inr (d', ns) \<Longrightarrow> consistent d'"
    and "finishCanceled_tx (at_now a) i tok d = Inr (d', ns) \<Longrightarrow> consistent d'"
    and "requeue_tx i tok d = Inr (d', ns) \<Longrightarrow> consistent d'"
    and "fail_tx (ThrottledMax o0) (at_now a) i tok msg kind retryAt d = Inr (d', ns) \<Longrightarrow> stamp_ok retryAt \<Longrightarrow> consistent d'"
    and "heartbeat_tx (sq_ttlFor (proc o0 d)) (at_now a) i tok d = Inr (d', f) \<Longrightarrow> consistent d'"
proof -
  note one = change_consistent [OF c]
  note law = receipts_refined [where e = "env_of a", unfolded sq_Ack_def sq_Cancel_def sq_FinishCanceled_def sq_Requeue_def sq_Fail_def env_of_fields]
  show "consistent d'" if "ack_tx (at_now a) i tok res d = Inr (d', ns)" by (rule one [where fn = "ack_tx (at_now a) i tok res", OF that law(1)])
  show "consistent d'" if "cancel_tx (at_now a) i d = Inr (d', ns)" by (rule one [where fn = "cancel_tx (at_now a) i", OF that law(5)])
  show "consistent d'" if "finishCanceled_tx (at_now a) i tok d = Inr (d', ns)" by (rule one [where fn = "finishCanceled_tx (at_now a) i tok", OF that law(2)])
  show "consistent d'" if "requeue_tx i tok d = Inr (d', ns)" by (rule one [where fn = "requeue_tx i tok", OF that law(3)])
  show "consistent d'" if tx: "fail_tx (ThrottledMax o0) (at_now a) i tok msg kind retryAt d = Inr (d', ns)" "stamp_ok retryAt"
  proof -
    have k: "\<forall>n. kind \<noteq> FailOther n"
      using tx(1) by (auto simp: fail_tx_def sq_fail_counts_def Let_def split: sum.splits option.splits)
    show ?thesis by (rule one [where fn = "fail_tx (ThrottledMax o0) (at_now a) i tok msg kind retryAt", OF tx(1) law(6) [OF _ _ k tx(2), of "proc o0 d", unfolded proc_fields]])
  qed
  show "consistent d'" if tx: "heartbeat_tx (sq_ttlFor (proc o0 d)) (at_now a) i tok d = Inr (d', f)"
  proof -
    obtain b where b: "refined (proc o0 d) b" using consistent_proc [OF c(1)] by blast
    have "sq_Heartbeat None (at_now a) i tok (proc o0 d) = (proc o0 d', [], if f then Inl (ErrTaskCanceled i) else Inr ())"
      by (simp add: sq_Heartbeat_def withTx_def tx)
    from receipts_refined(4) [OF b env_of_ok [OF c(2,3)], unfolded env_of_fields, OF this] show ?thesis
      using consistentI [of "proc o0 d'"] by auto
  qed
qed

lemma map_sum_Inr: "map_sum f (\<lambda>x. x) r = Inr y \<Longrightarrow> r = Inr y"
  by (cases r) auto

lemma inserts_consistent:
  assumes c: "consistent d" "attempt_ok a d"
  shows "new_task_ok t \<Longrightarrow> ReplayOf t = '''' \<Longrightarrow> srv_enqueue_tx dl viol t a d = Inr (d', x) \<Longrightarrow> consistent d'"
    and "(rq_ExecutionID req = '''') \<noteq> (rq_BusinessKey req = '''') \<Longrightarrow> srv_replay_tx dl viol req a d = Inr (d', x) \<Longrightarrow> consistent d'"
proof -
  define o0 where "o0 = \<lparr>LeaseTTL = fmempty, DefaultLeaseTTL = 0, LeaseLostMax = 0, ThrottledMax = 0\<rparr>"
  have o0: "ttls_ok o0" by (simp add: ttls_ok_def ttl_ok_def sq_ttlFor_def o0_def)
  obtain b where b: "refined (proc o0 d) b" using consistent_proc [OF c(1)] by blast
  note ins = inserts_refined [OF b env_of_ok [OF c(2) o0], unfolded env_of_fields]
  show "consistent d'" if t: "new_task_ok t" "ReplayOf t = ''''" and tx: "srv_enqueue_tx dl viol t a d = Inr (d', x)"
  proof -
    have "at_race a = None"
      using tx by (cases "at_race a") (auto simp: srv_enqueue_tx_def insert_racing_def Let_def split: option.splits if_splits sum.splits)
    then have "map_sum OpErr (\<lambda>x. x) (enqueue_tx drv (at_ulid a) (at_now a) t d) = Inr (d', x)" for drv
      using enqueue_tx_same [of a t d dl viol] tx by auto
    then have "enqueue_tx (\<lambda>_. '''') (at_ulid a) (at_now a) t d = Inr (d', x)" by (rule map_sum_Inr)
    then have "sq_Enqueue (\<lambda>_. '''') None (at_ulid a) (at_now a) t (proc o0 d) = (wakeAll (proc o0 d'), [x], Inr x)"
      using t(2) by (simp add: sq_Enqueue_def withTx_def)
    from ins(1) [OF t(1) this] show ?thesis using consistentI [of "wakeAll (proc o0 d')"] by (auto simp: wakeAll_def)
  qed
  show "consistent d'" if r: "(rq_ExecutionID req = '''') \<noteq> (rq_BusinessKey req = '''')" and tx: "srv_replay_tx dl viol req a d = Inr (d', x)"
  proof -
    have "at_race a = None"
      using tx by (cases "at_race a") (auto simp: srv_replay_tx_def insert_racing_def Let_def split: option.splits if_splits sum.splits)
    then have "map_sum OpErr (\<lambda>x. x) (replay_tx drv (at_order a) (at_ulid a) (at_now a) req d) = Inr (d', x)" for drv
      using replay_tx_same [of a req d dl viol] tx by auto
    then have "replay_tx (\<lambda>_. '''') (at_order a) (at_ulid a) (at_now a) req d = Inr (d', x)" by (rule map_sum_Inr)
    then have "sq_Replay (\<lambda>_. '''') None (at_order a) (at_ulid a) (at_now a) req (proc o0 d) = (wakeAll (proc o0 d'), [x], Inr x)"
      using r by (simp add: sq_Replay_def withTx_def)
    from ins(2) [OF this] show ?thesis using consistentI [of "wakeAll (proc o0 d')"] by (auto simp: wakeAll_def)
  qed
qed

text \<open>A claim takes a due row that nobody has locked, not necessarily the first.\<close>

lemma first_unlocked_Some:
  assumes "first_unlocked locked queues n d = Some i"
  shows "\<exists>x. fmlookup (t_tasks d) i = Some x \<and> waiting_row queues x \<and> c_run_at x \<le> n \<and> i \<notin> set locked \<and>
    (\<forall>j y. fmlookup (t_tasks d) j = Some y \<longrightarrow> waiting_row queues y \<longrightarrow> c_run_at y \<le> n \<longrightarrow> j \<notin> set locked \<longrightarrow>
       c_run_at x < c_run_at y \<or> c_run_at x = c_run_at y \<and> i \<le> j)"
proof -
  let ?f = "\<lambda>i. c_run_at (row_of d i)" and ?is = "select (\<lambda>_ r. waiting_row queues r \<and> c_run_at r \<le> n) d"
  obtain js where js: "filter (\<lambda>i. i \<notin> set locked) (sort_key ?f ?is) = i # js"
    using assms by (auto simp: first_unlocked_def split: list.splits)
  have eq: "sort_key ?f (filter (\<lambda>i. i \<notin> set locked) ?is) = i # js"
    by (rule trans [OF filter_sort [symmetric] js])
  have "sorted (filter (\<lambda>i. i \<notin> set locked) ?is)"
    by (rule sorted_wrt_filter) (rule select_sorted(1))
  from sort_key_hd [OF this eq] have hd: "i \<in> set ?is" "i \<notin> set locked"
    "\<And>j. j \<in> set ?is \<Longrightarrow> j \<notin> set locked \<Longrightarrow> ?f i < ?f j \<or> ?f i = ?f j \<and> i \<le> j"
    by (auto simp del: select_iff)
  obtain x where x: "fmlookup (t_tasks d) i = Some x" "waiting_row queues x" "c_run_at x \<le> n" using hd(1) by auto
  have "c_run_at x < c_run_at y \<or> c_run_at x = c_run_at y \<and> i \<le> j"
    if "fmlookup (t_tasks d) j = Some y" "waiting_row queues y" "c_run_at y \<le> n" "j \<notin> set locked" for j y
    using hd(3) [of j] that x(1) by (simp add: row_of_def)
  then show ?thesis using x hd(2) by blast
qed

lemma claim_consistent:
  assumes c: "consistent d" and o: "ttls_ok o0" and clk: "after_epoch now" and tok: "token \<noteq> ''''"
    and tx: "srv_claim_tx (sq_ttlFor (proc o0 d)) token now queues a d = Inr (d', x)"
  shows "consistent d'"
proof (cases "first_unlocked (at_locked a) queues (unixMilli now) d")
  case None
  then show ?thesis using tx c by (simp add: srv_claim_tx_def Let_def)
next
  case (Some i)
  obtain b where b: "refined (proc o0 d) b" using consistent_proc [OF c] by blast
  have v: "sview (proc o0 d) b" "db_ok d" and inv: "minv b" using b by (simp_all add: refined_def)
  obtain r where r: "fmlookup (t_tasks d) i = Some r" "waiting_row queues r" using first_unlocked_Some [OF Some] by blast
  let ?y = "r\<lparr>c_status := StatusRunning, c_lease_token := token,
      c_started_at := (if c_started_at r = 0 then unixMilli now else c_started_at r),
      c_lease_until := unixMilli (now + sq_ttlFor (proc o0 d) (c_queue r))\<rparr>"
  have d': "d' = d\<lparr>t_tasks := fmupd i ?y (t_tasks d)\<rparr>"
    using tx Some r(1) by (auto simp: srv_claim_tx_def Let_def update_row_def row_of_def scanRec_def)
  let ?r = "abs_rec d i r" and ?r' = "abs_rec d i ?y"
  have k: "fmlookup (recs b) i = Some ?r" using v(1) r(1) by (simp add: sview_def)
  have st: "Status (task ?r) \<in> {StatusPending, StatusRetrying}" using r(2) by (auto simp: waiting_row_def)
  have r': "Status (task ?r') = StatusRunning" "LeaseToken (task ?r') = token" "shape ?r' = shape ?r"
    "Attempts (task ?r') = Attempts (task ?r)" "LeaseLost (task ?r') = LeaseLost (task ?r)" "Throttled (task ?r') = Throttled (task ?r)"
    by (simp_all add: task_abs abs_task_defs shape_def)
  have "rec_evolves ?r ?r'" using st r' by (intro rec_evolvesI) auto
  then have step: "store_step token b (put_rec i ?r' b)"
    using st r' tok by (intro live_step(1) [OF inv k]) (auto simp: lease_rec_def)
  have "row_ok ?y" using db_okD [OF v(2) r(1)] clk r(2) by (auto simp: row_ok_def after_epoch_def waiting_row_def)
  then have "sim (proc o0 d') [] (put_rec i ?r' b) []"
    using v db_ok_upd [OF v(2) r(1)] by (simp add: sim_def sview_def put_rec_def abs_upd d' proc_def)
  from refined_change [OF b step this] show ?thesis using consistentI [of "proc o0 d'"] by simp
qed

lemma reap_consistent:
  assumes c: "consistent d" and clk: "after_epoch (at_now a)" and tx: "srv_reap_tx L a d = Inr (d', n, ns)"
  shows "consistent d'"
proof -
  define o0 where "o0 = \<lparr>LeaseTTL = fmempty, DefaultLeaseTTL = 0, LeaseLostMax = 0, ThrottledMax = 0\<rparr>"
  obtain b where b: "refined (proc o0 d) b" using consistent_proc [OF c] by blast
  have v: "sview (proc o0 d) b" "db_ok d" and inv: "minv b" using b by (simp_all add: refined_def)
  have recs: "recs b = abs_store d" using v(1) by (simp add: sview_def)
  have m: "moved (abs_store d) (abs_store d')" "db_ok d'"
    using srv_reap_moved [OF clk _ v(2) tx] minv_store_ok [OF inv] by (simp_all add: recs)
  have "store_step '''' b (b\<lparr>recs := abs_store d'\<rparr>)"
    using m(1) by (intro store_stepI) (simp_all add: moved_def store_ok_def recs)
  moreover have "sim (proc o0 d') [] (b\<lparr>recs := abs_store d'\<rparr>) []" using v m(2) by (simp add: sim_def sview_def proc_def)
  ultimately show ?thesis using refined_change [OF b] consistentI [of "proc o0 d'"] by fastforce
qed

section \<open>Processes on one server\<close>

text \<open>
  One call with all its attempts: \<open>e\<close> is the clock, the token and the context of a claim, \<open>late\<close> and \<open>io\<close> what a query outside a
  transaction meets.
\<close>

fun srv_perform ::
  "(constraint \<Rightarrow> driverErr) \<Rightarrow> env \<Rightarrow> attempts \<Rightarrow> driverErr + sdb \<Rightarrow> driverErr option \<Rightarrow> brokerCall \<Rightarrow> srvbroker \<Rightarrow>
   srvbroker \<times> task list \<times> brokerAnswer" where
  "srv_perform viol e env late io (CallEnqueue t) s = (case srv_Enqueue viol env late t s of (s', ns, r) \<Rightarrow> (s', ns, ATask r))"
| "srv_perform viol e env late io (CallDequeue qs) s =
     (case srv_Dequeue_turn (e_ctx e) env (e_ctx e) (e_ulid e) (e_now e) (e_now e) qs s of (s', ns, t) \<Rightarrow> (s', ns, ATurn t))"
| "srv_perform viol e env late io (CallAck i tok res) s = (case srv_Ack env i tok res s of (s', ns, r) \<Rightarrow> (s', ns, AErr (err_of r)))"
| "srv_perform viol e env late io (CallFail i tok msg kind retryAt) s =
     (case srv_Fail env i tok msg kind retryAt s of (s', ns, r) \<Rightarrow> (s', ns, AErr (err_of r)))"
| "srv_perform viol e env late io (CallCancel i) s = (case srv_Cancel env i s of (s', ns, r) \<Rightarrow> (s', ns, AErr (err_of r)))"
| "srv_perform viol e env late io (CallFinishCanceled i tok) s =
     (case srv_FinishCanceled env i tok s of (s', ns, r) \<Rightarrow> (s', ns, AErr (err_of r)))"
| "srv_perform viol e env late io (CallRequeue i tok) s = (case srv_Requeue env i tok s of (s', ns, r) \<Rightarrow> (s', ns, AErr (err_of r)))"
| "srv_perform viol e env late io (CallHeartbeat i tok) s = (case srv_Heartbeat env i tok s of (s', ns, r) \<Rightarrow> (s', ns, AErr (err_of r)))"
| "srv_perform viol e env late io (CallGet i) s = (s, [], ATask (srv_Get io i s))"
| "srv_perform viol e env late io (CallReplay req) s = (case srv_Replay viol env req s of (s', ns, r) \<Rightarrow> (s', ns, ATask r))"
| "srv_perform viol e env late io (CallList f) s = (s, [], ATasks (srv_List io f s))"
| "srv_perform viol e env late io (CallQueueLen q) s = (s, [], ANumber (srv_QueueLen io q s))"
| "srv_perform viol e env late io CallCounts s = (s, [], ACounts (srv_Counts io s))"
| "srv_perform viol e env late io CallReapExpired s = (case srv_ReapExpired env s of (s', ns, n, r) \<Rightarrow> (s', ns, AReaped n r))"

text \<open>
  The check of lengths in \<open>mysqlbroker\<close> comes before anything else: it refuses the call without a change, or the call is that
  of the shared broker.
\<close>

lemma mysql_Enqueue_cases:
  "(\<exists>e. mysql_Enqueue viol env late t s = (s, [], Inl e)) \<or> mysql_Enqueue viol env late t s = srv_Enqueue viol env late t s"
  by (simp add: mysql_Enqueue_def split: option.split)

text \<open>
  A call of the process \<open>s\<close> whose attempts are \<open>env\<close>: a clock after 1970, fresh identifiers, and a server that does not
  answer a committed transaction with a retryable error.
\<close>

definition call_env :: "attempts \<Rightarrow> srvbroker \<Rightarrow> bool" where
  "call_env env s \<longleftrightarrow> honest (v_dialect s) env \<and> 2 \<le> MaxTxRetry (v_cfg s) \<and> ttls_ok (v_opts s) \<and>
     (\<forall>k. attempt_ok (env k) (db_before env (Suc k) (v_db s)))"

text \<open>
  A step of the tables on a PostgreSQL server: a call of some process, whose attempts see what the steps of the others have
  made of the tables in between, or a quota statement.  A transaction is one step.  At PostgreSQL's isolation level, READ
  COMMITTED, every statement reads what is committed when it starts, and what a transaction decides on it reads under row
  locks or after them: \<open>Enqueue\<close> locks the parents before it reads their statuses, a propagation locks the finished task before
  it reads its children and each child before it changes it, and the repair locks the child, which the propagation of any of its
  parents has to lock as well, before it reads the parents.  MySQL's level, REPEATABLE READ, reads an older snapshot in the last two
  places; its calls are not steps of this relation (see \<open>Sql_Snapshot\<close>).
\<close>

inductive vstep :: "sdb \<Rightarrow> sdb \<Rightarrow> bool" where
  call: "call_env env s \<Longrightarrow> (\<And>k. vstep\<^sup>*\<^sup>* (db_before env k (v_db s)) (db_before env (Suc k) (v_db s))) \<Longrightarrow>
    after_epoch (e_now e) \<Longrightarrow> e_ulid e \<noteq> '''' \<Longrightarrow> call_ok c \<Longrightarrow>
    srv_perform viol e env late io c s = (s', ns, a) \<Longrightarrow> v_dialect s = pgDialect \<Longrightarrow> vstep (v_db s) (v_db s')"
| reserve: "srv_Reserve io io1 io2 secs g s = (s', q) \<Longrightarrow> vstep (v_db s) (v_db s')"
| release: "srv_Release io g q s = (s', u) \<Longrightarrow> vstep (v_db s) (v_db s')"

section \<open>Every step keeps the tables consistent\<close>

text \<open>A body that leaves consistent tables in each of the attempts, and a call that finds consistent tables in each.\<close>

definition sound :: "attempts \<Rightarrow> ('c, 'a) txBody \<Rightarrow> 'c \<Rightarrow> sdb \<Rightarrow> bool" where
  "sound env fn c d \<longleftrightarrow>
     (\<forall>n d' x. snd (fn (env n) (captured env fn d n c) (db_before env (Suc n) d)) = Inr (d', x) \<longrightarrow> consistent d')"

definition good_call :: "attempts \<Rightarrow> srvbroker \<Rightarrow> bool" where
  "good_call env s \<longleftrightarrow> call_env env s \<and> (\<forall>k. consistent (db_before env k (v_db s)))"

lemma soundI:
  "(\<And>n d' x. snd (fn (env n) (captured env fn d n c) (db_before env (Suc n) d)) = Inr (d', x) \<Longrightarrow> consistent d') \<Longrightarrow> sound env fn c d"
  by (auto simp: sound_def)

lemma sound_plain:
  "(\<And>n d' x. fn (env n) (db_before env (Suc n) d) = Inr (d', x) \<Longrightarrow> consistent d') \<Longrightarrow> sound env (plain_body fn) () d"
  by (intro soundI) (auto simp: plain_body_def dest!: map_sum_Inr)

lemma good_call_start: "good_call env s \<Longrightarrow> consistent (v_db s)"
  by (metis db_before.simps(1) good_call_def)

lemma withTx_consistent:
  assumes g: "good_call env s" "sound env fn c (v_db s)" and step: "srv_withTx env fn c s = (s', r)"
  shows "consistent (v_db s')"
proof -
  from withTx_last [OF _ _ step] g(1) obtain n where
    run: "run_attempt (env n) fn (captured env fn (v_db s) n c) (behind env n s) = (s', r)"
    by (auto simp: good_call_def call_env_def)
  have before: "at_others (env n) (v_db (behind env n s)) = db_before env (Suc n) (v_db s)" by simp
  have c: "consistent (db_before env (Suc n) (v_db s))" using g(1) by (simp add: good_call_def del: db_before.simps)
  show ?thesis
  proof (cases r)
    case (Inl e)
    from run_attempt_error [OF run [unfolded Inl], unfolded before] show ?thesis
    proof
      assume "s' = behind env n s\<lparr>v_db := db_before env (Suc n) (v_db s)\<rparr>"
      then have "v_db s' = db_before env (Suc n) (v_db s)" by simp
      then show ?thesis using c by simp
    qed (use g(2) in \<open>auto simp: sound_def simp del: db_before.simps\<close>)
  next
    case (Inr x)
    then show ?thesis using run_attempt_ok(4) [OF run [unfolded Inr], unfolded before] g(2) unfolding sound_def by blast
  qed
qed

lemma change_sound:
  assumes g: "good_call env s" "sound env fn c (v_db s)" and step: "srv_change env fn c s = (s', ns, u)"
  shows "consistent (v_db s')"
  using withTx_consistent [OF g] good_call_start [OF g(1)] step
  by (auto simp: srv_change_def srv_wakeAll_def split: option.splits prod.splits sum.splits)

lemma fail_body_captured:
  assumes "stamp_ok retryAt" and "\<And>k. attempt_ok (env k) (db_before env (Suc k) d)"
  shows "stamp_ok (captured env (fail_body m i tok msg kind) d n retryAt)"
proof (induction n)
  case (Suc n)
  then show ?case using assms(2) [of n] by (auto simp: fail_body_def Let_def attempt_ok_def stamp_ok_def after_epoch_def)
qed (simp add: assms(1))

lemma perform_consistent:
  assumes g: "good_call env s" and e: "after_epoch (e_now e)" "e_ulid e \<noteq> ''''" and ok: "call_ok cl"
    and step: "srv_perform viol e env late io cl s = (s', ns, a)"
  shows "consistent (v_db s')"
proof -
  have c: "consistent (db_before env (Suc n) (v_db s))" and at: "attempt_ok (env n) (db_before env (Suc n) (v_db s))"
    and clk: "after_epoch (at_now (env n))" and o: "ttls_ok (v_opts s)" for n
    using g by (simp_all add: good_call_def call_env_def attempt_ok_def del: db_before.simps)
  have ttl: "srv_ttlFor s = sq_ttlFor (proc (v_opts s) d)" for d
    by (simp add: srv_ttlFor_def sq_ttlFor_def fun_eq_iff split: option.split)
  note start = good_call_start [OF g] and keep = withTx_consistent [OF g] and change = change_sound [OF g]
  note rec = receipts_consistent [OF c at o]
  note splits = option.splits prod.splits sum.splits if_splits txErr.splits
  show ?thesis
  proof (cases cl)
    case (CallAck i tok res)
    then show ?thesis using step change [OF sound_plain [OF rec(1)]] by (auto simp: srv_Ack_def split: prod.splits)
  next
    case (CallCancel i)
    then show ?thesis using step change [OF sound_plain [OF rec(2)]] by (auto simp: srv_Cancel_def split: prod.splits)
  next
    case (CallFinishCanceled i tok)
    then show ?thesis using step change [OF sound_plain [OF rec(3)]] by (auto simp: srv_FinishCanceled_def split: prod.splits)
  next
    case (CallRequeue i tok)
    then show ?thesis using step change [OF sound_plain [OF rec(4)]] by (auto simp: srv_Requeue_def split: prod.splits)
  next
    case (CallFail i tok msg kind retryAt)
    have "sound env (fail_body (ThrottledMax (v_opts s)) i tok msg kind) retryAt (v_db s)"
      using rec(5) fail_body_captured [OF _ at] ok CallFail by (intro soundI) (fastforce simp: fail_body_def Let_def dest!: map_sum_Inr)
    then show ?thesis using step CallFail change by (auto simp: srv_Fail_def split: prod.splits)
  next
    case (CallHeartbeat i tok)
    have "sound env (plain_body (\<lambda>a. heartbeat_tx (srv_ttlFor s) (at_now a) i tok)) () (v_db s)"
      using rec(6) [folded ttl] by (intro sound_plain)
    then show ?thesis using step start CallHeartbeat by (auto simp: srv_Heartbeat_def split: splits dest: keep)
  next
    case (CallEnqueue t)
    have "sound env (\<lambda>a c d. ((), srv_enqueue_tx (v_dialect s) viol t a d)) () (v_db s)" if "ReplayOf t = ''''"
      using inserts_consistent(1) [OF c at _ that] ok CallEnqueue by (intro soundI) (auto simp del: db_before.simps)
    then show ?thesis using step start CallEnqueue by (auto simp: srv_Enqueue_def srv_wakeAll_def split: splits dest: keep)
  next
    case (CallReplay req)
    have "sound env (\<lambda>a c d. ((), srv_replay_tx (v_dialect s) viol req a d)) () (v_db s)"
      if "(rq_ExecutionID req = '''') \<noteq> (rq_BusinessKey req = '''')"
      using inserts_consistent(2) [OF c at that] by (intro soundI) (auto simp del: db_before.simps)
    then show ?thesis using step start CallReplay by (auto simp: srv_Replay_def srv_wakeAll_def split: splits dest: keep)
  next
    case CallReapExpired
    have "sound env (plain_body (srv_reap_tx (LeaseLostMax (v_opts s)))) () (v_db s)"
      using reap_consistent [OF c clk] by (intro sound_plain) (auto simp del: db_before.simps)
    then show ?thesis using step start CallReapExpired by (auto simp: srv_ReapExpired_def srv_wakeAll_def split: splits dest: keep)
  next
    case (CallDequeue qs)
    have "sound env (plain_body (srv_claim_tx (srv_ttlFor s) (e_ulid e) (e_now e) qs)) () (v_db s)"
      using claim_consistent [OF c o e, folded ttl] by (intro sound_plain) (auto simp del: db_before.simps)
    then show ?thesis using step start CallDequeue
      by (auto simp: srv_Dequeue_turn_def srv_tryClaim_def Let_def split: splits dest: keep)
  qed (use step start in auto)
qed

lemma quota_keeps:
  shows "srv_Reserve io io1 io2 secs g s = (s', q) \<Longrightarrow> t_tasks (v_db s') = t_tasks (v_db s) \<and> t_deps (v_db s') = t_deps (v_db s)"
    and "srv_Release io g w s = (s', u) \<Longrightarrow> t_tasks (v_db s') = t_tasks (v_db s) \<and> t_deps (v_db s') = t_deps (v_db s)"
proof -
  show "t_tasks (v_db s') = t_tasks (v_db s) \<and> t_deps (v_db s') = t_deps (v_db s)" if "srv_Reserve io io1 io2 secs g s = (s', q)"
    using that by (auto simp: srv_Reserve_def pg_reserveSQL_def mysql_upsertSQL_def quotaCleanSQL_def Let_def
        split: option.splits if_splits)
  show "t_tasks (v_db s') = t_tasks (v_db s) \<and> t_deps (v_db s') = t_deps (v_db s)" if "srv_Release io g w s = (s', u)"
    using that by (auto simp: srv_Release_def split: option.splits if_splits)
qed

lemma consistent_tables:
  assumes "consistent d" "t_tasks d' = t_tasks d" "t_deps d' = t_deps d"
  shows "consistent d'"
  using assms refined_process [of _ _ "proc o0 d'" for o0] consistentI [of "proc o0 d'" for o0] unfolding consistent_def
  by (metis proc_fields(2))

lemma vstep_consistent: "vstep d d' \<Longrightarrow> consistent d \<Longrightarrow> consistent d'"
proof (induction rule: vstep.induct)
  case (call env s e c viol late io s' ns a)
  have "consistent (db_before env k (v_db s))" for k
  proof (induction k)
    case (Suc k)
    from call.IH(1) [of k] Suc show ?case by (induction rule: rtranclp_induct) auto
  qed (simp add: call.prems)
  then have "good_call env s" using call.hyps(1) by (simp add: good_call_def)
  from perform_consistent [OF this call.hyps(2-5)] show ?case .
next
  case (reserve io io1 io2 secs g s s' q)
  then show ?case using quota_keeps(1) [OF reserve.hyps] consistent_tables by metis
next
  case (release io g q s s' u)
  then show ?case using quota_keeps(2) [OF release.hyps] consistent_tables by metis
qed

lemma vreach_consistent: "vstep\<^sup>*\<^sup>* sq_empty d \<Longrightarrow> consistent d"
proof (induction rule: rtranclp_induct)
  case base
  then show ?case using consistentI [OF open_refined] by (simp add: sq_Open_def)
qed (rule vstep_consistent)

end
