(* ===== verification/Sql_Lease.thy ===== *)
theory Sql_Lease
  imports Sql_Tables Sqlite_Lease
begin

text \<open>
  The contracts of the broker interface for the server back end: the lease laws the scheduler relies on, from those of
  the sqlite back end, and the quota contract for the statements of both dialects.
\<close>

section \<open>Leases\<close>

definition srv_usable :: "srvbroker \<Rightarrow> bool" where
  "srv_usable s \<longleftrightarrow> srv_requireInit s = None \<and> 0 < MaxTxRetry (v_cfg s)"

definition srv_held :: "srvbroker \<Rightarrow> id \<Rightarrow> string \<Rightarrow> bool" where
  "srv_held s = sq_held (core s)"

text \<open>A call that fails on a calm database leaves the process as it was.\<close>

lemma receipts_failed:
  assumes m: "0 < MaxTxRetry (v_cfg s)"
  shows "srv_Ack (clean e) i tok res s = (s', ns, Inl er) \<Longrightarrow> s' = s"
    and "srv_FinishCanceled (clean e) i tok s = (s', ns, Inl er) \<Longrightarrow> s' = s"
    and "srv_Requeue (clean e) i tok s = (s', ns, Inl er) \<Longrightarrow> s' = s"
    and "srv_Fail (clean e) i tok msg kind retryAt s = (s', ns, Inl er) \<Longrightarrow> s' = s"
    and "srv_Heartbeat (clean e) i tok s = (s', ns, Inl er) \<Longrightarrow> \<not> srv_held s i tok \<Longrightarrow> s' = s"
proof -
  note plain = plain_calm [OF clean_calm m]
  have change: "s' = s" if "srv_change (clean e) (plain_body fn) () s = (s', ns, Inl er)" for fn
    using that by (auto simp: srv_change_def plain split: option.splits sum.splits)
  show "srv_Ack (clean e) i tok res s = (s', ns, Inl er) \<Longrightarrow> s' = s"
    "srv_FinishCanceled (clean e) i tok s = (s', ns, Inl er) \<Longrightarrow> s' = s"
    "srv_Requeue (clean e) i tok s = (s', ns, Inl er) \<Longrightarrow> s' = s"
    unfolding srv_Ack_def srv_FinishCanceled_def srv_Requeue_def by (rule change, assumption)+
  show "s' = s" if "srv_Fail (clean e) i tok msg kind retryAt s = (s', ns, Inl er)"
  proof -
    have "srv_withTx (clean e) (fail_body (ThrottledMax (v_opts s)) i tok msg kind) retryAt s =
        (case fail_tx (ThrottledMax (v_opts s)) (e_now e) i tok msg kind retryAt (v_db s) of
           Inl e \<Rightarrow> (s, Inl (OpErr e)) | Inr (d, x) \<Rightarrow> (s\<lparr>v_db := d\<rparr>, Inr x))"
      by (subst withTx_calm [OF clean_calm m])
        (auto simp: fail_body_def Let_def intro: contract_error_final split: sum.splits prod.splits)
    then show ?thesis using that by (auto simp: srv_Fail_def srv_change_def split: option.splits sum.splits)
  qed
  show "s' = s" if step: "srv_Heartbeat (clean e) i tok s = (s', ns, Inl er)" and free: "\<not> srv_held s i tok"
  proof -
    obtain er' where "getRec (v_db s) i = Inl er' \<or> (\<exists>r. getRec (v_db s) i = Inr r \<and> checkLeaseRec r tok = Some er')"
      using sq_unheld [OF free [unfolded srv_held_def], unfolded core_fields] by blast
    then have "heartbeat_tx (srv_ttlFor s) (e_now e) i tok (v_db s) = Inl er'" by (auto simp: heartbeat_tx_def)
    then show ?thesis using step by (auto simp: srv_Heartbeat_def plain split: option.splits)
  qed
qed

lemma srv_receipts:
  assumes u: "srv_usable s"
  shows "srv_Ack (clean e) i tok res s = (s', ns, r) \<Longrightarrow>
      if srv_held s i tok then err_of r = None \<and> \<not> srv_held s' i tok else s' = s \<and> err_of r \<noteq> None"
    and "srv_FinishCanceled (clean e) i tok s = (s', ns, r) \<Longrightarrow>
      if srv_held s i tok then err_of r = None \<and> \<not> srv_held s' i tok else s' = s \<and> err_of r \<noteq> None"
    and "srv_Requeue (clean e) i tok s = (s', ns, r) \<Longrightarrow>
      if srv_held s i tok then err_of r = None \<and> \<not> srv_held s' i tok else s' = s \<and> err_of r \<noteq> None"
    and "srv_Fail (clean e) i tok msg kind retryAt s = (s', ns, r) \<Longrightarrow>
      if srv_held s i tok then (\<forall>n. kind \<noteq> FailOther n) \<longrightarrow> err_of r = None \<and> \<not> srv_held s' i tok
      else s' = s \<and> err_of r \<noteq> None"
    and "srv_Heartbeat (clean e) i tok s = (s', ns, r) \<Longrightarrow>
      if srv_held s i tok then srv_held s' i tok \<and> (err_of r = None \<or> err_of r = Some (ErrTaskCanceled i))
      else s' = s \<and> (err_of r = Some (ErrLeaseLost i) \<or> err_of r = Some (ErrTaskNotFound i))"
proof -
  have u': "sq_usable (core s)" and m: "0 < MaxTxRetry (v_cfg s)" using u by (simp_all add: srv_usable_def sq_usable_def)
  note same = receipts_calm [OF clean_calm [of e] m, unfolded clean_fields]
  note failed = receipts_failed [OF m, of e]
  show "if srv_held s i tok then err_of r = None \<and> \<not> srv_held s' i tok else s' = s \<and> err_of r \<noteq> None"
    if step: "srv_Ack (clean e) i tok res s = (s', ns, r)"
    using sq_receipts(1) [OF u', of "e_now e" i tok res "core s'" ns r] same(1) [of i tok res] step failed(1) [of i tok res s' ns]
    by (cases r) (auto simp: srv_held_def err_of_def split: if_splits)
  show "if srv_held s i tok then err_of r = None \<and> \<not> srv_held s' i tok else s' = s \<and> err_of r \<noteq> None"
    if step: "srv_FinishCanceled (clean e) i tok s = (s', ns, r)"
    using sq_receipts(2) [OF u', of "e_now e" i tok "core s'" ns r] same(3) [of i tok] step failed(2) [of i tok s' ns]
    by (cases r) (auto simp: srv_held_def err_of_def split: if_splits)
  show "if srv_held s i tok then err_of r = None \<and> \<not> srv_held s' i tok else s' = s \<and> err_of r \<noteq> None"
    if step: "srv_Requeue (clean e) i tok s = (s', ns, r)"
    using sq_receipts(3) [OF u', of i tok "core s'" ns r] same(4) [of i tok] step failed(3) [of i tok s' ns]
    by (cases r) (auto simp: srv_held_def err_of_def split: if_splits)
  show "if srv_held s i tok then (\<forall>n. kind \<noteq> FailOther n) \<longrightarrow> err_of r = None \<and> \<not> srv_held s' i tok
      else s' = s \<and> err_of r \<noteq> None"
    if step: "srv_Fail (clean e) i tok msg kind retryAt s = (s', ns, r)"
    using sq_receipts(4) [OF u', of "e_now e" i tok msg kind retryAt "core s'" ns r] same(5) [of i tok msg kind retryAt] step
      failed(4) [of i tok msg kind retryAt s' ns]
    by (cases r) (auto simp: srv_held_def err_of_def split: if_splits)
  show "if srv_held s i tok then srv_held s' i tok \<and> (err_of r = None \<or> err_of r = Some (ErrTaskCanceled i))
      else s' = s \<and> (err_of r = Some (ErrLeaseLost i) \<or> err_of r = Some (ErrTaskNotFound i))"
    if step: "srv_Heartbeat (clean e) i tok s = (s', ns, r)"
    using sq_heartbeat [OF u', of "e_now e" i tok "core s'" ns r] same(6) [of i tok] step failed(5) [of i tok s' ns]
    by (cases r) (auto simp: srv_held_def err_of_def split: if_splits)
qed

lemma srv_claim:
  assumes step: "srv_Dequeue_turn ctx (clean e) ctx2 token clk clk2 qs s = (s', ns, Claimed t)" and tok: "token \<noteq> ''''"
    and m: "0 < MaxTxRetry (v_cfg s)"
  shows "srv_held s' (ID t) (LeaseToken t) \<and> LeaseToken t = token \<and> Queue t \<in> set qs"
proof -
  obtain z where c: "srv_tryClaim (clean e) token clk qs s = (s', Inr (Some t, z))"
    using step by (auto simp: srv_Dequeue_turn_def Let_def split: if_splits option.splits prod.splits sum.splits)
  then obtain d where tx: "srv_claim_tx (srv_ttlFor s) token clk qs (clean e 0) (v_db s) = Inr (d, Some t, z)" "v_db s' = d"
    by (auto simp: srv_tryClaim_def plain_calm [OF clean_calm m] split: sum.splits)
  then obtain i where i: "first_unlocked [] qs (unixMilli clk) (v_db s) = Some i"
    by (auto simp: srv_claim_tx_def Let_def split: option.splits)
  then obtain x where x: "fmlookup (t_tasks (v_db s)) i = Some x" "c_queue x \<in> set qs"
    using first_unlocked_Some [OF i] by (auto simp: waiting_row_def)
  then have "sq_held ((core s)\<lparr>sp_db := d\<rparr>) (ID t) (LeaseToken t) \<and> LeaseToken t = token \<and> Queue t \<in> set qs"
    using tx(1) i tok by (auto simp: srv_claim_tx_def Let_def update_row_def row_of_def sq_held_iff scanRec_def split: if_splits)
  then show ?thesis using tx(2) by (auto simp: srv_held_def sq_held_def)
qed

interpretation vb: lease_broker "sql_broker viol ref" srv_usable srv_held for viol ref
proof unfold_locales
  fix s e i token res s' er
  assume u: "srv_usable s"
  note defs = sql_broker_def Let_def
  show "if srv_held s i token then er = None \<and> \<not> srv_held s' i token else s' = s \<and> er \<noteq> None"
    if "op_Ack (sql_broker viol ref) e i token res s = (s', er)"
    using that srv_receipts(1) [OF u] by (fastforce simp: defs split: prod.splits)
  show "if srv_held s i token then (\<forall>n. kind \<noteq> FailOther n) \<longrightarrow> er = None \<and> \<not> srv_held s' i token else s' = s \<and> er \<noteq> None"
    if "op_Fail (sql_broker viol ref) e i token msg kind retryAt s = (s', er)" for msg kind retryAt
    using that srv_receipts(4) [OF u] by (fastforce simp: defs split: prod.splits)
  show "if srv_held s i token then er = None \<and> \<not> srv_held s' i token else s' = s \<and> er \<noteq> None"
    if "op_FinishCanceled (sql_broker viol ref) e i token s = (s', er)"
    using that srv_receipts(2) [OF u] by (fastforce simp: defs split: prod.splits)
  show "if srv_held s i token then er = None \<and> \<not> srv_held s' i token else s' = s \<and> er \<noteq> None"
    if "op_Requeue (sql_broker viol ref) e i token s = (s', er)"
    using that srv_receipts(3) [OF u] by (fastforce simp: defs split: prod.splits)
  show "if srv_held s i token then srv_held s' i token \<and> (er = None \<or> er = Some (ErrTaskCanceled i))
       else s' = s \<and> (er = Some (ErrLeaseLost i) \<or> er = Some (ErrTaskNotFound i))"
    if "op_Heartbeat (sql_broker viol ref) e i token s = (s', er)"
    using that srv_receipts(5) [OF u] by (fastforce simp: defs split: prod.splits)
  show "srv_held s' (ID t) (LeaseToken t) \<and> LeaseToken t = e_ulid e \<and> Queue t \<in> set qs"
    if "op_Dequeue (sql_broker viol ref) e qs s = (s', Claimed t)" "e_ulid e \<noteq> ''''" for qs t
    using that u by (auto simp: defs srv_usable_def split: prod.splits dest!: srv_claim)
qed

section \<open>Quotas\<close>

definition srv_used :: "sqlQuotaGate \<Rightarrow> srvbroker \<Rightarrow> int \<Rightarrow> int" where
  "srv_used g s w = (case fmlookup (t_quota (v_db s)) (vg_key g, w) of None \<Rightarrow> 0 | Some n \<Rightarrow> n)"

definition srv_gate_of :: "string \<Rightarrow> nat \<Rightarrow> nat \<Rightarrow> nat \<Rightarrow> sqlQuotaGate" where
  "srv_gate_of key n p ref = \<lparr>vg_key = key, vg_limit = int n + 1, vg_periodSec = int p + 1, vg_ref = ref\<rparr>"

lemma srv_gate_pos [simp]: "0 < vg_limit (srv_gate_of key n p ref)" "0 < vg_periodSec (srv_gate_of key n p ref)"
  by (simp_all add: srv_gate_of_def)

lemma srv_QueueQuota_gate:
  assumes "srv_QueueQuota ref queue qc = Inr g"
  shows "\<exists>key n p. g = srv_gate_of key n p ref \<and> vg_limit g = QuotaLimit qc"
proof -
  have "g = srv_gate_of (if QuotaKey qc = '''' then queue else QuotaKey qc) (nat (QuotaLimit qc - 1))
      (nat (QuotaPeriod qc sdiv second - 1)) ref \<and> vg_limit g = QuotaLimit qc"
    using assms by (auto simp: srv_QueueQuota_def srv_gate_of_def Let_def split: if_splits)
  then show ?thesis by blast
qed

lemma srv_now_mono: "t \<le> t' \<Longrightarrow> srv_now dl t \<le> srv_now dl t'"
  by (auto simp: srv_now_def unixSec_def intro: zdiv_mono1)

lemma srv_window_mono: "t \<le> t' \<Longrightarrow> 0 < vg_periodSec g \<Longrightarrow> srv_window g (srv_now dl t) \<le> srv_window g (srv_now dl t')"
  unfolding srv_window_def by (intro mult_right_mono sdiv_mono srv_now_mono) auto

text \<open>The upsert of MySQL with its count of affected rows does what the single statement of PostgreSQL does.\<close>

lemma mysql_upsert_same:
  "pg_reserveSQL g secs d = (case mysql_upsertSQL (vg_key g) (srv_window g secs) (vg_limit g) d of
     (d', aff) \<Rightarrow> (d', if aff = 0 then None else Some (srv_window g secs)))"
proof (cases "fmlookup (t_quota d) (vg_key g, srv_window g secs)")
  case (Some used)
  then have "fmupd (vg_key g, srv_window g secs) used (t_quota d) = t_quota d" by (intro fmap_ext) auto
  then show ?thesis using Some by (simp add: pg_reserveSQL_def mysql_upsertSQL_def Let_def)
qed (simp add: pg_reserveSQL_def mysql_upsertSQL_def Let_def)

lemma srv_Reserve_cases:
  assumes "srv_Reserve io io1 io2 secs g s = (s', r)"
  shows "(\<exists>e. r = Inl e) \<and> s' = s \<or> r = Inr None \<and> pg_reserveSQL g secs (v_db s) = (v_db s', None) \<or>
    (\<exists>w d. r = Inr (Some w) \<and> pg_reserveSQL g secs (v_db s) = (d, Some w) \<and>
      v_db s' \<in> {d, quotaCleanSQL (vg_key g) (w - 2 * vg_periodSec g) d})"
  using assms
  by (auto simp: srv_Reserve_def mysql_upsert_same [of g secs] Let_def split: option.splits if_splits prod.splits)

lemma srv_Reserve_granted:
  assumes "srv_Reserve io io1 io2 secs g s = (s', Inr (Some w))" and "0 < vg_periodSec g" "0 < vg_limit g"
  shows "w = srv_window g secs \<and> srv_used g s w < vg_limit g \<and>
    (\<forall>v. srv_window g secs - 2 * vg_periodSec g \<le> v \<longrightarrow> srv_used g s' v = srv_used g s v + (if v = w then 1 else 0))"
proof -
  obtain d where d: "pg_reserveSQL g secs (v_db s) = (d, Some w)" "v_db s' \<in> {d, quotaCleanSQL (vg_key g) (w - 2 * vg_periodSec g) d}"
    using srv_Reserve_cases [OF assms(1)] by auto
  have w: "w = srv_window g secs" "srv_used g s w < vg_limit g"
    and used: "fmlookup (t_quota d) (vg_key g, v) = (if v = w then Some (srv_used g s w + 1) else fmlookup (t_quota (v_db s)) (vg_key g, v))" for v
    using d(1) assms(3) by (auto simp: pg_reserveSQL_def srv_used_def Let_def split: option.splits if_splits)
  have "fmlookup (t_quota (v_db s')) (vg_key g, v) = fmlookup (t_quota d) (vg_key g, v)" if "srv_window g secs - 2 * vg_periodSec g \<le> v" for v
    using d(2) that w(1) by (auto simp: quotaCleanSQL_def)
  then show ?thesis using w used by (simp add: srv_used_def)
qed

lemma srv_Reserve_refused:
  assumes "srv_Reserve io io1 io2 secs g s = (s', Inr None)"
  shows "vg_limit g \<le> srv_used g s (srv_window g secs) \<and> srv_used g s' v = srv_used g s v"
  using srv_Reserve_cases [OF assms] by (auto simp: pg_reserveSQL_def srv_used_def Let_def split: option.splits if_splits)

lemma srv_Reserve_failed: "srv_Reserve io io1 io2 secs g s = (s', Inl e) \<Longrightarrow> s' = s"
  by (drule srv_Reserve_cases) simp

lemma srv_Release_used:
  "srv_used g (fst (srv_Release None g (Some w) s)) v = (if v = w \<and> srv_used g s v > 0 then srv_used g s v - 1 else srv_used g s v)"
  by (auto simp: srv_Release_def srv_used_def split: option.splits)

interpretation vq: quota_gate "\<lambda>t. srv_Reserve (io t) (io1 t) (io2 t) (srv_now dl t) (srv_gate_of key n p ref)"
  "\<lambda>w s. fst (srv_Release None (srv_gate_of key n p ref) (Some w) s)" "srv_used (srv_gate_of key n p ref)"
  "\<lambda>t. srv_window (srv_gate_of key n p ref) (srv_now dl t)" "vg_limit (srv_gate_of key n p ref)" "vg_periodSec (srv_gate_of key n p ref)"
  for dl key n p ref io io1 io2
proof unfold_locales
  let ?g = "srv_gate_of key n p ref"
  let ?live = "live_window (\<lambda>t. srv_window ?g (srv_now dl t)) (vg_periodSec ?g)"
  show "w = srv_window ?g (srv_now dl t) \<and> srv_used ?g s w < vg_limit ?g \<and>
      (\<forall>v. ?live t v \<longrightarrow> srv_used ?g s' v = srv_used ?g s v + (if v = w then 1 else 0))"
    if "srv_Reserve (io t) (io1 t) (io2 t) (srv_now dl t) ?g s = (s', Inr (Some w))" for t s s' w
    using srv_Reserve_granted [OF that srv_gate_pos(2,1)] unfolding live_window_def .
  show "\<forall>v. ?live t v \<longrightarrow> srv_used ?g s' v = srv_used ?g s v"
    if "srv_Reserve (io t) (io1 t) (io2 t) (srv_now dl t) ?g s = (s', Inl e)" for t s s' e
    using srv_Reserve_failed [OF that] by simp
qed (auto simp: less_imp_le srv_window_mono srv_Release_used dest: srv_Reserve_refused)

end
