(* ===== verification/Sql_Props.thy ===== *)
theory Sql_Props
  imports Sql_Lease
begin

text \<open>What the server back end guarantees.\<close>

text \<open>
  C8: the server back end implements the broker.  Take a process on tables that are the image of a state of the in-memory
  broker.  A call that no other transaction disturbs answers what the in-memory broker answers, up to the precision of
  stored instants and the waiting time of an idle \<open>Dequeue\<close>, which is cut off at the polling interval,
  and leads to tables that are again the image of the state the in-memory broker reaches.
\<close>

theorem sql_refines_memory:
  assumes "refined (core s) b" and "env_ok e (core s)" and "call_ok c" "known_kind c" and "0 < MaxTxRetry (v_cfg s)"
    and "int (fcard (fmdom (t_tasks (v_db s)))) < 2 ^ 63"
    and "perform (sql_broker viol ref) e c s = (s', a)"
  shows "\<exists>e' b' a'. e_now e' = e_now e \<and> e_ulid e' = e_ulid e \<and> perform memory_broker e' c b = (b', a') \<and>
    refined (core s') (sort_children b') \<and> srv_answer_sim (PollInterval (v_cfg s)) (e_now e) a a'"
  by (rule sql_perform_refined [OF assms])

text \<open>
  C9: the tables on a PostgreSQL server.  Any number of processes work on them, one transaction at a time; transactions are
  retried, rows are skipped because others have locked them, unique keys are lost in a race and the answer to a commit
  may get lost.  In every row of the tables they can reach: a task that has left the blocked state
  without being cancelled has only finished parents, completed ones unless it ignores failures; the counter of a blocked
  task is the number of its unfinished parents and positive; a task carries a lease token
  exactly while it is running; and of two unfinished executions of one business key one is the other.
\<close>

theorem sql_tables_consistent:
  assumes "vstep\<^sup>*\<^sup>* sq_empty d" and "fmlookup (t_tasks d) i = Some r"
  shows "(c_status r \<noteq> StatusBlocked \<longrightarrow> c_status r \<noteq> StatusCanceled \<longrightarrow> (\<forall>q \<in> set (c_depends_on r).
      \<exists>p. fmlookup (t_tasks d) q = Some p \<and> isFinal (c_status p) \<and>
        (c_on_parent_fail r \<noteq> IgnoreParentFail \<longrightarrow> c_status p = StatusCompleted))) \<and>
    (c_status r = StatusBlocked \<longrightarrow> 0 < c_pending_parents r \<and>
      c_pending_parents r = int (card {q \<in> set (c_depends_on r). \<not> isFinal (c_status (row_of d q))})) \<and>
    (c_lease_token r \<noteq> '''') = (c_status r = StatusRunning) \<and>
    (c_business_key r \<noteq> '''' \<longrightarrow> \<not> isFinal (c_status r) \<longrightarrow> (\<forall>j r'. fmlookup (t_tasks d) j = Some r' \<longrightarrow>
      c_business_key r' = c_business_key r \<longrightarrow> \<not> isFinal (c_status r') \<longrightarrow> j = i))"
proof -
  obtain s b where s: "sp_db s = d" "refined s b" using vreach_consistent [OF assms(1)] by (auto simp: consistent_def)
  show ?thesis using refined_rows [OF s(2), unfolded s(1), OF assms(2)] .
qed

text \<open>
  C10: the retry loop is transparent.  Against a server that has rolled back what it reports as retryable, a
  transaction ends with one of its attempts, the last, run on the tables as the other transactions have
  left them: a success has committed exactly the effect of that attempt; an error has left the tables
  alone, unless it is the lost answer to a commit that took place.  The attempts before it have failed with an error the dialect
  classes as retryable, a limited one only at the first, and have left no trace but the counter of retries.
\<close>

theorem sql_retry_transparent:
  assumes "honest (v_dialect s) env" and "2 \<le> MaxTxRetry (v_cfg s)" and "srv_withTx env fn c s = (s', r)"
  shows "\<exists>n. int n < MaxTxRetry (v_cfg s) \<and>
    s' = s\<lparr>v_db := v_db s', v_retries := v_retries s + int n\<rparr> \<and>
    (let body = snd (fn (env n) (captured env fn (v_db s) n c) (db_before env (Suc n) (v_db s))) in
     case r of
       Inr x \<Rightarrow> body = Inr (v_db s', x)
     | Inl e \<Rightarrow> v_db s' = db_before env (Suc n) (v_db s) \<or>
         (\<exists>de x. at_commit (env n) = Some (de, True) \<and> e = DriverErr de \<and> body = Inr (v_db s', x))) \<and>
    (\<forall>j < n. \<exists>e. snd (run_attempt (env j) fn (captured env fn (v_db s) j c) (behind env j s)) = Inl e \<and>
       (retry_class (v_dialect s) e = RetryImmediate \<or> retry_class (v_dialect s) e = RetryLimited \<and> j = 0))"
proof -
  from withTx_last [OF assms] obtain n where n: "int n < MaxTxRetry (v_cfg s)"
    and run: "run_attempt (env n) fn (captured env fn (v_db s) n c) (behind env n s) = (s', r)"
    and before: "\<forall>j < n. retried (v_dialect s) env fn c s j j" by blast
  have db: "at_others (env n) (v_db (behind env n s)) = db_before env (Suc n) (v_db s)" by simp
  let ?body = "snd (fn (env n) (captured env fn (v_db s) n c) (db_before env (Suc n) (v_db s)))"
  have "s' = s\<lparr>v_db := v_db s', v_retries := v_retries s + int n\<rparr>"
    using run_attempt_keeps [OF run] by (simp add: behind_def)
  moreover have "case r of Inr x \<Rightarrow> ?body = Inr (v_db s', x) | Inl e \<Rightarrow> v_db s' = db_before env (Suc n) (v_db s) \<or>
      (\<exists>de x. at_commit (env n) = Some (de, True) \<and> e = DriverErr de \<and> ?body = Inr (v_db s', x))"
  proof (cases r)
    case (Inl e)
    then show ?thesis using run_attempt_error [OF run [unfolded Inl], unfolded db] by (auto simp: behind_def)
  next
    case (Inr x)
    then show ?thesis using run_attempt_ok(4) [OF run [unfolded Inr], unfolded db] by simp
  qed
  moreover have "\<forall>j < n. \<exists>e. snd (run_attempt (env j) fn (captured env fn (v_db s) j c) (behind env j s)) = Inl e \<and>
      (retry_class (v_dialect s) e = RetryImmediate \<or> retry_class (v_dialect s) e = RetryLimited \<and> j = 0)"
    using before unfolding retried_def by (metis retryClass.exhaust)
  ultimately show ?thesis using n unfolding Let_def by blast
qed

text \<open>
  Quotas on a database server.  A gate never over-issues when the whole reservation is one step, as the single statement of
  PostgreSQL is; between the two statements of MySQL other processes may work, which this history leaves out: over any history of reservations at non-decreasing instants of the server (with failing
  statements), releases and other work, that of other processes included, no window has more outstanding
  reservations than the limit, the counter of every window that is still kept is the number of its
  outstanding reservations, and a reservation is refused only when the window has handed out its whole limit.
\<close>

theorem sql_quota_never_exceeded:
  assumes "srv_QueueQuota ref queue qc = Inr g"
    and "quota_history (\<lambda>t. srv_Reserve (io t) (io1 t) (ioClean t) (srv_now dl t) g) (\<lambda>w s. fst (srv_Release None g (Some w) s))
      (srv_used g) s t out"
  shows "int (count out w) \<le> QuotaLimit qc \<and>
    (live_window (\<lambda>t. srv_window g (srv_now dl t)) (vg_periodSec g) t w \<longrightarrow> srv_used g s w = int (count out w)) \<and>
    (t \<le> t' \<longrightarrow> srv_Reserve (io t') (io1 t') (ioClean t') (srv_now dl t') g s = (s', Inr None) \<longrightarrow>
      int (count out (srv_window g (srv_now dl t'))) = QuotaLimit qc)"
proof -
  obtain key n p where g: "g = srv_gate_of key n p ref" "vg_limit g = QuotaLimit qc"
    using srv_QueueQuota_gate [OF assms(1)] by blast
  show ?thesis
    using vq.exact [of io io1 ioClean dl key n p ref s t out] vq.refusal_exact [of io io1 ioClean dl key n p ref s t out t' s'] assms(2)
    unfolding g(1) g(2) [symmetric] by blast
qed

text \<open>
  The scheduler over the server back end.  An execution that reaches its receipt while it holds the lease ends
  the lease with it, so no second receipt under the same lease can succeed; one whose lease is gone changes
  nothing in the database.  A heartbeat keeps the lease of its holder alive; on a lost lease it changes
  nothing, stops, cancels the context of the handler and marks the result as void.
\<close>

theorem sql_lease_to_receipt:
  assumes "reached (sql_broker viol ref) ext g" and "srv_usable (broker g)"
    and "fmlookup (s_workers (sched g)) p = Some w"
  shows "(w_phase w = PSend r \<longrightarrow> work_step (sql_broker viol ref) (WNext e j) p g = Some g' \<longrightarrow>
      (if srv_held (broker g) (ID (w_task w)) (LeaseToken (w_task w))
       then \<not> srv_held (broker g') (ID (w_task w)) (LeaseToken (w_task w)) else broker g' = broker g)) \<and>
    (work_step (sql_broker viol ref) (WHeartbeat e) p g = Some g' \<longrightarrow>
      (if srv_held (broker g) (ID (w_task w)) (LeaseToken (w_task w))
       then srv_held (broker g') (ID (w_task w)) (LeaseToken (w_task w))
       else broker g' = broker g \<and> (\<exists>w'. fmlookup (s_workers (sched g')) p = Some w' \<and>
         rt_leaseLost (w_rt w') \<and> rt_ctxDone (w_rt w') \<and> w_phase w' = set_heartbeat False (w_phase w))))"
  using vb.worker_lease [OF assms] .

end
