(* ===== verification/Sql_Witness.thy ===== *)
theory Sql_Witness
  imports Sql_Props Sqlite_Witness
begin

text \<open>
  Concrete processes on a database server: a first attempt that is the victim of a deadlock, tables with a task and a
  dependent one, a quota with one reservation per minute, and a cancellation that the reaper drops.
\<close>

section \<open>A server\<close>

definition srv_viol :: "constraint \<Rightarrow> driverErr" where
  "srv_viol c = PgError ''23505'' ''tasks_pkey'' ''duplicate key''"

definition deadlock :: driverErr where
  "deadlock = PgError ''40P01'' '''' ''deadlock detected''"

definition srv0 :: srvbroker where
  "srv0 = fst (srv_Init None None [] \<lparr>LeaseTTL = fmempty, DefaultLeaseTTL = 0, LeaseLostMax = 0, ThrottledMax = 0\<rparr> (pg_Open [] sq_empty))"

text \<open>The first attempt is rolled back as the victim of a deadlock, the ones after it meet nothing.\<close>

definition demo_attempts :: "env \<Rightarrow> attempts" where
  "demo_attempts e k = (clean e k)\<lparr>at_stmt := (if k = 0 then Some deadlock else None)\<rparr>"

definition srv_call :: "env \<Rightarrow> brokerCall \<Rightarrow> srvbroker \<Rightarrow> srvbroker" where
  "srv_call e c s = fst (srv_perform srv_viol e (demo_attempts e) (Inr (v_db s)) None c s)"

definition srv1 :: srvbroker where
  "srv1 = srv_call (demo_env (2 * second) ''a'' []) (CallEnqueue (demo_task [])) srv0"

definition srv2 :: srvbroker where
  "srv2 = srv_call (demo_env (3 * second) ''b'' [''a'']) (CallEnqueue (demo_task [''a''])) srv1"

lemma srv0_opts: "v_opts srv0 = sp_opts db0" "v_db srv0 = sq_empty" "MaxTxRetry (v_cfg srv0) = 5" "v_dialect srv0 = pgDialect"
  by (simp_all add: srv0_def srv_Init_def pg_Open_def srv_New_def ensureSchema_def sqlOptions_def withDefaults_def db0_opts Let_def)

lemma demo_others [simp]: "at_others (demo_attempts e k) d = d"
  by (simp add: demo_attempts_def clean_def)

lemma demo_db_before [simp]: "db_before (demo_attempts e) k d = d"
  by (induction k) simp_all

lemma demo_call_env:
  assumes "v_opts s = sp_opts db0" "2 \<le> MaxTxRetry (v_cfg s)" and e: "env_ok e (core s)"
  shows "call_env (demo_attempts e) s"
proof -
  have "ttls_ok (v_opts s)" using demo_ttl [of "proc (v_opts s) sq_empty"] assms(1) by (simp add: ttls_ok_def)
  moreover have "honest (v_dialect s) (demo_attempts e)" by (simp add: honest_def demo_attempts_def clean_def)
  moreover have "attempt_ok (demo_attempts e k) (v_db s)" for k
    using e by (simp add: attempt_ok_def env_ok_def demo_attempts_def)
  ultimately show ?thesis using assms(2) by (simp add: call_env_def)
qed

lemma demo_vstep:
  assumes "vstep\<^sup>*\<^sup>* sq_empty (v_db s)" "v_opts s = sp_opts db0" "2 \<le> MaxTxRetry (v_cfg s)" "env_ok e (core s)" "call_ok c"
    "v_dialect s = pgDialect"
  shows "vstep\<^sup>*\<^sup>* sq_empty (v_db (srv_call e c s))"
proof -
  obtain s' ns a where step: "srv_perform srv_viol e (demo_attempts e) (Inr (v_db s)) None c s = (s', ns, a)" by (metis prod.exhaust)
  have "vstep (v_db s) (v_db s')"
    by (rule vstep.call [OF demo_call_env [OF assms(2-4)] _ _ _ assms(5) step assms(6)]) (use assms(4) in \<open>auto simp: env_ok_def\<close>)
  then show ?thesis using assms(1) step by (simp add: srv_call_def)
qed

lemma srv_env0: "env_ok (demo_env (2 * second) ''a'' []) (core srv0)"
  using env0 demo_ttl [of "core srv0"]
  by (simp add: env_ok_def srv0_opts demo_env_def ttl_ok_def) (simp add: db0_def sq_Init_def sq_Open_def Let_def)

lemma srv_env1: "env_ok (demo_env (3 * second) ''b'' [''a'']) (core srv1)"
proof -
  have "after_epoch (e_now (demo_env (3 * second) ''b'' [''a'']))" "range_order [''a''] (t_tasks (v_db srv1))"
    "fmlookup (t_tasks (v_db srv1)) ''b'' = None" "v_opts srv1 = sp_opts db0" by code_simp+
  then show ?thesis using demo_ttl [of "core srv1"] by (simp add: env_ok_def demo_env_def)
qed

lemma withTx_dialect:
  assumes "honest (v_dialect s) env" "2 \<le> MaxTxRetry (v_cfg s)" "srv_withTx env fn c s = (s', r)"
  shows "v_dialect s' = v_dialect s"
  using withTx_last [OF assms] run_attempt_keeps(1) by (fastforce simp: behind_def)

lemma srv1_dialect: "v_dialect srv1 = pgDialect"
proof -
  let ?env = "demo_attempts (demo_env (2 * second) ''a'' [])"
  let ?tx = "srv_withTx ?env (\<lambda>a c d. ((), srv_enqueue_tx (v_dialect srv0) srv_viol (demo_task []) a d)) () srv0"
  have "honest (v_dialect srv0) ?env" by (simp add: honest_def demo_attempts_def clean_def)
  from withTx_dialect [OF this _ surjective_pairing [of ?tx]] have "v_dialect (fst ?tx) = pgDialect" by (simp add: srv0_opts)
  moreover obtain s' r where "?tx = (s', r)" by (cases ?tx)
  moreover have "ReplayOf (demo_task []) = ''''" by code_simp
  ultimately show ?thesis
    by (auto simp: srv1_def srv_call_def srv_Enqueue_def srv_wakeAll_def srv0_opts split: option.split sum.split txErr.split)
qed

lemma vreach1: "vstep\<^sup>*\<^sup>* sq_empty (v_db srv1)"
  unfolding srv1_def by (rule demo_vstep [OF _ _ _ srv_env0 demo_new]) (simp_all add: srv0_opts)

lemma vreach2: "vstep\<^sup>*\<^sup>* sq_empty (v_db srv2)"
proof -
  have "v_opts srv1 = sp_opts db0" "2 \<le> MaxTxRetry (v_cfg srv1)" by code_simp+
  then show ?thesis unfolding srv2_def by (rule demo_vstep [OF vreach1 _ _ srv_env1 demo_new srv1_dialect])
qed

section \<open>Witnesses\<close>

theorem sql_tables_consistent_witness:
  "v_retries srv2 = 2 \<and> (\<exists>r. fmlookup (t_tasks (v_db srv2)) ''b'' = Some r \<and> c_status r = StatusBlocked \<and>
     c_pending_parents r = int (card {q \<in> {''a''}. \<not> isFinal (c_status (row_of (v_db srv2) q))}))"
proof -
  have retries: "v_retries srv2 = 2" by code_simp
  have "fmlookup (t_tasks (v_db srv2)) ''b'' \<noteq> None" by code_simp
  then obtain r where r: "fmlookup (t_tasks (v_db srv2)) ''b'' = Some r" by blast
  have "c_status (row_of (v_db srv2) ''b'') = StatusBlocked" "c_depends_on (row_of (v_db srv2) ''b'') = [''a'']" by code_simp+
  then have "c_status r = StatusBlocked" "c_depends_on r = [''a'']" using r by (simp_all add: row_of_def)
  then show ?thesis using sql_tables_consistent [OF vreach2 r] r retries by simp
qed

theorem sql_refines_memory_witness:
  "\<exists>b e' b' a'. refined (core srv0) b \<and> perform memory_broker e' (CallEnqueue (demo_task [])) b = (b', a') \<and>
     refined (core (fst (perform (sql_broker srv_viol demo_ref) (demo_env (2 * second) ''a'' []) (CallEnqueue (demo_task [])) srv0)))
       (sort_children b')"
proof -
  obtain b where b: "refined (core srv0) b" using refined_process [OF open_refined, of "core srv0"] by (auto simp: srv0_opts sq_Open_def)
  obtain s' a where step: "perform (sql_broker srv_viol demo_ref) (demo_env (2 * second) ''a'' []) (CallEnqueue (demo_task [])) srv0 = (s', a)"
    by fastforce
  have "int (fcard (fmdom (t_tasks (v_db srv0)))) < 2 ^ 63" by (simp add: srv0_opts sq_empty_def fcard.rep_eq)
  then show ?thesis using sql_refines_memory [OF b srv_env0 demo_new _ _ _ step] b step by (auto simp: srv0_opts)
qed

theorem sql_retry_transparent_witness:
  "\<exists>s'. srv_withTx (demo_attempts (demo_env (2 * second) ''a'' [])) (plain_body (\<lambda>a d. Inr (d, True))) () srv0 = (s', Inr True) \<and>
     v_retries s' = 1 \<and> (\<exists>n. v_retries s' = v_retries srv0 + int n \<and> int n < 5 \<and> v_db s' = sq_empty)"
proof -
  let ?env = "demo_attempts (demo_env (2 * second) ''a'' [])" and ?fn = "plain_body (\<lambda>a d. Inr (d, True))"
  define s' where "s' = fst (srv_withTx ?env ?fn () srv0)"
  have "snd (srv_withTx ?env ?fn () srv0) = Inr True" "v_retries (fst (srv_withTx ?env ?fn () srv0)) = 1" by code_simp+
  then have step: "srv_withTx ?env ?fn () srv0 = (s', Inr True)" and r: "v_retries s' = 1" by (simp_all add: s'_def prod_eq_iff)
  have "honest (v_dialect srv0) ?env" by (simp add: honest_def demo_attempts_def clean_def)
  from sql_retry_transparent [OF this _ step] obtain n where "int n < 5" "s' = srv0\<lparr>v_db := v_db s', v_retries := v_retries srv0 + int n\<rparr>"
    "snd (?fn (?env n) (captured ?env ?fn (v_db srv0) n ()) (v_db srv0)) = Inr (v_db s', True)" by (auto simp: srv0_opts)
  moreover from this(3) have "v_db s' = sq_empty" by (simp add: plain_body_def srv0_opts)
  ultimately show ?thesis using step r by (metis srvbroker.select_convs(8) srvbroker.surjective srvbroker.update_convs(8))
qed

definition my0 :: srvbroker where
  "my0 = fst (srv_Init None None [] \<lparr>LeaseTTL = fmempty, DefaultLeaseTTL = 0, LeaseLostMax = 0, ThrottledMax = 0\<rparr> (mysql_Open [] sq_empty))"

definition srv_demo_gate :: sqlQuotaGate where
  "srv_demo_gate = \<lparr>vg_key = ''job'', vg_limit = 1, vg_periodSec = 60, vg_ref = 0\<rparr>"

definition my_Reserve :: "time \<Rightarrow> srvbroker \<Rightarrow> srvbroker \<times> (tg_error + int option)" where
  "my_Reserve t s = srv_Reserve None None None (srv_now mysqlDialect t) srv_demo_gate s"

theorem sql_quota_never_exceeded_witness:
  "\<exists>s w. my_Reserve second my0 = (s, Inr (Some w)) \<and> srv_used srv_demo_gate s w = 1 \<and> snd (my_Reserve (2 * second) s) = Inr None"
proof -
  define s where "s = fst (my_Reserve second my0)"
  have g: "srv_QueueQuota 0 ''job'' demo_quota = Inr srv_demo_gate" by code_simp
  have "snd (my_Reserve second my0) = Inr (Some 0)" by code_simp
  then have r: "my_Reserve second my0 = (s, Inr (Some 0))" by (simp add: s_def prod_eq_iff)
  have refused: "snd (my_Reserve (2 * second) s) = Inr None" unfolding s_def by code_simp
  let ?hist = "quota_history (\<lambda>t. srv_Reserve None None None (srv_now mysqlDialect t) srv_demo_gate)
      (\<lambda>w s. fst (srv_Release None srv_demo_gate (Some w) s)) (srv_used srv_demo_gate)"
  have "srv_used srv_demo_gate my0 w = 0" for w
    by (simp add: srv_used_def my0_def srv_Init_def mysql_Open_def srv_New_def ensureSchema_def sq_empty_def Let_def)
  then have "?hist my0 0 {#}" by (rule quota_history.start)
  from quota_history.granted [OF this, of second s 0] r have h: "?hist s second (add_mset 0 {#})" by (simp add: my_Reserve_def)
  have "live_window (\<lambda>t. srv_window srv_demo_gate (srv_now mysqlDialect t)) (vg_periodSec srv_demo_gate) second 0" by code_simp
  then have "srv_used srv_demo_gate s 0 = 1"
    using sql_quota_never_exceeded [OF g, where io = "\<lambda>_. None" and ?io1.0 = "\<lambda>_. None" and ioClean = "\<lambda>_. None", OF h, of 0] by simp
  then show ?thesis using r refused by blast
qed

section \<open>A dropped cancellation\<close>

text \<open>
  The reaper of the server back end looks for cancelled tasks first and for all expired ones then.  While it does the first, the
  row is locked by the transaction of \<open>Cancel\<close>; when it does the second, that transaction has been
  committed, and the task, although flagged, goes back to pending without its flag: the requested
  cancellation is lost and the task will be executed again.
\<close>

definition cancel_race :: attempt where
  "cancel_race = (clean (demo_env (100 * second) ''x'' [''a'']) 0)\<lparr>at_locked := [''a'']\<rparr>"

definition flagged_db :: sdb where
  "flagged_db = update_row ''a'' (\<lambda>r. r\<lparr>c_status := StatusRunning, c_lease_token := ''t'', c_lease_until := 5000, c_cancel_requested := 1\<rparr>)
     (v_db srv1)"

lemma reaper_drops_cancel:
  "case srv_reap_tx 3 cancel_race flagged_db of
     Inr (d, n, _) \<Rightarrow> n = 1 \<and> c_status (row_of d ''a'') = StatusPending \<and> c_cancel_requested (row_of d ''a'') = 0
   | Inl _ \<Rightarrow> False"
  by code_simp

lemma reaper_keeps_cancel:
  "case srv_reap_tx 3 (cancel_race\<lparr>at_locked := []\<rparr>) flagged_db of
     Inr (d, n, _) \<Rightarrow> n = 1 \<and> c_status (row_of d ''a'') = StatusCanceled
   | Inl _ \<Rightarrow> False"
  by code_simp

end
