(* ===== verification/Sql_Snapshot.thy ===== *)
theory Sql_Snapshot
  imports Sql_Witness
begin

text \<open>
  What the plain reads of a transaction see.  The other theories on the server back end let every statement of a
  transaction read the current tables, which is what PostgreSQL does at READ COMMITTED.  MySQL does
  so for its locking reads and updates only; a plain \<open>SELECT\<close> sees the snapshot the first one of the transaction has taken, with the
  transaction's own changes.  Here the two plain reads whose results decide what is written, \<open>childrenOf\<close>
  in \<open>propagate.go\<close> and the statuses of the parents in the repair of \<open>ReapExpired\<close>, go through a \<open>view\<close>
  of the current tables.  With the view of PostgreSQL the operations are those of \<open>Sql_Broker\<close>; with
  the one of MySQL the repair destroys a counter that was right.
\<close>

section \<open>Views\<close>

definition readCommitted :: "sdb \<Rightarrow> sdb" where
  "readCommitted d = d"

text \<open>
  \<open>snap\<close> are the tables when the snapshot was taken, \<open>base\<close> what the other transactions have made of them, without the changes of
  this one; \<open>d\<close> has both.
\<close>

definition repeatableRead :: "sdb \<Rightarrow> sdb \<Rightarrow> sdb \<Rightarrow> sdb" where
  "repeatableRead snap base d = d\<lparr>
     t_tasks := fmfilter (\<lambda>i. fmlookup (t_tasks d) i \<noteq> fmlookup (t_tasks base) i) (t_tasks d) ++\<^sub>f
       fmfilter (\<lambda>i. fmlookup (t_tasks d) i = fmlookup (t_tasks base) i) (t_tasks snap),
     t_deps := filter (\<lambda>e. e \<in> set (t_deps snap) \<or> e \<notin> set (t_deps base)) (t_deps d)\<rparr>"

section \<open>Operations over a view\<close>

definition srv_propagate_rows ::
  "(sdb \<Rightarrow> sdb) \<Rightarrow> time \<Rightarrow> id \<Rightarrow> status \<Rightarrow> sdb \<times> task list \<times> (id \<times> status) list \<Rightarrow>
   sdb \<times> task list \<times> (id \<times> status) list" where
  "srv_propagate_rows view now p pst st =
     (case st of (d, notifs, work) \<Rightarrow>
        let d1 = mark_done p d
        in fold (propagate_row now p pst) (childrenOf (view d1) p) (d1, notifs, work))"

lemma propagate_fold_measure:
  assumes "fold (propagate_row now p pst) cs (d, ns, work) = (d', ns', work')"
  shows "open_rows d' + length work' \<le> open_rows d + length work"
  using assms
proof (induction cs arbitrary: d ns work)
  case (Cons c cs)
  obtain d1 ns1 work1 where one: "propagate_row now p pst c (d, ns, work) = (d1, ns1, work1)"
    by (cases "propagate_row now p pst c (d, ns, work)")
  show ?case using Cons.IH [of d1 ns1 work1] Cons.prems propagate_row_measure [OF one] one by simp
qed simp

lemma srv_propagate_rows_measure:
  "srv_propagate_rows view now p pst (d, ns, work) = (d', ns', work') \<Longrightarrow> open_rows d' + length work' \<le> open_rows d + length work"
  by (auto simp: srv_propagate_rows_def Let_def mark_done_def dest!: propagate_fold_measure)

function srv_propagateTx_loop ::
  "(sdb \<Rightarrow> sdb) \<Rightarrow> time \<Rightarrow> (id \<times> status) list \<Rightarrow> sdb \<Rightarrow> task list \<Rightarrow> sdb \<times> task list" where
  "srv_propagateTx_loop view now [] d notifs = (d, notifs)"
| "srv_propagateTx_loop view now ((p, pst) # work) d notifs =
     (case srv_propagate_rows view now p pst (d, notifs, work) of
        (d', notifs', work') \<Rightarrow> srv_propagateTx_loop view now work' d' notifs')"
  by pat_completeness auto
termination
  by (relation "measure (\<lambda>(view, now, work, d, notifs). open_rows d + length work)")
    (auto dest!: srv_propagate_rows_measure [OF sym])

definition srv_propagateTx :: "(sdb \<Rightarrow> sdb) \<Rightarrow> id \<Rightarrow> status \<Rightarrow> time \<Rightarrow> sdb \<Rightarrow> task list \<Rightarrow> sdb \<times> task list" where
  "srv_propagateTx view i st now d notifs = srv_propagateTx_loop view now [(i, st)] d notifs"

text \<open>The row of the blocked task is read under a lock and is current; the statuses of its parents are those of the view.\<close>

definition srv_repair :: "(sdb \<Rightarrow> sdb) \<Rightarrow> time \<Rightarrow> id \<Rightarrow> sdb \<times> task list \<Rightarrow> sdb \<times> task list" where
  "srv_repair view now i st =
     (case st of (d, ns) \<Rightarrow>
      (case getRec d i of
         Inl _ \<Rightarrow> st
       | Inr r \<Rightarrow>
           if Status (sr_task r) \<noteq> StatusBlocked then st
           else if \<exists>q \<in> set (DependsOn (sr_task r)). fmlookup (t_tasks (view d)) q = None then st
           else
             let parents = map (\<lambda>q. \<lparr>ps_ID = q, ps_Status = c_status (row_of (view d) q)\<rparr>) (DependsOn (sr_task r));
                 dec = DecideOnSubmit parents (OnParentFailure (sr_task r))
             in (case d_Status dec of
                   StatusPending \<Rightarrow>
                     if \<not> canTransition (Status (sr_task r)) StatusPending then st
                     else (update_row i (\<lambda>x. x\<lparr>c_status := StatusPending, c_pending_parents := 0\<rparr>) d,
                           ns @ [(sr_task r)\<lparr>Status := StatusPending\<rparr>])
                 | StatusCanceled \<Rightarrow>
                     if \<not> canTransition (Status (sr_task r)) StatusCanceled then st
                     else srv_propagateTx view i StatusCanceled now
                            (update_row i (\<lambda>x. x\<lparr>c_status := StatusCanceled, c_last_error := d_LastError dec,
                               c_finished_at := unixMilli now, c_lease_token := '''', c_lease_until := 0\<rparr>) d)
                            (ns @ [(sr_task r)\<lparr>Status := StatusCanceled, LastError := d_LastError dec, FinishedAt := now\<rparr>])
                 | _ \<Rightarrow> (update_row i (\<lambda>x. x\<lparr>c_pending_parents := d_PendingParents dec\<rparr>) d, ns))))"

section \<open>The view of PostgreSQL\<close>

lemma propagate_current: "srv_propagateTx_loop readCommitted now work d ns = propagateTx_loop now work d ns"
proof (induction now work d ns rule: propagateTx_loop.induct)
  case (2 now p pst work d ns)
  then show ?case by (auto simp: srv_propagate_rows_def propagate_rows_def readCommitted_def Let_def split: prod.split)
qed simp

text \<open>On PostgreSQL the operations over a view are the ones the other theories use.\<close>

lemma repair_current:
  "srv_propagateTx readCommitted i st now d ns = propagateTx i st now d ns"
  "srv_repair readCommitted now i tab = sq_repair now i tab"
proof -
  show p: "srv_propagateTx readCommitted i st now d ns = propagateTx i st now d ns" for i st d ns
    by (simp only: srv_propagateTx_def propagateTx_def propagate_current)
  show "srv_repair readCommitted now i tab = sq_repair now i tab"
    unfolding srv_repair_def sq_repair_def p by (simp only: readCommitted_def)
qed

section \<open>The view of MySQL\<close>

text \<open>Three tasks on a MySQL server, the last waiting for the other two; then the first is claimed and completed.\<close>

definition my_init :: srvbroker where
  "my_init = fst (srv_Init None None [] \<lparr>LeaseTTL = fmempty, DefaultLeaseTTL = 0, LeaseLostMax = 0, ThrottledMax = 0\<rparr> (mysql_Open [] sq_empty))"

definition my_call :: "env \<Rightarrow> brokerCall \<Rightarrow> srvbroker \<Rightarrow> srvbroker" where
  "my_call e c s = fst (srv_perform srv_viol e (clean e) (Inr (v_db s)) None c s)"

definition my_task :: "id list \<Rightarrow> task" where
  "my_task ds = (demo_task ds)\<lparr>BusinessKey := ''''\<rparr>"

definition my_claimed :: srvbroker where
  "my_claimed =
     (let s1 = my_call (demo_env (2 * second) ''a'' []) (CallEnqueue (my_task [])) my_init;
          s2 = my_call (demo_env (3 * second) ''b'' []) (CallEnqueue (my_task [])) s1;
          s3 = my_call (demo_env (4 * second) ''c'' []) (CallEnqueue (my_task [''a'', ''b''])) s2
      in my_call (demo_env (5 * second) ''t'' []) (CallDequeue [''job'']) s3)"

definition my_ack :: "srvbroker \<Rightarrow> srvbroker" where
  "my_ack s = my_call (demo_env (6 * second) ''x'' []) (CallAck ''a'' ''t'' None) s"

text \<open>The claim and the completion of \<open>b\<close>.\<close>

definition my_finish :: "srvbroker \<Rightarrow> srvbroker" where
  "my_finish s = my_call (demo_env (8 * second) ''x'' []) (CallAck ''b'' ''u'' None)
     (my_call (demo_env (7 * second) ''u'' []) (CallDequeue [''job'']) s)"

definition waiting :: "sdb \<Rightarrow> status list \<times> int" where
  "waiting d = (map (\<lambda>i. c_status (row_of d i)) [''a'', ''b'', ''c''], c_pending_parents (row_of d ''c''))"

text \<open>
  The repair on MySQL.  \<open>a\<close> is completed by \<open>my_ack\<close>; a concurrent repair of \<open>c\<close> took its snapshot before and
  writes the old number of unfinished parents again.  When \<open>b\<close> completes as well, \<open>c\<close> is left blocked with a counter of one
  although both its parents are completed, until some later repair with a newer snapshot.  The repair of PostgreSQL changes nothing.
\<close>

definition stale_repair :: "srvbroker \<Rightarrow> (status list \<times> int) list" where
  "stale_repair s =
     (let s1 = my_ack s;
          d1 = v_db s1;
          d2 = fst (srv_repair (repeatableRead (v_db s) d1) (6 * second) ''c'' (d1, []));
          d2' = fst (srv_repair readCommitted (6 * second) ''c'' (d1, []));
          s3 = my_finish (s1\<lparr>v_db := d2\<rparr>)
      in [waiting d1, waiting d2, waiting d2', waiting (v_db s3)])"

theorem repair_stale_snapshot:
  "stale_repair my_claimed =
     [([StatusCompleted, StatusPending, StatusBlocked], 1),
      ([StatusCompleted, StatusPending, StatusBlocked], 2),
      ([StatusCompleted, StatusPending, StatusBlocked], 1),
      ([StatusCompleted, StatusCompleted, StatusBlocked], 1)]"
  by code_simp

end
