(* ===== verification/Spec2Isabelle.thy ===== *)
theory Spec2Isabelle
  imports Runtime_Witness Sqlite_Witness Sql_Snapshot
begin

text \<open>
  A verification library for taskgate, a Go library for running tasks with leases, retries,
  dependencies, rate limits and quotas on exchangeable storage back ends.

  \<^bold>\<open>The program.\<close>  A \<open>Gate\<close> (\<open>client.go\<close>) is the front door: it validates a configuration (\<open>taskgate.go\<close>),
  accepts tasks and passes them to a \<open>Broker\<close> (\<open>broker.go\<close>), which stores them.  The scheduler
  (\<open>scheduler.go\<close>) runs one claim loop per queue: it takes a slot of the limiter (\<open>limiter.go\<close>) and, if the
  queue has one, a reservation of the quota, claims a due task under a lease, and starts a worker that
  executes the handler, renews the lease by heartbeats and ends it by one receipt: \<open>Ack\<close>, \<open>Fail\<close>
  (rescheduled with the back-off of \<open>backoff.go\<close>), \<open>FinishCanceled\<close> or \<open>Requeue\<close>.  A reaper takes back
  expired leases.  When a task ends, the broker tells its children (\<open>deps.go\<close>): they become pending, or
  are cancelled in turn.  The back ends modelled are the in-memory broker (\<open>memorybroker/broker.go\<close>), the
  sqlite broker (\<open>sqlitebroker/\<close>) and the broker for database servers (\<open>internal/sqlbroker/\<close>) with its dialects
  \<open>pgbroker/\<close> and \<open>mysqlbroker/\<close>.

  \<^bold>\<open>Theories.\<close>

  \<^item> \<open>Prelude\<close>: times as integers of nanoseconds, truncation, map orders, shared list and map lemmas.
  \<^item> \<open>Task_Model\<close>: the task record, its status machine (\<open>legalTransitions\<close>, \<open>canTransition\<close>), the errors.
  \<^item> \<open>Deps\<close>: \<open>DecideOnSubmit\<close> and \<open>DecideOnParentFinal\<close>.
  \<^item> \<open>Memory_Broker\<close>: the in-memory broker as a record, one function per method; the propagation loop with its
    termination proof.  \<open>Memory_Graph\<close>, \<open>Memory_Inv\<close>, \<open>Memory_Insert\<close>: the invariant \<open>minv\<close> (dependency graph,
    counters, leases, chains of executions) and that every operation keeps it.  \<open>Memory_System\<close>: the
    broker as a transition system over all calls of all clients, with the safety, liveness and notification
    theorems.  \<open>Memory_Ops\<close>: what each operation does, on every branch.
  \<^item> \<open>Quota\<close>, \<open>Memory_Quota\<close>: the quota contract as a locale, and its in-memory provider.
  \<^item> \<open>Config\<close>, \<open>Backoff\<close>, \<open>Limiter\<close>, \<open>Go_Errors\<close>: configuration and submit options, back-off, limiter, and
    chains of wrapped errors.
  \<^item> \<open>Broker_Interface\<close>: Go's interface type \<open>Broker\<close> as a record of functions, and the lease laws the scheduler
    relies on as the locale \<open>lease_broker\<close>, interpreted on all back ends.  \<open>Broker_Calls\<close>: its calls as data.
  \<^item> \<open>Gate\<close>, \<open>Gate_Props\<close>: the methods of the gate over any broker.
  \<^item> \<open>Runtime\<close>, \<open>Runtime_Inv\<close>, \<open>Runtime_Props\<close>: the scheduler as interleaved steps of claim loops, workers,
    heartbeats, reaper, shutdown and other processes, with its invariant and theorems.
  \<^item> \<open>Sqlite_Broker\<close>: the tables, the SQL statements as functions on them, transactions, and every
    operation of the sqlite back end.  \<open>Sqlite_Refine\<close>, \<open>Sqlite_Insert\<close>, \<open>Sqlite_Reap\<close>, \<open>Sqlite_Query\<close>: each
    operation simulates the in-memory broker on the records the tables stand for.  \<open>Sqlite_System\<close>: the
    refinement theorem over all calls, the reachable databases of any number of processes, and
    all-or-nothing.  \<open>Sqlite_Lease\<close>: the lease and quota contracts.
  \<^item> \<open>Sql_Dialect\<close>: the dialects, that is, the classification of driver errors, placeholders and options.  \<open>Sql_Broker\<close>: the
    operations of the server back end, with its retry loop.  \<open>Sql_Retry\<close>: one call amounts to one attempt.  \<open>Sql_Refine\<close>,
    \<open>Sql_Reap\<close>, \<open>Sql_System\<close>: undisturbed calls simulate the in-memory broker, most of them by being those of the
    sqlite back end.  \<open>Sql_Tables\<close>: the tables that any number of disturbed processes produce.  \<open>Sql_Lease\<close>,
    \<open>Sql_Props\<close>: the lease and quota contracts, and the theorems.
  \<^item> \<open>Memory_Witness\<close>, \<open>Runtime_Witness\<close>, \<open>Sqlite_Witness\<close>, \<open>Sql_Witness\<close>: concrete runs that instantiate the theorems.

  \<^bold>\<open>State and steps.\<close>  A method that holds the lock of the in-memory broker for its whole body is one step;
  so is a transaction of sqlite, which runs under the write lock of the file, and an attempt at a
  transaction of a database server, whose row locks last until the end; what the locks do not cover (rows another
  transaction holds, unique keys taken since they were looked up, the answer to a commit) is an argument of the attempt.  \<open>Dequeue\<close> is
  one step per turn of its loop, a turn without a task being the value \<open>WaitFor\<close>.  Goroutines of the
  scheduler take steps in any order, each from one program point to the next.  Errors are values of \<open>tg_error\<close>
  in a sum type; a dereference of nil and an impossible transition are such values too, and are
  shown not to occur where that matters.

  \<^bold>\<open>Parameters.\<close>  Arguments of the operations stand for what the run time supplies: the reading of the
  clock, the identifiers of \<open>ulid.Make\<close> (assumed fresh where that is used), the orders in which Go visits
  a map and in which SQL returns unordered rows (assumed to enumerate each key once), the context
  error, the random number of the back-off, the token bucket of \<open>x/time/rate\<close>, the texts of the
  database driver and the failures of the storage.  Results about all runs quantify over them.

  \<^bold>\<open>What is shown.\<close>

  \<^item> Dependencies: no task runs before its parents have ended well; no blocked task is forgotten or
    deadlocked (\<open>dependency_safety\<close>, \<open>blocked_counter_exact\<close>, \<open>blocked_has_live_ancestor\<close>).
  \<^item> Leases: one holder at a time, stale holders are fenced off, from the claim through the
    scheduler to the receipt (\<open>lease_exclusive\<close>, \<open>stale_token_fenced\<close>, \<open>lease_to_receipt\<close>, \<open>receipts_justified\<close>,
    \<open>sqlite_lease_to_receipt\<close>).
  \<^item> Tasks: life cycle, one unfinished execution per business key, every change announced, sleepers
    woken, and the contract of every operation.
  \<^item> Scheduler: concurrency limit, table of running tasks, quota before claim, shutdown, termination
    of the claim loop.
  \<^item> Sqlite: every call refines the in-memory broker (\<open>sqlite_refines_memory\<close>), so the tables inherit its
    invariant (\<open>sqlite_tables_consistent\<close>); failed calls change nothing (\<open>sqlite_all_or_nothing\<close>).
  \<^item> Database servers: undisturbed calls refine the in-memory broker (\<open>sql_refines_memory\<close>); with deadlocks, lost races,
    locked rows and lost answers the tables keep the invariant (\<open>sql_tables_consistent\<close>), and a call
    amounts to its last attempt (\<open>sql_retry_transparent\<close>).
  \<^item> Quotas never over-issue, on all back ends; configuration, options, back-off and limiter.

  \<^bold>\<open>Bounds.\<close>  No fuel is used but the number of attempts of the retry loop, which is the code's own bound
  \<open>MaxTxRetry\<close>: every loop terminates by a measure, and loops over channels are steps.
  Go's \<open>int\<close> counters and durations are integers; they are far from the 64-bit limits for any
  configuration that runs.  The refinement is stated for clocks after 1970 and lease times of whole
  milliseconds, because the tables store milliseconds and read 0 as an unset time.

  \<^bold>\<open>Not modelled.\<close>  The Redis back end (its state changes are Lua scripts run by the server), the text of
  SQL schemas and the upgrade of an old sqlite schema, parsing of durations, the asynchronous delivery of notifications after they are handed
  over, the clock wrappers, the conformance suite, and the examples.
\<close>

end
